(* ===== verification/Prelude.thy ===== *)
theory Prelude
  imports Main "HOL-Library.Word"
begin

text \<open>
  Shared vocabulary of the development: the machine integers of the C++ sources
  (\<^verbatim>\<open>uint8_t\<close> to \<^verbatim>\<open>uint64_t\<close>, \<^verbatim>\<open>uintptr_t\<close> and \<^verbatim>\<open>size_t\<close> are 64 bits wide on
  this target), the byte-addressed memory, and the generic facts on words and lists that
  the component theories use.
\<close>

unbundle bit_operations_syntax

type_synonym u8 = "8 word"
type_synonym u16 = "16 word"
type_synonym u32 = "32 word"
type_synonym u64 = "64 word"

text \<open>Kernel memory: one byte per 64-bit address, identity-mapped as the kernel uses it.\<close>

type_synonym mem = "u64 \<Rightarrow> u8"

named_theorems wordy \<open>reading 64-bit arithmetic as arithmetic on natural numbers\<close>

section \<open>Offsets from a base address\<close>

text \<open>The addresses \<open>b\<close>, \<open>b + 1\<close>, \dots, \<open>b + n - 1\<close> (modulo \<open>2^64\<close>).\<close>

definition in_range :: "u64 \<Rightarrow> nat \<Rightarrow> u64 \<Rightarrow> bool" where
  "in_range b n a \<longleftrightarrow> unat (a - b) < n"

lemma in_range_0 [simp]: "\<not> in_range b 0 a"
  by (simp add: in_range_def)

lemma unat_lt_2p64 [simp, intro]: "unat (a :: u64) < 18446744073709551616"
  using unsigned_less [of a] by simp

lemma unat_add_u64 [wordy]:
  "unat a + unat b < 18446744073709551616 \<Longrightarrow> unat (a + b :: u64) = unat a + unat b"
  by (simp add: unat_word_ariths)

lemma unat_diff_u64 [wordy]: "b \<le> a \<Longrightarrow> unat (a - b :: u64) = unat a - unat b"
  by (simp add: unat_sub)

lemma unat_of_nat_u64 [wordy]:
  "n < 18446744073709551616 \<Longrightarrow> unat (of_nat n :: u64) = n"
  by (simp add: unsigned_of_nat take_bit_nat_eq_self)

lemma unat_diff_wrap_u64:
  "unat (a - b :: u64)
     = (if unat b \<le> unat a then unat a - unat b
        else unat a + 18446744073709551616 - unat b)"
  by (simp add: unat_sub_if')

lemma in_range_shift:
  fixes a d :: u64
  assumes "k + n \<le> 18446744073709551616" and "k < 18446744073709551616"
  shows "in_range (d + of_nat k) n a \<longleftrightarrow> k \<le> unat (a - d) \<and> unat (a - d) < k + n"
proof -
  have "unat (a - (d + of_nat k)) = unat ((a - d) - of_nat k)"
    by (simp add: algebra_simps)
  also have "\<dots> = (if k \<le> unat (a - d) then unat (a - d) - k
                   else unat (a - d) + 18446744073709551616 - k)"
    using assms(2) by (simp only: unat_diff_wrap_u64 unat_of_nat_u64)
  finally show ?thesis
    using assms by (auto simp: in_range_def)
qed

section \<open>Low bits of an address\<close>

lemma and7_take_bit: "(x :: u64) AND 7 = take_bit 3 x"
  by (simp add: take_bit_eq_mask mask_eq_exp_minus_1)

lemma unat_and7 [wordy]: "unat (x AND 7 :: u64) = unat x mod 8"
  by (simp add: and7_take_bit take_bit_eq_mod unat_mod)

lemma unat_drop3 [wordy]: "unat (drop_bit 3 x :: u64) = unat x div 8"
  by (simp add: drop_bit_eq_div unat_div)

text \<open>Clearing some bits and keeping the others splits a word into two summands.\<close>

lemma unat_and_mask: "unat (x AND mask n :: u64) = unat x mod 2 ^ n"
proof -
  have "unat (x AND mask n) = take_bit n (unat x)"
    by (simp only: take_bit_eq_mask [symmetric] unsigned_take_bit_eq)
  then show ?thesis by (simp only: take_bit_eq_mod)
qed

lemma unat_and_fff [wordy]: "unat (x AND 0xFFF :: u64) = unat x mod 4096"
  using unat_and_mask [of x 12] by (simp add: mask_eq_exp_minus_1)

lemma unat_and_1fffff [wordy]: "unat (x AND 0x1FFFFF :: u64) = unat x mod 2097152"
  using unat_and_mask [of x 21] by (simp add: mask_eq_exp_minus_1)

lemma and_not_plus_and: "(x AND NOT b) + (x AND b) = (x :: 'a :: len word)"
proof -
  have "(x AND NOT b) AND (x AND b) = 0"
    by (rule bit_word_eqI) (auto simp: bit_simps)
  then have "(x AND NOT b) + (x AND b) = (x AND NOT b) OR (x AND b)"
    by (rule disjunctive_add_eq_or)
  also have "\<dots> = x"
    by (rule bit_word_eqI) (auto simp: bit_simps)
  finally show ?thesis .
qed

lemma unat_andnot7 [wordy]: "unat (x AND NOT 7 :: u64) = 8 * (unat x div 8)"
proof -
  have "x AND NOT 7 = x - (x AND 7)"
    using and_not_plus_and [of x 7] by (metis add_diff_cancel_right')
  moreover have "x AND 7 \<le> x"
    by (simp add: word_le_nat_alt unat_and7)
  ultimately show ?thesis
    by (simp add: unat_diff_u64 unat_and7 minus_mod_eq_mult_div)
qed

lemma unat_and_minus8 [wordy]: "unat (x AND - 8 :: u64) = 8 * (unat x div 8)"
  using unat_andnot7 [of x] by simp

lemma u8_bit_ge [simp]: "8 \<le> n \<Longrightarrow> \<not> bit (w :: u8) n"
  using bit_imp_le_length [of w n] by auto

lemma ucast_u8_u64_u8 [simp]: "(ucast (ucast (w :: u8) :: u64) :: u8) = w"
  by (rule bit_word_eqI) (simp add: bit_simps)

lemma of_nat_unat_eq: "unat (w :: u64) = n \<Longrightarrow> w = of_nat n"
  by (auto simp flip: word_unat_eq_iff)

lemma u64_less_Suc: "(x :: u64) \<noteq> - 1 \<Longrightarrow> x < x + 1"
proof -
  assume "x \<noteq> - 1"
  have "unat x < 18446744073709551615"
  proof (rule ccontr)
    assume "\<not> ?thesis"
    then have "unat x = 18446744073709551615" using unat_lt_2p64 [of x] by linarith
    then have "x = - 1" by (drule_tac of_nat_unat_eq) simp
    with \<open>x \<noteq> - 1\<close> show False ..
  qed
  then show ?thesis by (simp add: word_less_nat_alt unat_add_u64)
qed

lemma unat_ucast_u32 [simp]: "unat (ucast (x :: u32) :: u64) = unat x"
proof -
  have "unat x < 4294967296" using unsigned_less [of x] by simp
  then show ?thesis using take_bit_nat_eq_self [of "unat x" 64] by (simp add: unsigned_ucast_eq)
qed

lemma ucast_u32_eq_0 [simp]: "(ucast (x :: u32) :: u64) = 0 \<longleftrightarrow> x = 0"
  by (metis unat_0 unat_eq_0 unat_ucast_u32)

section \<open>Little-endian loads\<close>

definition le32 :: "u8 \<Rightarrow> u8 \<Rightarrow> u8 \<Rightarrow> u8 \<Rightarrow> u32" where
  "le32 a b c d = ucast a OR push_bit 8 (ucast b) OR push_bit 16 (ucast c) OR push_bit 24 (ucast d)"

lemma le32_bytes: "le32 (ucast w) (ucast (drop_bit 8 w)) (ucast (drop_bit 16 w)) (ucast (drop_bit 24 w)) = w"
proof (rule bit_word_eqI)
  fix n assume "n < LENGTH(32)"
  then have "n < 8 \<or> 8 \<le> n \<and> n < 16 \<or> 16 \<le> n \<and> n < 24 \<or> 24 \<le> n \<and> n < 32" by auto
  then show "bit (le32 (ucast w) (ucast (drop_bit 8 w)) (ucast (drop_bit 16 w)) (ucast (drop_bit 24 w))) n = bit w n"
    by (auto simp: le32_def bit_simps)
qed

definition read16 :: "mem \<Rightarrow> u64 \<Rightarrow> u16" where
  "read16 m a = ucast (m a) OR push_bit 8 (ucast (m (a + 1)))"

definition read32 :: "mem \<Rightarrow> u64 \<Rightarrow> u32" where
  "read32 m a = le32 (m a) (m (a + 1)) (m (a + 2)) (m (a + 3))"

definition read64 :: "mem \<Rightarrow> u64 \<Rightarrow> u64" where
  "read64 m a = ucast (read32 m a) OR push_bit 32 (ucast (read32 m (a + 4)))"

definition bytes32 :: "u32 \<Rightarrow> u8 list" where
  "bytes32 w = [ucast w, ucast (drop_bit 8 w), ucast (drop_bit 16 w), ucast (drop_bit 24 w)]"

text \<open>Memory holds the bytes from an address on.\<close>

definition holds :: "mem \<Rightarrow> u64 \<Rightarrow> u8 list \<Rightarrow> bool" where
  "holds m a bs \<longleftrightarrow> (\<forall>i < length bs. m (a + of_nat i) = bs ! i)"

lemma holds_append: "holds m a (xs @ ys) \<longleftrightarrow> holds m a xs \<and> holds m (a + of_nat (length xs)) ys"
proof -
  have "(\<forall>i < length xs + length ys. m (a + of_nat i) = (xs @ ys) ! i)
    \<longleftrightarrow> (\<forall>i < length xs. m (a + of_nat i) = xs ! i) \<and> (\<forall>i < length ys. m (a + of_nat (length xs + i)) = ys ! i)"
    (is "?l = ?r")
  proof
    assume ?l
    then show ?r by (auto simp: nth_append dest: spec [of _ "length xs + _"])
  next
    assume r: ?r
    show ?l
    proof (intro allI impI)
      fix i assume i: "i < length xs + length ys"
      show "m (a + of_nat i) = (xs @ ys) ! i"
      proof (cases "i < length xs")
        case True
        then show ?thesis using r by (simp add: nth_append)
      next
        case False
        then obtain j where "i = length xs + j" using le_Suc_ex not_less by blast
        then show ?thesis using r i by (simp add: nth_append)
      qed
    qed
  qed
  then show ?thesis by (simp add: holds_def add.assoc)
qed

lemma holds_Cons: "holds m a (x # xs) \<longleftrightarrow> m a = x \<and> holds m (a + 1) xs"
  using holds_append [of m a "[x]" xs] by (simp add: holds_def)

lemma holds_Nil [simp]: "holds m a []"
  by (simp add: holds_def)

lemma read32_holds: "holds m a (bytes32 w @ rest) \<Longrightarrow> read32 m a = w"
  by (simp add: read32_def bytes32_def holds_Cons add.assoc le32_bytes)

text \<open>Numbers of any width as little-endian bytes, and back; fields of a packed structure.\<close>

definition le :: "nat \<Rightarrow> u64 \<Rightarrow> u8 list" where
  "le n v = map (\<lambda>i. ucast (drop_bit (8 * i) v)) [0..<n]"

fun un_le :: "u8 list \<Rightarrow> u64" where
  "un_le [] = 0"
| "un_le (b # bs) = ucast b OR push_bit 8 (un_le bs)"

definition fld :: "nat \<Rightarrow> nat \<Rightarrow> u8 list \<Rightarrow> u64" where
  "fld k n bs = un_le (take n (drop k bs))"

lemma length_le [simp]: "length (le n v) = n"
  by (simp add: le_def)

lemma le_0 [simp]: "le 0 v = []"
  by (simp add: le_def)

lemma le_Suc: "le (Suc n) v = ucast v # le n (drop_bit 8 v)"
proof (rule nth_equalityI)
  fix i assume "i < length (le (Suc n) v)"
  then show "le (Suc n) v ! i = (ucast v # le n (drop_bit 8 v)) ! i"
    by (cases i) (simp_all add: le_def add.commute del: upt_Suc)
qed simp

lemma ucast_u8_join: "ucast (ucast v :: u8) OR push_bit 8 (take_bit n (drop_bit 8 v)) = take_bit (8 + n) (v :: u64)"
  by (rule bit_word_eqI) (auto simp: bit_simps)

lemma un_le_le [simp]: "un_le (le n v) = take_bit (8 * n) v"
proof (induction n arbitrary: v)
  case (Suc n)
  then show ?case using ucast_u8_join [of v "8 * n"] by (simp add: le_Suc)
qed simp

lemma un_le_bit: "bit (un_le bs) k \<Longrightarrow> k < 8 * length bs"
proof (induction bs arbitrary: k)
  case (Cons b bs)
  show ?case
  proof (cases "k < 8")
    case False
    then have "bit (un_le bs) (k - 8)" using Cons.prems by (auto simp: bit_simps)
    then show ?thesis using Cons.IH [of "k - 8"] False by simp
  qed simp
qed simp

lemma le_un_le [simp]: "length bs = n \<Longrightarrow> n \<le> 8 \<Longrightarrow> le n (un_le bs) = bs"
proof (induction bs arbitrary: n)
  case (Cons b bs)
  have "ucast (ucast b OR push_bit 8 (un_le bs)) = b"
    by (rule bit_word_eqI) (auto simp: bit_simps)
  moreover have "drop_bit 8 (ucast b OR push_bit 8 (un_le bs)) = un_le bs"
  proof (rule bit_word_eqI)
    fix k assume k: "k < LENGTH(64)"
    show "bit (drop_bit 8 (ucast b OR push_bit 8 (un_le bs))) k = bit (un_le bs) k"
      using un_le_bit [of bs k] Cons.prems k by (auto simp: bit_simps)
  qed
  ultimately show ?case using Cons by (auto simp: le_Suc)
qed simp

text \<open>The low byte.\<close>

lemma bit_255: "bit (255 :: int) n \<longleftrightarrow> n < 8"
  using bit_mask_iff [where 'a = int, of 8 n] by (auto simp: mask_eq_exp_minus_1)

lemma ucast_and_ff [simp]: "(ucast (x AND 0xFF :: u64) :: u8) = ucast x"
  by (rule bit_word_eqI) (auto simp: bit_simps bit_255)

end
