(* ===== verification/Memop.thy ===== *)
theory Memop
  imports Prelude
begin

text \<open>
  \<^verbatim>\<open>src/memop/memop.cpp\<close>: \<^verbatim>\<open>Memory::copy\<close>, \<^verbatim>\<open>fill\<close>, \<^verbatim>\<open>zero\<close> and their
  quadword variants, aliased as \<^verbatim>\<open>memcpy\<close>, \<^verbatim>\<open>memmove\<close>, \<^verbatim>\<open>memset\<close> and \<^verbatim>\<open>bzero\<close>.
  The inline assembly is modelled by the string instructions it uses, with the direction flag as
  part of the machine state, and compared with the simultaneous move of a region.
\<close>

section \<open>String instructions\<close>

text \<open>
  One \<^verbatim>\<open>movs\<close> of \<open>k\<close> bytes reads all of them before it writes; so the same function, at the size
  of a whole region, is also the specification of \<^verbatim>\<open>memmove\<close>. The \<^verbatim>\<open>rep\<close> prefix repeats it
  \<^verbatim>\<open>rcx\<close> times, upwards or, when the direction flag is set, downwards.
\<close>

definition movs :: "nat \<Rightarrow> u64 \<Rightarrow> u64 \<Rightarrow> mem \<Rightarrow> mem" where
  "movs k rsi rdi m = (\<lambda>a. if in_range rdi k a then m (rsi + (a - rdi)) else m a)"

fun rep_movs :: "nat \<Rightarrow> bool \<Rightarrow> nat \<Rightarrow> u64 \<Rightarrow> u64 \<Rightarrow> mem \<Rightarrow> mem" where
  "rep_movs k df 0 rsi rdi m = m"
| "rep_movs k df (Suc rcx) rsi rdi m =
     rep_movs k df rcx
       (if df then rsi - of_nat k else rsi + of_nat k)
       (if df then rdi - of_nat k else rdi + of_nat k)
       (movs k rsi rdi m)"

definition stos :: "nat \<Rightarrow> u64 \<Rightarrow> u64 \<Rightarrow> mem \<Rightarrow> mem" where
  "stos k rax rdi m =
     (\<lambda>a. if in_range rdi k a then ucast (drop_bit (8 * unat (a - rdi)) rax) else m a)"

fun rep_stos :: "nat \<Rightarrow> nat \<Rightarrow> u64 \<Rightarrow> u64 \<Rightarrow> mem \<Rightarrow> mem" where
  "rep_stos k 0 rax rdi m = m"
| "rep_stos k (Suc rcx) rax rdi m = rep_stos k rcx rax (rdi + of_nat k) (stos k rax rdi m)"

lemma movs_0 [simp]: "movs 0 s d m = m"
  by (simp add: movs_def)

lemma movs_forward:
  fixes s d :: u64
  assumes le: "d \<le> s" and top: "unat s + (k + n) \<le> 18446744073709551616"
    and k: "k < 18446744073709551616"
  shows "movs n (s + of_nat k) (d + of_nat k) (movs k s d m) = movs (k + n) s d m"
proof (rule ext)
  fix a
  let ?x = "unat (a - d)"
  have shift: "in_range (d + of_nat k) n a \<longleftrightarrow> k \<le> ?x \<and> ?x < k + n"
    using top k by (intro in_range_shift) simp_all
  have src: "s + of_nat k + (a - (d + of_nat k)) = s + (a - d)" by simp
  show "movs n (s + of_nat k) (d + of_nat k) (movs k s d m) a = movs (k + n) s d m a"
  proof (cases "k \<le> ?x \<and> ?x < k + n")
    case True
    have sum: "unat (s - d) + ?x < 18446744073709551616"
      using True top unat_diff_u64 [OF le] by linarith
    have "s + (a - d) - d = (s - d) + (a - d)" by simp
    then have "unat (s + (a - d) - d) = unat (s - d) + ?x"
      by (simp only: unat_add_u64 [OF sum])
    then have "\<not> in_range d k (s + (a - d))"
      using True by (simp add: in_range_def)
    with True show ?thesis
      unfolding movs_def shift src by (simp add: in_range_def)
  next
    case False
    then show ?thesis
      unfolding movs_def shift src by (auto simp: in_range_def)
  qed
qed

lemma movs_backward:
  fixes s d :: u64
  assumes le: "s \<le> d" and top: "unat d + (n + k) \<le> 18446744073709551616"
    and n: "n < 18446744073709551616"
  shows "movs n s d (movs k (s + of_nat n) (d + of_nat n) m) = movs (n + k) s d m"
proof (rule ext)
  fix a
  let ?x = "unat (a - d)"
  have shift: "in_range (d + of_nat n) k a' \<longleftrightarrow> n \<le> unat (a' - d) \<and> unat (a' - d) < n + k" for a'
    using top n by (intro in_range_shift) simp_all
  have src: "s + of_nat n + (a' - (d + of_nat n)) = s + (a' - d)" for a' by simp
  show "movs n s d (movs k (s + of_nat n) (d + of_nat n) m) a = movs (n + k) s d m a"
  proof (cases "?x < n")
    case True
    have "unat (s + (a - d) - d) < n \<or> n + k \<le> unat (s + (a - d) - d)"
    proof (cases "unat (d - s) \<le> ?x")
      case True
      have "s + (a - d) - d = (a - d) - (d - s)" by simp
      then have "unat (s + (a - d) - d) = ?x - unat (d - s)"
        using True by (simp only: unat_diff_wrap_u64 if_True)
      with \<open>?x < n\<close> show ?thesis by linarith
    next
      case False
      have "s + (a - d) - d = (a - d) - (d - s)" by simp
      then have "unat (s + (a - d) - d) = ?x + 18446744073709551616 - unat (d - s)"
        using False by (simp only: unat_diff_wrap_u64 if_False)
      then show ?thesis
        using unat_diff_u64 [OF le] top by linarith
    qed
    with True show ?thesis
      unfolding movs_def shift src by (auto simp: in_range_def)
  next
    case False
    then show ?thesis
      unfolding movs_def shift src by (auto simp: in_range_def)
  qed
qed

lemma rep_movs_forward:
  fixes s d :: u64
  assumes "d \<le> s" and "unat s + n * k \<le> 18446744073709551616" and "0 < k" "k < 18446744073709551616"
  shows "rep_movs k False n s d m = movs (n * k) s d m"
  using assms
proof (induction n arbitrary: s d m)
  case 0
  then show ?case by simp
next
  case (Suc n)
  show ?case
  proof (cases n)
    case 0
    then show ?thesis by simp
  next
    case (Suc n')
    have us: "unat (s + of_nat k) = unat s + k"
      using Suc.prems Suc by (simp add: wordy)
    have ud: "unat (d + of_nat k) = unat d + k"
      using Suc.prems Suc by (simp add: wordy word_le_nat_alt)
    have "rep_movs k False n (s + of_nat k) (d + of_nat k) (movs k s d m)
        = movs (n * k) (s + of_nat k) (d + of_nat k) (movs k s d m)"
      using Suc.prems us ud by (intro Suc.IH) (simp_all add: word_le_nat_alt)
    also have "\<dots> = movs (k + n * k) s d m"
      using Suc.prems by (intro movs_forward) simp_all
    finally show ?thesis by simp
  qed
qed

lemma rep_movs_backward:
  fixes s d :: u64
  assumes "s \<le> d" and "unat d + n * k \<le> 18446744073709551616" and "0 < k" "k < 18446744073709551616"
  shows "rep_movs k True n (s + of_nat (n * k) - of_nat k) (d + of_nat (n * k) - of_nat k) m
           = movs (n * k) s d m"
  using assms
proof (induction n arbitrary: m)
  case 0
  then show ?case by simp
next
  case (Suc n)
  have "n * k < 18446744073709551616"
    using Suc.prems by simp
  with Suc.prems have "movs (n * k) s d (movs k (s + of_nat (n * k)) (d + of_nat (n * k)) m)
      = movs (n * k + k) s d m"
    by (intro movs_backward) simp_all
  with Suc show ?case by (simp add: algebra_simps)
qed


section \<open>The operations of memop.cpp\<close>

record machine =
  memory :: mem
  DF :: bool

definition copy_aligned :: "u64 \<Rightarrow> u64 \<Rightarrow> u64 \<Rightarrow> machine \<Rightarrow> machine" where
  "copy_aligned dest src count \<sigma> =
     (let rcx = drop_bit 3 count
      in if dest \<le> src
         then \<sigma>\<lparr>memory := rep_movs 8 False (unat rcx) src dest (memory \<sigma>), DF := False\<rparr>
         else \<sigma>\<lparr>memory := rep_movs 8 True (unat rcx) (src + 8 * rcx - 8) (dest + 8 * rcx - 8) (memory \<sigma>),
                DF := True\<rparr>)"

definition copy_bytes :: "u64 \<Rightarrow> u64 \<Rightarrow> u64 \<Rightarrow> machine \<Rightarrow> machine" where
  "copy_bytes dest src count \<sigma> =
     (if dest \<le> src
      then \<sigma>\<lparr>memory := rep_movs 1 False (unat count) src dest (memory \<sigma>), DF := False\<rparr>
      else \<sigma>\<lparr>memory := rep_movs 1 True (unat count) (src + count - 1) (dest + count - 1) (memory \<sigma>),
             DF := True\<rparr>)"

definition copy :: "u64 \<Rightarrow> u64 \<Rightarrow> u64 \<Rightarrow> machine \<Rightarrow> machine" where
  "copy dest src count \<sigma> =
     (if dest = src then \<sigma>
      else if dest AND 7 = 0 \<and> src AND 7 = 0 \<and> (dest + count \<le> src \<or> src + count \<le> dest)
      then
        (let aligned_size = count AND NOT 7;
             \<sigma>' = copy_aligned dest src aligned_size \<sigma>;
             rest = count AND 7
         in if rest = 0 then \<sigma>'
            else copy_bytes (dest + aligned_size) (src + aligned_size) rest \<sigma>')
      else copy_bytes dest src count \<sigma>)"

definition zero_aligned :: "u64 \<Rightarrow> u64 \<Rightarrow> machine \<Rightarrow> machine" where
  "zero_aligned addr len \<sigma> =
     \<sigma>\<lparr>memory := rep_stos 8 (unat (drop_bit 3 len)) 0 addr (memory \<sigma>), DF := False\<rparr>"

definition spread :: "u8 \<Rightarrow> u64" where
  "spread value =
     (let v64 = ucast value;
          v64 = v64 OR push_bit 8 v64;
          v64 = v64 OR push_bit 16 v64;
          v64 = v64 OR push_bit 32 v64
      in v64)"

definition fill_aligned :: "u64 \<Rightarrow> u8 \<Rightarrow> u64 \<Rightarrow> machine \<Rightarrow> machine" where
  "fill_aligned addr value len \<sigma> =
     \<sigma>\<lparr>memory := rep_stos 8 (unat (drop_bit 3 len)) (spread value) addr (memory \<sigma>),
       DF := False\<rparr>"

definition fill :: "u64 \<Rightarrow> u8 \<Rightarrow> u64 \<Rightarrow> machine \<Rightarrow> machine" where
  "fill addr value len \<sigma> =
     (if addr AND 7 = 0 \<and> len AND 7 = 0 then fill_aligned addr value len \<sigma>
      else \<sigma>\<lparr>memory := rep_stos 1 (unat len) (ucast value) addr (memory \<sigma>), DF := False\<rparr>)"

definition zero :: "u64 \<Rightarrow> u64 \<Rightarrow> machine \<Rightarrow> machine" where
  "zero addr len \<sigma> =
     (if addr AND 7 = 0 \<and> len AND 7 = 0 then zero_aligned addr len \<sigma> else fill addr 0 len \<sigma>)"

section \<open>Copying\<close>

lemma copy_aligned_movs:
  assumes "unat dest + unat count \<le> 18446744073709551616"
    and "unat src + unat count \<le> 18446744073709551616"
  shows "memory (copy_aligned dest src count \<sigma>) = movs (8 * (unat count div 8)) src dest (memory \<sigma>)"
proof -
  let ?n = "unat count div 8"
  have bound: "?n * 8 \<le> unat count" by simp
  have rcx: "8 * drop_bit 3 count = (of_nat (?n * 8) :: u64)"
    by (simp flip: unat_drop3)
  show ?thesis
  proof (cases "dest \<le> src")
    case True
    have "unat src + ?n * 8 \<le> 18446744073709551616"
      using assms(2) bound by linarith
    then show ?thesis
      using True rep_movs_forward [of dest src ?n 8 "memory \<sigma>"]
      by (simp add: copy_aligned_def Let_def unat_drop3 mult.commute)
  next
    case False
    have "unat dest + ?n * 8 \<le> 18446744073709551616"
      using assms(1) bound by linarith
    then have "rep_movs 8 True ?n (src + of_nat (?n * 8) - of_nat 8) (dest + of_nat (?n * 8) - of_nat 8)
        (memory \<sigma>) = movs (?n * 8) src dest (memory \<sigma>)"
      using False by (intro rep_movs_backward) simp_all
    then show ?thesis
      using False unfolding copy_aligned_def Let_def rcx
      by (simp add: unat_drop3 mult.commute)
  qed
qed

lemma copy_bytes_movs:
  assumes "unat dest + unat count \<le> 18446744073709551616"
    and "unat src + unat count \<le> 18446744073709551616"
  shows "memory (copy_bytes dest src count \<sigma>) = movs (unat count) src dest (memory \<sigma>)"
proof (cases "dest \<le> src")
  case True
  then show ?thesis
    using assms rep_movs_forward [of dest src "unat count" 1 "memory \<sigma>"]
    by (simp add: copy_bytes_def)
next
  case False
  then show ?thesis
    using assms rep_movs_backward [of src dest "unat count" 1 "memory \<sigma>"]
    by (simp add: copy_bytes_def)
qed

text \<open>Two disjoint moves, one after the other, are one move.\<close>

lemma movs_disjoint_append:
  fixes s d :: u64
  assumes top: "unat d + (n + k) < 18446744073709551616" "unat s + (n + k) < 18446744073709551616"
    and sep: "unat d + (n + k) \<le> unat s \<or> unat s + (n + k) \<le> unat d"
  shows "movs k (s + of_nat n) (d + of_nat n) (movs n s d m) = movs (n + k) s d m"
proof (rule ext)
  fix a
  let ?x = "unat (a - d)"
  have shift: "in_range (d + of_nat n) k a \<longleftrightarrow> n \<le> ?x \<and> ?x < n + k"
    using top by (intro in_range_shift) simp_all
  have src: "s + of_nat n + (a - (d + of_nat n)) = s + (a - d)" by simp
  have "\<not> in_range d n (s + (a - d))" if "?x < n + k"
  proof -
    have "unat (s + (a - d)) = unat s + ?x"
      using that top by (intro unat_add_u64) simp
    then show ?thesis
      using sep top that unfolding in_range_def
      by (simp only: unat_diff_wrap_u64) (auto split: if_splits)
  qed
  then show "movs k (s + of_nat n) (d + of_nat n) (movs n s d m) a = movs (n + k) s d m a"
    unfolding movs_def shift src by (auto simp: in_range_def)
qed

lemma movs_self [simp]: "movs n d d m = m"
  by (simp add: movs_def fun_eq_iff)

text \<open>The quadword part followed by the remaining bytes, on regions that do not overlap.\<close>

lemma copy_aligned_then_bytes:
  fixes dest src count :: u64 and \<sigma> :: machine
  defines "al \<equiv> count AND NOT 7"
  assumes top: "unat dest + unat count < 18446744073709551616"
      "unat src + unat count < 18446744073709551616"
    and sep: "unat dest + unat count \<le> unat src \<or> unat src + unat count \<le> unat dest"
  shows "memory (copy_bytes (dest + al) (src + al) (count AND 7) (copy_aligned dest src al \<sigma>))
           = movs (unat count) src dest (memory \<sigma>)"
proof -
  let ?n = "8 * (unat count div 8)" and ?k = "unat count mod 8"
  have split: "?n + ?k = unat count" by simp
  have ual: "unat al = ?n" by (simp only: al_def unat_andnot7)
  have al: "al = of_nat ?n" by (rule of_nat_unat_eq [OF ual])
  have m1: "memory (copy_aligned dest src al \<sigma>) = movs ?n src dest (memory \<sigma>)"
    using top by (subst copy_aligned_movs) (simp_all add: ual)
  have "unat (dest + al) = unat dest + ?n" "unat (src + al) = unat src + ?n"
    using top by (simp_all add: unat_add_u64 ual)
  then have "memory (copy_bytes (dest + al) (src + al) (count AND 7) (copy_aligned dest src al \<sigma>))
      = movs ?k (src + al) (dest + al) (movs ?n src dest (memory \<sigma>))"
    using top by (subst copy_bytes_movs) (simp_all add: unat_and7 m1)
  also have "\<dots> = movs (?n + ?k) src dest (memory \<sigma>)"
    unfolding al using top sep by (intro movs_disjoint_append) simp_all
  finally show ?thesis unfolding split .
qed

lemma copy_bytes_DF [simp]: "DF (copy_bytes dest src count \<sigma>) = (src < dest)"
  by (auto simp: copy_bytes_def)

lemma copy_aligned_DF [simp]: "DF (copy_aligned dest src count \<sigma>) = (src < dest)"
  by (auto simp: copy_aligned_def Let_def)

lemma copy_movs:
  assumes top: "unat dest + unat count < 18446744073709551616"
      "unat src + unat count < 18446744073709551616"
  shows "memory (copy dest src count \<sigma>) = movs (unat count) src dest (memory \<sigma>)"
proof -
  let ?al = "count AND NOT 7"
  let ?fast = "dest AND 7 = 0 \<and> src AND 7 = 0 \<and> (dest + count \<le> src \<or> src + count \<le> dest)"
  consider "dest = src" | (quad) "dest \<noteq> src" ?fast "count AND 7 = 0"
    | (rest) "dest \<noteq> src" ?fast "count AND 7 \<noteq> 0" | (slow) "dest \<noteq> src" "\<not> ?fast"
    by blast
  then show ?thesis
  proof cases
    case quad
    then have "unat count mod 8 = 0" by (metis unat_and7 unat_0)
    then have "8 * (unat count div 8) = unat count"
      using mult_div_mod_eq [of 8 "unat count"] by linarith
    with quad top show ?thesis
      by (simp add: copy_def copy_aligned_movs unat_and_minus8)
  next
    case rest
    then have "unat dest + unat count \<le> unat src \<or> unat src + unat count \<le> unat dest"
      using top by (simp add: word_le_nat_alt unat_add_u64)
    from copy_aligned_then_bytes [OF top this] rest show ?thesis
      by (simp add: copy_def Let_def)
  next
    case slow
    with top copy_bytes_movs [of dest count src \<sigma>] show ?thesis
      by (auto simp: copy_def)
  qed (simp add: copy_def)
qed

text \<open>
  C5: Memory::copy moves the source region as it was before the call to the destination and
  changes no other byte, whether the regions overlap or not and on each of its paths
  (quadwords forwards or backwards, a rest of single bytes, single bytes only), for regions
  that do not wrap around the end of the address space.
\<close>

theorem copy_is_memmove:
  assumes "unat dest + unat count < 18446744073709551616"
      "unat src + unat count < 18446744073709551616"
  shows "memory (copy dest src count \<sigma>) = movs (unat count) src dest (memory \<sigma>)"
  using assms by (rule copy_movs)

theorem copy_is_memmove_witness:
  "let m = memory (copy 0x1008 0x1000 24 \<lparr>memory = (\<lambda>a. ucast a), DF = False\<rparr>)
   in m 0x1007 = 0x07 \<and> m 0x1008 = 0x00 \<and> m 0x101F = 0x17 \<and> m 0x1020 = 0x20"
  by (simp add: copy_is_memmove movs_def in_range_def Let_def unsigned_minus_1_eq_mask mask_eq_exp_minus_1)

text \<open>
  After Memory::copy the direction flag is set exactly when the copy ran downwards (the
  destination lies above the source), and unchanged when both are equal: the code never clears
  it again.
\<close>

theorem copy_direction_flag:
  assumes top: "unat dest + unat count < 18446744073709551616"
      "unat src + unat count < 18446744073709551616"
  shows "DF (copy dest src count \<sigma>) = (if dest = src then DF \<sigma> else src < dest)"
proof -
  have "src + (count AND NOT 7) < dest + (count AND NOT 7) \<longleftrightarrow> src < dest"
  proof -
    have "unat (count AND NOT 7) \<le> unat count" by (simp only: unat_andnot7)
    then show ?thesis
      using top unat_add_u64 [of src "count AND NOT 7"] unat_add_u64 [of dest "count AND NOT 7"]
      by (simp add: word_less_nat_alt)
  qed
  then show ?thesis by (simp add: copy_def Let_def)
qed

theorem copy_direction_flag_witness:
  "DF (copy 0x2000 0x1000 5 \<lparr>memory = (\<lambda>_. 0), DF = False\<rparr>)"
  by (simp add: copy_direction_flag)

section \<open>Filling\<close>

definition filled :: "nat \<Rightarrow> u8 \<Rightarrow> u64 \<Rightarrow> mem \<Rightarrow> mem" where
  "filled n v d m = (\<lambda>a. if in_range d n a then v else m a)"

lemma spread_bit: "r < 8 \<Longrightarrow> q < 8 \<Longrightarrow> bit (spread v) (8 * q + r) \<longleftrightarrow> bit v r"
proof -
  assume r: "r < 8" and "q < 8"
  then consider "q = 0" | "q = 1" | "q = 2" | "q = 3" | "q = 4" | "q = 5" | "q = 6" | "q = 7"
    by linarith
  then show ?thesis
    by cases (use r in \<open>simp_all add: spread_def Let_def bit_simps\<close>)
qed

lemma spread_byte: "j < 8 \<Longrightarrow> ucast (drop_bit (8 * j) (spread v)) = v"
  by (rule bit_word_eqI) (simp add: bit_simps spread_bit)

lemma rep_stos_filled:
  fixes d :: u64
  assumes "\<forall>j < k. ucast (drop_bit (8 * j) rax) = v" and "n * k \<le> 18446744073709551616"
    and "k < 18446744073709551616"
  shows "rep_stos k n rax d m = filled (n * k) v d m"
  using assms
proof (induction n arbitrary: d m)
  case 0
  then show ?case by (simp add: filled_def)
next
  case (Suc n)
  have "rep_stos k n rax (d + of_nat k) (stos k rax d m)
      = filled (n * k) v (d + of_nat k) (stos k rax d m)"
    using Suc.prems by (intro Suc.IH) simp_all
  also have "\<dots> = filled (k + n * k) v d m"
  proof (rule ext)
    fix a
    have "in_range (d + of_nat k) (n * k) a \<longleftrightarrow> k \<le> unat (a - d) \<and> unat (a - d) < k + n * k"
      using Suc.prems by (intro in_range_shift) simp_all
    then show "filled (n * k) v (d + of_nat k) (stos k rax d m) a = filled (k + n * k) v d m a"
      using Suc.prems(1) by (auto simp: filled_def stos_def) (auto simp: in_range_def)
  qed
  finally show ?case by simp
qed

lemma fill_aligned_filled:
  assumes "len AND 7 = 0"
  shows "memory (fill_aligned addr value len \<sigma>) = filled (unat len) value addr (memory \<sigma>)"
proof -
  have "unat len mod 8 = 0"
    using assms by (metis unat_and7 unat_0)
  then have sz: "unat len div 8 * 8 = unat len"
    using div_mult_mod_eq [of "unat len" 8] by linarith
  have "unat len div 8 * 8 \<le> 18446744073709551616"
    unfolding sz using unat_lt_2p64 [of len] by linarith
  then have "rep_stos 8 (unat len div 8) (spread value) addr (memory \<sigma>)
      = filled (unat len div 8 * 8) value addr (memory \<sigma>)"
    by (intro rep_stos_filled) (simp_all add: spread_byte)
  then show ?thesis by (simp add: fill_aligned_def unat_drop3 sz)
qed

lemma zero_aligned_fill: "zero_aligned addr len \<sigma> = fill_aligned addr 0 len \<sigma>"
  by (simp add: zero_aligned_def fill_aligned_def spread_def)

lemma fill_memory: "memory (fill addr value len \<sigma>) = filled (unat len) value addr (memory \<sigma>)"
proof (cases "addr AND 7 = 0 \<and> len AND 7 = 0")
  case True
  then show ?thesis by (simp add: fill_def fill_aligned_filled)
next
  case False
  have "unat len * 1 \<le> 18446744073709551616"
    using unat_lt_2p64 [of len] by linarith
  then have "rep_stos 1 (unat len) (ucast value) addr (memory \<sigma>) = filled (unat len * 1) value addr (memory \<sigma>)"
    by (intro rep_stos_filled) simp_all
  with False show ?thesis by (auto simp: fill_def)
qed

text \<open>
  Memory::fill stores the value, and Memory::zero zero, in every byte of the region and change
  no other byte, on the quadword path and on the byte path, for every address and size.
\<close>

theorem fill_filled:
  "memory (fill addr value len \<sigma>) = filled (unat len) value addr (memory \<sigma>)
   \<and> memory (zero addr len \<sigma>) = filled (unat len) 0 addr (memory \<sigma>)"
  by (simp add: zero_def zero_aligned_fill fill_aligned_filled fill_memory)

end
