(* ===== verification/Mutex.thy ===== *)
theory Mutex
  imports Prelude
begin

text \<open>
  \<^verbatim>\<open>src/lock/include/mutex.hpp\<close>: the interrupt-disabling critical section, the spin lock
  \<^verbatim>\<open>Mutex\<close> and the reader-writer lock \<^verbatim>\<open>RWMutex\<close>.
  Any number of CPUs run the lock code; a step is one CPU executing one memory access, so every
  interleaving of the accesses is a run. An access with the \<^verbatim>\<open>lock\<close> prefix is one step; a
  plain read-modify-write (the bit-field stores and the \<^verbatim>\<open>btcw\<close> of \<^verbatim>\<open>srelease\<close>) is two.
\<close>

section \<open>The contract of a lock\<close>

text \<open>
  What a user of a lock relies on: in every state the lock code can reach, at most one CPU is
  inside an exclusive section. A provider shows it by an inductive invariant.
\<close>

locale exclusive_lock =
  fixes start :: "'s" and step :: "'s \<Rightarrow> 's \<Rightarrow> bool"
    and inv :: "'s \<Rightarrow> bool" and inside :: "nat \<Rightarrow> 's \<Rightarrow> bool"
  assumes inv_start: "inv start"
    and inv_step: "step s t \<Longrightarrow> inv s \<Longrightarrow> inv t"
    and inv_exclusive: "inv s \<Longrightarrow> inside i s \<Longrightarrow> inside j s \<Longrightarrow> i = j"
begin

lemma reachable_inv: "step\<^sup>*\<^sup>* start s \<Longrightarrow> inv s"
  by (induction rule: rtranclp_induct) (auto intro: inv_start inv_step)

lemma reachable_exclusive:
  "step\<^sup>*\<^sup>* start s \<Longrightarrow> inside i s \<Longrightarrow> inside j s \<Longrightarrow> i = j"
  by (blast intro: inv_exclusive reachable_inv)

end

text \<open>A reader-writer lock promises more: a CPU inside excludes every reader too.\<close>

locale shared_lock = exclusive_lock +
  fixes reading :: "nat \<Rightarrow> 'a \<Rightarrow> bool"
  assumes inv_no_reader: "inv s \<Longrightarrow> inside i s \<Longrightarrow> \<not> reading j s"
begin

lemma reachable_no_reader: "step\<^sup>*\<^sup>* start s \<Longrightarrow> inside i s \<Longrightarrow> \<not> reading j s"
  using inv_no_reader [OF reachable_inv] .

end

text \<open>
  The proofs below account for tokens: the CPUs whose program counter owns a token, and a flag
  that is set exactly when one CPU owns it.
\<close>

definition owners :: "('p \<Rightarrow> bool) \<Rightarrow> (nat \<Rightarrow> 'p) \<Rightarrow> nat set" where
  "owners P f = {i. P (f i)}"

definition guards :: "bool \<Rightarrow> nat set \<Rightarrow> bool" where
  "guards b S \<longleftrightarrow> (b \<longleftrightarrow> S \<noteq> {}) \<and> (\<forall>i \<in> S. \<forall>j \<in> S. i = j)"

lemma owners_upd:
  "owners P (f(i := p)) = (if P p then insert i (owners P f) else owners P f - {i})"
  by (auto simp: owners_def)

lemma owners_keep: "P p = P (f i) \<Longrightarrow> owners P (f(i := p)) = owners P f"
  by (auto simp: owners_def)

lemma owners_gain:
  "guards False (owners P f) \<Longrightarrow> P p \<Longrightarrow> guards True (owners P (f(i := p)))"
  by (simp add: guards_def owners_upd)

lemma owners_lose:
  "guards b (owners P f) \<Longrightarrow> P (f i) \<Longrightarrow> \<not> P p \<Longrightarrow> guards False (owners P (f(i := p)))"
  by (auto simp: guards_def owners_def)

lemma owners_flag: "guards b (owners P f) \<Longrightarrow> P (f i) \<Longrightarrow> b"
  by (auto simp: guards_def owners_def)

lemma owners_unique: "guards b (owners P f) \<Longrightarrow> P (f i) \<Longrightarrow> P (f j) \<Longrightarrow> i = j"
  by (auto simp: guards_def owners_def)

section \<open>CriticalSection\<close>

text \<open>
  \<^verbatim>\<open>enter\<close> pushes the flags register, clears the interrupt flag (bit 9) with \<^verbatim>\<open>cli\<close> and
  returns the pushed value; \<^verbatim>\<open>leave\<close> pops its argument back into the register.
  Both return the pair of the value handed to the caller and the new flags register.
\<close>

definition enter :: "u64 \<Rightarrow> u64 \<times> u64" where
  "enter rflags = (rflags, rflags AND NOT 0x200)"

definition leave :: "u64 \<Rightarrow> u64 \<Rightarrow> u64" where
  "leave saved rflags = saved"

section \<open>Mutex\<close>

text \<open>
  The object is a one-byte \<^verbatim>\<open>bool\<close>, but every instruction on it is word-sized
  (\<^verbatim>\<open>testw\<close>, \<^verbatim>\<open>btsw\<close>, \<^verbatim>\<open>movw\<close>): the cell below is the 16-bit word at its address, the
  lock byte and the byte after it.
\<close>

datatype mutex_pc = Outside | Testing | Setting | Holding

record mutex_sys =
  cell :: u16
  mpc :: "nat \<Rightarrow> mutex_pc"

definition mutex_init :: "u8 \<Rightarrow> mutex_sys" where
  "mutex_init next_byte = \<lparr>cell = push_bit 8 (ucast next_byte), mpc = (\<lambda>_. Outside)\<rparr>"

text \<open>\<^verbatim>\<open>lock btsw $0, cell\<close>: the carry flag is the old bit, the new word has the bit set.\<close>

definition btsw0 :: "u16 \<Rightarrow> bool \<times> u16" where
  "btsw0 c = (bit c 0, c OR 1)"

definition movw0 :: "u16 \<Rightarrow> u16" where
  "movw0 c = 0"

inductive mutex_local :: "u16 \<Rightarrow> mutex_pc \<Rightarrow> u16 \<Rightarrow> mutex_pc \<Rightarrow> bool" where
  lock_call: "mutex_local c Outside c Testing"
| lock_busy: "c AND 1 \<noteq> 0 \<Longrightarrow> mutex_local c Testing c Testing"
| lock_free: "c AND 1 = 0 \<Longrightarrow> mutex_local c Testing c Setting"
| lock_lost: "btsw0 c = (True, c') \<Longrightarrow> mutex_local c Setting c' Testing"
| lock_won: "btsw0 c = (False, c') \<Longrightarrow> mutex_local c Setting c' Holding"
| try_lost: "btsw0 c = (True, c') \<Longrightarrow> mutex_local c Outside c' Outside"
| try_won: "btsw0 c = (False, c') \<Longrightarrow> mutex_local c Outside c' Holding"
| release: "mutex_local c Holding (movw0 c) Outside"

definition mutex_step :: "mutex_sys \<Rightarrow> mutex_sys \<Rightarrow> bool" where
  "mutex_step s t \<longleftrightarrow>
     (\<exists>i c p. mutex_local (cell s) (mpc s i) c p \<and> t = \<lparr>cell = c, mpc = (mpc s)(i := p)\<rparr>)"

definition mutex_inv :: "mutex_sys \<Rightarrow> bool" where
  "mutex_inv s \<longleftrightarrow> guards (bit (cell s) 0) (owners (\<lambda>p. p = Holding) (mpc s))"

section \<open>RWMutex\<close>

text \<open>The union of a raw word and the bit fields \<^verbatim>\<open>slock:1, wlock:1, rcnt:62\<close>.\<close>

record rwstate =
  slock :: bool
  wlock :: bool
  rcnt :: "62 word"

text \<open>
  What a CPU is doing: between calls it is idle or holds the lock as a writer or a reader; the four
  public operations run \<^verbatim>\<open>slock()\<close>, a body and \<^verbatim>\<open>srelease()\<close>.
\<close>

datatype rw_op = TryW | TryR | RelW | RelR

datatype rw_pc =
    Idle | HoldW | HoldR
  | Early rw_op
  | STest rw_op | SBts rw_op
  | Body rw_op
  | Store rw_op rwstate
  | BtcRead rw_op bool
  | BtcWrite rw_op rwstate bool

definition early_fail :: "rw_op \<Rightarrow> rwstate \<Rightarrow> bool" where
  "early_fail op r =
     (case op of TryW \<Rightarrow> rcnt r \<noteq> 0 \<and> wlock r | TryR \<Rightarrow> wlock r | _ \<Rightarrow> False)"

text \<open>The body under \<^verbatim>\<open>slock\<close>: the value to store back, or no store and result false.\<close>

definition rw_body :: "rw_op \<Rightarrow> rwstate \<Rightarrow> rwstate option" where
  "rw_body op r =
     (case op of
        TryW \<Rightarrow> if rcnt r = 0 \<and> \<not> wlock r then Some (r\<lparr>wlock := True\<rparr>) else None
      | TryR \<Rightarrow> if \<not> wlock r then Some (r\<lparr>rcnt := rcnt r + 1\<rparr>) else None
      | RelW \<Rightarrow> Some (r\<lparr>wlock := False\<rparr>)
      | RelR \<Rightarrow> Some (r\<lparr>rcnt := rcnt r - 1\<rparr>))"

definition rw_return :: "rw_op \<Rightarrow> bool \<Rightarrow> rw_pc" where
  "rw_return op res =
     (case op of TryW \<Rightarrow> if res then HoldW else Idle
               | TryR \<Rightarrow> if res then HoldR else Idle
               | _ \<Rightarrow> Idle)"

inductive rw_local :: "rwstate \<Rightarrow> rw_pc \<Rightarrow> rwstate \<Rightarrow> rw_pc \<Rightarrow> bool" where
  call_w: "rw_local r Idle r (Early TryW)"
| call_r: "rw_local r Idle r (Early TryR)"
| wrelease: "rw_local r HoldW r (STest RelW)"
| rrelease: "rw_local r HoldR r (STest RelR)"
| early_no: "early_fail op r \<Longrightarrow> rw_local r (Early op) r Idle"
| early_yes: "\<not> early_fail op r \<Longrightarrow> rw_local r (Early op) r (STest op)"
| slock_busy: "slock r \<Longrightarrow> rw_local r (STest op) r (STest op)"
| slock_free: "\<not> slock r \<Longrightarrow> rw_local r (STest op) r (SBts op)"
| slock_lost: "slock r \<Longrightarrow> rw_local r (SBts op) r (STest op)"
| slock_won: "\<not> slock r \<Longrightarrow> rw_local r (SBts op) (r\<lparr>slock := True\<rparr>) (Body op)"
| body_no: "rw_body op r = None \<Longrightarrow> rw_local r (Body op) r (BtcRead op False)"
| body_yes: "rw_body op r = Some v \<Longrightarrow> rw_local r (Body op) r (Store op v)"
| store: "rw_local r (Store op v) v (BtcRead op True)"
| btc_read: "rw_local r (BtcRead op res) r (BtcWrite op (r\<lparr>slock := \<not> slock r\<rparr>) res)"
| btc_write: "rw_local r (BtcWrite op v res) v (rw_return op res)"

record rw_sys =
  rw :: rwstate
  rpc :: "nat \<Rightarrow> rw_pc"

definition rw_init :: rw_sys where
  "rw_init = \<lparr>rw = \<lparr>slock = False, wlock = False, rcnt = 0\<rparr>, rpc = (\<lambda>_. Idle)\<rparr>"

definition rw_step :: "nat \<Rightarrow> rw_sys \<Rightarrow> rw_sys \<Rightarrow> bool" where
  "rw_step n s t \<longleftrightarrow>
     (\<exists>i < n. \<exists>r p. rw_local (rw s) (rpc s i) r p \<and> t = \<lparr>rw = r, rpc = (rpc s)(i := p)\<rparr>)"

text \<open>The CPU owns the internal lock bit, the writer bit, or one unit of the reader count.\<close>

fun inS :: "rw_pc \<Rightarrow> bool" where
  "inS (Body _) = True"
| "inS (Store _ _) = True"
| "inS (BtcRead _ _) = True"
| "inS (BtcWrite _ _ _) = True"
| "inS _ = False"

fun inW :: "rw_pc \<Rightarrow> bool" where
  "inW HoldW = True"
| "inW (STest op) = (op = RelW)"
| "inW (SBts op) = (op = RelW)"
| "inW (Body op) = (op = RelW)"
| "inW (Store op _) = (op = RelW)"
| "inW (BtcRead op res) = (op = TryW \<and> res)"
| "inW (BtcWrite op _ res) = (op = TryW \<and> res)"
| "inW _ = False"

fun inR :: "rw_pc \<Rightarrow> bool" where
  "inR HoldR = True"
| "inR (STest op) = (op = RelR)"
| "inR (SBts op) = (op = RelR)"
| "inR (Body op) = (op = RelR)"
| "inR (Store op _) = (op = RelR)"
| "inR (BtcRead op res) = (op = TryR \<and> res)"
| "inR (BtcWrite op _ res) = (op = TryR \<and> res)"
| "inR _ = False"

text \<open>A value read under the internal lock is still the current one when it is stored.\<close>

fun fresh :: "rwstate \<Rightarrow> rw_pc \<Rightarrow> bool" where
  "fresh r (Store op v) = (rw_body op r = Some v)"
| "fresh r (BtcWrite op v res) = (v = r\<lparr>slock := False\<rparr>)"
| "fresh r (Early op) = (op = TryW \<or> op = TryR)"
| "fresh r _ = True"

definition rw_inv :: "nat \<Rightarrow> rw_sys \<Rightarrow> bool" where
  "rw_inv n s \<longleftrightarrow>
     (\<forall>i \<ge> n. rpc s i = Idle)
     \<and> guards (slock (rw s)) (owners inS (rpc s))
     \<and> guards (wlock (rw s)) (owners inW (rpc s))
     \<and> unat (rcnt (rw s)) = card (owners inR (rpc s))
     \<and> (wlock (rw s) \<longrightarrow> rcnt (rw s) = 0)
     \<and> (\<forall>i. fresh (rw s) (rpc s i))"

section \<open>Mutex: mutual exclusion\<close>

lemma btsw0_bits: "btsw0 c = (b, c') \<Longrightarrow> bit c 0 = b \<and> bit c' 0"
  by (auto simp: btsw0_def bit_simps)

lemma mutex_inv_init: "mutex_inv (mutex_init b)"
  by (simp add: mutex_inv_def mutex_init_def guards_def owners_def bit_simps)

lemma mutex_local_inv:
  assumes "mutex_local c (f i) c' p" and "guards (bit c 0) (owners (\<lambda>p. p = Holding) f)"
  shows "guards (bit c' 0) (owners (\<lambda>p. p = Holding) (f(i := p)))"
  using assms
proof (cases rule: mutex_local.cases)
  case (release)
  with owners_lose [OF assms(2), of i p] show ?thesis by (simp add: movw0_def)
qed (auto simp: owners_keep intro: owners_gain dest!: btsw0_bits)

interpretation mx: exclusive_lock "mutex_init b" mutex_step mutex_inv "\<lambda>i s. mpc s i = Holding"
  for b
proof unfold_locales
  show "mutex_inv (mutex_init b)" by (rule mutex_inv_init)
next
  fix s t
  assume "mutex_step s t" and "mutex_inv s"
  then show "mutex_inv t"
    by (auto simp: mutex_step_def mutex_inv_def intro: mutex_local_inv)
next
  fix s i j
  assume "mutex_inv s" and "mpc s i = Holding" and "mpc s j = Holding"
  then show "i = j"
    unfolding mutex_inv_def by (rule owners_unique)
qed

section \<open>RWMutex: readers and writers exclude each other\<close>

lemma card_owners_gain:
  assumes "finite (owners P f)" and "\<not> P (f i)" and "P p"
  shows "card (owners P (f(i := p))) = Suc (card (owners P f))"
proof -
  from assms(2) have "i \<notin> owners P f" by (simp add: owners_def)
  with assms show ?thesis by (simp add: owners_upd)
qed

lemma card_owners_lose:
  assumes "finite (owners P f)" and "P (f i)" and "\<not> P p"
  shows "card (owners P f) = Suc (card (owners P (f(i := p))))"
proof -
  from assms(2) have "i \<in> owners P f" by (simp add: owners_def)
  with assms(1) have "card (owners P f) = Suc (card (owners P f - {i}))"
    by (rule card.remove)
  with assms(3) show ?thesis by (simp add: owners_upd)
qed

lemma rw_inv_init: "rw_inv n rw_init"
  by (simp add: rw_inv_def rw_init_def guards_def owners_def)

lemma fresh_upd:
  assumes "\<forall>j. fresh r (f j)" and "fresh r' p"
    and "\<And>j. j \<noteq> i \<Longrightarrow> inS (f j) \<Longrightarrow> r' = r"
  shows "\<forall>j. fresh r' ((f(i := p)) j)"
proof
  fix j
  show "fresh r' ((f(i := p)) j)"
    using assms(1) [rule_format, of j] assms(2) assms(3) [of j]
    by (cases "f j") (auto split: if_splits)
qed

text \<open>The steps that leave the word and the tokens as they are.\<close>

lemma rw_quiet:
  assumes "rw_inv n \<lparr>rw = r, rpc = f\<rparr>" and "i < n" and "fresh r p"
    and "inS p = inS (f i)" "inW p = inW (f i)" "inR p = inR (f i)"
  shows "rw_inv n \<lparr>rw = r, rpc = f(i := p)\<rparr>"
  using assms fresh_upd [of r f r p i] by (auto simp: rw_inv_def owners_keep)

lemma rw_acquire:
  assumes inv: "rw_inv n \<lparr>rw = r, rpc = f\<rparr>" and "i < n" and "\<not> slock r" and "f i = SBts op"
  shows "rw_inv n \<lparr>rw = r\<lparr>slock := True\<rparr>, rpc = f(i := Body op)\<rparr>"
proof -
  have none: "\<not> inS (f j)" for j
    using inv assms(3) owners_flag [of "slock r" inS f j] by (auto simp: rw_inv_def)
  have "\<forall>j. fresh (r\<lparr>slock := True\<rparr>) ((f(i := Body op)) j)"
    using inv none by (intro fresh_upd [of r]) (auto simp: rw_inv_def)
  with assms show ?thesis
    by (auto simp: rw_inv_def owners_keep intro: owners_gain)
qed

lemma rw_drop:
  assumes inv: "rw_inv n \<lparr>rw = r, rpc = f\<rparr>" and "i < n" and pc: "f i = BtcWrite op v res"
  shows "rw_inv n \<lparr>rw = v, rpc = f(i := rw_return op res)\<rparr>"
proof -
  have v: "v = r\<lparr>slock := False\<rparr>"
    using inv pc by (auto simp: rw_inv_def dest: spec [of _ i])
  have others: "j = i" if "inS (f j)" for j
    using inv that pc owners_unique [of "slock r" inS f j i] by (auto simp: rw_inv_def)
  have "fresh v (rw_return op res)"
    by (simp add: rw_return_def split: rw_op.split)
  then have fr: "\<forall>j. fresh v ((f(i := rw_return op res)) j)"
    using inv others by (intro fresh_upd [of r]) (auto simp: rw_inv_def)
  have "\<not> inS (rw_return op res)" "inW (rw_return op res) = inW (f i)" "inR (rw_return op res) = inR (f i)"
    using pc by (auto simp: rw_return_def split: rw_op.split)
  moreover have "guards False (owners inS (f(i := rw_return op res)))"
    using inv pc calculation(1) by (intro owners_lose [of "slock r"]) (auto simp: rw_inv_def)
  ultimately show ?thesis
    using inv fr v \<open>i < n\<close> by (auto simp: rw_inv_def owners_keep)
qed

text \<open>A store, whose value was computed from the current word: what is left to check per body.\<close>

lemma rw_store:
  assumes inv: "rw_inv n \<lparr>rw = r, rpc = f\<rparr>" and "i < n" and pc: "f i = Store op v"
    and "slock v = slock r" and "guards (wlock v) (owners inW (f(i := BtcRead op True)))"
    and "unat (rcnt v) = card (owners inR (f(i := BtcRead op True)))" and "wlock v \<longrightarrow> rcnt v = 0"
  shows "rw_inv n \<lparr>rw = v, rpc = f(i := BtcRead op True)\<rparr>"
proof -
  have "j = i" if "inS (f j)" for j
    using inv that pc owners_unique [of "slock r" inS f j i] by (auto simp: rw_inv_def)
  then have "\<forall>j. fresh v ((f(i := BtcRead op True)) j)"
    using inv by (intro fresh_upd [of r]) (auto simp: rw_inv_def)
  moreover have "owners inS (f(i := BtcRead op True)) = owners inS f"
    using pc by (simp add: owners_keep)
  ultimately show ?thesis
    using assms by (auto simp: rw_inv_def)
qed

lemma rw_readers:
  assumes "rw_inv n \<lparr>rw = r, rpc = f\<rparr>"
  shows "owners inR f \<subseteq> {..<n}" and "finite (owners inR f)"
    and "unat (rcnt r) = card (owners inR f)"
proof -
  show sub: "owners inR f \<subseteq> {..<n}"
  proof
    fix j
    assume "j \<in> owners inR f"
    then have "inR (f j)" by (simp add: owners_def)
    then show "j \<in> {..<n}"
      using assms by (cases "j < n") (auto simp: rw_inv_def)
  qed
  show "finite (owners inR f)"
    using sub by (rule finite_subset) simp
  show "unat (rcnt r) = card (owners inR f)"
    using assms by (simp add: rw_inv_def)
qed

lemma rw_store_writer:
  assumes inv: "rw_inv n \<lparr>rw = r, rpc = f\<rparr>" and "i < n" and pc: "f i = Store op v"
    and op: "op = TryW \<or> op = RelW" and v: "rw_body op r = Some v"
  shows "rw_inv n \<lparr>rw = v, rpc = f(i := BtcRead op True)\<rparr>"
proof -
  have "owners inR (f(i := BtcRead op True)) = owners inR f"
    using pc op by (intro owners_keep) auto
  moreover have "guards (wlock v) (owners inW (f(i := BtcRead op True)))"
  proof (cases op)
    case TryW
    with v inv show ?thesis
      by (auto simp: rw_body_def rw_inv_def intro!: owners_gain split: if_splits)
  next
    case RelW
    with inv pc have "guards False (owners inW (f(i := BtcRead op True)))"
      by (intro owners_lose [of "wlock r"]) (auto simp: rw_inv_def)
    with v RelW show ?thesis by (auto simp: rw_body_def)
  qed (use op in auto)
  moreover have "slock v = slock r" and "rcnt v = rcnt r" and "wlock v \<longrightarrow> rcnt v = 0"
    using op v by (auto simp: rw_body_def split: if_splits)
  ultimately show ?thesis
    using rw_readers(3) [OF inv] by (simp add: rw_store [OF inv \<open>i < n\<close> pc])
qed

lemma rw_store_reader:
  assumes inv: "rw_inv n \<lparr>rw = r, rpc = f\<rparr>" and i: "i < n" and n: "n < 2 ^ 62"
    and pc: "f i = Store op v" and op: "op = TryR \<or> op = RelR" and v: "rw_body op r = Some v"
  shows "rw_inv n \<lparr>rw = v, rpc = f(i := BtcRead op True)\<rparr>"
proof -
  let ?f = "f(i := BtcRead op True)"
  note R = rw_readers [OF inv]
  have W: "owners inW ?f = owners inW f"
    using pc op by (intro owners_keep) auto
  have "unat (rcnt v) = card (owners inR ?f) \<and> (wlock v \<longrightarrow> rcnt v = 0)"
  proof (cases op)
    case TryR
    have "i \<notin> owners inR f"
      using pc TryR by (simp add: owners_def)
    then have "owners inR f \<subseteq> {..<n} - {i}"
      using R(1) by blast
    then have "card (owners inR f) \<le> card ({..<n} - {i})"
      by (intro card_mono) simp_all
    then have "unat (rcnt r) + 1 < 2 ^ 62"
      using i n R(3) by simp
    moreover have "card (owners inR ?f) = Suc (card (owners inR f))"
      using R(2) pc TryR by (intro card_owners_gain) simp_all
    ultimately show ?thesis
      using v TryR R(3) by (auto simp: rw_body_def unat_word_ariths split: if_splits)
  next
    case RelR
    have "card (owners inR f) = Suc (card (owners inR ?f))"
      using R(2) pc RelR by (intro card_owners_lose) simp_all
    then have pos: "unat (rcnt r) = Suc (card (owners inR ?f))"
      using R(3) by simp
    then have "rcnt r \<noteq> 0" by auto
    then show ?thesis
      using v RelR pos inv by (auto simp: rw_body_def unat_minus_one rw_inv_def)
  qed (use op in auto)
  moreover have "slock v = slock r" and "wlock v = wlock r"
    using op v by (auto simp: rw_body_def split: if_splits)
  moreover have "guards (wlock r) (owners inW f)"
    using inv by (simp add: rw_inv_def)
  ultimately show ?thesis
    using W by (simp add: rw_store [OF inv i pc])
qed

lemma rw_local_inv:
  assumes "rw_local r (f i) r' p" and inv: "rw_inv n \<lparr>rw = r, rpc = f\<rparr>"
    and i: "i < n" and n: "n < 2 ^ 62"
  shows "rw_inv n \<lparr>rw = r', rpc = f(i := p)\<rparr>"
proof -
  have fr: "fresh r (f i)"
    using inv by (simp add: rw_inv_def)
  have sl: "slock r" if "inS (f i)"
    using inv that owners_flag [of "slock r" inS f i] by (auto simp: rw_inv_def)
  from assms(1) show ?thesis
  proof (cases rule: rw_local.cases)
    case (slock_won op)
    then show ?thesis using rw_acquire [OF inv i] by simp
  next
    case (store op)
    then have "rw_body op r = Some r'" using fr by simp
    then show ?thesis
      using rw_store_writer [OF inv i] rw_store_reader [OF inv i n] store by (cases op) auto
  next
    case (btc_write op res)
    then show ?thesis using rw_drop [OF inv i] by simp
  next
    case (early_yes op)
    with inv i fr show ?thesis by (auto intro!: rw_quiet)
  next
    case (body_no op)
    with inv i show ?thesis by (auto intro!: rw_quiet simp: rw_body_def split: rw_op.splits)
  next
    case (body_yes op v)
    with inv i show ?thesis by (auto intro!: rw_quiet)
  next
    case (btc_read op res)
    with inv i sl show ?thesis by (auto intro!: rw_quiet)
  qed (use inv i in \<open>auto intro!: rw_quiet\<close>)
qed

lemma rw_sys_eta [simp]: "\<lparr>rw = rw s, rpc = rpc s\<rparr> = s"
  by (cases s) simp

lemma rw_inv_writer:
  assumes "rw_inv n s" and "rpc s i = HoldW"
  shows "rpc s j = HoldW \<Longrightarrow> i = j" and "rpc s j \<noteq> HoldR"
proof -
  have w: "guards (wlock (rw s)) (owners inW (rpc s))"
    using assms(1) by (simp add: rw_inv_def)
  show "i = j" if "rpc s j = HoldW"
    using owners_unique [OF w, of i j] assms(2) that by simp
  have "wlock (rw s)"
    using owners_flag [OF w, of i] assms(2) by simp
  then have "unat (rcnt (rw s)) = 0"
    using assms(1) by (auto simp: rw_inv_def)
  then have "card (owners inR (rpc s)) = 0"
    using assms(1) by (simp add: rw_inv_def)
  moreover have "finite (owners inR (rpc s))"
    using rw_readers(2) [of n "rw s" "rpc s"] assms(1) by simp
  ultimately have "\<not> inR (rpc s j)"
    by (auto simp: owners_def)
  then show "rpc s j \<noteq> HoldR" by auto
qed

text \<open>CPUs are numbered by the 32-bit local APIC identifier, so fewer than \<open>2^62\<close> ever run.\<close>

interpretation rwx: shared_lock rw_init "rw_step (unat ncpu)" "rw_inv (unat ncpu)"
  "\<lambda>i s. rpc s i = HoldW" "\<lambda>i s. rpc s i = HoldR"
  for ncpu :: u32
proof unfold_locales
  show "rw_inv (unat ncpu) rw_init" by (rule rw_inv_init)
next
  fix s t
  assume "rw_step (unat ncpu) s t" and "rw_inv (unat ncpu) s"
  moreover have "unat ncpu < 2 ^ 62"
    using unsigned_less [of ncpu, where ?'a = nat] by simp
  ultimately show "rw_inv (unat ncpu) t"
    unfolding rw_step_def using rw_local_inv [of "rw s" "rpc s"] by auto
qed (auto dest: rw_inv_writer)

section \<open>What the locks guarantee\<close>

lemma cs_interrupts_off: "\<not> bit (snd (enter rflags)) 9"
  by (simp add: enter_def bit_simps)

lemma cs_restores: "leave (fst (enter rflags)) rflags' = rflags"
  by (simp add: enter_def leave_def)

lemma and1_bit0: "(c :: u16) AND 1 = 0 \<longleftrightarrow> \<not> bit c 0"
  by (simp add: and_one_eq bit_0 odd_iff_mod_2_eq_one flip: even_iff_mod_2_eq_zero)

lemma mutex_step_local:
  "mutex_local (cell s) (mpc s i) c p \<Longrightarrow> mutex_step s \<lparr>cell = c, mpc = (mpc s)(i := p)\<rparr>"
  by (auto simp: mutex_step_def)

lemma mutex_run_take:
  "mutex_step\<^sup>*\<^sup>* (mutex_init b)
     \<lparr>cell = push_bit 8 (ucast b) OR 1, mpc = (\<lambda>_. Outside)(i := Holding)\<rparr>"
proof -
  have "btsw0 (push_bit 8 (ucast b)) = (False, push_bit 8 (ucast b) OR 1)"
    by (simp add: btsw0_def bit_simps)
  then have "mutex_step (mutex_init b)
     \<lparr>cell = push_bit 8 (ucast b) OR 1, mpc = (mpc (mutex_init b))(i := Holding)\<rparr>"
    by (intro mutex_step_local) (simp add: mutex_init_def mutex_local.try_won)
  then show ?thesis by (simp add: mutex_init_def)
qed

text \<open>
  C10: Mutual exclusion of Mutex: in every state that any interleaving of lock, try_lock and
  release on any number of CPUs reaches, at most one CPU holds the lock.
\<close>

theorem mutex_exclusion:
  assumes "mutex_step\<^sup>*\<^sup>* (mutex_init b) s" and "mpc s i = Holding" and "mpc s j = Holding"
  shows "i = j"
  using assms by (rule mx.reachable_exclusive)

theorem mutex_exclusion_witness:
  "\<exists>s. mutex_step\<^sup>*\<^sup>* (mutex_init 0xFF) s \<and> mpc s 0 = Holding \<and> mpc s 1 \<noteq> Holding"
proof -
  let ?s = "\<lparr>cell = push_bit 8 (ucast (0xFF :: u8)) OR 1, mpc = (\<lambda>_. Outside)(0 := Holding)\<rparr>"
  have run: "mutex_step\<^sup>*\<^sup>* (mutex_init 0xFF) ?s" by (rule mutex_run_take)
  have held: "mpc ?s 0 = Holding" by simp
  have "mpc ?s 1 = Holding \<Longrightarrow> (0 :: nat) = 1"
    by (rule mutex_exclusion [OF run held])
  with run held show ?thesis by (metis zero_neq_one)
qed

text \<open>
  A CPU that spins in Mutex::lock while nobody holds the lock can take it: the free lock is
  never left in a state in which the bit stays set.
\<close>

theorem mutex_progress:
  assumes "mutex_step\<^sup>*\<^sup>* (mutex_init b) s" and "\<forall>j. mpc s j \<noteq> Holding" and "mpc s i = Testing"
  shows "\<exists>t. mutex_step\<^sup>*\<^sup>* s t \<and> mpc t i = Holding"
proof -
  have "mutex_inv s" using assms(1) by (rule mx.reachable_inv)
  with assms(2) have free: "\<not> bit (cell s) 0"
    by (simp add: mutex_inv_def guards_def owners_def)
  let ?u = "\<lparr>cell = cell s, mpc = (mpc s)(i := Setting)\<rparr>"
  let ?t = "\<lparr>cell = cell s OR 1, mpc = (mpc ?u)(i := Holding)\<rparr>"
  have "mutex_step s ?u"
    using free assms(3) by (intro mutex_step_local) (simp add: mutex_local.lock_free and1_bit0)
  moreover have "mutex_step ?u ?t"
    using free by (intro mutex_step_local) (simp add: mutex_local.lock_won btsw0_def)
  moreover have "mpc ?t i = Holding" by simp
  ultimately show ?thesis
    by (meson converse_rtranclp_into_rtranclp r_into_rtranclp)
qed

theorem mutex_progress_witness:
  "\<exists>s t. mutex_step\<^sup>*\<^sup>* (mutex_init 0) s \<and> mpc s 3 = Testing \<and> mutex_step\<^sup>*\<^sup>* s t \<and> mpc t 3 = Holding"
proof -
  let ?s = "\<lparr>cell = cell (mutex_init 0), mpc = (mpc (mutex_init 0))(3 := Testing)\<rparr>"
  have run: "mutex_step\<^sup>*\<^sup>* (mutex_init 0) ?s"
    by (intro r_into_rtranclp mutex_step_local) (simp add: mutex_init_def mutex_local.lock_call)
  have "\<exists>t. mutex_step\<^sup>*\<^sup>* ?s t \<and> mpc t 3 = Holding"
    using run by (rule mutex_progress) (simp_all add: mutex_init_def)
  with run show ?thesis
    by (metis fun_upd_same mutex_sys.select_convs(2))
qed

text \<open>
  Taking and releasing a Mutex leaves the byte after the one-byte lock object zero, whatever
  it was: release stores a 16-bit zero.
\<close>

theorem mutex_release_clobbers:
  "\<exists>s. mutex_step\<^sup>*\<^sup>* (mutex_init b) s \<and> mpc s = (\<lambda>_. Outside) \<and> cell s = 0"
proof -
  let ?s = "\<lparr>cell = push_bit 8 (ucast b) OR 1, mpc = (\<lambda>_. Outside)(0 := Holding)\<rparr>"
  let ?t = "\<lparr>cell = movw0 (cell ?s), mpc = (mpc ?s)(0 := Outside)\<rparr>"
  have "mutex_step ?s ?t"
    by (intro mutex_step_local) (simp add: mutex_local.release)
  with mutex_run_take [of b 0] have "mutex_step\<^sup>*\<^sup>* (mutex_init b) ?t"
    by (rule rtranclp.rtrancl_into_rtrancl)
  moreover have "mpc ?t = (\<lambda>_. Outside)" by auto
  moreover have "cell ?t = 0" by (simp add: movw0_def)
  ultimately show ?thesis by blast
qed

text \<open>A CPU that runs alone, and the two acquisitions as such runs.\<close>

definition rw_solo :: "rwstate \<times> rw_pc \<Rightarrow> rwstate \<times> rw_pc \<Rightarrow> bool" where
  "rw_solo x y \<longleftrightarrow> rw_local (fst x) (snd x) (fst y) (snd y)"

lemma rw_alone:
  assumes "rw_solo\<^sup>*\<^sup>* x y" and "i < n"
  shows "(rw_step n)\<^sup>*\<^sup>* \<lparr>rw = fst x, rpc = f(i := snd x)\<rparr> \<lparr>rw = fst y, rpc = f(i := snd y)\<rparr>"
  using assms(1)
proof (induction rule: rtranclp_induct)
  case (step y z)
  have "rw_step n \<lparr>rw = fst y, rpc = f(i := snd y)\<rparr> \<lparr>rw = fst z, rpc = f(i := snd z)\<rparr>"
    using step.hyps(2) assms(2) by (auto simp: rw_step_def rw_solo_def intro!: exI [of _ i])
  with step.IH show ?case by (rule rtranclp.rtrancl_into_rtrancl)
qed simp

lemma rw_solo_locked:
  assumes "\<not> slock r" and "rw_body op r = Some v" and "op = TryW \<or> op = TryR"
  shows "rw_solo\<^sup>*\<^sup>* (r, STest op) (v, rw_return op True)"
proof -
  let ?r = "r\<lparr>slock := True\<rparr>" and ?v = "v\<lparr>slock := True\<rparr>"
  have body: "rw_body op ?r = Some ?v" and sv: "\<not> slock v"
    using assms by (auto simp: rw_body_def split: if_splits)
  have "rw_solo (r, STest op) (r, SBts op)"
    using assms(1) by (simp add: rw_solo_def rw_local.slock_free)
  moreover have "rw_solo (r, SBts op) (?r, Body op)"
    using assms(1) by (simp add: rw_solo_def rw_local.slock_won)
  moreover have "rw_solo (?r, Body op) (?r, Store op ?v)"
    using body by (simp add: rw_solo_def rw_local.body_yes)
  moreover have "rw_solo (?r, Store op ?v) (?v, BtcRead op True)"
    by (simp add: rw_solo_def rw_local.store)
  moreover have "rw_solo (?v, BtcRead op True) (?v, BtcWrite op v True)"
    using rw_local.btc_read [of ?v op True] sv by (cases v) (simp add: rw_solo_def)
  moreover have "rw_solo (?v, BtcWrite op v True) (v, rw_return op True)"
    by (simp add: rw_solo_def rw_local.btc_write)
  ultimately show ?thesis
    by (meson r_into_rtranclp rtranclp_trans)
qed

lemma rw_solo_take:
  assumes "\<not> slock r" and "rw_body op r = Some v" and "op = TryW \<or> op = TryR"
  shows "rw_solo\<^sup>*\<^sup>* (r, Idle) (v, rw_return op True)"
proof -
  have "rw_solo (r, Idle) (r, Early op)"
    using assms(3) rw_local.call_w rw_local.call_r by (auto simp: rw_solo_def)
  moreover have "\<not> early_fail op r"
    using assms(2,3) by (auto simp: early_fail_def rw_body_def split: if_splits)
  then have "rw_solo (r, Early op) (r, STest op)"
    by (simp add: rw_solo_def rw_local.early_yes)
  ultimately show ?thesis
    using rw_solo_locked [OF assms] by (meson converse_rtranclp_into_rtranclp)
qed

lemma rw_take:
  assumes "\<not> slock (rw s)" and "rw_body op (rw s) = Some v" and "op = TryW \<or> op = TryR"
    and "rpc s i = Idle" and "i < n"
  shows "(rw_step n)\<^sup>*\<^sup>* s \<lparr>rw = v, rpc = (rpc s)(i := rw_return op True)\<rparr>"
  using rw_alone [OF rw_solo_take [OF assms(1-3)] assms(5), of "rpc s"] assms(4)
  by (simp add: fun_upd_idem)

lemma rw_run_writer:
  "(rw_step (unat (2 :: u32)))\<^sup>*\<^sup>* rw_init
     \<lparr>rw = \<lparr>slock = False, wlock = True, rcnt = 0\<rparr>, rpc = (\<lambda>_. Idle)(0 := HoldW)\<rparr>"
  using rw_take [of rw_init TryW "\<lparr>slock = False, wlock = True, rcnt = 0\<rparr>" 0 2]
  by (simp add: rw_init_def rw_body_def rw_return_def)

text \<open>
  C4: RWMutex: in every state that any interleaving of the four operations on up to 2^32 CPUs
  reaches, a CPU that holds the lock for writing is the only writer and there is no reader.
\<close>

theorem rwmutex_exclusion:
  fixes ncpu :: u32
  assumes "(rw_step (unat ncpu))\<^sup>*\<^sup>* rw_init s" and "rpc s i = HoldW"
  shows "(rpc s j = HoldW \<longrightarrow> i = j) \<and> rpc s j \<noteq> HoldR"
  using rwx.reachable_exclusive [OF assms] rwx.reachable_no_reader [OF assms] by blast

theorem rwmutex_exclusion_witness:
  "\<exists>s. (rw_step (unat (2 :: u32)))\<^sup>*\<^sup>* rw_init s \<and> rpc s 0 = HoldW
     \<and> rpc s 1 \<noteq> HoldW \<and> rpc s 1 \<noteq> HoldR"
proof -
  let ?s = "\<lparr>rw = \<lparr>slock = False, wlock = True, rcnt = 0\<rparr>, rpc = (\<lambda>_. Idle)(0 := HoldW)\<rparr>"
  have held: "rpc ?s 0 = HoldW" by simp
  have "(rpc ?s 1 = HoldW \<longrightarrow> (0 :: nat) = 1) \<and> rpc ?s 1 \<noteq> HoldR"
    by (rule rwmutex_exclusion [OF rw_run_writer held])
  with rw_run_writer held show ?thesis by (metis zero_neq_one)
qed

text \<open>
  C31: RWMutex: whenever no CPU is inside an operation, the internal lock bit is clear, the
  writer bit tells whether there is a writer, and the 62-bit counter is the number of readers:
  no update of the shared word is ever lost.
\<close>

theorem rwmutex_quiescent:
  fixes ncpu :: u32
  assumes "(rw_step (unat ncpu))\<^sup>*\<^sup>* rw_init s" and "\<forall>i. rpc s i \<in> {Idle, HoldW, HoldR}"
  shows "\<not> slock (rw s) \<and> (wlock (rw s) \<longleftrightarrow> (\<exists>i. rpc s i = HoldW))
    \<and> unat (rcnt (rw s)) = card {i. rpc s i = HoldR}"
proof -
  have inv: "rw_inv (unat ncpu) s" using assms(1) by (rule rwx.reachable_inv)
  have pcs: "inS (rpc s i) = False" "inW (rpc s i) = (rpc s i = HoldW)"
      "inR (rpc s i) = (rpc s i = HoldR)" for i
    using assms(2) [rule_format, of i] by auto
  show ?thesis
    using inv by (simp add: rw_inv_def guards_def owners_def pcs)
qed

theorem rwmutex_quiescent_witness:
  "\<exists>s. (rw_step (unat (2 :: u32)))\<^sup>*\<^sup>* rw_init s \<and> wlock (rw s)
     \<and> unat (rcnt (rw s)) = card {i. rpc s i = HoldR}"
proof -
  let ?s = "\<lparr>rw = \<lparr>slock = False, wlock = True, rcnt = 0\<rparr>, rpc = (\<lambda>_. Idle)(0 := HoldW)\<rparr>"
  have "unat (rcnt (rw ?s)) = card {i. rpc ?s i = HoldR}"
    using rwmutex_quiescent [OF rw_run_writer] by simp
  with rw_run_writer show ?thesis by force
qed

text \<open>
  C26: RWMutex: when no CPU is inside an operation or holds the lock for writing, an idle CPU
  can take it for reading, and for writing if there is no reader.
\<close>

theorem rwmutex_progress:
  fixes ncpu :: u32
  assumes "(rw_step (unat ncpu))\<^sup>*\<^sup>* rw_init s" and "\<forall>i. rpc s i \<in> {Idle, HoldR}"
    and "rpc s i = Idle" and "i < unat ncpu"
  shows "(\<exists>t. (rw_step (unat ncpu))\<^sup>*\<^sup>* s t \<and> rpc t i = HoldR)
    \<and> ((\<forall>j. rpc s j = Idle) \<longrightarrow> (\<exists>t. (rw_step (unat ncpu))\<^sup>*\<^sup>* s t \<and> rpc t i = HoldW))"
proof -
  let ?r = "rw s"
  have inv: "rw_inv (unat ncpu) s" using assms(1) by (rule rwx.reachable_inv)
  have pcs: "inS (rpc s i) = False" "inW (rpc s i) = False" "inR (rpc s i) = (rpc s i = HoldR)" for i
    using assms(2) [rule_format, of i] by auto
  have free: "\<not> slock ?r" "\<not> wlock ?r" "unat (rcnt ?r) = card {i. rpc s i = HoldR}"
    using inv by (simp_all add: rw_inv_def guards_def owners_def pcs)
  have read: "rw_body TryR ?r = Some (?r\<lparr>rcnt := rcnt ?r + 1\<rparr>)"
    using free by (simp add: rw_body_def)
  have "rw_body TryW ?r = Some (?r\<lparr>wlock := True\<rparr>)" if "\<forall>j. rpc s j = Idle"
    using free that by (simp add: rw_body_def unat_eq_zero)
  then show ?thesis
    using rw_take [OF free(1) read _ assms(3,4)] rw_take [OF free(1) _ _ assms(3,4), of TryW]
    by (fastforce simp: rw_return_def)
qed

theorem rwmutex_progress_witness:
  "\<exists>t u. (rw_step (unat (2 :: u32)))\<^sup>*\<^sup>* rw_init t \<and> rpc t 1 = HoldR
     \<and> (rw_step (unat (2 :: u32)))\<^sup>*\<^sup>* rw_init u \<and> rpc u 1 = HoldW"
  using rwmutex_progress [of 2 rw_init 1] by (simp add: rw_init_def)

end
