(* ===== verification/Guards.thy ===== *)
theory Guards
  imports Mutex
begin

text \<open>
  The guard classes of \<^verbatim>\<open>src/lock/include/mutex.hpp\<close>: objects whose constructor takes a lock and whose destructor
  gives it back, some of them with interrupts disabled in between. C++ constructs the base class first and
  destroys it last, and destroys the objects of a block in the reverse order. A block of code is a tree of
  guards; running it gives the operations on the locks, each with the state of the interrupt flag.
\<close>

section \<open>The classes\<close>

datatype guard = CriticalSection | Lock | CriticalLock | WLock | CriticalWLock | RLock | CriticalRLock

datatype lock_op = Op_lock | Op_release | Op_wlock | Op_wrelease | Op_rlock | Op_rrelease

text \<open>An operation, the lock, and whether interrupts were enabled.\<close>

type_synonym lock_event = "lock_op \<times> nat \<times> bool"

record guard_cpu =
  rflags :: u64
  trace :: "lock_event list"

definition interrupts_on :: "guard_cpu \<Rightarrow> bool" where
  "interrupts_on c = bit (rflags c) 9"

definition call :: "lock_op \<Rightarrow> nat \<Rightarrow> guard_cpu \<Rightarrow> guard_cpu" where
  "call p m c = c\<lparr>trace := trace c @ [(p, m, interrupts_on c)]\<rparr>"

text \<open>\<^verbatim>\<open>CriticalSection()\<close> keeps the flags in the object; \<^verbatim>\<open>~CriticalSection()\<close> gives them back.\<close>

definition section_enter :: "guard_cpu \<Rightarrow> u64 \<times> guard_cpu" where
  "section_enter c = (let (flags, r) = enter (rflags c) in (flags, c\<lparr>rflags := r\<rparr>))"

definition section_leave :: "u64 \<Rightarrow> guard_cpu \<Rightarrow> guard_cpu" where
  "section_leave flags c = c\<lparr>rflags := leave flags (rflags c)\<rparr>"

text \<open>The classes without a critical section keep nothing but the pointer to the lock.\<close>

fun construct :: "guard \<Rightarrow> nat \<Rightarrow> guard_cpu \<Rightarrow> u64 \<times> guard_cpu" where
  "construct CriticalSection m c = section_enter c"
| "construct Lock m c = (0, call Op_lock m c)"
| "construct CriticalLock m c = (let (flags, c) = section_enter c in (flags, call Op_lock m c))"
| "construct WLock m c = (0, call Op_wlock m c)"
| "construct CriticalWLock m c = (let (flags, c) = section_enter c in (flags, call Op_wlock m c))"
| "construct RLock m c = (0, call Op_rlock m c)"
| "construct CriticalRLock m c = (let (flags, c) = section_enter c in (flags, call Op_rlock m c))"

fun destroy :: "guard \<Rightarrow> nat \<Rightarrow> u64 \<Rightarrow> guard_cpu \<Rightarrow> guard_cpu" where
  "destroy CriticalSection m flags c = section_leave flags c"
| "destroy Lock m flags c = call Op_release m c"
| "destroy CriticalLock m flags c = section_leave flags (call Op_release m c)"
| "destroy WLock m flags c = call Op_wrelease m c"
| "destroy CriticalWLock m flags c = section_leave flags (call Op_wrelease m c)"
| "destroy RLock m flags c = call Op_rrelease m c"
| "destroy CriticalRLock m flags c = section_leave flags (call Op_rrelease m c)"

section \<open>Blocks\<close>

text \<open>A guard on a lock, and the blocks that run while it lives.\<close>

datatype scope = Scope guard nat "scope list"

primrec run_scope :: "scope \<Rightarrow> guard_cpu \<Rightarrow> guard_cpu" where
  "run_scope (Scope g m body) c =
     (let (flags, c) = construct g m c; c = fold (\<lambda>f. f) (map run_scope body) c in destroy g m flags c)"

text \<open>Every lock is given back, by the operation that fits, in the reverse order.\<close>

fun undoes :: "lock_op \<Rightarrow> lock_op \<Rightarrow> bool" where
  "undoes Op_release Op_lock = True"
| "undoes Op_wrelease Op_wlock = True"
| "undoes Op_rrelease Op_rlock = True"
| "undoes _ _ = False"

fun takes :: "lock_op \<Rightarrow> bool" where
  "takes p = (p \<in> {Op_lock, Op_wlock, Op_rlock})"

fun held :: "lock_event list \<Rightarrow> (lock_op \<times> nat) list \<Rightarrow> (lock_op \<times> nat) list option" where
  "held [] hs = Some hs"
| "held ((p, m, i) # es) hs =
     (if takes p then held es ((p, m) # hs)
      else (case hs of [] \<Rightarrow> None | (q, k) # hs' \<Rightarrow> if undoes p q \<and> m = k then held es hs' else None))"

definition critical :: "guard \<Rightarrow> bool" where
  "critical g \<longleftrightarrow> g \<in> {CriticalSection, CriticalLock, CriticalWLock, CriticalRLock}"

text \<open>The operations of a block, with the interrupt flag \<open>i\<close> at its start.\<close>

fun taken_by :: "guard \<Rightarrow> (lock_op \<times> lock_op) option" where
  "taken_by CriticalSection = None"
| "taken_by Lock = Some (Op_lock, Op_release)"
| "taken_by CriticalLock = Some (Op_lock, Op_release)"
| "taken_by WLock = Some (Op_wlock, Op_wrelease)"
| "taken_by CriticalWLock = Some (Op_wlock, Op_wrelease)"
| "taken_by RLock = Some (Op_rlock, Op_rrelease)"
| "taken_by CriticalRLock = Some (Op_rlock, Op_rrelease)"

primrec scope_events :: "scope \<Rightarrow> bool \<Rightarrow> lock_event list" where
  "scope_events (Scope g m body) i =
     (let i = (i \<and> \<not> critical g); es = concat (map (\<lambda>f. f i) (map scope_events body))
      in case taken_by g of None \<Rightarrow> es | Some (p, q) \<Rightarrow> (p, m, i) # es @ [(q, m, i)])"

lemma bit9_cleared: "\<not> bit (f AND NOT 0x200 :: u64) 9"
proof -
  have "(0x200 :: u64) = push_bit 9 1" by simp
  then show ?thesis by (simp only: bit_simps) simp
qed

lemma section_effect:
  "fst (section_enter c) = rflags c" "trace (snd (section_enter c)) = trace c" "\<not> bit (rflags (snd (section_enter c))) 9"
  "rflags (section_leave f c) = f" "trace (section_leave f c) = trace c"
  using bit9_cleared by (simp_all add: section_enter_def section_leave_def enter_def leave_def)

lemma run_scope_effect:
  "rflags (run_scope sc c) = rflags c \<and> trace (run_scope sc c) = trace c @ scope_events sc (interrupts_on c)"
proof (induction sc arbitrary: c)
  case (Scope g m body)
  have body: "rflags (fold (\<lambda>f. f) (map run_scope bs) c) = rflags c
      \<and> trace (fold (\<lambda>f. f) (map run_scope bs) c) = trace c @ concat (map (\<lambda>f. f (interrupts_on c)) (map scope_events bs))"
    if "set bs \<subseteq> set body" for bs c
    using that
  proof (induction bs arbitrary: c)
    case (Cons b bs)
    have "interrupts_on (run_scope b c) = interrupts_on c" using Scope.IH [of b c] Cons.prems by (simp add: interrupts_on_def)
    then show ?case using Cons.IH [of "run_scope b c"] Cons.prems Scope.IH [of b c] by simp
  qed simp
  note b = body [OF subset_refl]
  show ?case
    by (cases g; cases "section_enter c")
      (use b section_effect(1-3) [of c] in \<open>auto simp: Let_def call_def critical_def interrupts_on_def section_effect simp del: fold.simps\<close>)
qed

lemma held_append: "held (es @ fs) hs = (case held es hs of None \<Rightarrow> None | Some ks \<Rightarrow> held fs ks)"
  by (induction es hs rule: held.induct) (auto split: list.split)

lemma events_balanced: "held (scope_events sc i) hs = Some hs"
proof (induction sc arbitrary: i hs)
  case (Scope g m body)
  have "held (concat (map (\<lambda>f. f j) (map scope_events bs))) ks = Some ks" if "set bs \<subseteq> set body" for bs j ks
    using that by (induction bs) (auto simp: held_append Scope.IH)
  from this [OF subset_refl] show ?case
    by (cases g) (simp_all add: Let_def held_append critical_def)
qed

lemma events_without_interrupts: "\<not> i \<Longrightarrow> e \<in> set (scope_events sc i) \<Longrightarrow> \<not> snd (snd e)"
proof (induction sc arbitrary: i)
  case (Scope g m body)
  have "\<not> snd (snd e)" if "e \<in> set (concat (map (\<lambda>f. f False) (map scope_events body)))" using that Scope.IH [of _ False] by auto
  then show ?case using Scope.prems by (cases g) (auto simp: Let_def)
qed

fun scope_guard :: "scope \<Rightarrow> guard" where
  "scope_guard (Scope g m body) = g"

lemma critical_events:
  assumes "critical (scope_guard sc)" and "e \<in> set (scope_events sc i)"
  shows "\<not> snd (snd e)"
proof -
  obtain g m body where sc: "sc = Scope g m body" by (cases sc)
  have "scope_events sc i = scope_events sc False" using assms(1) by (simp add: sc)
  with assms(2) show ?thesis using events_without_interrupts by metis
qed

text \<open>
  A block under a guard with a critical section, or one that starts with interrupts disabled,
  performs every lock operation with interrupts disabled, gives back each lock with the
  operation that fits in the reverse order, and leaves the flags register as it found it.
\<close>

theorem guards_nest:
  assumes "critical (scope_guard sc) \<or> bit (rflags c) 9 = False"
  shows "rflags (run_scope sc c) = rflags c
    \<and> (\<exists>es. trace (run_scope sc c) = trace c @ es \<and> (\<forall>hs. held es hs = Some hs) \<and> (\<forall>e \<in> set es. snd (snd e) = False))"
proof -
  let ?es = "scope_events sc (interrupts_on c)"
  have "snd (snd e) = False" if "e \<in> set ?es" for e
    using critical_events [of sc e] events_without_interrupts [of "interrupts_on c" e sc] that assms by (auto simp: interrupts_on_def)
  then show ?thesis using run_scope_effect [of sc c] events_balanced [of sc] by auto
qed

theorem guards_nest_witness:
  "rflags (run_scope (Scope CriticalLock 1 [Scope RLock 2 [], Scope CriticalSection 0 [Scope Lock 3 []]]) \<lparr>rflags = 0x202, trace = []\<rparr>) = 0x202"
  using guards_nest [of "Scope CriticalLock 1 [Scope RLock 2 [], Scope CriticalSection 0 [Scope Lock 3 []]]" "\<lparr>rflags = 0x202, trace = []\<rparr>"]
  by (simp add: critical_def)

text \<open>A guard that does not disable interrupts takes its lock with interrupts enabled, so that an interrupt can find it taken.\<close>

lemma plain_lock_interruptible:
  "trace (run_scope (Scope Lock m []) \<lparr>rflags = 0x202, trace = []\<rparr>) = [(Op_lock, m, True), (Op_release, m, True)]"
proof -
  have "bit (0x202 :: u64) 9" by (simp add: bit_iff_odd)
  then show ?thesis by (simp add: call_def interrupts_on_def)
qed

end
