(* ===== verification/Dynlist.thy ===== *)
theory Dynlist
  imports Prelude "HOL-Library.Multiset"
begin

text \<open>
  \<^verbatim>\<open>src/dynlist/include/list.hpp\<close>: the container \<^verbatim>\<open>List<Item>\<close> the kernel keeps its processes, threads,
  callbacks and module ports in: a chain of pages, each with a counter and room for
  \<^verbatim>\<open>items_per_page\<close> items. The chain is the list of its pages, a page the list of its items.
\<close>

section \<open>The interface\<close>

text \<open>
  What the clients of a \<^verbatim>\<open>List\<close> rely on: positions follow one fixed enumeration of the items, a
  removal closes the gap, an addition puts the item somewhere. \<open>add_item\<close> fails when the page
  allocator does.
\<close>

locale indexed_bag =
  fixes items :: "'l \<Rightarrow> 'a list" and valid :: "'l \<Rightarrow> bool"
    and add_item :: "'a \<Rightarrow> 'l \<Rightarrow> 'l option" and remove_at :: "nat \<Rightarrow> 'l \<Rightarrow> 'l"
    and count_items :: "'l \<Rightarrow> nat" and item_at :: "'l \<Rightarrow> nat \<Rightarrow> 'a option"
  assumes add_valid: "valid l \<Longrightarrow> add_item x l = Some l' \<Longrightarrow> valid l'"
    and add_items: "valid l \<Longrightarrow> add_item x l = Some l' \<Longrightarrow>
      \<exists>xs ys. items l = xs @ ys \<and> items l' = xs @ x # ys"
    and remove_valid: "valid l \<Longrightarrow> valid (remove_at i l)"
    and remove_items: "items (remove_at i l) = take i (items l) @ drop (Suc i) (items l)"
    and count_length: "count_items l = length (items l)"
    and item_at_nth: "item_at l i = (if i < length (items l) then Some (items l ! i) else None)"
begin

lemma add_mset_items:
  "valid l \<Longrightarrow> add_item x l = Some l' \<Longrightarrow> mset (items l') = add_mset x (mset (items l))"
  by (drule (1) add_items) auto

lemma add_count: "valid l \<Longrightarrow> add_item x l = Some l' \<Longrightarrow> count_items l' = Suc (count_items l)"
  by (drule (1) add_items) (auto simp: count_length)

lemma add_item_at:
  assumes "valid l" and "add_item x l = Some l'"
  shows "\<exists>i. item_at l' i = Some x"
proof -
  obtain xs ys where "items l' = xs @ x # ys"
    using add_items [OF assms] by blast
  then have "item_at l' (length xs) = Some x" by (simp add: item_at_nth)
  then show ?thesis ..
qed

lemma item_at_iff: "(\<exists>i. item_at l i = Some x) \<longleftrightarrow> x \<in> set (items l)"
  by (auto simp: item_at_nth in_set_conv_nth split: if_splits)

lemma item_at_defined: "item_at l i = None \<longleftrightarrow> count_items l \<le> i"
  by (auto simp: item_at_nth count_length)

end

section \<open>The page chain\<close>

text \<open>\<^verbatim>\<open>use_hp\<close>, \<^verbatim>\<open>pagesize\<close> and \<^verbatim>\<open>items_per_page\<close>, from the size of the item type.\<close>

definition pagesize :: "nat \<Rightarrow> nat" where
  "pagesize sz = (if sz > 0x100 then 0x200000 else 0x1000)"

definition items_per_page :: "nat \<Rightarrow> nat" where
  "items_per_page sz = (pagesize sz - 16) div sz"

text \<open>
  \<^verbatim>\<open>insert()\<close> followed by the assignment of \<^verbatim>\<open>add\<close>: the first page that is not full takes the item;
  a page is allocated at the end when all are. \<open>ok\<close> is the outcome of that allocation: \<^verbatim>\<open>alloc\<close>
  returns a zeroed page or a null pointer, which the loop dereferences (\<open>None\<close>).
\<close>

fun list_add :: "nat \<Rightarrow> bool \<Rightarrow> 'a \<Rightarrow> 'a list list \<Rightarrow> 'a list list option" where
  "list_add cap ok x [] = (if ok then Some [[x]] else None)"
| "list_add cap ok x (p # ps) =
     (if length p = cap then map_option (Cons p) (list_add cap ok x ps)
      else Some ((p @ [x]) # ps))"

fun list_remove :: "nat \<Rightarrow> 'a list list \<Rightarrow> 'a list list" where
  "list_remove idx [] = []"
| "list_remove idx (p # ps) =
     (if idx < length p then (take idx p @ drop (idx + 1) p) # ps
      else p # list_remove (idx - length p) ps)"

fun getCount :: "'a list list \<Rightarrow> nat" where
  "getCount [] = 0"
| "getCount (p # ps) = length p + getCount ps"

fun list_index :: "'a list list \<Rightarrow> nat \<Rightarrow> 'a option" where
  "list_index [] index = None"
| "list_index (p # ps) index =
     (if index < length p then Some (p ! index) else list_index ps (index - length p))"

definition list_valid :: "nat \<Rightarrow> 'a list list \<Rightarrow> bool" where
  "list_valid cap ps \<longleftrightarrow> 0 < cap \<and> (\<forall>p \<in> set ps. length p \<le> cap)"

section \<open>The chain implements the interface\<close>

lemma list_add_concat:
  "list_add cap ok x ps = Some qs \<Longrightarrow> \<exists>xs ys. concat ps = xs @ ys \<and> concat qs = xs @ x # ys"
proof (induction ps arbitrary: qs)
  case (Cons p ps)
  show ?case
  proof (cases "length p = cap")
    case True
    with Cons.prems obtain rs where rs: "list_add cap ok x ps = Some rs" "qs = p # rs" by auto
    with Cons.IH obtain xs ys where "concat ps = xs @ ys" "concat rs = xs @ x # ys" by blast
    with rs(2) show ?thesis by (intro exI [of _ "p @ xs"] exI [of _ ys]) simp
  next
    case False
    with Cons.prems show ?thesis by (intro exI [of _ p] exI [of _ "concat ps"]) auto
  qed
qed (auto split: if_splits)

lemma list_add_valid: "list_valid cap ps \<Longrightarrow> list_add cap ok x ps = Some qs \<Longrightarrow> list_valid cap qs"
proof (induction ps arbitrary: qs)
  case (Cons p ps)
  from Cons.prems have "list_valid cap ps" "length p \<le> cap" by (simp_all add: list_valid_def)
  with Cons.prems Cons.IH show ?case
    by (auto simp: list_valid_def split: if_splits)
qed (auto simp: list_valid_def split: if_splits)

lemma list_remove_concat:
  "concat (list_remove i ps) = take i (concat ps) @ drop (Suc i) (concat ps)"
  by (induction ps arbitrary: i) (auto simp: Suc_diff_le)

lemma list_remove_valid: "list_valid cap ps \<Longrightarrow> list_valid cap (list_remove i ps)"
  by (induction ps arbitrary: i) (auto simp: list_valid_def)

lemma getCount_concat: "getCount ps = length (concat ps)"
  by (induction ps) auto

lemma list_index_concat:
  "list_index ps i = (if i < length (concat ps) then Some (concat ps ! i) else None)"
  by (induction ps arbitrary: i) (auto simp: nth_append)

interpretation dl: indexed_bag concat "list_valid cap" "list_add cap ok" list_remove getCount list_index
  for cap ok
  by unfold_locales
    (auto intro: list_add_valid list_add_concat list_remove_valid
      simp: list_remove_concat getCount_concat list_index_concat)

text \<open>With a working allocator an addition always succeeds; with a full chain it needs one page.\<close>

lemma list_add_total: "\<exists>qs. list_add cap True x ps = Some qs"
  by (induction ps) auto

lemma list_add_fails: "list_add cap ok x ps = None \<longleftrightarrow> \<not> ok \<and> (\<forall>p \<in> set ps. length p = cap)"
  by (induction ps) auto

lemma items_per_page_pos: "0 < sz \<Longrightarrow> sz \<le> pagesize sz - 16 \<Longrightarrow> 0 < items_per_page sz"
  by (simp add: items_per_page_def div_greater_zero_iff)

lemma items_per_page_fits: "sz * items_per_page sz + 16 \<le> pagesize sz"
proof -
  have "sz * items_per_page sz \<le> pagesize sz - 16"
    by (simp add: items_per_page_def)
  moreover have "16 \<le> pagesize sz" by (simp add: pagesize_def)
  ultimately show ?thesis by linarith
qed

text \<open>
  List::add fails only when every page is full and no page can be allocated; otherwise the
  item is found by an index afterwards, the count grows by one, the other items stay, and no
  page exceeds its capacity.
\<close>

theorem list_add_lookup:
  assumes "list_valid cap l"
  shows "(list_add cap ok x l = None \<longleftrightarrow> \<not> ok \<and> (\<forall>p \<in> set l. length p = cap))
    \<and> (\<forall>l'. list_add cap ok x l = Some l' \<longrightarrow>
          list_valid cap l' \<and> getCount l' = getCount l + 1
          \<and> (\<exists>i. list_index l' i = Some x)
          \<and> mset (concat l') = add_mset x (mset (concat l)))"
  using dl.add_valid [OF assms] dl.add_count [OF assms] dl.add_item_at [OF assms]
    dl.add_mset_items [OF assms] list_add_fails [of cap ok x l]
  by simp

theorem list_add_lookup_witness:
  "list_add (items_per_page 0x700) True (5 :: nat) [] \<noteq> None
   \<and> getCount (the (list_add (items_per_page 0x700) True (5 :: nat) [])) = 1"
proof -
  have "list_valid (items_per_page 0x700) ([] :: nat list list)"
    by (simp add: list_valid_def items_per_page_def pagesize_def)
  from list_add_lookup [OF this, of True 5] show ?thesis by simp
qed

text \<open>
  List::remove(i) closes the gap: items before position i keep their index, later ones move
  down by one, the count drops by one; an index out of range changes nothing.
\<close>

theorem list_remove_index:
  "list_index (list_remove i l) j
     = (if i < getCount l
        then list_index l (if j < i then j else j + 1)
        else list_index l j)
   \<and> getCount (list_remove i l) = (if i < getCount l then getCount l - 1 else getCount l)"
  by (auto simp: list_index_concat list_remove_concat getCount_concat nth_append min_def)

end
