(* ===== verification/Scheduler.thy ===== *)
theory Scheduler
  imports Dynlist "HOL-Library.Monad_Syntax"
begin

text \<open>
  \<^verbatim>\<open>src/scheduler/scheduler.cpp\<close> with the structures of \<^verbatim>\<open>thread.hpp\<close>, \<^verbatim>\<open>interrupts.hpp\<close> and
  \<^verbatim>\<open>process.hpp\<close> it works on: the queue of runnable threads, a linked list of \<^verbatim>\<open>QueuedThread\<close>
  nodes, the node each CPU runs, and the list of processes. The nodes, threads and processes are
  objects in a store, a map from addresses to records; \<^verbatim>\<open>new\<close> is given the address it returns,
  \<^verbatim>\<open>delete\<close> removes the object. The result \<open>None\<close> of an operation is an access through a null or
  dangling pointer, or a loop that does not end. The lock \<^verbatim>\<open>processSwitchMutex\<close> makes each
  operation one step.
\<close>

section \<open>State\<close>

record gregs =
  rax :: u64  rcx :: u64  rdx :: u64  rbx :: u64
  rbp :: u64  rsi :: u64  rdi :: u64
  r8 :: u64   r9 :: u64   r10 :: u64  r11 :: u64
  r12 :: u64  r13 :: u64  r14 :: u64  r15 :: u64

record thread =
  t_rip :: u64
  t_rflags :: u64
  t_rsp :: u64
  t_regs :: gregs
  t_sse :: "u64 list"
  suspend_ticks :: u64
  stack_top :: u64

record cbinfo =
  cr3 :: u64
  rip :: u64
  rflags :: u64
  rsp :: u64
  cs :: u16
  ss :: u16
  dpl :: u8

record callback_regs =
  cpuid :: u32
  info :: cbinfo
  general :: gregs
  sse :: "u64 list"

record queued_thread =
  q_process :: u64
  q_thread :: u64
  q_next :: u64

text \<open>The fields of \<^verbatim>\<open>Process\<close> the scheduler reads and writes.\<close>

record process =
  p_id :: u64
  p_entry :: u64
  p_threads :: "u64 list list"
  p_pagetable :: u64

record scheduler =
  qheap :: "u64 \<rightharpoonup> queued_thread"
  theap :: "u64 \<rightharpoonup> thread"
  pheap :: "u64 \<rightharpoonup> process"
  nextThread :: u64
  lastThread :: u64
  cpuThreads :: "nat \<Rightarrow> u64"
  cpuCount :: nat
  processes :: "u64 list list"
  m_pid :: u64

text \<open>
  \<^verbatim>\<open>init\<close> resets the pid counter and allocates the zeroed array of the per-CPU nodes; the queue
  pointers and the list are null from the static initialiser.
\<close>

definition scheduler_init :: "nat \<Rightarrow> (u64 \<rightharpoonup> process) \<Rightarrow> scheduler" where
  "scheduler_init cpus ps =
     \<lparr>qheap = Map.empty, theap = Map.empty, pheap = ps, nextThread = 0, lastThread = 0,
      cpuThreads = (\<lambda>_. 0), cpuCount = cpus, processes = [], m_pid = 0\<rparr>"

section \<open>Operations\<close>

text \<open>The first half of a switch: the running thread is saved and put at the end of the queue.\<close>

definition save_current :: "callback_regs \<Rightarrow> scheduler \<Rightarrow> scheduler option" where
  "save_current regs s = do {
     let cth = cpuThreads s (unat (cpuid regs));
     c \<leftarrow> qheap s cth;
     th \<leftarrow> theap s (q_thread c);
     let th = th\<lparr>t_rip := rip (info regs), t_rflags := rflags (info regs),
                 t_rsp := rsp (info regs), t_regs := general regs, t_sse := sse regs\<rparr>;
     let s = s\<lparr>theap := (theap s)(q_thread c \<mapsto> th)\<rparr>;
     if lastThread s \<noteq> 0 then do {
       l \<leftarrow> qheap s (lastThread s);
       Some (s\<lparr>qheap := (qheap s)(lastThread s \<mapsto> l\<lparr>q_next := cth\<rparr>), lastThread := cth\<rparr>)
     } else Some (s\<lparr>nextThread := cth, lastThread := cth\<rparr>)
   }"

text \<open>\<open>loopbase\<close> and \<open>looptop\<close> delimit the code of \<^verbatim>\<open>process_loop\<close>, the idle loop.\<close>

definition SwitchProcess ::
    "u64 \<Rightarrow> u64 \<Rightarrow> callback_regs \<Rightarrow> scheduler \<Rightarrow> (bool \<times> callback_regs \<times> scheduler) option" where
  "SwitchProcess loopbase looptop regs s =
     (if dpl (info regs) = 0 \<and> (rip (info regs) < loopbase \<or> looptop \<le> rip (info regs))
      then Some (False, regs, s)
      else if nextThread s = 0 then Some (False, regs, s)
      else do {
        let thread = nextThread s;
        q \<leftarrow> qheap s thread;
        let s = s\<lparr>nextThread := q_next q\<rparr>;
        let s = (if thread = lastThread s then s\<lparr>lastThread := 0\<rparr> else s);
        s \<leftarrow> (if cpuThreads s (unat (cpuid regs)) \<noteq> 0 then save_current regs s else Some s);
        let s = s\<lparr>cpuThreads := (cpuThreads s)(unat (cpuid regs) := thread)\<rparr>;
        q \<leftarrow> qheap s thread;
        th \<leftarrow> theap s (q_thread q);
        p \<leftarrow> pheap s (q_process q);
        Some (True,
              regs\<lparr>info := \<lparr>cr3 = p_pagetable p, rip = t_rip th, rflags = t_rflags th,
                            rsp = t_rsp th, cs = 0x20, ss = 0x18, dpl = 3\<rparr>,
                   general := t_regs th, sse := t_sse th\<rparr>,
              s)
      })"

text \<open>\<^verbatim>\<open>lastThread = lastThread ? (lastThread->next = q) : (nextThread = q)\<close>\<close>

definition enqueue :: "u64 \<Rightarrow> scheduler \<Rightarrow> scheduler option" where
  "enqueue q s =
     (if lastThread s \<noteq> 0 then do {
        l \<leftarrow> qheap s (lastThread s);
        Some (s\<lparr>qheap := (qheap s)(lastThread s \<mapsto> l\<lparr>q_next := q\<rparr>), lastThread := q\<rparr>)
      } else Some (s\<lparr>nextThread := q, lastThread := q\<rparr>))"

definition queueThread :: "u64 \<Rightarrow> u64 \<Rightarrow> u64 \<Rightarrow> scheduler \<Rightarrow> scheduler option" where
  "queueThread q process thread s =
     enqueue q (s\<lparr>qheap := (qheap s)(q \<mapsto> \<lparr>q_process = process, q_thread = thread, q_next = 0\<rparr>)\<rparr>)"

text \<open>
  The loop over the process list in \<^verbatim>\<open>registerProcess\<close>, over the positions \<open>0\<close> to
  \<^verbatim>\<open>getCount() - 1\<close>.
\<close>

fun pid_scan :: "scheduler \<Rightarrow> nat list \<Rightarrow> u64 \<Rightarrow> u64 option" where
  "pid_scan s [] pid = Some pid"
| "pid_scan s (i # is) pid = do {
     pp \<leftarrow> list_index (processes s) i;
     p \<leftarrow> pheap s pp;
     pid_scan s is (if pid \<le> p_id p then p_id p + 1 else pid)
   }"

text \<open>
  \<open>th\<close> and \<open>q\<close> are the addresses of the two new objects, \<open>junk\<close> the contents of the memory of the
  thread's \<^verbatim>\<open>sse\<close> area (its constructor leaves it as it is), \<open>stack\<close> the result of
  \<^verbatim>\<open>process->addSection\<close>, \<open>ok1\<close> and \<open>ok2\<close> the outcomes of the page allocations of the two lists.
\<close>

definition zero_gregs :: gregs where
  "zero_gregs = \<lparr>rax = 0, rcx = 0, rdx = 0, rbx = 0, rbp = 0, rsi = 0, rdi = 0, r8 = 0, r9 = 0,
     r10 = 0, r11 = 0, r12 = 0, r13 = 0, r14 = 0, r15 = 0\<rparr>"

definition mxcsr_word :: u64 where
  "mxcsr_word = 0x0000ffff00001F80"

record new_objects =
  new_thread :: u64
  new_node :: u64
  junk_sse :: "u64 list"
  stack_base :: u64
  ok_processes :: bool
  ok_threads :: bool

definition registerProcess :: "new_objects \<Rightarrow> u64 \<Rightarrow> scheduler \<Rightarrow> (u64 \<times> scheduler) option" where
  "registerProcess n process s = do {
     p \<leftarrow> pheap s process;
     let top = stack_base n + 0x200000 - 0x8;
     let th = \<lparr>t_rip = p_entry p, t_rflags = 0, t_rsp = top, t_regs = zero_gregs,
               t_sse = (junk_sse n)[3 := mxcsr_word], suspend_ticks = 0, stack_top = top\<rparr>;
     let s = s\<lparr>theap := (theap s)(new_thread n \<mapsto> th)\<rparr>;
     let node = \<lparr>q_process = process, q_thread = new_thread n, q_next = 0\<rparr>;
     let s = s\<lparr>qheap := (qheap s)(new_node n \<mapsto> node)\<rparr>;
     let s = s\<lparr>m_pid := m_pid s + 1\<rparr>;
     pid \<leftarrow> pid_scan s [0..<getCount (processes s)] (m_pid s);
     ps \<leftarrow> list_add (items_per_page 8) (ok_processes n) process (processes s);
     ts \<leftarrow> list_add (items_per_page 8) (ok_threads n) (new_thread n) (p_threads p);
     let s = s\<lparr>processes := ps, pheap := (pheap s)(process \<mapsto> p\<lparr>p_id := pid, p_threads := ts\<rparr>)\<rparr>;
     s \<leftarrow> enqueue (new_node n) s;
     Some (pid, s)
   }"

text \<open>
  The unlinking loop \<^verbatim>\<open>exitProcess\<close> and \<^verbatim>\<open>dequeueThread\<close> share; \<open>hit\<close> is the test on the node
  (its process or its thread is the one to remove), \<open>unlink_node\<close> the part of the body that
  takes the node \<open>nxt\<close> with the contents \<open>q\<close> out of the queue and deletes it.
\<close>

definition unlink_node :: "u64 \<Rightarrow> u64 \<Rightarrow> queued_thread \<Rightarrow> scheduler \<Rightarrow> scheduler option" where
  "unlink_node prev nxt q s = do {
     s \<leftarrow> (if prev = 0 then Some (s\<lparr>nextThread := q_next q\<rparr>)
           else do {
             p \<leftarrow> qheap s prev;
             Some (s\<lparr>qheap := (qheap s)(prev \<mapsto> p\<lparr>q_next := q_next q\<rparr>)\<rparr>)
           });
     let s = (if lastThread s = nxt then s\<lparr>lastThread := prev\<rparr> else s);
     Some (s\<lparr>qheap := (qheap s)(nxt := None)\<rparr>)
   }"

partial_function (option) unlink_loop ::
    "(queued_thread \<Rightarrow> bool) \<Rightarrow> u64 \<Rightarrow> u64 \<Rightarrow> scheduler \<Rightarrow> scheduler option" where
  "unlink_loop hit prev nxt s =
     (if nxt = 0 then Some s
      else do {
        q \<leftarrow> qheap s nxt;
        if \<not> hit q then unlink_loop hit nxt (q_next q) s
        else do {
          s \<leftarrow> unlink_node prev nxt q s;
          n \<leftarrow> (if prev = 0 then Some (nextThread s) else map_option q_next (qheap s prev));
          unlink_loop hit prev n s
        }
      })"

fun drop_cpus :: "(queued_thread \<Rightarrow> bool) \<Rightarrow> nat list \<Rightarrow> scheduler \<Rightarrow> scheduler option" where
  "drop_cpus hit [] s = Some s"
| "drop_cpus hit (cpu # cpus) s =
     (let c = cpuThreads s cpu
      in if c = 0 then drop_cpus hit cpus s
         else do {
           q \<leftarrow> qheap s c;
           if \<not> hit q then drop_cpus hit cpus s
           else drop_cpus hit cpus
             (s\<lparr>qheap := (qheap s)(c := None), cpuThreads := (cpuThreads s)(cpu := 0)\<rparr>)
         })"

definition dequeueThread :: "u64 \<Rightarrow> scheduler \<Rightarrow> scheduler option" where
  "dequeueThread thread s = do {
     s \<leftarrow> unlink_loop (\<lambda>q. q_thread q = thread) 0 (nextThread s) s;
     drop_cpus (\<lambda>q. q_thread q = thread) [0..<cpuCount s] s
   }"

text \<open>The loop of \<^verbatim>\<open>exitProcess\<close> over the process list, from the last position down.\<close>

fun purge :: "('l \<Rightarrow> nat \<Rightarrow> 'a option) \<Rightarrow> (nat \<Rightarrow> 'l \<Rightarrow> 'l) \<Rightarrow> 'a \<Rightarrow> nat \<Rightarrow> 'l \<Rightarrow> 'l" where
  "purge at del x 0 l = l"
| "purge at del x (Suc i) l = purge at del x i (if at l i = Some x then del i l else l)"

text \<open>
  \<^verbatim>\<open>delete process\<close>: the destructor deletes the threads in the process's list and frees its
  address space, which is not part of the scheduler's state.
\<close>

fun delete_threads :: "u64 list \<Rightarrow> scheduler \<Rightarrow> scheduler option" where
  "delete_threads [] s = Some s"
| "delete_threads (t # ts) s = do {
     th \<leftarrow> theap s t;
     delete_threads ts (s\<lparr>theap := (theap s)(t := None)\<rparr>)
   }"

definition delete_process :: "u64 \<Rightarrow> scheduler \<Rightarrow> scheduler option" where
  "delete_process process s = do {
     p \<leftarrow> pheap s process;
     s \<leftarrow> delete_threads (concat (p_threads p)) s;
     Some (s\<lparr>pheap := (pheap s)(process := None)\<rparr>)
   }"

definition exitProcess :: "u64 \<Rightarrow> scheduler \<Rightarrow> scheduler option" where
  "exitProcess process s = do {
     s \<leftarrow> unlink_loop (\<lambda>q. q_process q = process) 0 (nextThread s) s;
     s \<leftarrow> drop_cpus (\<lambda>q. q_process q = process) [0..<cpuCount s] s;
     let s = s\<lparr>processes := purge list_index list_remove process (getCount (processes s)) (processes s)\<rparr>;
     delete_process process s
   }"

definition currentProcess :: "nat \<Rightarrow> scheduler \<Rightarrow> u64 option" where
  "currentProcess cpu s =
     (if cpuThreads s cpu = 0 then Some 0 else map_option q_process (qheap s (cpuThreads s cpu)))"

text \<open>
  \<^verbatim>\<open>HandleFault\<close>, without its output (\<^verbatim>\<open>PrintFault\<close>); \<open>kcr3\<close> is the value of the \<^verbatim>\<open>cr3\<close> register.
\<close>

definition HandleFault ::
    "u64 \<Rightarrow> u64 \<Rightarrow> u64 \<Rightarrow> callback_regs \<Rightarrow> scheduler \<Rightarrow> (bool \<times> callback_regs \<times> scheduler) option" where
  "HandleFault loopbase looptop kcr3 regs s = do {
     let thread = cpuThreads s (unat (cpuid regs));
     let s = s\<lparr>cpuThreads := (cpuThreads s)(unat (cpuid regs) := 0)\<rparr>;
     if thread = 0 then Some (False, regs, s)
     else do {
       q \<leftarrow> qheap s thread;
       s \<leftarrow> delete_process (q_process q) s;
       let s = s\<lparr>qheap := (qheap s)(thread := None)\<rparr>;
       (switched, regs, s) \<leftarrow> SwitchProcess loopbase looptop regs s;
       if switched then Some (True, regs, s)
       else Some (True,
         regs\<lparr>info := (info regs)\<lparr>cr3 := kcr3, rip := loopbase, cs := 0x08, ss := 0x10, dpl := 0\<rparr>,
              sse := (sse regs)[3 := mxcsr_word]\<rparr>,
         s)
     }
   }"

section \<open>The queue as a chain of nodes\<close>

text \<open>The nodes \<open>xs\<close>, linked one to the next from \<open>a\<close>; the last one's link is \<open>b\<close>.\<close>

fun chain :: "(u64 \<rightharpoonup> queued_thread) \<Rightarrow> u64 \<Rightarrow> u64 list \<Rightarrow> u64 \<Rightarrow> bool" where
  "chain h a [] b \<longleftrightarrow> a = b"
| "chain h a (x # xs) b \<longleftrightarrow>
     a = x \<and> x \<noteq> 0 \<and> (case h x of None \<Rightarrow> False | Some q \<Rightarrow> chain h (q_next q) xs b)"

text \<open>
  The queue holds the nodes \<open>xs\<close>, in this order, and the link of its last node is \<open>z\<close>. The code
  reads that link only when the last node is taken while the CPU has no thread to put back, so
  it need not be null.
\<close>

definition queue_is :: "scheduler \<Rightarrow> u64 list \<Rightarrow> u64 \<Rightarrow> bool" where
  "queue_is s xs z \<longleftrightarrow>
     chain (qheap s) (nextThread s) xs z \<and> distinct xs
     \<and> lastThread s = (if xs = [] then 0 else last xs) \<and> (xs = [] \<longrightarrow> z = 0)"

lemma chain_append: "chain h a (xs @ ys) b \<longleftrightarrow> (\<exists>c. chain h a xs c \<and> chain h c ys b)"
  by (induction xs arbitrary: a) (auto split: option.splits)

lemma chain_upd_other: "x \<notin> set xs \<Longrightarrow> chain (h(x := v)) a xs b = chain h a xs b"
  by (induction xs arbitrary: a) (auto split: option.splits)

lemma chain_nonnull: "chain h a xs b \<Longrightarrow> x \<in> set xs \<Longrightarrow> x \<noteq> 0 \<and> (\<exists>q. h x = Some q)"
  by (induction xs arbitrary: a) (auto split: option.splits)

lemma chain_relink:
  assumes "chain h a xs b" and "xs \<noteq> []" and "distinct xs" and "h (last xs) = Some l"
  shows "chain (h(last xs \<mapsto> l\<lparr>q_next := c\<rparr>)) a xs c"
proof -
  obtain ys x where xs: "xs = ys @ [x]" using assms(2) by (cases xs rule: rev_cases) auto
  with assms(1) obtain d where "chain h a ys d" "chain h d [x] b" by (auto simp: chain_append)
  with xs assms(3,4) show ?thesis by (auto simp: chain_append chain_upd_other)
qed

text \<open>What relinking the queue leaves alone.\<close>

definition relinked :: "scheduler \<Rightarrow> scheduler \<Rightarrow> bool" where
  "relinked s t \<longleftrightarrow>
     (\<forall>a. map_option q_thread (qheap t a) = map_option q_thread (qheap s a)
          \<and> map_option q_process (qheap t a) = map_option q_process (qheap s a))
     \<and> theap t = theap s \<and> pheap t = pheap s \<and> cpuThreads t = cpuThreads s
     \<and> cpuCount t = cpuCount s \<and> processes t = processes s \<and> m_pid t = m_pid s"

text \<open>
  Appending a node \<open>q\<close> to the queue, which for this need not be closed: the enqueueing code reads
  \<^verbatim>\<open>lastThread\<close> only, and \<^verbatim>\<open>nextThread\<close> may be stale when the queue is empty.
\<close>

definition open_queue :: "scheduler \<Rightarrow> u64 list \<Rightarrow> bool" where
  "open_queue s xs \<longleftrightarrow>
     (xs \<noteq> [] \<longrightarrow> (\<exists>z. chain (qheap s) (nextThread s) xs z)) \<and> distinct xs
     \<and> lastThread s = (if xs = [] then 0 else last xs)"

lemma queue_is_open: "queue_is s xs z \<Longrightarrow> open_queue s xs"
  by (auto simp: queue_is_def open_queue_def)

lemma queue_append:
  assumes "open_queue s xs" and "q \<noteq> 0" and "q \<notin> set xs" and "qheap s q = Some n"
  shows "\<exists>s'. enqueue q s = Some s' \<and> queue_is s' (xs @ [q]) (q_next n) \<and> relinked s s'"
proof (cases "xs = []")
  case True
  then have "enqueue q s = Some (s\<lparr>nextThread := q, lastThread := q\<rparr>)"
    using assms(1) by (simp add: enqueue_def open_queue_def)
  moreover have "queue_is (s\<lparr>nextThread := q, lastThread := q\<rparr>) (xs @ [q]) (q_next n)"
    using True assms by (simp add: queue_is_def)
  moreover have "relinked s (s\<lparr>nextThread := q, lastThread := q\<rparr>)" by (simp add: relinked_def)
  ultimately show ?thesis by blast
next
  case False
  define t where "t = last xs"
  have t: "t \<in> set xs" "lastThread s = t" using False assms(1) by (auto simp: open_queue_def t_def)
  obtain z where ch: "chain (qheap s) (nextThread s) xs z" and d: "distinct xs"
    using assms(1) False by (auto simp: open_queue_def)
  obtain l where l: "qheap s t = Some l" and t0: "t \<noteq> 0"
    using chain_nonnull [OF ch t(1)] by blast
  let ?h = "(qheap s)(t \<mapsto> l\<lparr>q_next := q\<rparr>)"
  let ?s = "s\<lparr>qheap := ?h, lastThread := q\<rparr>"
  have enq: "enqueue q s = Some ?s" using t0 l by (simp add: enqueue_def t(2))
  have "chain ?h (nextThread s) xs q"
    using chain_relink [OF ch False d, of l q] l by (simp add: t_def)
  moreover have "?h q = Some n" using assms(3,4) t(1) by auto
  ultimately have "queue_is ?s (xs @ [q]) (q_next n)"
    using d assms(2,3) by (auto simp: queue_is_def chain_append)
  moreover have "relinked s ?s" using l by (auto simp: relinked_def)
  ultimately show ?thesis using enq by blast
qed

lemma queueThread_queue:
  assumes "queue_is s xs z" and "q \<noteq> 0" and "qheap s q = None"
  shows "\<exists>s'. queueThread q p t s = Some s' \<and> queue_is s' (xs @ [q]) 0
    \<and> relinked (s\<lparr>qheap := (qheap s)(q \<mapsto> \<lparr>q_process = p, q_thread = t, q_next = 0\<rparr>)\<rparr>) s'"
proof -
  let ?n = "\<lparr>q_process = p, q_thread = t, q_next = 0\<rparr>"
  let ?s = "s\<lparr>qheap := (qheap s)(q \<mapsto> ?n)\<rparr>"
  have q: "q \<notin> set xs"
    using assms(1,3) chain_nonnull by (fastforce simp: queue_is_def)
  then have "queue_is ?s xs z"
    using assms(1) by (simp add: queue_is_def chain_upd_other)
  from queue_append [OF queue_is_open [OF this] assms(2) q, of ?n] show ?thesis by (simp add: queueThread_def)
qed

section \<open>Switching\<close>

lemma save_current_enqueue:
  assumes "cpuThreads s (unat (cpuid regs)) = cth" and "qheap s cth = Some c"
    and "theap s (q_thread c) = Some th"
  shows "save_current regs s =
    enqueue cth (s\<lparr>theap := (theap s)(q_thread c \<mapsto>
      th\<lparr>t_rip := rip (info regs), t_rflags := rflags (info regs), t_rsp := rsp (info regs),
         t_regs := general regs, t_sse := sse regs\<rparr>)\<rparr>)"
  using assms by (simp add: save_current_def enqueue_def)

text \<open>
  Taking the first node leaves an open queue; it is closed again unless the node was the last one
  and its link was stale.
\<close>

definition popped :: "queued_thread \<Rightarrow> u64 \<Rightarrow> scheduler \<Rightarrow> scheduler" where
  "popped q x s = s\<lparr>nextThread := q_next q, lastThread := (if x = lastThread s then 0 else lastThread s)\<rparr>"

lemma queue_pop:
  assumes "queue_is s (x # xs) z" and "qheap s x = Some q"
  shows "nextThread s = x" and "x \<noteq> 0" and "x \<notin> set xs"
    and "open_queue (popped q x s) xs" and "xs \<noteq> [] \<or> z = 0 \<Longrightarrow> queue_is (popped q x s) xs z"
proof -
  have "x \<noteq> last xs" if "xs \<noteq> []"
    using assms(1) that by (auto simp: queue_is_def)
  then show "nextThread s = x" "x \<noteq> 0" "x \<notin> set xs" "open_queue (popped q x s) xs"
    "xs \<noteq> [] \<or> z = 0 \<Longrightarrow> queue_is (popped q x s) xs z"
    using assms by (auto simp: queue_is_def open_queue_def popped_def)
qed

text \<open>The registers handed back to the interrupted CPU.\<close>

definition resume :: "thread \<Rightarrow> process \<Rightarrow> callback_regs \<Rightarrow> callback_regs" where
  "resume th p regs =
     regs\<lparr>info := \<lparr>cr3 = p_pagetable p, rip = t_rip th, rflags = t_rflags th,
                    rsp = t_rsp th, cs = 0x20, ss = 0x18, dpl = 3\<rparr>,
          general := t_regs th, sse := t_sse th\<rparr>"

definition saved :: "callback_regs \<Rightarrow> thread \<Rightarrow> thread" where
  "saved regs th =
     th\<lparr>t_rip := rip (info regs), t_rflags := rflags (info regs), t_rsp := rsp (info regs),
        t_regs := general regs, t_sse := sse regs\<rparr>"

definition preemptible :: "u64 \<Rightarrow> u64 \<Rightarrow> callback_regs \<Rightarrow> bool" where
  "preemptible loopbase looptop regs \<longleftrightarrow>
     dpl (info regs) \<noteq> 0 \<or> (loopbase \<le> rip (info regs) \<and> rip (info regs) < looptop)"

lemma SwitchProcess_pop:
  assumes "preemptible lb lt regs" and "queue_is s (x # xs) z" and "qheap s x = Some q"
  shows "SwitchProcess lb lt regs s = do {
    s \<leftarrow> (if cpuThreads s (unat (cpuid regs)) \<noteq> 0 then save_current regs (popped q x s)
         else Some (popped q x s));
    let s = s\<lparr>cpuThreads := (cpuThreads s)(unat (cpuid regs) := x)\<rparr>;
    q \<leftarrow> qheap s x;
    th \<leftarrow> theap s (q_thread q);
    p \<leftarrow> pheap s (q_process q);
    Some (True, resume th p regs, s)
  }"
proof -
  have x: "nextThread s = x" "x \<noteq> 0" using queue_pop [OF assms(2,3)] by auto
  have "(if x = lastThread s then s\<lparr>nextThread := q_next q, lastThread := 0\<rparr>
         else s\<lparr>nextThread := q_next q\<rparr>) = popped q x s"
    by (simp add: popped_def)
  moreover have "cpuThreads (popped q x s) = cpuThreads s" by (simp add: popped_def)
  ultimately show ?thesis
    using assms(1,3) x
    by (auto simp: SwitchProcess_def preemptible_def resume_def Let_def cong: if_cong)
qed

lemma relinkedD:
  assumes "relinked s t" and "qheap s a = Some q"
  shows "\<exists>q'. qheap t a = Some q' \<and> q_thread q' = q_thread q \<and> q_process q' = q_process q"
proof -
  have "map_option q_thread (qheap t a) = Some (q_thread q)"
    "map_option q_process (qheap t a) = Some (q_process q)"
    using assms by (simp_all add: relinked_def)
  then show ?thesis by auto
qed

lemma relinked_None: "relinked s t \<Longrightarrow> (qheap t a = None) = (qheap s a = None)"
  by (metis map_option_is_None relinked_def)

lemma popped_simps [simp]:
  "qheap (popped q x s) = qheap s" "theap (popped q x s) = theap s" "pheap (popped q x s) = pheap s"
  "cpuThreads (popped q x s) = cpuThreads s" "processes (popped q x s) = processes s"
  "cpuCount (popped q x s) = cpuCount s" "m_pid (popped q x s) = m_pid s"
  by (simp_all add: popped_def)

lemma switch_busy:
  assumes mode: "preemptible loopbase looptop regs"
    and queue: "queue_is s (x # xs) z" and x: "qheap s x = Some qx"
    and tx: "theap s (q_thread qx) = Some thx" and px: "pheap s (q_process qx) = Some p"
    and cur: "cpuThreads s (unat (cpuid regs)) = cth" "cth \<noteq> 0" "cth \<notin> set (x # xs)"
    and c: "qheap s cth = Some qc" "theap s (q_thread qc) = Some thc" "q_thread qc \<noteq> q_thread qx"
  shows "\<exists>s'. SwitchProcess loopbase looptop regs s = Some (True, resume thx p regs, s')
    \<and> queue_is s' (xs @ [cth]) (q_next qc)
    \<and> cpuThreads s' = (cpuThreads s)(unat (cpuid regs) := x)
    \<and> theap s' = (theap s)(q_thread qc \<mapsto> saved regs thc)
    \<and> pheap s' = pheap s \<and> processes s' = processes s
    \<and> (\<forall>a. (qheap s' a = None) = (qheap s a = None))"
proof -
  let ?s1 = "popped qx x s"
  let ?s2 = "?s1\<lparr>theap := (theap s)(q_thread qc \<mapsto> saved regs thc)\<rparr>"
  have "open_queue ?s2 xs"
    using queue_pop(4) [OF queue x] by (simp add: open_queue_def)
  moreover have "qheap ?s2 cth = Some qc" using c by simp
  ultimately obtain s3 where s3: "enqueue cth ?s2 = Some s3" "queue_is s3 (xs @ [cth]) (q_next qc)"
      "relinked ?s2 s3"
    using queue_append [of ?s2 xs cth qc] cur by auto
  have "save_current regs ?s1 = Some s3"
    using save_current_enqueue [of ?s1 regs cth qc thc] cur c s3(1) by (simp add: saved_def)
  moreover obtain q' where "qheap s3 x = Some q'" "q_thread q' = q_thread qx" "q_process q' = q_process qx"
    using relinkedD [OF s3(3), of x qx] x by auto
  moreover have "theap s3 = (theap s)(q_thread qc \<mapsto> saved regs thc)" "pheap s3 = pheap s"
    "cpuThreads s3 = cpuThreads s" "processes s3 = processes s"
    "(qheap s3 a = None) = (qheap s a = None)" for a
    using s3(3) relinked_None [OF s3(3), of a] by (simp_all add: relinked_def)
  ultimately show ?thesis
    using SwitchProcess_pop [OF mode queue x] cur c(3) tx px s3(2)
    by (simp add: queue_is_def)
qed

lemma switch_idle:
  assumes mode: "preemptible loopbase looptop regs"
    and queue: "queue_is s (x # xs) z" and x: "qheap s x = Some qx"
    and tx: "theap s (q_thread qx) = Some thx" and px: "pheap s (q_process qx) = Some p"
    and idle: "cpuThreads s (unat (cpuid regs)) = 0"
    and link: "xs \<noteq> [] \<or> z = 0"
  shows "\<exists>s'. SwitchProcess loopbase looptop regs s = Some (True, resume thx p regs, s')
    \<and> queue_is s' xs z \<and> cpuThreads s' = (cpuThreads s)(unat (cpuid regs) := x)
    \<and> theap s' = theap s \<and> pheap s' = pheap s \<and> processes s' = processes s \<and> qheap s' = qheap s"
  using SwitchProcess_pop [OF mode queue x] queue_pop(5) [OF queue x link] x tx px idle
  by (simp add: queue_is_def)

text \<open>
  SwitchProcess returns false and changes nothing exactly when the interrupt hit kernel code
  outside the idle loop or the queue is empty; it never reports false after changing
  something.
\<close>

theorem switch_declined:
  "(SwitchProcess loopbase looptop regs s = Some (False, regs, s))
   = (\<not> (preemptible loopbase looptop regs \<and> nextThread s \<noteq> 0))"
proof (cases "\<not> (preemptible loopbase looptop regs \<and> nextThread s \<noteq> 0)")
  case True
  then show ?thesis by (auto simp: SwitchProcess_def preemptible_def not_le not_less)
next
  case False
  then show ?thesis
    by (auto simp: SwitchProcess_def preemptible_def Let_def bind_eq_Some_conv
        simp del: split_paired_Ex split: if_split_asm)
qed

section \<open>Removing nodes\<close>

text \<open>The objects of \<open>t\<close> are those of \<open>s\<close> up to links, without the nodes in \<open>D\<close>.\<close>

definition without :: "u64 set \<Rightarrow> scheduler \<Rightarrow> scheduler \<Rightarrow> bool" where
  "without D s t \<longleftrightarrow>
     (\<forall>a \<in> D. qheap t a = None)
     \<and> (\<forall>a. a \<notin> D \<longrightarrow>
          map_option q_thread (qheap t a) = map_option q_thread (qheap s a)
          \<and> map_option q_process (qheap t a) = map_option q_process (qheap s a))
     \<and> theap t = theap s \<and> pheap t = pheap s \<and> cpuThreads t = cpuThreads s
     \<and> cpuCount t = cpuCount s \<and> processes t = processes s \<and> m_pid t = m_pid s"

lemma without_trans: "without D s t \<Longrightarrow> without E t u \<Longrightarrow> E \<inter> D = {} \<Longrightarrow> without (D \<union> E) s u"
  by (auto simp: without_def)

lemma without_empty: "without {} s s"
  by (simp add: without_def)

lemma chain_head: "chain h a xs 0 \<Longrightarrow> a = (if xs = [] then 0 else hd xs)"
  by (cases xs) auto

lemma unlink_node_queue:
  assumes queue: "queue_is s (ys @ x # xs) 0" and q: "qheap s x = Some q"
    and prev: "prev = (if ys = [] then 0 else last ys)"
  shows "\<exists>s'. unlink_node prev x q s = Some s' \<and> queue_is s' (ys @ xs) 0 \<and> without {x} s s'
    \<and> (if prev = 0 then Some (nextThread s') else map_option q_next (qheap s' prev)) = Some (q_next q)"
proof -
  have ch: "chain (qheap s) (nextThread s) ys x" "chain (qheap s) (q_next q) xs 0"
    and d: "distinct ys" "distinct xs" "x \<notin> set ys" "x \<notin> set xs" "set ys \<inter> set xs = {}"
    and lt: "lastThread s = last (x # xs)" and x0: "x \<noteq> 0"
    using queue q by (auto simp: queue_is_def chain_append split: option.splits)
  have lst: "lastThread s = x \<longleftrightarrow> xs = []"
    using lt d(4) by (auto split: if_splits)
  show ?thesis
  proof (cases "ys = []")
    case True
    then have "prev = 0" "nextThread s = x" using prev ch by auto
    then show ?thesis
      using True ch d lt lst q
      by (auto simp: unlink_node_def queue_is_def without_def chain_upd_other)
  next
    case False
    define p where "p = last ys"
    have p: "p \<in> set ys" "prev = p" "p \<noteq> x" using False prev d by (auto simp: p_def)
    obtain l where l: "qheap s p = Some l" "p \<noteq> 0"
      using chain_nonnull [OF ch(1) p(1)] by blast
    let ?h = "((qheap s)(p \<mapsto> l\<lparr>q_next := q_next q\<rparr>))(x := None)"
    have "chain ((qheap s)(p \<mapsto> l\<lparr>q_next := q_next q\<rparr>)) (nextThread s) ys (q_next q)"
      unfolding p_def using chain_relink [OF ch(1) False d(1)] l by (simp add: p_def)
    then have "chain ?h (nextThread s) ys (q_next q)" using d(3) by (simp add: chain_upd_other)
    moreover have "chain ?h (q_next q) xs 0" using ch(2) d(4,5) p(1) by (simp add: chain_upd_other disjoint_iff)
    ultimately have "chain ?h (nextThread s) (ys @ xs) 0" by (auto simp: chain_append)
    then show ?thesis
      using False p l d lt lst prev
      by (auto simp: unlink_node_def queue_is_def without_def Let_def)
  qed
qed

lemma withoutD:
  assumes "without D s t" and "a \<notin> D" and "\<And>q n. hit (q\<lparr>q_next := n\<rparr>) = hit q"
  shows "map_option hit (qheap t a) = map_option hit (qheap s a)"
proof -
  have eq: "map_option q_thread (qheap t a) = map_option q_thread (qheap s a)"
    "map_option q_process (qheap t a) = map_option q_process (qheap s a)"
    using assms(1,2) by (auto simp: without_def)
  show ?thesis
  proof (cases "qheap s a")
    case None
    with eq(1) show ?thesis by simp
  next
    case (Some q)
    with eq obtain q' where "qheap t a = Some q'" "q_thread q' = q_thread q" "q_process q' = q_process q"
      by auto
    moreover then have "q' = q\<lparr>q_next := q_next q'\<rparr>" by simp
    ultimately show ?thesis using Some assms(3) by (metis option.simps(9))
  qed
qed

definition hits :: "(queued_thread \<Rightarrow> bool) \<Rightarrow> scheduler \<Rightarrow> u64 \<Rightarrow> bool" where
  "hits hit s a = (map_option hit (qheap s a) = Some True)"

lemma unlink_loop_queue:
  assumes "queue_is s (ys @ xs) 0" and "\<And>q n. hit (q\<lparr>q_next := n\<rparr>) = hit q"
  shows "\<exists>s'. unlink_loop hit (if ys = [] then 0 else last ys) (if xs = [] then 0 else hd xs) s = Some s'
    \<and> queue_is s' (ys @ filter (\<lambda>x. \<not> hits hit s x) xs) 0
    \<and> without {x \<in> set xs. hits hit s x} s s'"
  using assms(1)
proof (induction xs arbitrary: ys s)
  case Nil
  then show ?case by (subst unlink_loop.simps) (simp add: without_empty)
next
  case (Cons x xs)
  let ?prev = "if ys = [] then 0 else last ys"
  obtain q where q: "qheap s x = Some q" and x0: "x \<noteq> 0" and ch: "chain (qheap s) (q_next q) xs 0"
    using Cons.prems by (auto simp: queue_is_def chain_append split: option.splits)
  have nx: "q_next q = (if xs = [] then 0 else hd xs)" using ch by (rule chain_head)
  show ?case
  proof (cases "hit q")
    case False
    then have "unlink_loop hit ?prev x s = unlink_loop hit x (q_next q) s"
      using q x0 by (subst unlink_loop.simps) simp
    moreover have "\<not> hits hit s x" using False q by (simp add: hits_def)
    moreover from this have "{y \<in> set (x # xs). hits hit s y} = {y \<in> set xs. hits hit s y}" by auto
    moreover note Cons.IH [of s "ys @ [x]"] Cons.prems
    ultimately show ?thesis by (simp add: nx)
  next
    case True
    obtain s1 where s1: "unlink_node ?prev x q s = Some s1" "queue_is s1 (ys @ xs) 0" "without {x} s s1"
      "(if ?prev = 0 then Some (nextThread s1) else map_option q_next (qheap s1 ?prev)) = Some (q_next q)"
      using unlink_node_queue [OF Cons.prems q refl] by blast
    have xxs: "x \<notin> set xs" using Cons.prems by (simp add: queue_is_def)
    have same: "hits hit s1 y = hits hit s y" if "y \<in> set xs" for y
    proof -
      have "y \<notin> {x}" using xxs that by auto
      from withoutD [OF s1(3) this assms(2)] show ?thesis by (simp add: hits_def)
    qed
    have flt: "filter (\<lambda>y. \<not> hits hit s1 y) xs = filter (\<lambda>y. \<not> hits hit s y) xs"
      by (rule filter_cong) (use same in auto)
    have hx: "hits hit s x" using True q by (simp add: hits_def)
    have set_eq: "{y \<in> set (x # xs). hits hit s y} = {x} \<union> {y \<in> set xs. hits hit s1 y}"
      using same hx by auto
    obtain s' where s': "unlink_loop hit ?prev (q_next q) s1 = Some s'"
      "queue_is s' (ys @ filter (\<lambda>y. \<not> hits hit s1 y) xs) 0"
      "without {y \<in> set xs. hits hit s1 y} s1 s'"
      using Cons.IH [OF s1(2)] nx by auto
    have "unlink_loop hit ?prev x s = unlink_loop hit ?prev (q_next q) s1"
      using q x0 True s1(1,4) by (subst unlink_loop.simps) simp
    moreover have "without {y \<in> set (x # xs). hits hit s y} s s'"
      unfolding set_eq using without_trans [OF s1(3) s'(3)] xxs by simp
    ultimately show ?thesis using s'(1,2) flt hx by simp
  qed
qed

text \<open>
  The scheduler's well-formedness: the queue is as above, and the node of each CPU is an object that
  is neither queued nor on another CPU.
\<close>

definition sched_ok :: "scheduler \<Rightarrow> u64 list \<Rightarrow> u64 \<Rightarrow> bool" where
  "sched_ok s xs z \<longleftrightarrow>
     queue_is s xs z
     \<and> (\<forall>c. cpuThreads s c \<noteq> 0 \<longrightarrow> cpuThreads s c \<notin> set xs \<and> qheap s (cpuThreads s c) \<noteq> None)
     \<and> (\<forall>c d. cpuThreads s c = cpuThreads s d \<longrightarrow> cpuThreads s c \<noteq> 0 \<longrightarrow> c = d)"

definition node_thread :: "scheduler \<Rightarrow> u64 \<Rightarrow> u64 option" where
  "node_thread s a = map_option q_thread (qheap s a)"

definition node_process :: "scheduler \<Rightarrow> u64 \<Rightarrow> u64 option" where
  "node_process s a = map_option q_process (qheap s a)"

lemma hits_thread [simp]: "hits (\<lambda>q. q_thread q = t) s a \<longleftrightarrow> node_thread s a = Some t"
  by (auto simp: hits_def node_thread_def)

lemma hits_process [simp]: "hits (\<lambda>q. q_process q = p) s a \<longleftrightarrow> node_process s a = Some p"
  by (auto simp: hits_def node_process_def)

lemma drop_cpus_spec:
  assumes "distinct cpus"
    and "\<forall>c \<in> set cpus. cpuThreads s c \<noteq> 0 \<longrightarrow> qheap s (cpuThreads s c) \<noteq> None"
    and "\<forall>c \<in> set cpus. \<forall>d \<in> set cpus. cpuThreads s c = cpuThreads s d \<longrightarrow> cpuThreads s c \<noteq> 0 \<longrightarrow> c = d"
  shows "drop_cpus hit cpus s = Some (s\<lparr>
      qheap := (\<lambda>a. if a \<noteq> 0 \<and> hits hit s a \<and> a \<in> cpuThreads s ` set cpus then None else qheap s a),
      cpuThreads := (\<lambda>c. if c \<in> set cpus \<and> hits hit s (cpuThreads s c) then 0 else cpuThreads s c)\<rparr>)"
  using assms
proof (induction cpus arbitrary: s)
  case Nil
  then show ?case by simp
next
  case (Cons c cpus)
  let ?x = "cpuThreads s c"
  let ?s = "s\<lparr>qheap := (qheap s)(?x := None), cpuThreads := (cpuThreads s)(c := 0)\<rparr>"
  show ?case
  proof (cases "?x \<noteq> 0 \<and> hits hit s ?x")
    case True
    then obtain q where q: "qheap s ?x = Some q" "hit q" by (auto simp: hits_def)
    have ne: "cpuThreads s d \<noteq> ?x" if "d \<in> set cpus" for d
      using Cons.prems(1,3) True that by (metis distinct.simps(2) list.set_intros)
    have hs: "hits hit ?s a \<longleftrightarrow> a \<noteq> ?x \<and> hits hit s a" for a
      by (simp add: hits_def)
    have "drop_cpus hit (c # cpus) s = drop_cpus hit cpus ?s"
      using True q by simp
    also have "\<dots> = Some (?s\<lparr>
        qheap := (\<lambda>a. if a \<noteq> 0 \<and> hits hit ?s a \<and> a \<in> cpuThreads ?s ` set cpus then None else qheap ?s a),
        cpuThreads := (\<lambda>d. if d \<in> set cpus \<and> hits hit ?s (cpuThreads ?s d) then 0 else cpuThreads ?s d)\<rparr>)"
      using Cons.prems ne by (intro Cons.IH) auto
    also have "(\<lambda>a. if a \<noteq> 0 \<and> hits hit ?s a \<and> a \<in> cpuThreads ?s ` set cpus then None else qheap ?s a)
        = (\<lambda>a. if a \<noteq> 0 \<and> hits hit s a \<and> a \<in> cpuThreads s ` set (c # cpus) then None else qheap s a)"
      using True Cons.prems(1) by (auto simp: fun_eq_iff hs image_iff)
    also have "(\<lambda>d. if d \<in> set cpus \<and> hits hit ?s (cpuThreads ?s d) then 0 else cpuThreads ?s d)
        = (\<lambda>d. if d \<in> set (c # cpus) \<and> hits hit s (cpuThreads s d) then 0 else cpuThreads s d)"
      using True Cons.prems(1) ne by (auto simp: fun_eq_iff hs)
    finally show ?thesis by simp
  next
    case False
    have "drop_cpus hit (c # cpus) s = drop_cpus hit cpus s"
      using False Cons.prems(2) by (auto simp: hits_def Let_def)
    also have "\<dots> = Some (s\<lparr>
        qheap := (\<lambda>a. if a \<noteq> 0 \<and> hits hit s a \<and> a \<in> cpuThreads s ` set cpus then None else qheap s a),
        cpuThreads := (\<lambda>d. if d \<in> set cpus \<and> hits hit s (cpuThreads s d) then 0 else cpuThreads s d)\<rparr>)"
      using Cons.prems by (intro Cons.IH) auto
    also have "(\<lambda>a. if a \<noteq> 0 \<and> hits hit s a \<and> a \<in> cpuThreads s ` set cpus then None else qheap s a)
        = (\<lambda>a. if a \<noteq> 0 \<and> hits hit s a \<and> a \<in> cpuThreads s ` set (c # cpus) then None else qheap s a)"
      using False by (auto simp: fun_eq_iff)
    also have "(\<lambda>d. if d \<in> set cpus \<and> hits hit s (cpuThreads s d) then 0 else cpuThreads s d)
        = (\<lambda>d. if d \<in> set (c # cpus) \<and> hits hit s (cpuThreads s d) then 0 else cpuThreads s d)"
      using False by (auto simp: fun_eq_iff)
    finally show ?thesis .
  qed
qed

text \<open>Both loops together, on a well-formed scheduler whose queue ends with a null link.\<close>

lemma remove_nodes:
  assumes ok: "sched_ok s xs 0" and hit: "\<And>q n. hit (q\<lparr>q_next := n\<rparr>) = hit q"
  shows "\<exists>t u. unlink_loop hit 0 (nextThread s) s = Some t
    \<and> drop_cpus hit [0..<cpuCount t] t = Some u
    \<and> sched_ok u (filter (\<lambda>x. \<not> hits hit s x) xs) 0
    \<and> cpuThreads u = (\<lambda>c. if c < cpuCount s \<and> hits hit s (cpuThreads s c) then 0 else cpuThreads s c)
    \<and> without ({x \<in> set xs. hits hit s x}
         \<union> {a. a \<noteq> 0 \<and> hits hit s a \<and> a \<in> cpuThreads s ` {0..<cpuCount s}}) s (u\<lparr>cpuThreads := cpuThreads s\<rparr>)"
proof -
  let ?ys = "filter (\<lambda>x. \<not> hits hit s x) xs" and ?D = "{x \<in> set xs. hits hit s x}"
  have queue: "queue_is s xs 0" using ok by (simp add: sched_ok_def)
  then have "nextThread s = (if xs = [] then 0 else hd xs)"
    by (auto simp: queue_is_def dest: chain_head)
  with unlink_loop_queue [of s "[]" xs hit] queue hit obtain t where t:
      "unlink_loop hit 0 (nextThread s) s = Some t" "queue_is t ?ys 0" "without ?D s t"
    by auto
  have cpu: "cpuThreads t = cpuThreads s" "cpuCount t = cpuCount s"
    using t(3) by (simp_all add: without_def)
  have run: "hits hit t (cpuThreads s c) = hits hit s (cpuThreads s c)"
      "(qheap t (cpuThreads s c) = None) = (qheap s (cpuThreads s c) = None)" if "cpuThreads s c \<noteq> 0" for c
  proof -
    have "cpuThreads s c \<notin> ?D" using ok that by (auto simp: sched_ok_def)
    from withoutD [OF t(3) this hit] show "hits hit t (cpuThreads s c) = hits hit s (cpuThreads s c)"
      "(qheap t (cpuThreads s c) = None) = (qheap s (cpuThreads s c) = None)"
      by (auto simp: hits_def)
  qed
  let ?E = "{a. a \<noteq> 0 \<and> hits hit s a \<and> a \<in> cpuThreads s ` {0..<cpuCount s}}"
  define u where "u = t\<lparr>
      qheap := (\<lambda>a. if a \<noteq> 0 \<and> hits hit t a \<and> a \<in> cpuThreads t ` set [0..<cpuCount t] then None else qheap t a),
      cpuThreads := (\<lambda>c. if c \<in> set [0..<cpuCount t] \<and> hits hit t (cpuThreads t c) then 0 else cpuThreads t c)\<rparr>"
  have drop: "drop_cpus hit [0..<cpuCount t] t = Some u"
    unfolding u_def using ok run(2) by (intro drop_cpus_spec) (auto simp: cpu sched_ok_def)
  have E: "a \<noteq> 0 \<and> hits hit t a \<and> a \<in> cpuThreads t ` set [0..<cpuCount t] \<longleftrightarrow> a \<in> ?E" for a
    using run(1) by (auto simp: cpu)
  have qu: "qheap u = (\<lambda>a. if a \<in> ?E then None else qheap t a)"
    unfolding u_def E by simp
  have cu: "cpuThreads u = (\<lambda>c. if c < cpuCount s \<and> hits hit s (cpuThreads s c) then 0 else cpuThreads s c)"
    using run(1) by (auto simp: u_def cpu fun_eq_iff)
  have off: "x \<notin> ?E" if "x \<in> set xs" for x using ok that by (auto simp: sched_ok_def)
  have "chain (qheap u) a zs b = chain (qheap t) a zs b" if "set zs \<subseteq> set xs" for a b zs
    using that off by (induction zs arbitrary: a) (auto simp: qu split: option.splits)
  then have "queue_is u ?ys 0"
    using t(2) by (auto simp: queue_is_def u_def)
  moreover have "qheap u (cpuThreads u c) \<noteq> None" if "cpuThreads u c \<noteq> 0" for c
  proof -
    have live: "cpuThreads u c = cpuThreads s c" "cpuThreads s c \<noteq> 0" "\<not> (c < cpuCount s \<and> hits hit s (cpuThreads s c))"
      using that by (auto simp: cu split: if_splits)
    moreover have "c = d" if "cpuThreads s c = cpuThreads s d" for d
      using ok live(2) that by (simp add: sched_ok_def)
    ultimately have "cpuThreads s c \<notin> ?E" by auto
    moreover have "qheap t (cpuThreads s c) \<noteq> None"
      using live(2) ok run(2) [OF live(2)] by (auto simp: sched_ok_def)
    ultimately show ?thesis using live(1) by (simp add: qu)
  qed
  ultimately have "sched_ok u ?ys 0"
    using ok by (auto simp: sched_ok_def cu split: if_splits)
  moreover have "without (?D \<union> ?E) s (u\<lparr>cpuThreads := cpuThreads s\<rparr>)"
  proof -
    have "theap u = theap t" "pheap u = pheap t" "cpuCount u = cpuCount t"
      "processes u = processes t" "m_pid u = m_pid t"
      by (simp_all add: u_def)
    with t(3) show ?thesis by (auto simp: without_def qu)
  qed
  ultimately show ?thesis using t(1) drop cu by blast
qed

text \<open>
  queueThread puts the new node at the end of the queue, keeps the scheduler well-formed and
  leaves the queue null-terminated, whatever stale link the previous last node had.
\<close>

theorem queueThread_appends:
  assumes ok: "sched_ok s xs z" and q: "q \<noteq> 0" "qheap s q = None"
  shows "\<exists>s'. queueThread q p t s = Some s' \<and> sched_ok s' (xs @ [q]) 0
    \<and> node_thread s' q = Some t \<and> node_process s' q = Some p
    \<and> cpuThreads s' = cpuThreads s \<and> theap s' = theap s"
proof -
  have "queue_is s xs z" using ok by (simp add: sched_ok_def)
  from queueThread_queue [OF this q] obtain s' where s': "queueThread q p t s = Some s'"
      "queue_is s' (xs @ [q]) 0"
      "relinked (s\<lparr>qheap := (qheap s)(q \<mapsto> \<lparr>q_process = p, q_thread = t, q_next = 0\<rparr>)\<rparr>) s'"
    by blast
  have cpu: "cpuThreads s' = cpuThreads s" "theap s' = theap s"
    "node_thread s' q = Some t" "node_process s' q = Some p"
    using s'(3) by (simp_all add: relinked_def node_thread_def node_process_def)
  have "qheap s' a \<noteq> None" if "qheap s a \<noteq> None" for a
    using relinked_None [OF s'(3), of a] that by (auto split: if_splits)
  then have "sched_ok s' (xs @ [q]) 0"
    using ok s'(2) q(2) unfolding sched_ok_def cpu by auto
  with s'(1) cpu show ?thesis by blast
qed

lemma switch_rotates:
  assumes mode: "preemptible loopbase looptop regs"
    and ok: "sched_ok s (x # xs) z" and x: "qheap s x = Some qx"
    and tx: "theap s (q_thread qx) = Some thx" and px: "pheap s (q_process qx) = Some p"
    and cur: "cpuThreads s (unat (cpuid regs)) = cth" "cth \<noteq> 0"
    and c: "qheap s cth = Some qc" "theap s (q_thread qc) = Some thc" "q_thread qc \<noteq> q_thread qx"
  shows "\<exists>s'. SwitchProcess loopbase looptop regs s = Some (True, resume thx p regs, s')
    \<and> sched_ok s' (xs @ [cth]) (q_next qc)
    \<and> cpuThreads s' = (cpuThreads s)(unat (cpuid regs) := x)
    \<and> theap s' = (theap s)(q_thread qc \<mapsto> saved regs thc)
    \<and> pheap s' = pheap s \<and> processes s' = processes s"
proof -
  have queue: "queue_is s (x # xs) z" and notin: "cth \<notin> set (x # xs)"
    using ok cur by (auto simp: sched_ok_def)
  from switch_busy [OF mode queue x tx px cur notin c] obtain s' where s':
      "SwitchProcess loopbase looptop regs s = Some (True, resume thx p regs, s')"
      "queue_is s' (xs @ [cth]) (q_next qc)" "cpuThreads s' = (cpuThreads s)(unat (cpuid regs) := x)"
      "theap s' = (theap s)(q_thread qc \<mapsto> saved regs thc)" "pheap s' = pheap s"
      "processes s' = processes s" "\<forall>a. (qheap s' a = None) = (qheap s a = None)"
    by blast
  have "x \<notin> set xs" using queue by (simp add: queue_is_def)
  moreover have "cpuThreads s d \<noteq> x" if "x \<noteq> 0" for d
    using ok that unfolding sched_ok_def by (metis list.set_intros(1))
  moreover have "x \<noteq> 0" using queue_pop(2) [OF queue x] .
  moreover have "d = unat (cpuid regs)" if "cpuThreads s d = cth" for d
    using ok cur that by (simp add: sched_ok_def)
  ultimately have "sched_ok s' (xs @ [cth]) (q_next qc)"
    using ok s'(2,7) x cur unfolding sched_ok_def s'(3) by auto
  with s' show ?thesis by blast
qed

text \<open>
  C2: A timer interrupt on a CPU that runs a thread rotates the queue: the first queued thread
  gets the CPU with exactly its saved registers, page table and user selectors, the
  interrupted thread's registers are saved in its own Thread and its node goes to the end of
  the queue; the scheduler stays well-formed and no other thread changes.
\<close>

theorem switch_round_robin:
  assumes mode: "preemptible loopbase looptop regs"
    and ok: "sched_ok s (x # xs) z" and x: "qheap s x = Some qx"
    and tx: "theap s (q_thread qx) = Some thx" and px: "pheap s (q_process qx) = Some p"
    and cur: "cpuThreads s (unat (cpuid regs)) = cth" "cth \<noteq> 0"
    and c: "qheap s cth = Some qc" "theap s (q_thread qc) = Some thc" "q_thread qc \<noteq> q_thread qx"
  shows "\<exists>s'. SwitchProcess loopbase looptop regs s = Some (True, resume thx p regs, s')
    \<and> sched_ok s' (xs @ [cth]) (q_next qc)
    \<and> cpuThreads s' = (cpuThreads s)(unat (cpuid regs) := x)
    \<and> theap s' = (theap s)(q_thread qc \<mapsto> saved regs thc)
    \<and> pheap s' = pheap s \<and> processes s' = processes s"
  using assms by (rule switch_rotates)

text \<open>
  A timer interrupt on an idle CPU takes the first queued thread with exactly its saved
  registers and leaves the rest of the queue, provided the taken node is not the last one or
  its link is null.
\<close>

theorem switch_from_idle:
  assumes mode: "preemptible loopbase looptop regs"
    and ok: "sched_ok s (x # xs) z" and x: "qheap s x = Some qx"
    and tx: "theap s (q_thread qx) = Some thx" and px: "pheap s (q_process qx) = Some p"
    and idle: "cpuThreads s (unat (cpuid regs)) = 0"
    and link: "xs \<noteq> [] \<or> z = 0"
  shows "\<exists>s'. SwitchProcess loopbase looptop regs s = Some (True, resume thx p regs, s')
    \<and> sched_ok s' xs z \<and> cpuThreads s' = (cpuThreads s)(unat (cpuid regs) := x)
    \<and> theap s' = theap s \<and> pheap s' = pheap s \<and> processes s' = processes s"
proof -
  have queue: "queue_is s (x # xs) z" using ok by (simp add: sched_ok_def)
  from switch_idle [OF mode queue x tx px idle link] obtain s' where s':
      "SwitchProcess loopbase looptop regs s = Some (True, resume thx p regs, s')"
      "queue_is s' xs z" "cpuThreads s' = (cpuThreads s)(unat (cpuid regs) := x)"
      "theap s' = theap s" "pheap s' = pheap s" "processes s' = processes s" "qheap s' = qheap s"
    by blast
  have "x \<notin> set xs" "x \<noteq> 0" using queue_pop [OF queue x] by auto
  then have "sched_ok s' xs z"
    using ok s'(2) x unfolding sched_ok_def s'(3,7) by auto
  with s' show ?thesis by blast
qed

text \<open>
  On a null-terminated queue dequeueThread returns, removes exactly the nodes of the thread
  from the queue in one pass, keeping the order of the others, takes it off every CPU that
  runs it, and keeps the scheduler well-formed.
\<close>

theorem dequeueThread_removes:
  assumes "sched_ok s xs 0"
  shows "\<exists>s'. dequeueThread t s = Some s'
    \<and> sched_ok s' (filter (\<lambda>x. node_thread s x \<noteq> Some t) xs) 0
    \<and> cpuThreads s' = (\<lambda>c. if c < cpuCount s \<and> node_thread s (cpuThreads s c) = Some t then 0
                            else cpuThreads s c)
    \<and> theap s' = theap s \<and> pheap s' = pheap s \<and> processes s' = processes s"
proof -
  have "\<And>q n. (q_thread (q\<lparr>q_next := n\<rparr>) = t) = (q_thread q = t)" by simp
  from remove_nodes [OF assms, of "\<lambda>q. q_thread q = t", OF this] show ?thesis
    by (auto simp: dequeueThread_def without_def)
qed

text \<open>The loop over the process list removes every entry of the process, whatever the list is.\<close>

context indexed_bag
begin

lemma purge_items:
  "i \<le> length (items l) \<Longrightarrow>
   items (purge item_at remove_at x i l) = removeAll x (take i (items l)) @ drop i (items l)"
proof (induction i arbitrary: l)
  case (Suc i)
  then have i: "i < length (items l)" by simp
  then have split: "take (Suc i) (items l) = take i (items l) @ [items l ! i]"
    by (rule take_Suc_conv_app_nth)
  let ?l = "if item_at l i = Some x then remove_at i l else l"
  have "items ?l = (if items l ! i = x then take i (items l) @ drop (Suc i) (items l) else items l)"
    using i by (simp add: item_at_nth remove_items)
  with Suc.IH [of ?l] i show ?case
    by (cases "items l ! i = x") (simp_all add: split flip: Cons_nth_drop_Suc)
qed simp

lemma purge_all: "items (purge item_at remove_at x (count_items l) l) = removeAll x (items l)"
  by (simp add: purge_items count_length)

end

lemma delete_threads_ok:
  assumes "distinct ts" and "\<forall>t \<in> set ts. theap s t \<noteq> None"
  shows "\<exists>h. delete_threads ts s = Some (s\<lparr>theap := h\<rparr>)
    \<and> (\<forall>t. h t = (if t \<in> set ts then None else theap s t))"
  using assms
proof (induction ts arbitrary: s)
  case (Cons t ts)
  then obtain th where "theap s t = Some th" by auto
  moreover have "\<forall>a \<in> set ts. theap (s\<lparr>theap := (theap s)(t := None)\<rparr>) a \<noteq> None"
    using Cons.prems by auto
  then obtain h where "delete_threads ts (s\<lparr>theap := (theap s)(t := None)\<rparr>) = Some (s\<lparr>theap := h\<rparr>)"
      "\<forall>a. h a = (if a \<in> set ts then None else ((theap s)(t := None)) a)"
    using Cons.IH [of "s\<lparr>theap := (theap s)(t := None)\<rparr>"] Cons.prems(1) by auto
  ultimately show ?case by auto
next
  case Nil
  show ?case by (rule exI [of _ "theap s"]) simp
qed

text \<open>
  C23: On a null-terminated queue exitProcess finishes its work: every node of the process
  leaves the queue and the CPUs, the process is removed from the process list and deleted with
  its threads, and everything else stays.
\<close>

theorem exitProcess_removes:
  assumes ok: "sched_ok s xs 0" and p: "pheap s pr = Some p"
    and own: "distinct (concat (p_threads p))" "\<forall>t \<in> set (concat (p_threads p)). theap s t \<noteq> None"
  shows "\<exists>s'. exitProcess pr s = Some s'
    \<and> sched_ok s' (filter (\<lambda>x. node_process s x \<noteq> Some pr) xs) 0
    \<and> cpuThreads s' = (\<lambda>c. if c < cpuCount s \<and> node_process s (cpuThreads s c) = Some pr then 0
                            else cpuThreads s c)
    \<and> concat (processes s') = removeAll pr (concat (processes s))
    \<and> pheap s' = (pheap s)(pr := None)
    \<and> theap s' = (\<lambda>t. if t \<in> set (concat (p_threads p)) then None else theap s t)"
proof -
  have "\<And>q n. (q_process (q\<lparr>q_next := n\<rparr>) = pr) = (q_process q = pr)" by simp
  from remove_nodes [OF ok, of "\<lambda>q. q_process q = pr", OF this] obtain t u where tu:
      "unlink_loop (\<lambda>q. q_process q = pr) 0 (nextThread s) s = Some t"
      "drop_cpus (\<lambda>q. q_process q = pr) [0..<cpuCount t] t = Some u"
      "sched_ok u (filter (\<lambda>x. node_process s x \<noteq> Some pr) xs) 0"
      "cpuThreads u = (\<lambda>c. if c < cpuCount s \<and> node_process s (cpuThreads s c) = Some pr then 0
                           else cpuThreads s c)"
      "theap u = theap s" "pheap u = pheap s" "processes u = processes s"
    by (auto simp: without_def)
  let ?v = "u\<lparr>processes := purge list_index list_remove pr (getCount (processes u)) (processes u)\<rparr>"
  have "concat (processes ?v) = removeAll pr (concat (processes s))"
    using dl.purge_all [of pr "processes u"] tu(7) by simp
  moreover have "\<forall>t \<in> set (concat (p_threads p)). theap ?v t \<noteq> None" using own(2) tu(5) by simp
  then obtain h where "delete_threads (concat (p_threads p)) ?v = Some (?v\<lparr>theap := h\<rparr>)"
      and h: "\<forall>t. h t = (if t \<in> set (concat (p_threads p)) then None else theap ?v t)"
    using delete_threads_ok [OF own(1)] by blast
  then have "delete_process pr ?v = Some (?v\<lparr>theap := h, pheap := (pheap s)(pr := None)\<rparr>)"
    using p tu(6) by (simp add: delete_process_def)
  moreover have "h = (\<lambda>t. if t \<in> set (concat (p_threads p)) then None else theap s t)"
    using h tu(5) by (simp add: fun_eq_iff)
  moreover have "exitProcess pr s = delete_process pr ?v"
    using tu(1,2) by (simp add: exitProcess_def Let_def)
  moreover have "sched_ok (?v\<lparr>theap := h, pheap := g\<rparr>) ys 0 = sched_ok u ys 0" for g ys
    by (simp add: sched_ok_def queue_is_def)
  ultimately show ?thesis
    using tu(3,4) by auto
qed

section \<open>Registering a process\<close>

lemma pid_scan_spec:
  assumes "\<forall>i \<in> set is. \<exists>a q. list_index (processes s) i = Some a \<and> pheap s a = Some q \<and> p_id q \<noteq> - 1"
  shows "\<exists>r. pid_scan s is pid = Some r \<and> pid \<le> r
    \<and> (\<forall>i \<in> set is. \<forall>a q. list_index (processes s) i = Some a \<longrightarrow> pheap s a = Some q \<longrightarrow> p_id q < r)"
  using assms
proof (induction "is" arbitrary: pid)
  case (Cons i "is")
  then obtain a q where q: "list_index (processes s) i = Some a" "pheap s a = Some q" "p_id q \<noteq> - 1"
    by auto
  let ?pid = "if pid \<le> p_id q then p_id q + 1 else pid"
  from q(3) have up: "p_id q < ?pid" "pid \<le> ?pid"
    using u64_less_Suc [of "p_id q"] by auto
  obtain r where r: "pid_scan s is ?pid = Some r" "?pid \<le> r"
    "\<forall>i \<in> set is. \<forall>a q. list_index (processes s) i = Some a \<longrightarrow> pheap s a = Some q \<longrightarrow> p_id q < r"
    using Cons.IH [of ?pid] Cons.prems by auto
  moreover have "pid \<le> r" "p_id q < r" using up r(2) by (auto intro: order_trans less_le_trans)
  ultimately show ?case using q by auto
qed simp

lemma pid_scan_dangling:
  assumes "i \<in> set is" and "list_index (processes s) i = Some a" and "pheap s a = None"
  shows "pid_scan s is pid = None"
  using assms(1)
proof (induction "is" arbitrary: pid)
  case (Cons j "is")
  show ?case
  proof (cases "j = i")
    case True
    with assms(2,3) show ?thesis by simp
  next
    case False
    with Cons show ?thesis by (auto simp: bind_eq_None_conv)
  qed
qed simp

text \<open>
  registerProcess gives the process a pid above that of every registered process, adds it to
  the process list and appends a node with a new thread that starts at the entry point,
  leaving the queue null-terminated.
\<close>

theorem registerProcess_queues:
  assumes queue: "queue_is s xs z" and p: "pheap s pr = Some p"
    and node: "new_node n \<noteq> 0" "qheap s (new_node n) = None"
    and live: "\<forall>a \<in> set (concat (processes s)). \<exists>q. pheap s a = Some q \<and> p_id q \<noteq> - 1"
    and pages: "ok_processes n" "ok_threads n"
  shows "\<exists>pid s'. registerProcess n pr s = Some (pid, s')
    \<and> m_pid s' \<le> pid \<and> (\<forall>a \<in> set (concat (processes s)). \<forall>q. pheap s a = Some q \<longrightarrow> p_id q < pid)
    \<and> map_option p_id (pheap s' pr) = Some pid
    \<and> mset (concat (processes s')) = add_mset pr (mset (concat (processes s)))
    \<and> queue_is s' (xs @ [new_node n]) 0
    \<and> node_thread s' (new_node n) = Some (new_thread n) \<and> node_process s' (new_node n) = Some pr
    \<and> map_option t_rip (theap s' (new_thread n)) = Some (p_entry p)"
proof -
  let ?th = "\<lparr>t_rip = p_entry p, t_rflags = 0, t_rsp = stack_base n + 0x200000 - 0x8,
      t_regs = zero_gregs, t_sse = (junk_sse n)[3 := mxcsr_word], suspend_ticks = 0,
      stack_top = stack_base n + 0x200000 - 0x8\<rparr>"
  let ?node = "\<lparr>q_process = pr, q_thread = new_thread n, q_next = 0\<rparr>"
  let ?s = "s\<lparr>theap := (theap s)(new_thread n \<mapsto> ?th), qheap := (qheap s)(new_node n \<mapsto> ?node),
      m_pid := m_pid s + 1\<rparr>"
  have "\<exists>a q. list_index (processes s) i = Some a \<and> pheap s a = Some q \<and> p_id q \<noteq> - 1"
    if "i < getCount (processes s)" for i
    using that bspec [OF live nth_mem [of i "concat (processes s)"]]
    by (simp add: list_index_concat getCount_concat)
  then obtain pid where pid: "pid_scan ?s [0..<getCount (processes s)] (m_pid s + 1) = Some pid"
      "m_pid s + 1 \<le> pid" and above: "\<forall>i < getCount (processes s). \<forall>a q.
        list_index (processes s) i = Some a \<longrightarrow> pheap s a = Some q \<longrightarrow> p_id q < pid"
    using pid_scan_spec [of "[0..<getCount (processes s)]" ?s "m_pid s + 1"] by auto
  have fresh: "\<forall>a \<in> set (concat (processes s)). \<forall>q. pheap s a = Some q \<longrightarrow> p_id q < pid"
    using above dl.item_at_iff [of "processes s"] dl.item_at_defined [of "processes s"]
    by (metis not_le_imp_less option.distinct(1))
  obtain ps where ps: "list_add (items_per_page 8) True pr (processes s) = Some ps"
    using list_add_total [of "items_per_page 8" pr "processes s"] by blast
  obtain ts where ts: "list_add (items_per_page 8) True (new_thread n) (p_threads p) = Some ts"
    using list_add_total [of "items_per_page 8" "new_thread n" "p_threads p"] by blast
  have mset: "mset (concat ps) = add_mset pr (mset (concat (processes s)))"
    using list_add_concat [OF ps] by auto
  let ?t = "?s\<lparr>processes := ps, pheap := (pheap s)(pr \<mapsto> p\<lparr>p_id := pid, p_threads := ts\<rparr>)\<rparr>"
  have q: "new_node n \<notin> set xs"
    using queue node(2) chain_nonnull by (fastforce simp: queue_is_def)
  have "open_queue ?t xs"
    using queue_is_open [OF queue] q by (simp add: open_queue_def chain_upd_other)
  then obtain u where u: "enqueue (new_node n) ?t = Some u" "queue_is u (xs @ [new_node n]) 0" "relinked ?t u"
    using queue_append [of ?t xs "new_node n" ?node] node(1) q by auto
  have reg: "registerProcess n pr s = Some (pid, u)"
    using p pages pid(1) ps ts u(1) by (simp add: registerProcess_def Let_def)
  have "node_thread u (new_node n) = Some (new_thread n)" "node_process u (new_node n) = Some pr"
    using u(3) by (simp_all add: relinked_def node_thread_def node_process_def)
  moreover have "pheap u pr = Some (p\<lparr>p_id := pid, p_threads := ts\<rparr>)" "processes u = ps"
    "theap u (new_thread n) = Some ?th" "m_pid u = m_pid s + 1"
    using u(3) by (simp_all add: relinked_def)
  ultimately show ?thesis
    using reg u(2) fresh pid(2) mset by auto
qed

section \<open>Where the code breaks its own invariants\<close>

lemma save_current_frame:
  "save_current regs s = Some t \<Longrightarrow> pheap t = pheap s \<and> processes t = processes s"
  by (auto simp: save_current_def Let_def bind_eq_Some_conv split: if_splits)

lemma SwitchProcess_frame:
  "SwitchProcess lb lt regs s = Some (b, regs', t) \<Longrightarrow> pheap t = pheap s \<and> processes t = processes s"
  by (auto simp: SwitchProcess_def Let_def bind_eq_Some_conv split: if_splits
      dest!: save_current_frame)

lemma delete_threads_frame:
  "delete_threads ts s = Some t \<Longrightarrow> pheap t = pheap s \<and> processes t = processes s"
  by (induction ts arbitrary: s) (auto simp: bind_eq_Some_conv)


text \<open>Runs of the scheduler: registrations and timer interrupts, one after the other.\<close>

datatype sched_event = Register new_objects u64 | Tick callback_regs

fun run_events :: "u64 \<Rightarrow> u64 \<Rightarrow> sched_event list \<Rightarrow> scheduler \<Rightarrow> scheduler option" where
  "run_events lb lt [] s = Some s"
| "run_events lb lt (Register n p # es) s = do {
     (pid, s) \<leftarrow> registerProcess n p s;
     run_events lb lt es s
   }"
| "run_events lb lt (Tick regs # es) s = do {
     (switched, regs, s) \<leftarrow> SwitchProcess lb lt regs s;
     run_events lb lt es s
   }"

definition demo_process :: process where
  "demo_process = \<lparr>p_id = - 1, p_entry = 0x400000, p_threads = [], p_pagetable = 0x9000\<rparr>"

definition demo_new :: "u64 \<Rightarrow> new_objects" where
  "demo_new k = \<lparr>new_thread = 0x100 + k, new_node = 0x1000 + k, junk_sse = [], stack_base = 0x800000,
     ok_processes = True, ok_threads = True\<rparr>"

text \<open>An interrupt on a CPU, in the idle loop (at \<open>0x500\<close>) or in user mode.\<close>

definition demo_regs :: "u32 \<Rightarrow> bool \<Rightarrow> callback_regs" where
  "demo_regs cpu idle = \<lparr>cpuid = cpu,
     info = \<lparr>cr3 = 0x9000, rip = (if idle then 0x500 else 0x400010), rflags = 0, rsp = 0,
             cs = 0x20, ss = 0x18, dpl = (if idle then 0 else 3)\<rparr>,
     general = zero_gregs, sse = []\<rparr>"

definition demo_start :: "nat \<Rightarrow> scheduler" where
  "demo_start cpus = scheduler_init cpus
     (Map.empty(0x10 \<mapsto> demo_process, 0x20 \<mapsto> demo_process, 0x30 \<mapsto> demo_process))"

lemmas demo_defs = demo_process_def demo_new_def demo_regs_def demo_start_def scheduler_init_def
  registerProcess_def SwitchProcess_def save_current_def enqueue_def items_per_page_def pagesize_def
  Let_def

text \<open>
  With two processes and two CPUs, four timer interrupts make both CPUs run the same thread: a
  node that is put back keeps its old link, and an idle CPU that takes it as the last node
  makes nextThread point to a running node.
\<close>

theorem thread_on_two_cpus:
  "map_option (\<lambda>s. (cpuThreads s 0, cpuThreads s 1))
     (run_events 0x500 0x503
        [Register (demo_new 0x10) 0x10, Register (demo_new 0x20) 0x20,
         Tick (demo_regs 0 True), Tick (demo_regs 0 False),
         Tick (demo_regs 1 True), Tick (demo_regs 1 False)]
        (demo_start 2))
   = Some (0x1020, 0x1020)"
  by (simp add: demo_defs)

lemma demo_ring:
  "map_option (\<lambda>s. (nextThread s, lastThread s, cpuThreads s 0,
        qheap s 0x1010, qheap s 0x1020, qheap s 0x1030))
     (run_events 0x500 0x503
        [Register (demo_new 0x10) 0x10, Register (demo_new 0x20) 0x20, Register (demo_new 0x30) 0x30,
         Tick (demo_regs 0 True), Tick (demo_regs 0 False)]
        (demo_start 1))
   = Some (0x1030, 0x1010, 0x1020,
       Some \<lparr>q_process = 0x10, q_thread = 0x110, q_next = 0x1020\<rparr>,
       Some \<lparr>q_process = 0x20, q_thread = 0x120, q_next = 0x1030\<rparr>,
       Some \<lparr>q_process = 0x30, q_thread = 0x130, q_next = 0x1010\<rparr>)"
  by (simp add: demo_defs)

text \<open>On a ring of nodes none of which is to be removed the unlinking loop never ends.\<close>

lemma unlink_ring:
  assumes "\<And>a. a \<in> R \<Longrightarrow> a \<noteq> 0 \<and> (\<exists>q. qheap s a = Some q \<and> \<not> hit q \<and> q_next q \<in> R)" and "nxt \<in> R"
  shows "unlink_loop hit prev nxt s = None"
proof -
  have "\<not> (h = hit \<and> t = s \<and> n \<in> R)" if "unlink_loop h p n t = Some r" for h p n t r
  proof (rule unlink_loop.raw_induct [OF _ that])
    fix f :: "(queued_thread \<Rightarrow> bool) \<Rightarrow> u64 \<Rightarrow> u64 \<Rightarrow> scheduler \<Rightarrow> scheduler option" and h p n t r
    assume IH: "\<And>h p n t r. f h p n t = Some r \<Longrightarrow> \<not> (h = hit \<and> t = s \<and> n \<in> R)"
    assume body: "(if n = 0 then Some t
      else do {
        q \<leftarrow> qheap t n;
        if \<not> h q then f h n (q_next q) t
        else do {
          s \<leftarrow> unlink_node p n q t;
          m \<leftarrow> (if p = 0 then Some (nextThread s) else map_option q_next (qheap s p));
          f h p m s
        }
      }) = Some r"
    show "\<not> (h = hit \<and> t = s \<and> n \<in> R)"
    proof
      assume n: "h = hit \<and> t = s \<and> n \<in> R"
      with assms(1) [of n] obtain q where "n \<noteq> 0" "qheap s n = Some q" "\<not> hit q" "q_next q \<in> R" by blast
      with body n have "f hit n (q_next q) s = Some r" by simp
      from IH [OF this] \<open>q_next q \<in> R\<close> show False by simp
    qed
  qed
  from this [of hit prev nxt s] assms(2) show ?thesis
    by (cases "unlink_loop hit prev nxt s") auto
qed

lemma unlink_loop_miss:
  "nxt \<noteq> 0 \<Longrightarrow> qheap s nxt = Some q \<Longrightarrow> \<not> hit q \<Longrightarrow>
   unlink_loop hit prev nxt s = unlink_loop hit nxt (q_next q) s"
  by (subst unlink_loop.simps) simp



section \<open>Examples\<close>

text \<open>Two queued nodes and a third one running on CPU 0.\<close>

definition demo_thread :: "u64 \<Rightarrow> thread" where
  "demo_thread k = \<lparr>t_rip = k, t_rflags = 0, t_rsp = 0, t_regs = zero_gregs, t_sse = [],
     suspend_ticks = 0, stack_top = 0\<rparr>"

definition demo_sched :: scheduler where
  "demo_sched = \<lparr>
     qheap = Map.empty(
       0x1000 \<mapsto> \<lparr>q_process = 0x10, q_thread = 0x100, q_next = 0x2000\<rparr>,
       0x2000 \<mapsto> \<lparr>q_process = 0x20, q_thread = 0x200, q_next = 0\<rparr>,
       0x3000 \<mapsto> \<lparr>q_process = 0x30, q_thread = 0x300, q_next = 0x1000\<rparr>),
     theap = Map.empty(0x100 \<mapsto> demo_thread 1, 0x200 \<mapsto> demo_thread 2, 0x300 \<mapsto> demo_thread 3),
     pheap = Map.empty(
       0x10 \<mapsto> demo_process\<lparr>p_id := 1, p_threads := [[0x100]]\<rparr>,
       0x20 \<mapsto> demo_process\<lparr>p_id := 2, p_threads := [[0x200]]\<rparr>,
       0x30 \<mapsto> demo_process\<lparr>p_id := 3, p_threads := [[0x300]]\<rparr>,
       0x40 \<mapsto> demo_process),
     nextThread = 0x1000, lastThread = 0x2000, cpuThreads = (\<lambda>_. 0)(0 := 0x3000), cpuCount = 2,
     processes = [[0x10, 0x20, 0x30]], m_pid = 3\<rparr>"

lemma demo_sched_ok: "sched_ok demo_sched [0x1000, 0x2000] 0"
  by (simp add: demo_sched_def sched_ok_def queue_is_def)

lemma demo_preemptible: "preemptible 0x500 0x503 (demo_regs c b)"
  by (simp add: preemptible_def demo_regs_def)

theorem queueThread_appends_witness:
  "\<exists>s'. queueThread 0x4000 0x30 0x400 demo_sched = Some s'
     \<and> sched_ok s' [0x1000, 0x2000, 0x4000] 0 \<and> node_thread s' 0x4000 = Some 0x400"
  using queueThread_appends [OF demo_sched_ok, of "0x4000" "0x30" "0x400"]
  by (auto simp: demo_sched_def)

theorem switch_round_robin_witness:
  "\<exists>s'. SwitchProcess 0x500 0x503 (demo_regs 0 False) demo_sched
       = Some (True, resume (demo_thread 1) (demo_process\<lparr>p_id := 1, p_threads := [[0x100]]\<rparr>) (demo_regs 0 False), s')
     \<and> sched_ok s' [0x2000, 0x3000] 0x1000 \<and> cpuThreads s' 0 = 0x1000
     \<and> map_option t_rip (theap s' 0x300) = Some 0x400010"
proof -
  have "\<exists>s'. SwitchProcess 0x500 0x503 (demo_regs 0 False) demo_sched
       = Some (True, resume (demo_thread 1) (demo_process\<lparr>p_id := 1, p_threads := [[0x100]]\<rparr>) (demo_regs 0 False), s')
     \<and> sched_ok s' ([0x2000] @ [0x3000]) (q_next \<lparr>q_process = 0x30, q_thread = 0x300, q_next = 0x1000\<rparr>)
     \<and> cpuThreads s' = (cpuThreads demo_sched)(unat (cpuid (demo_regs 0 False)) := 0x1000)
     \<and> theap s' = (theap demo_sched)(q_thread \<lparr>q_process = 0x30, q_thread = 0x300, q_next = 0x1000\<rparr>
           \<mapsto> saved (demo_regs 0 False) (demo_thread 3))
     \<and> pheap s' = pheap demo_sched \<and> processes s' = processes demo_sched"
    by (rule switch_round_robin [OF demo_preemptible demo_sched_ok,
          where qx = "\<lparr>q_process = 0x10, q_thread = 0x100, q_next = 0x2000\<rparr>"])
      (simp_all add: demo_sched_def demo_regs_def)
  then show ?thesis by (auto simp: demo_regs_def saved_def)
qed

theorem switch_from_idle_witness:
  "\<exists>s'. SwitchProcess 0x500 0x503 (demo_regs 1 True) demo_sched
       = Some (True, resume (demo_thread 1) (demo_process\<lparr>p_id := 1, p_threads := [[0x100]]\<rparr>) (demo_regs 1 True), s')
     \<and> sched_ok s' [0x2000] 0"
proof -
  have "\<exists>s'. SwitchProcess 0x500 0x503 (demo_regs 1 True) demo_sched
       = Some (True, resume (demo_thread 1) (demo_process\<lparr>p_id := 1, p_threads := [[0x100]]\<rparr>) (demo_regs 1 True), s')
     \<and> sched_ok s' [0x2000] 0
     \<and> cpuThreads s' = (cpuThreads demo_sched)(unat (cpuid (demo_regs 1 True)) := 0x1000)
     \<and> theap s' = theap demo_sched \<and> pheap s' = pheap demo_sched \<and> processes s' = processes demo_sched"
    by (rule switch_from_idle [OF demo_preemptible demo_sched_ok,
          where qx = "\<lparr>q_process = 0x10, q_thread = 0x100, q_next = 0x2000\<rparr>"])
      (simp_all add: demo_sched_def demo_regs_def)
  then show ?thesis by auto
qed

theorem dequeueThread_removes_witness:
  "\<exists>s'. dequeueThread 0x100 demo_sched = Some s' \<and> sched_ok s' [0x2000] 0 \<and> cpuThreads s' 0 = 0x3000"
  using dequeueThread_removes [OF demo_sched_ok, of "0x100"]
  by (auto simp: demo_sched_def node_thread_def)

theorem exitProcess_removes_witness:
  "\<exists>s'. exitProcess 0x30 demo_sched = Some s' \<and> sched_ok s' [0x1000, 0x2000] 0 \<and> cpuThreads s' 0 = 0
     \<and> concat (processes s') = [0x10, 0x20]"
  using exitProcess_removes [OF demo_sched_ok, of "0x30"]
  by (auto simp: demo_sched_def demo_process_def node_process_def)

theorem registerProcess_queues_witness:
  "\<exists>pid s'. registerProcess (demo_new 0x40) 0x40 demo_sched = Some (pid, s') \<and> 3 < pid
     \<and> queue_is s' [0x1000, 0x2000, 0x1040] 0"
proof -
  have "queue_is demo_sched [0x1000, 0x2000] 0" using demo_sched_ok by (simp add: sched_ok_def)
  from registerProcess_queues [OF this, of "0x40" demo_process "demo_new 0x40"] show ?thesis
    by (auto simp: demo_sched_def demo_process_def demo_new_def)
qed


end
