(* ===== verification/Pagetable.thy ===== *)
theory Pagetable
  imports Prelude "HOL-Library.Monad_Syntax"
begin

text \<open>
  \<^verbatim>\<open>src/pagetable\<close>: the four-level page tables and the physical page allocator that searches them.
  Table memory is a map from the addresses of 8-byte entries to their contents. The allocator
  keeps a ring of 16 reserved pages for new tables; mapping a page can use one up, refilling the
  ring allocates and maps pages again, so the three operations are mutually recursive and carry
  fuel (\<open>None\<close>: out of fuel, or one of the source's own endless loops).
\<close>

section \<open>Entries\<close>

text \<open>
  \<^verbatim>\<open>Pagetable::Entry\<close> is the 64-bit word: eight flag bits, one reserved bit, three available bits,
  51 bits of page number and the no-execute bit.
\<close>

type_synonym pte = u64

definition FLAG_W :: u8 where "FLAG_W = 1"
definition FLAG_X :: u8 where "FLAG_X = 2"
definition FLAG_U :: u8 where "FLAG_U = 4"
definition NULLPAGE :: u8 where "NULLPAGE = 8"
definition DATA_RO :: u8 where "DATA_RO = 0"
definition DATA_RW :: u8 where "DATA_RW = FLAG_W"
definition CODE_RX :: u8 where "CODE_RX = FLAG_X"
definition TABLE :: u8 where "TABLE = FLAG_X OR FLAG_W"
definition USER_DATA_RO :: u8 where "USER_DATA_RO = FLAG_U OR DATA_RO"
definition USER_DATA_RW :: u8 where "USER_DATA_RW = FLAG_U OR DATA_RW"
definition USER_CODE_RX :: u8 where "USER_CODE_RX = FLAG_U OR CODE_RX"
definition USER_TABLE :: u8 where "USER_TABLE = FLAG_U OR TABLE"

definition type_has :: "u8 \<Rightarrow> u8 \<Rightarrow> bool" where
  "type_has a b \<longleftrightarrow> a AND b \<noteq> 0"

definition present :: "pte \<Rightarrow> bool" where "present e = bit e 0"
definition readwrite :: "pte \<Rightarrow> bool" where "readwrite e = bit e 1"
definition user :: "pte \<Rightarrow> bool" where "user e = bit e 2"
definition hugesize :: "pte \<Rightarrow> bool" where "hugesize e = bit e 7"
definition nx :: "pte \<Rightarrow> bool" where "nx e = bit e 63"

text \<open>The fields \<^verbatim>\<open>flags\<close> and \<^verbatim>\<open>_ptr\<close>, read and written.\<close>

definition pflags :: "pte \<Rightarrow> u64" where "pflags e = take_bit 8 e"
definition pptr :: "pte \<Rightarrow> u64" where "pptr e = take_bit 51 (drop_bit 12 e)"

definition ptr_mask :: u64 where "ptr_mask = push_bit 12 (mask 51)"

definition set_pptr :: "u64 \<Rightarrow> pte \<Rightarrow> pte" where
  "set_pptr p e = (e AND NOT ptr_mask) OR push_bit 12 (take_bit 51 p)"

definition set_pflags :: "u64 \<Rightarrow> pte \<Rightarrow> pte" where
  "set_pflags fl e = (e AND NOT 0xFF) OR take_bit 8 fl"

definition getUintPtr :: "pte \<Rightarrow> u64" where
  "getUintPtr e = push_bit 12 (pptr e)"

definition Entry :: "u64 \<Rightarrow> u64 \<Rightarrow> u8 \<Rightarrow> pte" where
  "Entry ptr avl type =
     ((if type_has type NULLPAGE then 0 else 1) OR (if type_has type FLAG_W then 2 else 0)
      OR (if type_has type FLAG_U then 4 else 0))
     OR push_bit 9 (take_bit 3 avl)
     OR push_bit 12 (take_bit 51 (drop_bit 12 ptr))
     OR (if type_has type FLAG_X then 0 else push_bit 63 1)"

text \<open>The four indices of a virtual address, and the walk of \<^verbatim>\<open>Entry::find\<close> to an entry's address.\<close>

definition table_index :: "nat \<Rightarrow> u64 \<Rightarrow> u64" where
  "table_index k p = drop_bit k p AND 0x1FF"

definition slot :: "u64 \<Rightarrow> u64 \<Rightarrow> u64" where
  "slot table idx = table + 8 * idx"

definition find_entry :: "(u64 \<Rightarrow> pte) \<Rightarrow> u64 \<Rightarrow> u64 \<Rightarrow> u64 option" where
  "find_entry cells ptr pagetable =
     (let pt = slot pagetable (table_index 39 ptr)
      in if \<not> present (cells pt) then None
      else let pt = slot (getUintPtr (cells pt)) (table_index 30 ptr)
      in if \<not> present (cells pt) then None
      else let pt = slot (getUintPtr (cells pt)) (table_index 21 ptr)
      in if \<not> present (cells pt) then None
      else if hugesize (cells pt) then Some pt
      else Some (slot (getUintPtr (cells pt)) (table_index 12 ptr)))"

definition mapped :: "(u64 \<Rightarrow> pte) \<Rightarrow> u64 \<Rightarrow> u64 \<Rightarrow> bool" where
  "mapped cells pagetable ptr \<longleftrightarrow>
     (case find_entry cells ptr pagetable of None \<Rightarrow> False | Some a \<Rightarrow> present (cells a))"

section \<open>The allocator\<close>

record ptstate =
  cells :: "u64 \<Rightarrow> pte"
  rsvd_pages :: "u64 list"
  rsvd_r :: nat
  rsvd_w :: nat
  last_page :: u64
  max_page :: u64

definition rsvd_num :: nat where "rsvd_num = 16"

definition set_cell :: "u64 \<Rightarrow> pte \<Rightarrow> ptstate \<Rightarrow> ptstate" where
  "set_cell a e s = s\<lparr>cells := (cells s)(a := e)\<rparr>"

text \<open>An empty ring is an endless loop in the source.\<close>

definition getRsvd :: "ptstate \<Rightarrow> (u64 \<times> ptstate) option" where
  "getRsvd s =
     (if rsvd_r s = rsvd_w s then None
      else Some (rsvd_pages s ! rsvd_r s,
                 s\<lparr>rsvd_pages := (rsvd_pages s)[rsvd_r s := 0], rsvd_r := (rsvd_r s + 1) mod rsvd_num\<rparr>))"

text \<open>\<^verbatim>\<open>if (!entry->present) *entry = PTE(_getRsvd(), TABLE)\<close>\<close>

definition need_table :: "u64 \<Rightarrow> ptstate \<Rightarrow> ptstate option" where
  "need_table a s =
     (if present (cells s a) then Some s
      else do {
        (page, s) \<leftarrow> getRsvd s;
        Some (set_cell a (Entry page 0 TABLE) s)
      })"

text \<open>The local variables of \<^verbatim>\<open>_map\<close>; a null pointer is 0.\<close>

record walk =
  newent :: pte
  ptx :: u64
  pdx :: u64
  pdpx :: u64
  pml4x :: u64
  w_pte :: u64
  w_pde :: u64
  w_pdpe :: u64
  w_pml4e :: u64

definition walk_start :: "u64 \<Rightarrow> u8 \<Rightarrow> u64 \<Rightarrow> walk" where
  "walk_start low type pagetable =
     (let e = Entry low 0 type
      in \<lparr>newent = e, ptx = drop_bit 27 (pptr e) AND 0x1FF, pdx = drop_bit 18 (pptr e) AND 0x1FF,
          pdpx = drop_bit 9 (pptr e) AND 0x1FF, pml4x = pptr e AND 0x1FF,
          w_pte = slot pagetable (drop_bit 27 (pptr e) AND 0x1FF), w_pde = 0, w_pdpe = 0, w_pml4e = 0\<rparr>)"

text \<open>The loop body of \<^verbatim>\<open>_map\<close> up to the refill of the ring.\<close>

definition map_body :: "u64 \<Rightarrow> walk \<Rightarrow> ptstate \<Rightarrow> (walk \<times> ptstate) option" where
  "map_body itop w s = do {
     s \<leftarrow> need_table (w_pte w) s;
     let w = (if w_pde w = 0 then w\<lparr>w_pde := slot (getUintPtr (cells s (w_pte w))) (pdx w)\<rparr> else w);
     s \<leftarrow> need_table (w_pde w) s;
     let w = (if w_pdpe w = 0 then w\<lparr>w_pdpe := slot (getUintPtr (cells s (w_pde w))) (pdpx w)\<rparr> else w);
     if pml4x w = 0 \<and> 0x200 \<le> itop - pptr (newent w) then do {
       let e = set_pflags (pflags (newent w)) (cells s (w_pdpe w));
       let e = e OR 0x80;
       let e = set_pptr (pptr (newent w)) e;
       Some (w\<lparr>newent := set_pptr (pptr (newent w) + 0x1FF) (newent w), pml4x := 0x1FF, w_pml4e := 0\<rparr>,
             set_cell (w_pdpe w) e s)
     } else do {
       s \<leftarrow> need_table (w_pdpe w) s;
       let w = (if w_pml4e w = 0 then w\<lparr>w_pml4e := slot (getUintPtr (cells s (w_pdpe w))) (pml4x w)\<rparr> else w);
       Some (w, set_cell (w_pml4e w) (newent w) s)
     }
   }"

text \<open>The increments at the end of the loop body.\<close>

definition map_advance :: "walk \<Rightarrow> walk" where
  "map_advance w =
     (let w = w\<lparr>newent := set_pptr (pptr (newent w) + 1) (newent w), pml4x := pml4x w + 1,
                 w_pml4e := w_pml4e w + 8\<rparr>
      in if pml4x w \<noteq> 0x200 then w
      else let w = w\<lparr>w_pml4e := 0, pml4x := 0, pdpx := pdpx w + 1, w_pdpe := w_pdpe w + 8\<rparr>
      in if pdpx w \<noteq> 0x200 then w
      else let w = w\<lparr>w_pdpe := 0, pdpx := 0, pdx := pdx w + 1, w_pde := w_pde w + 8\<rparr>
      in if pdx w \<noteq> 0x200 then w
      else w\<lparr>w_pde := 0, pdx := 0, ptx := ptx w + 1, w_pte := w_pte w + 8\<rparr>)"

text \<open>\<^verbatim>\<open>Memory::zero_aligned\<close> on memory that holds tables: the entries in the range become zero.\<close>

definition zero_cells :: "u64 \<Rightarrow> u64 \<Rightarrow> ptstate \<Rightarrow> ptstate" where
  "zero_cells addr len s = s\<lparr>cells := (\<lambda>a. if in_range addr (unat len) a then 0 else cells s a)\<rparr>"

text \<open>
  The search loops of \<^verbatim>\<open>_alloc\<close> and \<^verbatim>\<open>_halloc\<close>: \<open>first_mapped\<close> is the inner loop over \<open>n\<close> pages from
  \<open>addr\<close>, which breaks at the first one that is present.
\<close>

fun first_mapped :: "(u64 \<Rightarrow> pte) \<Rightarrow> u64 \<Rightarrow> u64 \<Rightarrow> nat \<Rightarrow> nat \<Rightarrow> nat option" where
  "first_mapped c pagetable addr ii 0 = None"
| "first_mapped c pagetable addr ii (Suc n) =
     (if mapped c pagetable (addr + push_bit 12 (of_nat ii)) then Some ii
      else first_mapped c pagetable addr (ii + 1) n)"

text \<open>\<open>sh\<close> is 12 for pages and 21 for huge pages; \<open>Some None\<close> is the null result.\<close>

partial_function (option) alloc_search ::
    "nat \<Rightarrow> u64 \<Rightarrow> nat \<Rightarrow> u64 \<Rightarrow> u64 \<Rightarrow> (u64 \<Rightarrow> pte) \<Rightarrow> u64 \<Rightarrow> u64 option option" where
  "alloc_search sh count inner maxp pagetable c i =
     (if maxp \<le> i + count then Some None
      else (case first_mapped c pagetable (push_bit sh i) 0 inner of
              None \<Rightarrow> Some (Some i)
            | Some ii \<Rightarrow> alloc_search sh count inner maxp pagetable c (i + of_nat ii + 1)))"

fun map_loop :: "nat \<Rightarrow> u64 \<Rightarrow> u64 \<Rightarrow> walk \<Rightarrow> ptstate \<Rightarrow> ptstate option"
  and renew_loop :: "nat \<Rightarrow> nat \<Rightarrow> u64 \<Rightarrow> ptstate \<Rightarrow> ptstate option"
  and page_alloc :: "nat \<Rightarrow> bool \<Rightarrow> u64 \<Rightarrow> u8 \<Rightarrow> u64 \<Rightarrow> ptstate \<Rightarrow> (u64 \<times> ptstate) option" where
  "map_loop 0 itop pagetable w s = None"
| "map_loop (Suc n) itop pagetable w s =
     (if pptr (newent w) < itop then do {
        (w, s) \<leftarrow> map_body itop w s;
        s \<leftarrow> (if rsvd_r s = rsvd_w s
              then renew_loop n ((rsvd_r s + rsvd_num - 1) mod rsvd_num) pagetable s else Some s);
        map_loop n itop pagetable (map_advance w) s
      } else Some s)"
| "renew_loop 0 target pagetable s = None"
| "renew_loop (Suc n) target pagetable s =
     (if rsvd_w s = target then Some s
      else do {
        let s = s\<lparr>rsvd_w := (rsvd_w s + 1) mod rsvd_num\<rparr>;
        (page, s) \<leftarrow> page_alloc n False 1 TABLE pagetable s;
        renew_loop n target pagetable (s\<lparr>rsvd_pages := (rsvd_pages s)[rsvd_w s := page]\<rparr>)
      })"
| "page_alloc 0 low count type pagetable s = None"
| "page_alloc (Suc n) low count type pagetable s = do {
     r \<leftarrow> alloc_search 12 count (unat count) (max_page s) pagetable (cells s) (if low then 1 else last_page s);
     case r of
       None \<Rightarrow> Some (0, s)
     | Some i \<Rightarrow> do {
         let s = (if low then s else s\<lparr>last_page := i\<rparr>);
         let addr = push_bit 12 i;
         s \<leftarrow> map_loop n (drop_bit 12 (addr + push_bit 12 count + 0xFFF)) pagetable
                (walk_start addr type pagetable) s;
         Some (addr, zero_cells addr (count * 0x1000) s)
       }
   }"

definition map_range :: "nat \<Rightarrow> u64 \<Rightarrow> u64 \<Rightarrow> u8 \<Rightarrow> u64 \<Rightarrow> ptstate \<Rightarrow> ptstate option" where
  "map_range fuel low high type pagetable s =
     map_loop fuel (drop_bit 12 (high + 0xFFF)) pagetable (walk_start low type pagetable) s"

definition renewRsvd :: "nat \<Rightarrow> u64 \<Rightarrow> ptstate \<Rightarrow> ptstate option" where
  "renewRsvd fuel pagetable s =
     renew_loop fuel ((rsvd_r s + rsvd_num - 1) mod rsvd_num) pagetable s"

definition page_halloc :: "nat \<Rightarrow> u64 \<Rightarrow> u8 \<Rightarrow> u64 \<Rightarrow> ptstate \<Rightarrow> (u64 \<times> ptstate) option" where
  "page_halloc fuel count type pagetable s = do {
     r \<leftarrow> alloc_search 21 count (unat (push_bit 9 count)) (max_page s) pagetable (cells s)
            (drop_bit 9 (last_page s + 0x1FF));
     case r of
       None \<Rightarrow> Some (0, s)
     | Some i \<Rightarrow> do {
         let addr = push_bit 21 i;
         s \<leftarrow> map_range fuel addr (addr + push_bit 21 count) type pagetable s;
         Some (addr, zero_cells addr (count * 0x1000) s)
       }
   }"

text \<open>The public operations, on the table the \<^verbatim>\<open>cr3\<close> register points to.\<close>

definition pt_map :: "nat \<Rightarrow> u64 \<Rightarrow> u64 \<Rightarrow> u8 \<Rightarrow> u64 \<Rightarrow> ptstate \<Rightarrow> (u64 \<times> ptstate) option" where
  "pt_map fuel low high type cr3 s = do {
     s \<leftarrow> map_range fuel low high type cr3 s;
     s \<leftarrow> renewRsvd fuel cr3 s;
     Some (low, s)
   }"

definition pt_map_page :: "nat \<Rightarrow> u64 \<Rightarrow> u8 \<Rightarrow> u64 \<Rightarrow> ptstate \<Rightarrow> (u64 \<times> ptstate) option" where
  "pt_map_page fuel addr type cr3 s = pt_map fuel addr (addr + 0x1000) type cr3 s"

definition pt_halloc :: "nat \<Rightarrow> u64 \<Rightarrow> u8 \<Rightarrow> u64 \<Rightarrow> ptstate \<Rightarrow> (u64 \<times> ptstate) option" where
  "pt_halloc fuel count type cr3 s = do {
     (addr, s) \<leftarrow> page_halloc fuel count type cr3 s;
     s \<leftarrow> renewRsvd fuel cr3 s;
     Some (addr, s)
   }"

definition pt_alloc :: "nat \<Rightarrow> u64 \<Rightarrow> u8 \<Rightarrow> u64 \<Rightarrow> ptstate \<Rightarrow> (u64 \<times> ptstate) option" where
  "pt_alloc fuel count type cr3 s =
     (if 0x200 \<le> count \<and> count AND 0x1FF = 0 then pt_halloc fuel (drop_bit 9 count) type cr3 s
      else do {
        (addr, s) \<leftarrow> page_alloc fuel False count type cr3 s;
        s \<leftarrow> renewRsvd fuel cr3 s;
        Some (addr, s)
      })"

definition pt_lowalloc :: "nat \<Rightarrow> u64 \<Rightarrow> u8 \<Rightarrow> u64 \<Rightarrow> ptstate \<Rightarrow> (u64 \<times> ptstate) option" where
  "pt_lowalloc fuel count type cr3 s = do {
     (addr, s) \<leftarrow> page_alloc fuel True count type cr3 s;
     s \<leftarrow> renewRsvd fuel cr3 s;
     Some (addr, s)
   }"

definition pt_free :: "u64 \<Rightarrow> u64 \<Rightarrow> ptstate \<Rightarrow> ptstate" where
  "pt_free page cr3 s =
     (case find_entry (cells s) page cr3 of
        None \<Rightarrow> s
      | Some a \<Rightarrow>
          if present (cells s a) then
            (let s = set_cell a (cells s a AND NOT 1) s;
                 addr = getUintPtr (cells s a)
             in if drop_bit 12 addr < last_page s \<and> 0x1000 \<le> drop_bit 12 addr
                then s\<lparr>last_page := drop_bit 12 addr\<rparr> else s)
          else s)"

section \<open>Entries: packing and unpacking\<close>

lemma u64_bit_ge [simp]: "64 \<le> n \<Longrightarrow> \<not> bit (w :: u64) n"
  using bit_imp_le_length [of w n] by auto

lemmas field_defs = present_def readwrite_def user_def hugesize_def nx_def pflags_def pptr_def
  getUintPtr_def set_pptr_def set_pflags_def ptr_mask_def

lemma bit_exp_u64: "bit (2 ^ k :: u64) n \<longleftrightarrow> k < 64 \<and> n = k"
  by (auto simp: bit_exp_iff)

lemma bit_flag_u64:
  "bit (if P then 0 else 1 :: u64) n \<longleftrightarrow> n = 0 \<and> \<not> P"
  "bit (if P then 2 else 0 :: u64) n \<longleftrightarrow> n = 1 \<and> P"
  "bit (if P then 4 else 0 :: u64) n \<longleftrightarrow> n = 2 \<and> P"
  "bit (if P then 0 else push_bit 63 1 :: u64) n \<longleftrightarrow> n = 63 \<and> \<not> P"
  using bit_exp_u64 [of 0 n] bit_exp_u64 [of 1 n] bit_exp_u64 [of 2 n] bit_exp_u64 [of 63 n]
  by (simp_all add: push_bit_eq_mult)

lemma bit_ptr_mask: "bit (x AND 0x7FFFFFFFFFFFF000 :: u64) n \<longleftrightarrow> 12 \<le> n \<and> n < 63 \<and> bit x n"
proof -
  have m: "(0x7FFFFFFFFFFFF000 :: u64) = push_bit 12 (mask 51)"
    by (simp add: mask_eq_exp_minus_1 push_bit_eq_mult)
  show ?thesis unfolding m bit_and_iff bit_push_bit_iff bit_mask_iff by auto
qed

lemma Entry_bits:
  "bit (Entry ptr avl type) n \<longleftrightarrow>
     (n = 0 \<and> \<not> type_has type NULLPAGE) \<or> (n = 1 \<and> type_has type FLAG_W) \<or> (n = 2 \<and> type_has type FLAG_U)
     \<or> (9 \<le> n \<and> n < 12 \<and> bit avl (n - 9)) \<or> (12 \<le> n \<and> n < 63 \<and> bit ptr n)
     \<or> (n = 63 \<and> \<not> type_has type FLAG_X)"
proof -
  consider "n < 9" | "9 \<le> n" "n < 12" | "12 \<le> n" "n < 63" | "n = 63" | "64 \<le> n" by linarith
  then show ?thesis
    unfolding Entry_def bit_or_iff bit_flag_u64 bit_push_bit_iff bit_take_bit_iff bit_drop_bit_eq o_apply
    by cases auto
qed

lemma pptr_bits: "bit (pptr e) n \<longleftrightarrow> n < 51 \<and> bit e (n + 12)"
  by (auto simp: pptr_def bit_simps add.commute)

lemma getUintPtr_bits: "bit (getUintPtr e) n \<longleftrightarrow> 12 \<le> n \<and> n < 63 \<and> bit e n"
  by (auto simp: getUintPtr_def pptr_bits bit_simps)

lemma set_pptr_bits:
  "bit (set_pptr p e) n \<longleftrightarrow> (if 12 \<le> n \<and> n < 63 then bit p (n - 12) else bit e n)"
  by (cases "n < 64") (auto simp: set_pptr_def ptr_mask_def bit_simps)

lemma Entry_flags [simp]:
  "present (Entry ptr avl type) = (\<not> type_has type NULLPAGE)"
  "readwrite (Entry ptr avl type) = type_has type FLAG_W"
  "user (Entry ptr avl type) = type_has type FLAG_U"
  "hugesize (Entry ptr avl type) = False"
  "nx (Entry ptr avl type) = (\<not> type_has type FLAG_X)"
  by (auto simp: Entry_bits present_def readwrite_def user_def hugesize_def nx_def)

lemma Entry_ptr: "getUintPtr (Entry ptr avl type) = ptr AND 0x7FFFFFFFFFFFF000"
  by (rule bit_word_eqI) (auto simp: getUintPtr_bits Entry_bits bit_ptr_mask)

lemma set_pptr_get: "pptr (set_pptr p e) = take_bit 51 p"
  by (rule bit_word_eqI) (auto simp: pptr_bits set_pptr_bits bit_simps)

lemma set_pptr_other:
  "present (set_pptr p e) = present e" "readwrite (set_pptr p e) = readwrite e"
  "user (set_pptr p e) = user e" "hugesize (set_pptr p e) = hugesize e" "nx (set_pptr p e) = nx e"
  by (simp_all add: present_def readwrite_def user_def hugesize_def nx_def set_pptr_bits)

section \<open>Searching for free pages\<close>

text \<open>The \<open>n\<close> pages from page number \<open>j\<close> on are all unmapped.\<close>

definition free_run :: "(u64 \<Rightarrow> pte) \<Rightarrow> u64 \<Rightarrow> nat \<Rightarrow> u64 \<Rightarrow> bool" where
  "free_run c pt n j \<longleftrightarrow> (\<forall>k < n. \<not> mapped c pt (push_bit 12 (j + of_nat k)))"

lemma page_addr: "push_bit 12 i + push_bit 12 k = push_bit 12 (i + k :: u64)"
  by (simp add: push_bit_eq_mult algebra_simps)

lemma first_mapped_None:
  "first_mapped c pt (push_bit 12 j) ii n = None \<longleftrightarrow> free_run c pt n (j + of_nat ii)"
proof (induction n arbitrary: ii)
  case (Suc n)
  have "free_run c pt (Suc n) (j + of_nat ii) \<longleftrightarrow>
      \<not> mapped c pt (push_bit 12 (j + of_nat ii)) \<and> free_run c pt n (j + of_nat (ii + 1))"
    unfolding free_run_def All_less_Suc2 by (simp add: algebra_simps)
  with Suc.IH [of "ii + 1"] show ?case by (simp add: page_addr)
qed (simp add: free_run_def)

lemma first_mapped_Some:
  "first_mapped c pt (push_bit 12 j) ii n = Some k \<Longrightarrow>
   ii \<le> k \<and> k < ii + n \<and> mapped c pt (push_bit 12 (j + of_nat k))"
proof (induction n arbitrary: ii)
  case (Suc n)
  then show ?case
    by (cases "mapped c pt (push_bit 12 (j + of_nat ii))") (fastforce simp: page_addr)+
qed simp

lemma not_free_run:
  assumes "mapped c pt (push_bit 12 (i + of_nat k))" and "unat i \<le> unat j" and "unat j \<le> unat i + k"
    and "k < n" and "unat i + k < 2 ^ 64"
  shows "\<not> free_run c pt n j"
proof -
  define m where "m = unat i + k - unat j"
  have "j + of_nat m = i + of_nat k"
  proof -
    have "unat j + m = unat i + k" using assms(3) by (simp add: m_def)
    then have "of_nat (unat j + m) = (of_nat (unat i + k) :: u64)" by simp
    then show ?thesis by simp
  qed
  moreover have "m < n" using assms by (simp add: m_def)
  ultimately show ?thesis using assms(1) unfolding free_run_def by metis
qed

text \<open>What a first-fit search from page \<open>i\<close> returns.\<close>

definition first_fit :: "(u64 \<Rightarrow> pte) \<Rightarrow> u64 \<Rightarrow> nat \<Rightarrow> u64 \<Rightarrow> u64 \<Rightarrow> u64 option \<Rightarrow> bool" where
  "first_fit c pt n maxp i r \<longleftrightarrow>
     (case r of
        None \<Rightarrow> \<forall>j. unat i \<le> unat j \<and> unat j + n < unat maxp \<longrightarrow> \<not> free_run c pt n j
      | Some j \<Rightarrow> unat i \<le> unat j \<and> unat j + n < unat maxp \<and> free_run c pt n j
          \<and> (\<forall>j'. unat i \<le> unat j' \<and> unat j' < unat j \<longrightarrow> \<not> free_run c pt n j'))"

lemma first_fit_skip:
  assumes "first_fit c pt n maxp i' r" and "unat i \<le> unat i'"
    and skip: "\<And>j. unat i \<le> unat j \<Longrightarrow> unat j < unat i' \<Longrightarrow> \<not> free_run c pt n j"
  shows "first_fit c pt n maxp i r"
proof (cases r)
  case None
  have "\<not> free_run c pt n j" if "unat i \<le> unat j" "unat j + n < unat maxp" for j
    using assms(1) None skip [of j] that by (cases "unat j < unat i'") (auto simp: first_fit_def)
  with None show ?thesis by (simp add: first_fit_def)
next
  case (Some j)
  have "\<not> free_run c pt n j'" if "unat i \<le> unat j'" "unat j' < unat j" for j'
    using assms(1) Some skip [of j'] that by (cases "unat j' < unat i'") (auto simp: first_fit_def)
  with assms(1,2) Some show ?thesis by (auto simp: first_fit_def)
qed

lemma alloc_search_finds:
  assumes "unat maxp + unat count < 2 ^ 64" and "unat i + unat count < 2 ^ 64"
  shows "\<exists>r. alloc_search 12 count (unat count) maxp pt c i = Some r
    \<and> first_fit c pt (unat count) maxp i r"
  using assms(2)
proof (induction "2 ^ 64 - unat i" arbitrary: i rule: less_induct)
  case less
  have top: "unat (i + count) = unat i + unat count"
    using less.prems by (simp add: unat_add_u64)
  show ?case
  proof (cases "maxp \<le> i + count")
    case True
    then show ?thesis
      using top by (subst alloc_search.simps) (auto simp: first_fit_def word_le_nat_alt)
  next
    case False
    then have room: "unat i + unat count < unat maxp" using top by (simp add: word_le_nat_alt)
    show ?thesis
    proof (cases "first_mapped c pt (push_bit 12 i) 0 (unat count)")
      case None
      with False show ?thesis
        using room first_mapped_None [of c pt i 0 "unat count"]
        by (subst alloc_search.simps) (auto simp: first_fit_def)
    next
      case (Some k)
      note k = first_mapped_Some [OF this]
      let ?i = "i + of_nat k + 1"
      have "unat (i + of_nat k) = unat i + k"
        using k less.prems by (simp add: unat_add_u64 unat_of_nat_u64)
      then have ui: "unat ?i = unat i + k + 1"
        using k less.prems by (simp add: unat_add_u64)
      have skip: "\<not> free_run c pt (unat count) j" if "unat i \<le> unat j" "unat j < unat ?i" for j
        using k that ui less.prems by (intro not_free_run [of c pt i k]) auto
      have "alloc_search 12 count (unat count) maxp pt c i
          = alloc_search 12 count (unat count) maxp pt c ?i"
        using False Some by (subst alloc_search.simps) simp
      moreover have "2 ^ 64 - unat ?i < 2 ^ 64 - unat i" "unat ?i + unat count < 2 ^ 64" "unat i \<le> unat ?i"
        using ui k room assms(1) by simp_all
      ultimately show ?thesis
        using less.hyps [of ?i] skip by (auto intro: first_fit_skip)
    qed
  qed
qed



section \<open>Mapping and unmapping\<close>

text \<open>The four entries a walk to a small page goes through.\<close>

definition path_slots :: "(u64 \<Rightarrow> pte) \<Rightarrow> u64 \<Rightarrow> u64 \<Rightarrow> u64 \<times> u64 \<times> u64 \<times> u64" where
  "path_slots c ptr pt =
     (let a1 = slot pt (table_index 39 ptr);
          a2 = slot (getUintPtr (c a1)) (table_index 30 ptr);
          a3 = slot (getUintPtr (c a2)) (table_index 21 ptr);
          a4 = slot (getUintPtr (c a3)) (table_index 12 ptr)
      in (a1, a2, a3, a4))"

lemma find_entry_path:
  assumes "path_slots c ptr pt = (a1, a2, a3, a4)"
    and "present (c a1)" "present (c a2)" "present (c a3)" "\<not> hugesize (c a3)"
  shows "find_entry c ptr pt = Some a4"
  using assms by (auto simp: path_slots_def find_entry_def Let_def)

lemma path_slots_upd:
  assumes "path_slots c ptr pt = (a1, a2, a3, a4)" and "a \<notin> {a1, a2, a3}"
  shows "path_slots (c(a := e)) ptr pt = (a1, a2, a3, a4)"
  using assms by (auto simp: path_slots_def Let_def)

lemma walk_index:
  assumes "k + 9 \<le> 51"
  shows "drop_bit k (pptr (Entry addr avl type)) AND 0x1FF = table_index (k + 12) addr"
proof (rule bit_word_eqI)
  fix n
  have m: "(0x1FF :: u64) = mask 9" by (simp add: mask_eq_exp_minus_1)
  show "bit (drop_bit k (pptr (Entry addr avl type)) AND 0x1FF) n = bit (table_index (k + 12) addr) n"
    using assms unfolding table_index_def m
    by (auto simp: bit_and_iff bit_mask_iff bit_drop_bit_eq pptr_bits Entry_bits algebra_simps)
qed

lemma free_unmapped: "\<not> mapped (cells s) cr3 page \<Longrightarrow> pt_free page cr3 s = s"
  by (auto simp: mapped_def pt_free_def split: option.splits)

lemma present_cleared: "\<not> present (e AND NOT 1)"
  by (simp add: present_def bit_simps)

lemma mapped_cleared:
  assumes "find_entry c page cr3 = Some a" and "\<not> present e"
  shows "\<not> mapped (c(a := e)) cr3 page"
  using assms by (auto simp: mapped_def find_entry_def Let_def split: if_splits)

lemma pt_free_cells:
  assumes "find_entry (cells s) page cr3 = Some a" and "present (cells s a)"
  shows "cells (pt_free page cr3 s) = (cells s)(a := cells s a AND NOT 1)"
    and "last_page (pt_free page cr3 s) \<le> last_page s"
  using assms by (auto simp: pt_free_def set_cell_def Let_def)

text \<open>
  C22: After Pagetable::free the page is not mapped, whether it was a small or a huge page;
  freeing it again changes nothing; and the position the next allocation starts from never
  moves up.
\<close>

theorem free_unmaps:
  "\<not> mapped (cells (pt_free page cr3 s)) cr3 page
   \<and> pt_free page cr3 (pt_free page cr3 s) = pt_free page cr3 s
   \<and> last_page (pt_free page cr3 s) \<le> last_page s"
proof (cases "mapped (cells s) cr3 page")
  case True
  then obtain a where a: "find_entry (cells s) page cr3 = Some a" "present (cells s a)"
    by (auto simp: mapped_def split: option.splits)
  have "\<not> mapped (cells (pt_free page cr3 s)) cr3 page"
    using mapped_cleared [OF a(1) present_cleared] pt_free_cells(1) [OF a] by simp
  with pt_free_cells(2) [OF a] free_unmapped show ?thesis by blast
next
  case False
  then show ?thesis by (simp add: free_unmapped)
qed

text \<open>One page, mapped into tables that exist, with the ring of reserved pages not used up.\<close>

lemma need_table_present: "present (cells s a) \<Longrightarrow> need_table a s = Some s"
  by (simp add: need_table_def)

lemma bit_below_63:
  assumes "unat (addr :: u64) < 2 ^ 63" and "bit addr m"
  shows "m < 63"
proof -
  have "unat (drop_bit 63 addr) = 0"
    using assms(1) by (simp add: drop_bit_eq_div unat_div)
  then have "drop_bit 63 addr = 0" by (simp add: unat_eq_zero)
  then have "\<not> bit addr 63" by (simp add: bit_iff_odd_drop_bit)
  then show ?thesis
    using assms(2) bit_imp_le_length [of addr m] by (cases "m = 63") auto
qed

lemma bit_page_aligned:
  assumes "(addr :: u64) AND 0xFFF = 0" and "bit addr m"
  shows "12 \<le> m"
proof (rule ccontr)
  assume "\<not> 12 \<le> m"
  then have "bit (addr AND mask 12) m"
    using assms(2) bit_imp_le_length [OF assms(2)] by (simp add: bit_and_iff bit_mask_iff)
  with assms(1) show False by (simp add: mask_eq_exp_minus_1)
qed

lemma pptr_Entry: "unat addr < 2 ^ 63 \<Longrightarrow> pptr (Entry addr avl type) = drop_bit 12 addr"
  by (rule bit_word_eqI)
    (use bit_below_63 [of addr] in \<open>fastforce simp: pptr_bits Entry_bits bit_drop_bit_eq add.commute\<close>)

lemma getUintPtr_Entry:
  "unat addr < 2 ^ 63 \<Longrightarrow> addr AND 0xFFF = 0 \<Longrightarrow> getUintPtr (Entry addr avl type) = addr"
  by (rule bit_word_eqI)
    (use bit_below_63 [of addr] bit_page_aligned [of addr] in \<open>auto simp: getUintPtr_bits Entry_bits\<close>)

lemma drop12_next:
  fixes addr :: u64
  assumes "addr AND 0xFFF = 0" and "unat addr + 0x1FFF < 2 ^ 64"
  shows "drop_bit 12 (addr + 0x1000 + 0xFFF) = drop_bit 12 addr + 1"
proof -
  have m: "(0xFFF :: u64) = mask 12" by (simp add: mask_eq_exp_minus_1)
  have "take_bit 12 addr = 0" using assms(1) unfolding m by (simp add: take_bit_eq_mask)
  then have "unat (take_bit 12 addr) = 0" by simp
  then have "unat addr mod 4096 = 0" by (simp add: take_bit_eq_mod unat_mod)
  then obtain q where q: "unat addr = 4096 * q" by auto
  have "unat (addr + 0x1FFF) = unat addr + 0x1FFF"
    using assms(2) by (simp add: unat_add_u64)
  then have "unat (drop_bit 12 (addr + 0x1FFF)) = (4096 * q + 0x1FFF) div 4096"
    by (simp add: drop_bit_eq_div unat_div q)
  also have "\<dots> = q + 1" by simp
  also have "\<dots> = unat (drop_bit 12 addr + 1)"
    using assms(2) by (simp add: drop_bit_eq_div unat_div unat_add_u64 q)
  finally have "drop_bit 12 (addr + 0x1FFF) = drop_bit 12 addr + 1"
    by (simp add: word_unat_eq_iff)
  then show ?thesis by (simp add: add.assoc)
qed

lemma take51_id: "unat (p :: u64) < 2 ^ 51 \<Longrightarrow> take_bit 51 p = p"
  by (simp add: take_bit_eq_mod word_unat_eq_iff unat_mod)

lemma map_one_page:
  assumes path: "path_slots (cells s) addr pt = (a1, a2, a3, a4)"
    and tables: "present (cells s a1)" "present (cells s a2)" "present (cells s a3)"
    and ring: "rsvd_r s \<noteq> rsvd_w s"
    and addr: "addr AND 0xFFF = 0" "unat addr + 0x1000 < 2 ^ 63"
  shows "map_range (Suc (Suc n)) addr (addr + 0x1000) type pt s = Some (set_cell a4 (Entry addr 0 type) s)"
proof -
  let ?e = "Entry addr 0 type" and ?p = "drop_bit 12 addr"
  let ?w = "walk_start addr type pt"
  have p: "pptr ?e = ?p" using addr(2) by (intro pptr_Entry) simp
  have itop: "drop_bit 12 (addr + 0x1000 + 0xFFF) = ?p + 1"
    using addr by (intro drop12_next) simp_all
  have "unat addr div 4096 + 1 < 2 ^ 51" using addr(2) by simp
  then have up: "unat ?p + 1 < 2 ^ 51" by (simp add: drop_bit_eq_div unat_div)
  then have u1: "unat (?p + 1) = unat ?p + 1" by (simp add: unat_add_u64)
  have lt: "?p < ?p + 1" using u1 by (simp add: word_less_nat_alt)
  have stop: "pptr (set_pptr (?p + 1) ?e) = ?p + 1"
    using up u1 by (simp add: set_pptr_get take51_id)
  have idx: "slot pt (ptx ?w) = a1" "slot (getUintPtr (cells s a1)) (pdx ?w) = a2"
    "slot (getUintPtr (cells s a2)) (pdpx ?w) = a3" "slot (getUintPtr (cells s a3)) (pml4x ?w) = a4"
    using path walk_index [of 27 addr 0 type] walk_index [of 18 addr 0 type] walk_index [of 9 addr 0 type]
      walk_index [of 0 addr 0 type]
    by (auto simp: walk_start_def path_slots_def Let_def)
  have small: "\<not> (0x200 :: u64) \<le> 1" by (simp add: word_le_nat_alt)
  have body: "\<exists>w. map_body (?p + 1) ?w s = Some (w, set_cell a4 ?e s) \<and> newent w = ?e"
    using idx tables p lt small
    by (simp add: map_body_def need_table_present Let_def walk_start_def)
  then obtain w where w: "map_body (?p + 1) ?w s = Some (w, set_cell a4 ?e s)" "newent w = ?e" by blast
  have adv: "newent (map_advance w) = set_pptr (?p + 1) ?e"
    using w(2) p by (simp add: map_advance_def Let_def)
  have "newent ?w = ?e" by (simp add: walk_start_def Let_def)
  then show ?thesis
    using w adv stop ring lt p unfolding map_range_def itop by (simp add: set_cell_def)
qed

text \<open>
  Mapping one page into existing tables makes Entry::find return its entry, which maps the
  page to itself with the write, user and no-execute bits of the memory type, and changes no
  other entry.
\<close>

theorem map_page_identity:
  assumes path: "path_slots (cells s) addr pt = (a1, a2, a3, a4)"
    and tables: "present (cells s a1)" "present (cells s a2)" "present (cells s a3)" "\<not> hugesize (cells s a3)"
    and leaf: "a4 \<notin> {a1, a2, a3}" and ring: "rsvd_r s \<noteq> rsvd_w s"
    and addr: "addr AND 0xFFF = 0" "unat addr + 0x1000 < 2 ^ 63"
  shows "\<exists>s'. map_range (n + 2) addr (addr + 0x1000) type pt s = Some s'
    \<and> find_entry (cells s') addr pt = Some a4
    \<and> getUintPtr (cells s' a4) = addr
    \<and> present (cells s' a4) = (\<not> type_has type NULLPAGE)
    \<and> readwrite (cells s' a4) = type_has type FLAG_W \<and> user (cells s' a4) = type_has type FLAG_U
    \<and> nx (cells s' a4) = (\<not> type_has type FLAG_X)
    \<and> (\<forall>a. a \<noteq> a4 \<longrightarrow> cells s' a = cells s a)"
proof -
  let ?s = "set_cell a4 (Entry addr 0 type) s"
  have run: "map_range (n + 2) addr (addr + 0x1000) type pt s = Some ?s"
    using map_one_page [OF path tables(1-3) ring addr] by (simp add: eval_nat_numeral)
  have "path_slots (cells ?s) addr pt = (a1, a2, a3, a4)"
    unfolding set_cell_def using path_slots_upd [OF path leaf] by simp
  then have "find_entry (cells ?s) addr pt = Some a4"
    using tables leaf by (intro find_entry_path) (auto simp: set_cell_def)
  moreover have "getUintPtr (Entry addr 0 type) = addr"
    using addr by (simp add: getUintPtr_Entry)
  ultimately show ?thesis
    using run by (intro exI [of _ ?s]) (simp add: set_cell_def)
qed

definition demo_pt :: ptstate where
  "demo_pt = \<lparr>cells = ((\<lambda>_. 0)(0x1000 := Entry 0x2000 0 TABLE))
       (0x2000 := Entry 0x3000 0 TABLE, 0x3000 := Entry 0x4000 0 TABLE),
     rsvd_pages = replicate 16 0, rsvd_r = 0, rsvd_w = 15, last_page = 0x1000, max_page = 0x8000\<rparr>"

lemma demo_ptr: "getUintPtr (Entry 0x2000 0 t) = 0x2000" "getUintPtr (Entry 0x3000 0 t) = 0x3000"
  "getUintPtr (Entry 0x4000 0 t) = 0x4000"
  by (simp_all add: getUintPtr_Entry)

lemma table_not_null: "\<not> type_has TABLE NULLPAGE"
  by (simp add: type_has_def TABLE_def FLAG_X_def FLAG_W_def NULLPAGE_def)

theorem map_page_identity_witness:
  "\<exists>s'. map_range (0 + 2) 0x5000 (0x5000 + 0x1000) DATA_RW 0x1000 demo_pt = Some s'
     \<and> find_entry (cells s') 0x5000 0x1000 = Some 0x4028 \<and> getUintPtr (cells s' 0x4028) = 0x5000"
proof -
  have "path_slots (cells demo_pt) 0x5000 0x1000 = (0x1000, 0x2000, 0x3000, 0x4028)"
    by (simp add: path_slots_def demo_pt_def demo_ptr slot_def table_index_def Let_def)
  then have "\<exists>s'. map_range (0 + 2) 0x5000 (0x5000 + 0x1000) DATA_RW 0x1000 demo_pt = Some s'
    \<and> find_entry (cells s') 0x5000 0x1000 = Some 0x4028
    \<and> getUintPtr (cells s' 0x4028) = 0x5000
    \<and> present (cells s' 0x4028) = (\<not> type_has DATA_RW NULLPAGE)
    \<and> readwrite (cells s' 0x4028) = type_has DATA_RW FLAG_W \<and> user (cells s' 0x4028) = type_has DATA_RW FLAG_U
    \<and> nx (cells s' 0x4028) = (\<not> type_has DATA_RW FLAG_X)
    \<and> (\<forall>a. a \<noteq> 0x4028 \<longrightarrow> cells s' a = cells demo_pt a)"
    by (rule map_page_identity) (simp_all add: demo_pt_def table_not_null)
  then show ?thesis by blast
qed

text \<open>
  When _map maps a 2 MiB page, the entry gets the address, present and write bits of the
  request, but its no-execute bit stays what it was: on a fresh entry data pages become
  executable.
\<close>

theorem huge_mapping_keeps_nx:
  assumes body: "map_body itop w s = Some (w', s')"
    and huge: "pml4x w = 0" "0x200 \<le> itop - pptr (newent w)" and ptrs: "w_pde w = a2" "w_pdpe w = a3" "a2 \<noteq> 0" "a3 \<noteq> 0"
    and tables: "present (cells s (w_pte w))" "present (cells s a2)"
  shows "hugesize (cells s' a3) \<and> getUintPtr (cells s' a3) = getUintPtr (newent w)
    \<and> present (cells s' a3) = present (newent w) \<and> readwrite (cells s' a3) = readwrite (newent w)
    \<and> nx (cells s' a3) = nx (cells s a3)"
proof -
  have eq: "cells s' a3 = set_pptr (pptr (newent w)) (set_pflags (pflags (newent w)) (cells s a3) OR 0x80)"
    using assms by (auto simp: map_body_def need_table_present set_cell_def)
  have ptr: "getUintPtr (set_pptr (pptr (newent w)) e) = getUintPtr (newent w)" for e
    by (rule bit_word_eqI) (auto simp: getUintPtr_bits set_pptr_bits pptr_bits)
  have bits: "bit (set_pflags fl e OR 0x80) n = (n = 7 \<or> (if n < 8 then bit fl n else bit e n))" for fl e n
  proof -
    have m: "(0xFF :: u64) = mask 8" "(0x80 :: u64) = 2 ^ 7" by (simp_all add: mask_eq_exp_minus_1)
    show ?thesis
      unfolding set_pflags_def m bit_or_iff bit_and_iff bit_not_iff bit_exp_u64 bit_take_bit_iff bit_mask_iff
      by (cases "n < 64") auto
  qed
  show ?thesis
    unfolding eq ptr set_pptr_other
    unfolding hugesize_def present_def readwrite_def nx_def bits pflags_def bit_take_bit_iff by simp
qed

theorem huge_mapping_keeps_nx_witness:
  "let w = (walk_start 0x200000 DATA_RW 0x1000)\<lparr>w_pde := 0x2000, w_pdpe := 0x3008\<rparr>;
       r = map_body 0x400 w demo_pt
   in map_option (\<lambda>(w', s'). hugesize (cells s' 0x3008)) r = Some True
      \<and> map_option (\<lambda>(w', s'). nx (cells s' 0x3008)) r = Some False
      \<and> nx (newent w)"
proof -
  let ?w = "(walk_start 0x200000 DATA_RW 0x1000)\<lparr>w_pde := 0x2000, w_pdpe := 0x3008\<rparr>"
  have p: "pptr (Entry 0x200000 0 DATA_RW) = 0x200" by (simp add: pptr_Entry)
  then have w: "pml4x ?w = 0" "0x200 \<le> 0x400 - pptr (newent ?w)" "w_pte ?w = 0x1000"
      "newent ?w = Entry 0x200000 0 DATA_RW"
    by (simp_all add: walk_start_def Let_def slot_def)
  have t: "present (cells demo_pt 0x1000)" "present (cells demo_pt 0x2000)" "cells demo_pt 0x3008 = 0"
    by (simp_all add: demo_pt_def table_not_null)
  obtain w' s' where r: "map_body 0x400 ?w demo_pt = Some (w', s')"
    using w t by (simp add: map_body_def need_table_present Let_def)
  have "hugesize (cells s' 0x3008) \<and> nx (cells s' 0x3008) = nx (cells demo_pt 0x3008)"
    using huge_mapping_keeps_nx [OF r w(1,2), of "0x2000" "0x3008"] t w(3) by simp
  moreover have "nx (newent ?w)"
    unfolding w(4) by (simp add: DATA_RW_def type_has_def FLAG_W_def FLAG_X_def)
  ultimately show ?thesis
    using t(3) unfolding Let_def r by (simp add: nx_def)
qed

end
