(* ===== verification/Sprintf.thy ===== *)
theory Sprintf
  imports Prelude
begin

text \<open>
  \<^verbatim>\<open>src/sprintf/sprintf.cpp\<close>: \<^verbatim>\<open>vsnprintf\<close>. A format is the list of its characters up to the
  terminating NUL (the end of the list); the variable arguments are the list of their 64-bit
  slots; \<open>strs\<close> gives the C string at an address. What a conversion does to the output is an
  action: characters to put, or the store of \<^verbatim>\<open>%n\<close>.
\<close>

section \<open>Numbers\<close>

definition digit_char :: "bool \<Rightarrow> nat \<Rightarrow> char" where
  "digit_char caps digit =
     (if digit < 10 then char_of (digit + 48)
      else char_of (digit - 10 + (if caps then 65 else 97)))"

text \<open>The loop \<^verbatim>\<open>while (n)\<close>, which fills the buffer from its end; \<open>base\<close> is 8, 10 or 16.\<close>

function digits_loop :: "nat \<Rightarrow> bool \<Rightarrow> nat \<Rightarrow> string \<Rightarrow> string" where
  "digits_loop base caps n acc =
     (if n = 0 \<or> base < 2 then acc
      else digits_loop base caps (n div base) (digit_char caps (n mod base) # acc))"
  by auto
termination
  by (relation "measure (\<lambda>(base, caps, n, acc). n)") auto

declare digits_loop.simps [simp del]

definition longlong_to_string :: "u64 \<Rightarrow> nat \<Rightarrow> bool \<Rightarrow> bool \<Rightarrow> bool \<Rightarrow> string" where
  "longlong_to_string n base fl_signed fl_showsign fl_caps =
     (let negative = (fl_signed \<and> n <s 0);
          n = (if negative then - n else n);
          ds = digits_loop base fl_caps (unat n) [];
          ds = (if ds = [] then ''0'' else ds)
      in if negative then CHR ''-'' # ds else if fl_showsign then CHR ''+'' # ds else ds)"

section \<open>Output\<close>

text \<open>
  \<^verbatim>\<open>str\<close> (null or not), the remaining \<^verbatim>\<open>size\<close>, \<^verbatim>\<open>out_len\<close>, the bytes written relative to \<^verbatim>\<open>str\<close>, and
  the stores of \<^verbatim>\<open>%n\<close> (address, width in bytes, value).
\<close>

record pout =
  has_str :: bool
  room :: nat
  out_len :: int
  written :: "nat \<rightharpoonup> char"
  stores :: "(u64 \<times> nat \<times> int) list"

definition printf_putc :: "char \<Rightarrow> pout \<Rightarrow> pout" where
  "printf_putc c p =
     (if out_len p = - 1 then p
      else let p = p\<lparr>out_len := out_len p + 1\<rparr>
      in if \<not> has_str p then p
      else if room p = 0 then p\<lparr>out_len := - 1\<rparr>
      else p\<lparr>room := room p - 1, written := (written p)(nat (out_len p - 1) \<mapsto> c)\<rparr>)"

datatype action = Emit string | Store u64 nat

fun act :: "pout \<Rightarrow> action \<Rightarrow> pout" where
  "act p (Emit cs) = foldl (\<lambda>p c. printf_putc c p) p cs"
| "act p (Store a k) = p\<lparr>stores := stores p @ [(a, k, out_len p)]\<rparr>"

section \<open>Parsing a conversion\<close>

record fmtflags =
  fl_leftfmt :: bool
  fl_showsign :: bool
  fl_leadspace :: bool
  fl_altfmt :: bool
  fl_leadzero :: bool
  sz_halfhalf :: bool
  sz_half :: bool
  sz_long :: bool
  sz_longlong :: bool
  sz_max :: bool
  sz_sizet :: bool
  sz_ptrdiff :: bool
  sz_longdbl :: bool

definition no_flags :: fmtflags where
  "no_flags = \<lparr>fl_leftfmt = False, fl_showsign = False, fl_leadspace = False, fl_altfmt = False,
     fl_leadzero = False, sz_halfhalf = False, sz_half = False, sz_long = False, sz_longlong = False,
     sz_max = False, sz_sizet = False, sz_ptrdiff = False, sz_longdbl = False\<rparr>"

text \<open>
  The union overlays \<^verbatim>\<open>raw_size\<close>, bits 5 to 12, on the size bits, which start at the next byte, bit 8:
  it covers only the first five of them.
\<close>

definition raw_size :: "fmtflags \<Rightarrow> bool" where
  "raw_size f \<longleftrightarrow> sz_halfhalf f \<or> sz_half f \<or> sz_long f \<or> sz_longlong f \<or> sz_max f"

definition raw :: "fmtflags \<Rightarrow> bool" where
  "raw f \<longleftrightarrow> f \<noteq> no_flags"

text \<open>
  A parser stops as invalid (with the arguments not yet consumed), for want of an argument, or goes
  on with its result.
\<close>

datatype 'a parse = Bad "u64 list" | NoArg | Got 'a

fun parse_flags :: "string \<Rightarrow> fmtflags \<Rightarrow> (fmtflags \<times> string) option" where
  "parse_flags [] f = None"
| "parse_flags (c # cs) f =
     (if c = CHR ''-'' then parse_flags cs (f\<lparr>fl_leftfmt := True\<rparr>)
      else if c = CHR ''+'' then parse_flags cs (f\<lparr>fl_showsign := True\<rparr>)
      else if c = CHR '' '' then parse_flags cs (f\<lparr>fl_leadspace := True\<rparr>)
      else if c = CHR ''#'' then parse_flags cs (f\<lparr>fl_altfmt := True\<rparr>)
      else if c = CHR ''0'' then parse_flags cs (f\<lparr>fl_leadzero := True\<rparr>)
      else Some (f, c # cs))"

definition is_digit :: "char \<Rightarrow> bool" where
  "is_digit c \<longleftrightarrow> 48 \<le> (of_char c :: nat) \<and> (of_char c :: nat) \<le> 57"

definition int_arg :: "u64 \<Rightarrow> int" where
  "int_arg v = sint (ucast v :: u32)"

text \<open>\<^verbatim>\<open>parse_width\<close> and \<^verbatim>\<open>parse_prec\<close> are the same code.\<close>

fun parse_num :: "int \<Rightarrow> string \<Rightarrow> u64 list \<Rightarrow> (int \<times> string \<times> u64 list) parse" where
  "parse_num n [] args = Got (n, [], args)"
| "parse_num n (c # cs) args =
     (if is_digit c then parse_num (n * 10 + (of_char c - 48)) cs args
      else if c = CHR ''*'' then
        (if n \<noteq> 0 then Bad args
         else case args of [] \<Rightarrow> NoArg | a # as \<Rightarrow> Got (int_arg a, cs, as))
      else Got (n, c # cs, args))"

fun parse_size :: "string \<Rightarrow> fmtflags \<Rightarrow> (fmtflags \<times> string) option" where
  "parse_size [] f = Some (f, [])"
| "parse_size (c # cs) f =
     (if c = CHR ''h'' then
        (if sz_half f then
           (let f = f\<lparr>sz_half := False\<rparr>
            in if raw_size f then None else parse_size cs (f\<lparr>sz_halfhalf := True\<rparr>))
         else if raw_size f then None else parse_size cs (f\<lparr>sz_half := True\<rparr>))
      else if c = CHR ''l'' then
        (if sz_long f then
           (let f = f\<lparr>sz_long := False\<rparr>
            in if raw_size f then None else parse_size cs (f\<lparr>sz_longlong := True\<rparr>))
         else if raw_size f then None else parse_size cs (f\<lparr>sz_long := True\<rparr>))
      else if c = CHR ''j'' then (if raw_size f then None else parse_size cs (f\<lparr>sz_max := True\<rparr>))
      else if c = CHR ''z'' then (if raw_size f then None else parse_size cs (f\<lparr>sz_sizet := True\<rparr>))
      else if c = CHR ''t'' then (if raw_size f then None else parse_size cs (f\<lparr>sz_ptrdiff := True\<rparr>))
      else if c = CHR ''L'' then (if raw_size f then None else parse_size cs (f\<lparr>sz_longdbl := True\<rparr>))
      else Some (f, c # cs))"

section \<open>Conversions\<close>

text \<open>The label \<^verbatim>\<open>out_str\<close>: padding and the string.\<close>

definition out_str :: "fmtflags \<Rightarrow> int \<Rightarrow> string \<Rightarrow> string" where
  "out_str f width strval =
     (let pad = (if 0 < width then width - min width (int (length strval)) else width);
          fill = (if fl_leadzero f then CHR ''0'' else CHR '' '')
      in (if \<not> fl_leftfmt f \<and> (fl_leadzero f \<or> fl_leadspace f) then replicate (nat pad) fill else [])
         @ strval
         @ (if fl_leftfmt f then replicate (nat pad) CHR '' '' else []))"

text \<open>The label \<^verbatim>\<open>out_num\<close>.\<close>

definition out_num :: "fmtflags \<Rightarrow> int \<Rightarrow> u64 \<Rightarrow> nat \<Rightarrow> bool \<Rightarrow> bool \<Rightarrow> string" where
  "out_num f width numval numbase numsig upcaseout =
     (let strval = longlong_to_string numval numbase numsig (fl_showsign f) upcaseout
      in if fl_altfmt f \<and> numbase = 8 then ''0'' @ out_str f (width - 1) strval
         else if fl_altfmt f \<and> numbase = 16
         then [CHR ''0'', if upcaseout then CHR ''X'' else CHR ''x''] @ out_str f (width - 2) strval
         else out_str f width strval)"

text \<open>The argument of \<^verbatim>\<open>%d\<close> and of the unsigned conversions, by size; \<open>None\<close> for \<^verbatim>\<open>%L\<close>.\<close>

definition signed_arg :: "fmtflags \<Rightarrow> u64 \<Rightarrow> u64 option" where
  "signed_arg f v =
     (if sz_halfhalf f \<or> sz_half f \<or> sz_long f then Some (scast (ucast v :: u32))
      else if sz_longlong f \<or> sz_max f \<or> sz_sizet f \<or> sz_ptrdiff f then Some v
      else if sz_longdbl f then None
      else Some (scast (ucast v :: u32)))"

definition unsigned_arg :: "fmtflags \<Rightarrow> u64 \<Rightarrow> u64 option" where
  "unsigned_arg f v =
     (if sz_halfhalf f \<or> sz_half f then Some (ucast (ucast v :: u32))
      else if sz_long f \<or> sz_longlong f \<or> sz_max f \<or> sz_sizet f \<or> sz_ptrdiff f then Some v
      else if sz_longdbl f then None
      else Some (ucast (ucast v :: u32)))"

definition store_width :: "fmtflags \<Rightarrow> nat" where
  "store_width f =
     (if sz_halfhalf f then 1 else if sz_half f then 2
      else if sz_long f \<or> sz_longlong f \<or> sz_max f \<or> sz_sizet f \<or> sz_ptrdiff f then 8
      else if sz_longdbl f then 0 else 4)"

text \<open>The last switch: the conversion character. The result is the action, the format behind it and
  the remaining arguments.\<close>

definition number :: "fmtflags \<Rightarrow> int \<Rightarrow> nat \<Rightarrow> bool \<Rightarrow> bool \<Rightarrow> (u64 \<Rightarrow> u64 option) \<Rightarrow> string \<Rightarrow> u64 list
    \<Rightarrow> (action \<times> string \<times> u64 list) parse" where
  "number f width base sig upcase get cs args =
     (case args of
        [] \<Rightarrow> if get 0 = None then Bad args else NoArg
      | a # as \<Rightarrow> (case get a of
                     None \<Rightarrow> Bad args
                   | Some v \<Rightarrow> Got (Emit (out_num f width v base sig upcase), cs, as)))"

definition conv :: "(u64 \<Rightarrow> string) \<Rightarrow> fmtflags \<Rightarrow> int \<Rightarrow> string \<Rightarrow> u64 list
    \<Rightarrow> (action \<times> string \<times> u64 list) parse" where
  "conv strs f width fmt args =
     (case fmt of [] \<Rightarrow> Bad args | c # cs \<Rightarrow>
        if c = CHR ''%'' then (if raw f then Bad args else Got (Emit ''%'', cs, args))
        else if c = CHR ''c'' then
          (case args of [] \<Rightarrow> NoArg
           | a # as \<Rightarrow> let ch = char_of (unat a mod 256)
                       in Got (Emit (out_str f width (if ch = CHR 0x00 then [] else [ch])), cs, as))
        else if c = CHR ''s'' then
          (case args of [] \<Rightarrow> NoArg
           | a # as \<Rightarrow> Got (Emit (out_str f width (if a = 0 then ''<null>'' else strs a)), cs, as))
        else if c = CHR ''d'' \<or> c = CHR ''i'' then number f width 10 True False (signed_arg f) cs args
        else if c = CHR ''X'' then number f width 16 False True (unsigned_arg f) cs args
        else if c = CHR ''p'' then number (f\<lparr>fl_altfmt := True\<rparr>) width 16 False False Some cs args
        else if c = CHR ''x'' then number f width 16 False False (unsigned_arg f) cs args
        else if c = CHR ''o'' then number f width 8 False False (unsigned_arg f) cs args
        else if c = CHR ''u'' then number f width 10 False False (unsigned_arg f) cs args
        else if c = CHR ''n'' then
          (case args of [] \<Rightarrow> NoArg
           | a # as \<Rightarrow> Got (if a = 0 \<or> store_width f = 0 then Emit [] else Store a (store_width f), cs, as))
        else Bad args)"

text \<open>Everything between the percent sign and the output.\<close>

definition convert :: "(u64 \<Rightarrow> string) \<Rightarrow> string \<Rightarrow> u64 list \<Rightarrow> (action \<times> string \<times> u64 list) parse" where
  "convert strs fmt args =
     (case parse_flags fmt no_flags of None \<Rightarrow> Bad args | Some (f, fmt) \<Rightarrow>
      (case parse_num 0 fmt args of Bad as \<Rightarrow> Bad as | NoArg \<Rightarrow> NoArg | Got (width, fmt, args) \<Rightarrow>
       (case (case fmt of
                c # cs \<Rightarrow> if c = CHR ''.'' then parse_num 0 cs args else Got (0, fmt, args)
              | [] \<Rightarrow> Got (0, fmt, args)) of
          Bad as \<Rightarrow> Bad as | NoArg \<Rightarrow> NoArg | Got (prec, fmt, args) \<Rightarrow>
        (case parse_size fmt f of None \<Rightarrow> Bad args | Some (f, fmt) \<Rightarrow>
         conv strs f width fmt args))))"

section \<open>The conversions consume the format\<close>

lemma parse_flags_length: "parse_flags fmt f = Some (g, rest) \<Longrightarrow> length rest \<le> length fmt"
  by (induction fmt f rule: parse_flags.induct) (auto split: if_splits)

lemma parse_num_length: "parse_num n fmt args = Got (k, rest, as) \<Longrightarrow> length rest \<le> length fmt"
  by (induction n fmt args rule: parse_num.induct) (auto split: if_splits list.splits)

lemma parse_size_length: "parse_size fmt f = Some (g, rest) \<Longrightarrow> length rest \<le> length fmt"
  by (induction fmt f rule: parse_size.induct) (auto simp: Let_def split: if_splits)

lemma number_length: "number f w b sg u get cs args = Got (a, rest, as) \<Longrightarrow> rest = cs"
  by (auto simp: number_def split: list.splits option.splits if_splits)

lemma conv_length: "conv strs f w fmt args = Got (a, rest, as) \<Longrightarrow> length rest < length fmt"
  by (auto simp: conv_def Let_def split: list.splits if_splits dest!: number_length)

lemma convert_length: "convert strs fmt args = Got (a, rest, as) \<Longrightarrow> length rest < length fmt"
  by (auto simp: convert_def split: option.splits parse.splits prod.splits list.splits if_splits
      simp del: parse_flags.simps parse_num.simps parse_size.simps
      dest!: parse_flags_length parse_num_length parse_size_length conv_length)

section \<open>The main loop\<close>

text \<open>
  The format is read character by character; a conversion that is not valid is left as it is: the
  characters behind the percent sign are output as text. \<open>None\<close>: an argument is missing.
\<close>

function format_actions :: "(u64 \<Rightarrow> string) \<Rightarrow> string \<Rightarrow> u64 list \<Rightarrow> action list option" where
  "format_actions strs [] args = Some []"
| "format_actions strs (c # cs) args =
     (if c \<noteq> CHR ''%'' then map_option (Cons (Emit [c])) (format_actions strs cs args)
      else (case convert strs cs args of
              Bad as \<Rightarrow> format_actions strs cs as
            | NoArg \<Rightarrow> None
            | Got (a, rest, as) \<Rightarrow> map_option (Cons a) (format_actions strs rest as)))"
  by pat_completeness auto
termination
  by (relation "measure (\<lambda>(strs, fmt, args). length fmt)") (auto dest: convert_length)

definition vsnprintf ::
    "(u64 \<Rightarrow> string) \<Rightarrow> bool \<Rightarrow> nat \<Rightarrow> string \<Rightarrow> u64 list \<Rightarrow> pout option" where
  "vsnprintf strs str len fmt args =
     (case format_actions strs fmt args of
        None \<Rightarrow> None
      | Some as \<Rightarrow>
          (let p = foldl act \<lparr>has_str = str, room = len, out_len = 0, written = Map.empty, stores = []\<rparr> as
           in Some (if str \<and> out_len p \<noteq> - 1 then p\<lparr>written := (written p)(nat (out_len p) \<mapsto> CHR 0x00)\<rparr>
                    else p)))"

section \<open>Numbers are written exactly\<close>

definition digit_val :: "char \<Rightarrow> nat" where
  "digit_val c =
     (let k = of_char c in if k < 58 then k - 48 else if k < 91 then k - 55 else k - 87)"

definition read_digits :: "nat \<Rightarrow> string \<Rightarrow> nat" where
  "read_digits base ds = foldl (\<lambda>v c. v * base + digit_val c) 0 ds"

definition read_number :: "nat \<Rightarrow> string \<Rightarrow> int" where
  "read_number base s =
     (case s of
        [] \<Rightarrow> 0
      | c # cs \<Rightarrow> if c = CHR ''-'' then - int (read_digits base cs)
                  else if c = CHR ''+'' then int (read_digits base cs)
                  else int (read_digits base s))"

lemma digit_val_char: "d < 16 \<Longrightarrow> digit_val (digit_char caps d) = d"
  by (auto simp: digit_val_def digit_char_def Let_def)

lemma digits_loop_acc:
  "digits_loop base caps n acc = digits_loop base caps n [] @ acc"
proof (induction n arbitrary: acc rule: less_induct)
  case (less n)
  show ?case
  proof (cases "n = 0 \<or> base < 2")
    case True
    then show ?thesis by (simp add: digits_loop.simps)
  next
    case False
    then have "n div base < n" by simp
    from less [OF this, of "digit_char caps (n mod base) # acc"]
      less [OF this, of "[digit_char caps (n mod base)]"] False
    show ?thesis by (subst (1 2) digits_loop.simps) simp
  qed
qed

lemma digits_loop_snoc:
  "0 < n \<Longrightarrow> 2 \<le> base \<Longrightarrow>
   digits_loop base caps n [] = digits_loop base caps (n div base) [] @ [digit_char caps (n mod base)]"
  by (subst digits_loop.simps) (simp add: digits_loop_acc [of base caps "n div base" "[_]"])

lemma mod_base_16: "2 \<le> base \<Longrightarrow> base \<le> 16 \<Longrightarrow> n mod base < (16 :: nat)"
  using mod_less_divisor [of base n] by linarith

lemma read_digits_loop:
  assumes "2 \<le> base" and "base \<le> 16"
  shows "read_digits base (digits_loop base caps n []) = n"
proof (induction n rule: less_induct)
  case (less n)
  show ?case
  proof (cases "n = 0")
    case True
    then show ?thesis by (simp add: digits_loop.simps read_digits_def)
  next
    case False
    have "n mod base < 16" using assms by (rule mod_base_16)
    then have last: "digit_val (digit_char caps (n mod base)) = n mod base" by (rule digit_val_char)
    have "read_digits base (digits_loop base caps (n div base) []) = n div base"
      using False assms by (intro less) simp
    with False assms last show ?thesis
      by (subst digits_loop_snoc) (simp_all add: read_digits_def)
  qed
qed

lemma digit_char_sign: "d < 16 \<Longrightarrow> digit_char caps d \<noteq> CHR ''-'' \<and> digit_char caps d \<noteq> CHR ''+''"
proof -
  assume "d < 16"
  then have "of_char (digit_char caps d) \<ge> (48 :: nat)" by (auto simp: digit_char_def)
  then show ?thesis by auto
qed

lemma digits_loop_chars:
  assumes "2 \<le> base" and "base \<le> 16"
  shows "c \<in> set (digits_loop base caps n []) \<Longrightarrow> c \<noteq> CHR ''-'' \<and> c \<noteq> CHR ''+''"
proof (induction n rule: less_induct)
  case (less n)
  show ?case
  proof (cases "n = 0")
    case True
    with less.prems show ?thesis by (simp add: digits_loop.simps)
  next
    case False
    have "n mod base < 16" using assms by (rule mod_base_16)
    then have last: "digit_char caps (n mod base) \<noteq> CHR ''-'' \<and> digit_char caps (n mod base) \<noteq> CHR ''+''"
      by (rule digit_char_sign)
    have "n div base < n" using False assms by simp
    from less.IH [OF this] last less.prems digits_loop_snoc [of n base caps] False assms show ?thesis
      by auto
  qed
qed

lemma uint_neg: "(n :: u64) <s 0 \<Longrightarrow> uint (- n) = - sint n"
proof -
  assume "n <s 0"
  then have neg: "sint n < 0" by (simp add: word_sless_alt)
  have low: "- (2 ^ 63) \<le> sint n" using sint_ge [of n] by simp
  have "uint (- n) = uint (word_of_int (- sint n) :: u64)" by simp
  also have "\<dots> = (- sint n) mod 2 ^ 64" by (simp only: uint_word_of_int) simp
  also have "\<dots> = - sint n" using neg low by (intro mod_pos_pos_trivial) simp_all
  finally show ?thesis .
qed

lemma sint_nonneg: "\<not> (n :: u64) <s 0 \<Longrightarrow> uint n = sint n"
proof -
  assume "\<not> n <s 0"
  then have pos: "0 \<le> sint n" by (simp add: word_sless_alt)
  have high: "sint n < 2 ^ 63" using sint_lt [of n] by simp
  have "uint n = uint (word_of_int (sint n) :: u64)" by simp
  also have "\<dots> = sint n mod 2 ^ 64" by (simp only: uint_word_of_int) simp
  also have "\<dots> = sint n" using pos high by (intro mod_pos_pos_trivial) simp_all
  finally show ?thesis .
qed

text \<open>
  The digits longlong_to_string produces in base 8, 10 or 16, read back, give the number, as a
  signed value (the most negative one included) or unsigned.
\<close>

theorem longlong_to_string_value:
  assumes "base \<in> {8, 10, 16}"
  shows "read_number base (longlong_to_string n base is_signed showsign caps)
     = (if is_signed then sint n else uint n)"
proof -
  have base: "2 \<le> base" "base \<le> 16" using assms by auto
  define ds where "ds k = (if digits_loop base caps k [] = [] then ''0'' else digits_loop base caps k [])" for k
  have val: "read_digits base (ds k) = k" for k
  proof (cases "digits_loop base caps k [] = []")
    case True
    then have "k = 0" using read_digits_loop [OF base, of caps k] by (simp add: read_digits_def)
    with True show ?thesis by (simp add: ds_def read_digits_def digit_val_def)
  next
    case False
    then show ?thesis by (simp add: ds_def read_digits_loop [OF base])
  qed
  have sign: "read_number base (ds k) = int k" for k
  proof -
    have "ds k \<noteq> []" "\<forall>c \<in> set (ds k). c \<noteq> CHR ''-'' \<and> c \<noteq> CHR ''+''"
      using digits_loop_chars [OF base, of _ caps k] by (auto simp: ds_def)
    then show ?thesis using val [of k] by (cases "ds k") (simp_all add: read_number_def)
  qed
  have "read_number base (CHR ''-'' # ds k) = - int k" "read_number base (CHR ''+'' # ds k) = int k" for k
    using val by (simp_all add: read_number_def)
  moreover have "longlong_to_string n base is_signed showsign caps =
      (if is_signed \<and> n <s 0 then CHR ''-'' # ds (unat (- n))
       else if showsign then CHR ''+'' # ds (unat n) else ds (unat n))"
    by (simp add: longlong_to_string_def Let_def ds_def)
  ultimately show ?thesis
    using sign by (simp add: uint_neg sint_nonneg)
qed

theorem longlong_to_string_value_witness:
  "longlong_to_string (- 42) 10 True False False = ''-42''
   \<and> read_number 10 (longlong_to_string (- 42) 10 True False False) = - 42"
  using longlong_to_string_value [of 10 "- 42" True False False]
  by (simp add: longlong_to_string_def digits_loop.simps digit_char_def char_of_def word_sless_alt bit_0)

section \<open>What is written to the buffer\<close>

fun text_of :: "action list \<Rightarrow> string" where
  "text_of [] = []"
| "text_of (Emit cs # as) = cs @ text_of as"
| "text_of (Store _ _ # as) = text_of as"

text \<open>The output state after the characters \<open>t\<close>, without the stores.\<close>

definition emitted :: "bool \<Rightarrow> nat \<Rightarrow> string \<Rightarrow> pout \<Rightarrow> bool" where
  "emitted str len t p \<longleftrightarrow>
     has_str p = str
     \<and> (if \<not> str then out_len p = int (length t) \<and> written p = Map.empty
        else if length t \<le> len
        then out_len p = int (length t) \<and> room p = len - length t
          \<and> written p = (\<lambda>i. if i < length t then Some (t ! i) else None)
        else out_len p = - 1 \<and> written p = (\<lambda>i. if i < len then Some (t ! i) else None))"

lemma emitted_putc: "emitted str len t p \<Longrightarrow> emitted str len (t @ [c]) (printf_putc c p)"
  by (auto simp: emitted_def printf_putc_def Let_def nth_append fun_eq_iff not_le less_Suc_eq)

lemma emitted_Emit:
  "emitted str len t p \<Longrightarrow> emitted str len (t @ cs) (foldl (\<lambda>p c. printf_putc c p) p cs)"
proof (induction cs arbitrary: t p)
  case (Cons c cs)
  from Cons.IH [OF emitted_putc [OF Cons.prems, of c]] show ?case by simp
qed simp

lemma emitted_actions:
  "emitted str len t p \<Longrightarrow> emitted str len (t @ text_of as) (foldl act p as)"
proof (induction as arbitrary: t p rule: text_of.induct)
  case (2 cs as)
  from 2(1) [OF emitted_Emit [OF 2(2), of cs]] show ?case by simp
next
  case (3 a k as)
  have "emitted str len t (act p (Store a k))" using 3(2) by (simp add: emitted_def)
  from 3(1) [OF this] show ?case by simp
qed simp

lemma vsnprintf_text:
  "map_option (\<lambda>p. (out_len p, written p)) (vsnprintf strs str len fmt args)
   = map_option (\<lambda>as. let t = text_of as in
       if \<not> str then (int (length t), Map.empty)
       else if length t \<le> len
       then (int (length t), \<lambda>i. if i < length t then Some (t ! i)
                               else if i = length t then Some (CHR 0x00) else None)
       else (- 1, \<lambda>i. if i < len then Some (t ! i) else None))
     (format_actions strs fmt args)"
proof (cases "format_actions strs fmt args")
  case (Some as)
  let ?p0 = "\<lparr>has_str = str, room = len, out_len = 0, written = Map.empty, stores = []\<rparr>"
  have "emitted str len [] ?p0" by (simp add: emitted_def)
  from emitted_actions [OF this, of as] Some show ?thesis
    by (auto simp: vsnprintf_def emitted_def Let_def fun_eq_iff)
qed (simp add: vsnprintf_def)


text \<open>A text of exactly \<open>len\<close> characters: the NUL goes behind the buffer.\<close>

lemma snprintf_overruns:
  "map_option (\<lambda>p. (out_len p, written p 2)) (vsnprintf strs True 2 ''ab'' []) = Some (2, Some (CHR 0x00))"
  by (simp add: vsnprintf_def printf_putc_def Let_def)

text \<open>
  The conversion %ld prints only the low 32 bits of its argument (2^32 as 0), while %lld
  prints all 64.
\<close>

theorem long_decimal_truncated:
  "map_option (\<lambda>as. text_of as) (format_actions strs ''%ld %lld'' [0x100000000, 0x100000000])
     = Some ''0 4294967296''"
  by (simp add: convert_def conv_def no_flags_def raw_size_def is_digit_def number_def signed_arg_def out_num_def
      out_str_def longlong_to_string_def digits_loop.simps digit_char_def char_of_def word_sless_alt bit_0 Let_def)

end
