(* ===== verification/Sha2.thy ===== *)
theory Sha2
  imports Prelude
begin

text \<open>
  \<^verbatim>\<open>src/crypto/sha2.cpp\<close>: the SHA-2 family over 32- and 64-bit words. The code keeps the message
  schedule in a ring of 16 words and feeds the message byte by byte; it is compared with the
  schedule as a recurrence over all rounds and with the hash of the padded message, block by
  block.
\<close>

section \<open>Words and bytes\<close>

definition wbytes :: "'w :: len word itself \<Rightarrow> nat" where
  "wbytes t = LENGTH('w) div 8"

text \<open>The word a little-endian load reads from its bytes, and the bytes of a word.\<close>

definition le_word :: "u8 list \<Rightarrow> 'w :: len word" where
  "le_word bs = foldr (\<lambda>b w. push_bit 8 w OR ucast b) bs 0"

definition le_bytes :: "nat \<Rightarrow> 'w :: len word \<Rightarrow> u8 list" where
  "le_bytes n w = map (\<lambda>k. ucast (drop_bit (8 * k) w)) [0..<n]"

definition revb :: "'w :: len word \<Rightarrow> 'w word" where
  "revb a = le_word (rev (le_bytes (wbytes TYPE('w word)) a))"

definition ror :: "'w :: len word \<Rightarrow> nat \<Rightarrow> 'w word" where
  "ror a cnt = drop_bit cnt a OR push_bit (LENGTH('w) - cnt) a"

section \<open>The configurations\<close>

record 'a sha_config =
  rounds :: nat
  K :: "'a list"
  shifts :: "nat list"

record 'a sha_state =
  hv :: "'a list"
  chunk :: "u8 list"
  msgbytes :: u64

text \<open>The round constants, each written by its upper and its lower half.\<close>

definition halves64 :: "u64 \<Rightarrow> u64 \<Rightarrow> u64" where "halves64 hi lo = hi * 0x100000000 + lo"
definition halves32 :: "u32 \<Rightarrow> u32 \<Rightarrow> u32" where "halves32 hi lo = hi * 0x10000 + lo"

definition K512 :: "u64 list" where
  "K512 = [
     halves64 0x428a2f98 0xd728ae22, halves64 0x71374491 0x23ef65cd, halves64 0xb5c0fbcf 0xec4d3b2f,
     halves64 0xe9b5dba5 0x8189dbbc, halves64 0x3956c25b 0xf348b538, halves64 0x59f111f1 0xb605d019,
     halves64 0x923f82a4 0xaf194f9b, halves64 0xab1c5ed5 0xda6d8118, halves64 0xd807aa98 0xa3030242,
     halves64 0x12835b01 0x45706fbe, halves64 0x243185be 0x4ee4b28c, halves64 0x550c7dc3 0xd5ffb4e2,
     halves64 0x72be5d74 0xf27b896f, halves64 0x80deb1fe 0x3b1696b1, halves64 0x9bdc06a7 0x25c71235,
     halves64 0xc19bf174 0xcf692694, halves64 0xe49b69c1 0x9ef14ad2, halves64 0xefbe4786 0x384f25e3,
     halves64 0x0fc19dc6 0x8b8cd5b5, halves64 0x240ca1cc 0x77ac9c65, halves64 0x2de92c6f 0x592b0275,
     halves64 0x4a7484aa 0x6ea6e483, halves64 0x5cb0a9dc 0xbd41fbd4, halves64 0x76f988da 0x831153b5,
     halves64 0x983e5152 0xee66dfab, halves64 0xa831c66d 0x2db43210, halves64 0xb00327c8 0x98fb213f,
     halves64 0xbf597fc7 0xbeef0ee4, halves64 0xc6e00bf3 0x3da88fc2, halves64 0xd5a79147 0x930aa725,
     halves64 0x06ca6351 0xe003826f, halves64 0x14292967 0x0a0e6e70, halves64 0x27b70a85 0x46d22ffc,
     halves64 0x2e1b2138 0x5c26c926, halves64 0x4d2c6dfc 0x5ac42aed, halves64 0x53380d13 0x9d95b3df,
     halves64 0x650a7354 0x8baf63de, halves64 0x766a0abb 0x3c77b2a8, halves64 0x81c2c92e 0x47edaee6,
     halves64 0x92722c85 0x1482353b, halves64 0xa2bfe8a1 0x4cf10364, halves64 0xa81a664b 0xbc423001,
     halves64 0xc24b8b70 0xd0f89791, halves64 0xc76c51a3 0x0654be30, halves64 0xd192e819 0xd6ef5218,
     halves64 0xd6990624 0x5565a910, halves64 0xf40e3585 0x5771202a, halves64 0x106aa070 0x32bbd1b8,
     halves64 0x19a4c116 0xb8d2d0c8, halves64 0x1e376c08 0x5141ab53, halves64 0x2748774c 0xdf8eeb99,
     halves64 0x34b0bcb5 0xe19b48a8, halves64 0x391c0cb3 0xc5c95a63, halves64 0x4ed8aa4a 0xe3418acb,
     halves64 0x5b9cca4f 0x7763e373, halves64 0x682e6ff3 0xd6b2b8a3, halves64 0x748f82ee 0x5defb2fc,
     halves64 0x78a5636f 0x43172f60, halves64 0x84c87814 0xa1f0ab72, halves64 0x8cc70208 0x1a6439ec,
     halves64 0x90befffa 0x23631e28, halves64 0xa4506ceb 0xde82bde9, halves64 0xbef9a3f7 0xb2c67915,
     halves64 0xc67178f2 0xe372532b, halves64 0xca273ece 0xea26619c, halves64 0xd186b8c7 0x21c0c207,
     halves64 0xeada7dd6 0xcde0eb1e, halves64 0xf57d4f7f 0xee6ed178, halves64 0x06f067aa 0x72176fba,
     halves64 0x0a637dc5 0xa2c898a6, halves64 0x113f9804 0xbef90dae, halves64 0x1b710b35 0x131c471b,
     halves64 0x28db77f5 0x23047d84, halves64 0x32caab7b 0x40c72493, halves64 0x3c9ebe0a 0x15c9bebc,
     halves64 0x431d67c4 0x9c100d4c, halves64 0x4cc5d4be 0xcb3e42b6, halves64 0x597f299c 0xfc657e2a,
     halves64 0x5fcb6fab 0x3ad6faec, halves64 0x6c44198c 0x4a475817]"

definition K256 :: "u32 list" where
  "K256 = [
     halves32 0x428a 0x2f98, halves32 0x7137 0x4491, halves32 0xb5c0 0xfbcf, halves32 0xe9b5 0xdba5,
     halves32 0x3956 0xc25b, halves32 0x59f1 0x11f1, halves32 0x923f 0x82a4, halves32 0xab1c 0x5ed5,
     halves32 0xd807 0xaa98, halves32 0x1283 0x5b01, halves32 0x2431 0x85be, halves32 0x550c 0x7dc3,
     halves32 0x72be 0x5d74, halves32 0x80de 0xb1fe, halves32 0x9bdc 0x06a7, halves32 0xc19b 0xf174,
     halves32 0xe49b 0x69c1, halves32 0xefbe 0x4786, halves32 0x0fc1 0x9dc6, halves32 0x240c 0xa1cc,
     halves32 0x2de9 0x2c6f, halves32 0x4a74 0x84aa, halves32 0x5cb0 0xa9dc, halves32 0x76f9 0x88da,
     halves32 0x983e 0x5152, halves32 0xa831 0xc66d, halves32 0xb003 0x27c8, halves32 0xbf59 0x7fc7,
     halves32 0xc6e0 0x0bf3, halves32 0xd5a7 0x9147, halves32 0x06ca 0x6351, halves32 0x1429 0x2967,
     halves32 0x27b7 0x0a85, halves32 0x2e1b 0x2138, halves32 0x4d2c 0x6dfc, halves32 0x5338 0x0d13,
     halves32 0x650a 0x7354, halves32 0x766a 0x0abb, halves32 0x81c2 0xc92e, halves32 0x9272 0x2c85,
     halves32 0xa2bf 0xe8a1, halves32 0xa81a 0x664b, halves32 0xc24b 0x8b70, halves32 0xc76c 0x51a3,
     halves32 0xd192 0xe819, halves32 0xd699 0x0624, halves32 0xf40e 0x3585, halves32 0x106a 0xa070,
     halves32 0x19a4 0xc116, halves32 0x1e37 0x6c08, halves32 0x2748 0x774c, halves32 0x34b0 0xbcb5,
     halves32 0x391c 0x0cb3, halves32 0x4ed8 0xaa4a, halves32 0x5b9c 0xca4f, halves32 0x682e 0x6ff3,
     halves32 0x748f 0x82ee, halves32 0x78a5 0x636f, halves32 0x84c8 0x7814, halves32 0x8cc7 0x0208,
     halves32 0x90be 0xfffa, halves32 0xa450 0x6ceb, halves32 0xbef9 0xa3f7, halves32 0xc671 0x78f2]"

definition SHA2Config512 :: "u64 sha_config" where
  "SHA2Config512 = \<lparr>rounds = 80, K = K512, shifts = [28, 34, 39, 14, 18, 41, 1, 8, 7, 19, 61, 6]\<rparr>"

definition SHA2Config256 :: "u32 sha_config" where
  "SHA2Config256 = \<lparr>rounds = 64, K = K256, shifts = [2, 13, 22, 6, 11, 25, 7, 18, 3, 17, 19, 10]\<rparr>"

definition sha_start :: "'w :: len word list \<Rightarrow> 'w word sha_state" where
  "sha_start iv = \<lparr>hv = iv, chunk = replicate (16 * wbytes TYPE('w word)) 0, msgbytes = 0\<rparr>"

definition SHA512_iv :: "u64 list" where
  "SHA512_iv = [0x6a09e667f3bcc908, 0xbb67ae8584caa73b, 0x3c6ef372fe94f82b, 0xa54ff53a5f1d36f1,
     0x510e527fade682d1, 0x9b05688c2b3e6c1f, 0x1f83d9abfb41bd6b, 0x5be0cd19137e2179]"

definition SHA384_iv :: "u64 list" where
  "SHA384_iv = [0xcbbb9d5dc1059ed8, 0x629a292a367cd507, 0x9159015a3070dd17, 0x152fecd8f70e5939,
     0x67332667ffc00b31, 0x8eb44a8768581511, 0xdb0c2e0d64f98fa7, 0x47b5481dbefa4fa4]"

definition SHA512_256_iv :: "u64 list" where
  "SHA512_256_iv = [0x22312194FC2BF72C, 0x9F555FA3C84C64C2, 0x2393B86B6F53B151, 0x963877195940EABD,
     0x96283EE2A88EFFE3, 0xBE5E1E2553863992, 0x2B0199FC2C85B8AA, 0x0EB72DDC81C52CA2]"

definition SHA512_224_iv :: "u64 list" where
  "SHA512_224_iv = [0x8C3D37C819544DA2, 0x73E1996689DCD4D6, 0x1DFAB7AE32FF9C82, 0x679DD514582F9FCF,
     0x0F6D2B697BD44DA8, 0x77E36F7304C48942, 0x3F9D85A86A1D36C8, 0x1112E6AD91D692A1]"

definition SHA256_iv :: "u32 list" where
  "SHA256_iv = [0x6a09e667, 0xbb67ae85, 0x3c6ef372, 0xa54ff53a,
     0x510e527f, 0x9b05688c, 0x1f83d9ab, 0x5be0cd19]"

definition SHA224_iv :: "u32 list" where
  "SHA224_iv = [0xC1059ED8, 0x367CD507, 0x3070DD17, 0xF70E5939,
     0xFFC00B31, 0x68581511, 0x64F98FA7, 0xBEFA4FA4]"

section \<open>The operations\<close>

text \<open>The schedule word of round \<open>i\<close> and the new ring: the first part of the loop body.\<close>

definition chunk_word :: "u8 list \<Rightarrow> nat \<Rightarrow> 'w :: len word" where
  "chunk_word ch i = (let n = wbytes TYPE('w word) in le_word (take n (drop (n * i) ch)))"

definition ring_step :: "'w :: len word sha_config \<Rightarrow> u8 list \<Rightarrow> nat \<Rightarrow> 'w word list \<Rightarrow> 'w word \<times> 'w word list" where
  "ring_step C ch i w =
     (if i < 16 then (let wi = revb (chunk_word ch i) in (wi, w[i := wi]))
      else
        (let w15 = w ! ((i - 15) mod 16);
             w2 = w ! ((i - 2) mod 16);
             s0 = (ror w15 (shifts C ! 6)) XOR (ror w15 (shifts C ! 7)) XOR (drop_bit (shifts C ! 8) w15);
             s1 = (ror w2 (shifts C ! 9)) XOR (ror w2 (shifts C ! 10)) XOR (drop_bit (shifts C ! 11) w2);
             wi = w ! ((i - 16) mod 16) + s0 + w ! ((i - 7) mod 16) + s1
         in (wi, w[i mod 16 := wi])))"

type_synonym 'w vars = "'w \<times> 'w \<times> 'w \<times> 'w \<times> 'w \<times> 'w \<times> 'w \<times> 'w"

text \<open>The second part, on the working variables.\<close>

fun mix :: "'w :: len word sha_config \<Rightarrow> nat \<Rightarrow> 'w word \<Rightarrow> 'w word vars \<Rightarrow> 'w word vars" where
  "mix C i wi (a, b, c, d, e, f, g, h) =
     (let s0 = (ror a (shifts C ! 0)) XOR (ror a (shifts C ! 1)) XOR (ror a (shifts C ! 2));
          s1 = (ror e (shifts C ! 3)) XOR (ror e (shifts C ! 4)) XOR (ror e (shifts C ! 5));
          ch = (e AND f) XOR ((NOT e) AND g);
          maj = (a AND b) XOR (a AND c) XOR (b AND c);
          temp1 = h + s1 + ch + K C ! i + wi
      in (temp1 + s0 + maj, a, b, c, d + temp1, e, f, g))"

fun rounds_loop :: "'w :: len word sha_config \<Rightarrow> u8 list \<Rightarrow> nat list \<Rightarrow> 'w word list \<times> 'w word vars
    \<Rightarrow> 'w word list \<times> 'w word vars" where
  "rounds_loop C ch [] (w, v) = (w, v)"
| "rounds_loop C ch (i # is) (w, v) =
     (let (wi, w') = ring_step C ch i w in rounds_loop C ch is (w', mix C i wi v))"

definition start_vars :: "'w list \<Rightarrow> 'w vars" where
  "start_vars hs = (hs ! 0, hs ! 1, hs ! 2, hs ! 3, hs ! 4, hs ! 5, hs ! 6, hs ! 7)"

fun add_vars :: "'w :: len word list \<Rightarrow> 'w word vars \<Rightarrow> 'w word list" where
  "add_vars hs (a, b, c, d, e, f, g, h) =
     [hs ! 0 + a, hs ! 1 + b, hs ! 2 + c, hs ! 3 + d, hs ! 4 + e, hs ! 5 + f, hs ! 6 + g, hs ! 7 + h]"

definition sha_transform :: "'w :: len word sha_config \<Rightarrow> 'w word sha_state \<Rightarrow> 'w word sha_state" where
  "sha_transform C s =
     s\<lparr>hv := add_vars (hv s) (snd (rounds_loop C (chunk s) [0..<rounds C] (replicate 16 0, start_vars (hv s))))\<rparr>"

text \<open>\<^verbatim>\<open>_update\<close>; \<open>byte\<close> is the local position in the chunk.\<close>

fun update_loop :: "'w :: len word sha_config \<Rightarrow> nat \<Rightarrow> u8 list \<Rightarrow> 'w word sha_state \<Rightarrow> 'w word sha_state" where
  "update_loop C byte [] s = s"
| "update_loop C byte (b # bs) s =
     (let s = s\<lparr>chunk := (chunk s)[byte := b], msgbytes := msgbytes s + 1\<rparr>
      in if byte + 1 = length (chunk s) then update_loop C 0 bs (sha_transform C s)
         else update_loop C (byte + 1) bs s)"

definition sha_update :: "'w :: len word sha_config \<Rightarrow> u8 list \<Rightarrow> 'w word sha_state \<Rightarrow> 'w word sha_state" where
  "sha_update C bs s = update_loop C (unat (msgbytes s) mod length (chunk s)) bs s"

text \<open>
  The padding loop of \<^verbatim>\<open>_final\<close>: zero bytes until eight are left in the chunk; at most a chunk of
  them, so that the fuel below is enough.
\<close>

fun pad_loop :: "'w :: len word sha_config \<Rightarrow> nat \<Rightarrow> 'w word sha_state \<Rightarrow> 'w word sha_state option" where
  "pad_loop C 0 s = None"
| "pad_loop C (Suc fuel) s =
     (if unat (msgbytes s) mod length (chunk s) = length (chunk s) - 8 then Some s
      else pad_loop C fuel (sha_update C [0] s))"

definition put_bytes :: "nat \<Rightarrow> u8 list \<Rightarrow> u8 list \<Rightarrow> u8 list" where
  "put_bytes pos bs ch = take pos ch @ bs @ drop (pos + length bs) ch"

definition sha_final :: "'w :: len word sha_config \<Rightarrow> 'w word sha_state \<Rightarrow> 'w word sha_state option" where
  "sha_final C s =
     (let msgbits = revb (push_bit 3 (msgbytes s));
          n = length (chunk s)
      in case pad_loop C (Suc n) (sha_update C [0x80] s) of
           None \<Rightarrow> None
         | Some s \<Rightarrow>
             (let s = s\<lparr>chunk := put_bytes (n - 8) (le_bytes 4 (ucast msgbits :: u32)) (chunk s)\<rparr>;
                  s = s\<lparr>chunk := put_bytes (n - 4) (le_bytes 4 (ucast (drop_bit 32 msgbits) :: u32)) (chunk s)\<rparr>;
                  s = sha_transform C s
              in Some (s\<lparr>msgbytes := 0, hv := map revb (hv s)\<rparr>)))"

text \<open>\<^verbatim>\<open>digest()\<close>: the first bytes of the state's memory.\<close>

definition sha_digest :: "nat \<Rightarrow> 'w :: len word sha_state \<Rightarrow> u8 list" where
  "sha_digest dbits s = take (dbits div 8) (concat (map (le_bytes (wbytes TYPE('w word))) (hv s)))"

section \<open>The ring is the message schedule\<close>

definition sigma0 :: "'w :: len word sha_config \<Rightarrow> 'w word \<Rightarrow> 'w word" where
  "sigma0 C x = (ror x (shifts C ! 6)) XOR (ror x (shifts C ! 7)) XOR (drop_bit (shifts C ! 8) x)"

definition sigma1 :: "'w :: len word sha_config \<Rightarrow> 'w word \<Rightarrow> 'w word" where
  "sigma1 C x = (ror x (shifts C ! 9)) XOR (ror x (shifts C ! 10)) XOR (drop_bit (shifts C ! 11) x)"

fun sched :: "'w :: len word sha_config \<Rightarrow> u8 list \<Rightarrow> nat \<Rightarrow> 'w word" where
  "sched C ch t =
     (if t < 16 then revb (chunk_word ch t)
      else sched C ch (t - 16) + sigma0 C (sched C ch (t - 15)) + sched C ch (t - 7)
           + sigma1 C (sched C ch (t - 2)))"

declare sched.simps [simp del]

definition compress :: "'w :: len word sha_config \<Rightarrow> 'w word list \<Rightarrow> u8 list \<Rightarrow> 'w word list" where
  "compress C hs block =
     add_vars hs (foldl (\<lambda>v i. mix C i (sched C block i) v) (start_vars hs) [0..<rounds C])"

text \<open>Before round \<open>i\<close> the ring holds the last 16 schedule words.\<close>

definition ring_ok :: "'w :: len word sha_config \<Rightarrow> u8 list \<Rightarrow> nat \<Rightarrow> 'w word list \<Rightarrow> bool" where
  "ring_ok C ch i w \<longleftrightarrow> length w = 16 \<and> (\<forall>j. j < i \<and> i \<le> j + 16 \<longrightarrow> w ! (j mod 16) = sched C ch j)"

lemma ring_step_ok:
  assumes "ring_ok C ch i w" and "ring_step C ch i w = (wi, w')"
  shows "wi = sched C ch i" and "ring_ok C ch (Suc i) w'"
proof -
  have get: "w ! ((i - k) mod 16) = sched C ch (i - k)" if "16 \<le> i" "0 < k" "k \<le> 16" for k
    using assms(1) that by (simp add: ring_ok_def)
  show wi: "wi = sched C ch i"
  proof (cases "i < 16")
    case True
    with assms(2) show ?thesis by (simp add: ring_step_def sched.simps [of C ch i] Let_def)
  next
    case False
    with assms(2) show ?thesis
      by (simp add: ring_step_def sched.simps [of C ch i] Let_def get sigma0_def sigma1_def)
  qed
  have w': "w' = w[i mod 16 := wi]"
    using assms(2) by (auto simp: ring_step_def Let_def split: if_splits)
  have "w' ! (j mod 16) = sched C ch j" if "j < Suc i" "Suc i \<le> j + 16" for j
  proof (cases "j = i")
    case True
    then show ?thesis using assms(1) w' wi by (simp add: ring_ok_def)
  next
    case False
    then have j: "j < i" "i - j < 16" using that by auto
    have "j mod 16 \<noteq> i mod 16"
    proof
      assume "j mod 16 = i mod 16"
      then have "16 dvd i - j" using j(1) by (metis less_imp_le mod_eq_dvd_iff_nat)
      with j show False by (auto dest: dvd_imp_le)
    qed
    with False that assms(1) show ?thesis by (simp add: w' ring_ok_def)
  qed
  then show "ring_ok C ch (Suc i) w'"
    using assms(1) by (simp add: ring_ok_def w')
qed

lemma rounds_loop_sched:
  "ring_ok C ch i w \<Longrightarrow>
   snd (rounds_loop C ch [i..<i + n] (w, v)) = foldl (\<lambda>v i. mix C i (sched C ch i) v) v [i..<i + n]"
proof (induction n arbitrary: i w v)
  case (Suc n)
  obtain wi w' where st: "ring_step C ch i w = (wi, w')" by fastforce
  have up: "[i..<i + Suc n] = i # [Suc i..<Suc i + n]" by (simp add: upt_conv_Cons)
  show ?case
    using ring_step_ok [OF Suc.prems st] Suc.IH [of "Suc i" w' "mix C i wi v"]
    unfolding up by (simp add: st)
qed simp

lemma sha_transform_compress:
  "sha_transform C s = s\<lparr>hv := compress C (hv s) (chunk s)\<rparr>"
proof -
  have "ring_ok C (chunk s) 0 (replicate 16 0)" by (simp add: ring_ok_def)
  from rounds_loop_sched [OF this, of "rounds C" "start_vars (hv s)"] show ?thesis
    by (simp add: sha_transform_def compress_def)
qed

section \<open>Hashing is block by block on the padded message\<close>

function md :: "'w :: len word sha_config \<Rightarrow> nat \<Rightarrow> 'w word list \<Rightarrow> u8 list \<Rightarrow> 'w word list" where
  "md C n hs bs =
     (if n = 0 \<or> length bs < n then hs else md C n (compress C hs (take n bs)) (drop n bs))"
  by auto
termination
  by (relation "measure (\<lambda>(C, n, hs, bs). length bs)") auto

declare md.simps [simp del]

lemma md_short [simp]: "length bs < n \<Longrightarrow> md C n hs bs = hs"
  by (simp add: md.simps)

lemma md_append:
  assumes "0 < n" and "length a = n * k"
  shows "md C n hs (a @ b) = md C n (md C n hs a) b"
  using assms(2)
proof (induction k arbitrary: a hs)
  case 0
  then show ?case using assms(1) by simp
next
  case (Suc k)
  then have "n \<le> length a" by simp
  then show ?case
    using Suc.IH [of "drop n a" "compress C hs (take n a)"] Suc.prems assms(1)
    by (simp add: md.simps [of C n hs "a @ b"] md.simps [of C n hs a])
qed

lemma md_block: "0 < n \<Longrightarrow> length a = n * k \<Longrightarrow> length b = n \<Longrightarrow>
    md C n hs (a @ b) = compress C (md C n hs a) b"
  by (simp add: md_append) (simp add: md.simps)

lemma length_whole: "length (take (n * (length bs div n)) bs) = n * (length bs div n)"
  by (simp only: length_take min_absorb2 times_div_less_eq_dividend)

lemma length_partial: "length (drop (n * (length bs div n)) bs) = length bs mod n"
  by (simp only: length_drop minus_mult_div_eq_mod)

lemma md_rest:
  assumes "0 < n"
  shows "md C n hs bs = md C n hs (take (n * (length bs div n)) bs)"
proof -
  let ?k = "length bs div n"
  have "md C n hs (take (n * ?k) bs @ drop (n * ?k) bs)
      = md C n (md C n hs (take (n * ?k) bs)) (drop (n * ?k) bs)"
    using assms length_whole by (rule md_append)
  moreover have "length (drop (n * ?k) bs) < n"
    using assms by (simp only: length_partial) simp
  ultimately show ?thesis by simp
qed

text \<open>The state after the bytes \<open>m\<close> of a message.\<close>

definition fed :: "'w :: len word sha_config \<Rightarrow> nat \<Rightarrow> 'w word list \<Rightarrow> u8 list \<Rightarrow> 'w word sha_state \<Rightarrow> bool" where
  "fed C n iv m s \<longleftrightarrow>
     msgbytes s = of_nat (length m) \<and> length (chunk s) = n \<and> hv s = md C n iv m
     \<and> take (length m mod n) (chunk s) = drop (n * (length m div n)) m"

lemma fed_byte:
  fixes b :: u8
  assumes "fed C n iv m s" and "0 < n"
  defines "s1 \<equiv> s\<lparr>chunk := (chunk s)[length m mod n := b], msgbytes := msgbytes s + 1\<rparr>"
  shows "fed C n iv (m @ [b]) (if length m mod n + 1 = n then sha_transform C s1 else s1)"
proof -
  let ?l = "length m" and ?r = "length m mod n" and ?q = "length m div n"
  have len: "?l = n * ?q + ?r" by simp
  have r: "?r < n" using assms(2) by simp
  have s: "msgbytes s = of_nat ?l" "length (chunk s) = n" "hv s = md C n iv m"
      "take ?r (chunk s) = drop (n * ?q) m"
    using assms(1) by (simp_all add: fed_def)
  have tk: "take (Suc ?r) ((chunk s)[?r := b]) = drop (n * ?q) m @ [b]"
    using r s(2,4) by (simp add: take_Suc_conv_app_nth)
  have body: "md C n iv m = md C n iv (take (n * ?q) m)" by (rule md_rest [OF assms(2)])
  show ?thesis
  proof (cases "?r + 1 = n")
    case True
    have full: "(chunk s)[?r := b] = drop (n * ?q) m @ [b]" using tk True s(2) by simp
    have "md C n iv (take (n * ?q) m @ (drop (n * ?q) m @ [b]))
        = compress C (md C n iv (take (n * ?q) m)) (drop (n * ?q) m @ [b])"
      using assms(2) length_whole True by (intro md_block [where k = ?q])
        (simp_all only: length_append length_partial list.size Suc_eq_plus1)
    then have "md C n iv (m @ [b]) = compress C (hv s) (chunk s1)"
      using s(3) body full by (simp add: s1_def flip: append_assoc)
    moreover have sl: "Suc ?l = Suc ?q * n"
    proof -
      have "Suc ?q * n = n * ?q + n" by simp
      with len True show ?thesis by linarith
    qed
    have "n dvd Suc ?l" unfolding sl by simp
    then have "n * (Suc ?l div n) = Suc ?l" "Suc ?l mod n = 0" by simp_all
    ultimately show ?thesis
      using True s by (simp add: fed_def sha_transform_compress s1_def)
  next
    case False
    then have r1: "Suc ?r < n" using r by simp
    have dm: "Suc ?l mod n = Suc ?r" "Suc ?l div n = ?q"
      using r1 by (simp_all add: mod_Suc div_Suc)
    have "md C n iv (m @ [b]) = md C n iv (take (n * ?q) m)"
      using md_rest [OF assms(2), of C iv "m @ [b]"] dm len by simp
    then show ?thesis
      using False s dm tk body len by (simp add: fed_def s1_def)
  qed
qed

lemma fed_update_loop:
  "fed C n iv m s \<Longrightarrow> 0 < n \<Longrightarrow> fed C n iv (m @ bs) (update_loop C (length m mod n) bs s)"
proof (induction bs arbitrary: m s)
  case (Cons b bs)
  let ?s1 = "s\<lparr>chunk := (chunk s)[length m mod n := b], msgbytes := msgbytes s + 1\<rparr>"
  have n: "length (chunk s) = n" using Cons.prems by (simp add: fed_def)
  have pos: "Suc (length m) mod n = (if length m mod n + 1 = n then 0 else length m mod n + 1)"
    by (simp add: mod_Suc)
  from fed_byte [OF Cons.prems, of b]
  have "fed C n iv (m @ [b]) (if length m mod n + 1 = n then sha_transform C ?s1 else ?s1)" .
  from Cons.IH [OF this Cons.prems(2)] show ?case
    using n pos by (auto simp: Let_def split: if_splits)
qed simp

lemma fed_update:
  assumes "fed C n iv m s" and "0 < n" and "length m < 2 ^ 64"
  shows "fed C n iv (m @ bs) (sha_update C bs s)"
  using fed_update_loop [OF assms(1,2), of bs] assms(1,3)
  by (simp add: sha_update_def fed_def unat_of_nat_u64)

text \<open>Padding: a byte \<open>0x80\<close>, zeros up to eight bytes before the end of a block, the length in bits.\<close>

definition pad_gap :: "nat \<Rightarrow> nat \<Rightarrow> nat" where
  "pad_gap n l = (if l mod n \<le> n - 8 then n - 8 - l mod n else n - 8 + n - l mod n)"

definition be64 :: "u64 \<Rightarrow> u8 list" where
  "be64 v = rev (le_bytes 8 v)"

definition padded :: "nat \<Rightarrow> u8 list \<Rightarrow> u8 list" where
  "padded n m = m @ 0x80 # replicate (pad_gap n (length m + 1)) 0 @ be64 (of_nat (8 * length m))"

lemma pad_gap_0: "8 \<le> n \<Longrightarrow> pad_gap n l = 0 \<longleftrightarrow> l mod n = n - 8"
proof -
  assume n: "8 \<le> n"
  define r where "r = l mod n"
  have "r < n" using n by (simp add: r_def)
  with n show ?thesis unfolding pad_gap_def r_def [symmetric] by auto
qed

lemma pad_gap_Suc: "8 \<le> n \<Longrightarrow> pad_gap n l = Suc k \<Longrightarrow> pad_gap n (Suc l) = k"
proof -
  assume n: "8 \<le> n" and k: "pad_gap n l = Suc k"
  define r where "r = l mod n"
  have "r < n" using n by (simp add: r_def)
  with n k show ?thesis
    unfolding pad_gap_def mod_Suc r_def [symmetric] by (auto split: if_splits)
qed

lemma pad_gap_bound: "8 \<le> n \<Longrightarrow> pad_gap n l < n"
  using mod_less_divisor [of n l] by (auto simp: pad_gap_def)

lemma pad_gap_mod: "8 \<le> n \<Longrightarrow> (l + pad_gap n l) mod n = n - 8"
proof (induction "pad_gap n l" arbitrary: l)
  case 0
  then show ?case by (metis add_0_right pad_gap_0)
next
  case (Suc k)
  from pad_gap_Suc [OF Suc.prems Suc.hyps(2) [symmetric]] have "pad_gap n (Suc l) = k" .
  with Suc.hyps(1) [of "Suc l"] Suc.prems Suc.hyps(2) show ?case by (metis add_Suc_shift)
qed

lemma fed_pad:
  assumes "fed C n iv m s" and "8 \<le> n" and "length m + pad_gap n (length m) < 2 ^ 64"
    and "pad_gap n (length m) < fuel"
  shows "\<exists>s'. pad_loop C fuel s = Some s' \<and> fed C n iv (m @ replicate (pad_gap n (length m)) 0) s'"
  using assms
proof (induction "pad_gap n (length m)" arbitrary: m s fuel)
  case 0
  then have "length m mod n = n - 8" by (metis pad_gap_0)
  with 0 show ?case
    by (cases fuel) (auto simp: fed_def unat_of_nat_u64)
next
  case (Suc k)
  have next_gap: "pad_gap n (length (m @ [0])) = k"
    using pad_gap_Suc [of n "length m" k] Suc.hyps(2) Suc.prems(2) by simp
  have ne: "length m mod n \<noteq> n - 8"
    using pad_gap_0 [of n "length m"] Suc.hyps(2) Suc.prems(2) by auto
  obtain fuel' where fuel: "fuel = Suc fuel'" using Suc.prems(4) by (cases fuel) auto
  have f1: "fed C n iv (m @ [0]) (sha_update C [0] s)"
    using Suc.prems by (intro fed_update) auto
  have "\<exists>s'. pad_loop C fuel' (sha_update C [0] s) = Some s'
      \<and> fed C n iv ((m @ [0]) @ replicate (pad_gap n (length (m @ [0]))) 0) s'"
    using Suc.prems Suc.hyps(2) next_gap fuel by (intro Suc.hyps(1) [OF _ f1]) auto
  moreover have "pad_loop C fuel s = pad_loop C fuel' (sha_update C [0] s)"
    using Suc.prems(1,3) ne fuel by (simp add: fed_def unat_of_nat_u64)
  ultimately show ?case
    using next_gap Suc.hyps(2) by (simp flip: replicate_Suc)
qed

section \<open>Bytes of words\<close>

lemma le_word_bits:
  fixes bs :: "u8 list"
  shows "bit (le_word bs :: 'w :: len word) k \<longleftrightarrow>
     k < LENGTH('w) \<and> k div 8 < length bs \<and> bit (bs ! (k div 8)) (k mod 8)"
proof (induction bs arbitrary: k)
  case Nil
  then show ?case by (simp add: le_word_def)
next
  case (Cons b bs)
  have step: "(le_word (b # bs) :: 'w word) = push_bit 8 (le_word bs) OR ucast b" by (simp add: le_word_def)
  show ?case
  proof (cases "k < 8")
    case True
    then show ?thesis unfolding step by (auto simp: bit_simps)
  next
    case False
    then obtain j where k: "k = j + 8" by (metis add.commute le_Suc_ex not_less)
    have "(j + 8) div 8 = Suc (j div 8)" "(j + 8) mod 8 = j mod 8" by simp_all
    then show ?thesis
      unfolding step k using Cons.IH [of j] by (auto simp: bit_simps)
  qed
qed

lemma le_bytes_nth: "i < n \<Longrightarrow> le_bytes n w ! i = ucast (drop_bit (8 * i) w)"
  by (simp add: le_bytes_def)

lemma length_le_bytes [simp]: "length (le_bytes n w) = n"
  by (simp add: le_bytes_def)

lemma le_bytes_le_word: "length bs = 8 \<Longrightarrow> le_bytes 8 (le_word bs :: u64) = bs"
proof (rule nth_equalityI)
  fix i
  assume len: "length bs = 8" and "i < length (le_bytes 8 (le_word bs :: u64))"
  then have i: "i < 8" by simp
  show "le_bytes 8 (le_word bs :: u64) ! i = bs ! i"
  proof (rule bit_word_eqI)
    fix k
    assume "k < LENGTH(8)"
    then have k: "k < 8" by simp
    then have "(8 * i + k) div 8 = i" "(8 * i + k) mod 8 = k" "8 * i + k < 64" using i by auto
    then show "bit (le_bytes 8 (le_word bs :: u64) ! i) k = bit (bs ! i) k"
      using i k len by (simp add: le_bytes_nth bit_simps le_word_bits)
  qed
qed simp

lemma le_bytes_split:
  "le_bytes 4 (ucast w :: u32) @ le_bytes 4 (ucast (drop_bit 32 w) :: u32) = le_bytes 8 (w :: u64)"
proof (rule nth_equalityI)
  fix i
  assume "i < length (le_bytes 4 (ucast w :: u32) @ le_bytes 4 (ucast (drop_bit 32 w) :: u32))"
  then have i: "i < 8" by simp
  show "(le_bytes 4 (ucast w :: u32) @ le_bytes 4 (ucast (drop_bit 32 w) :: u32)) ! i = le_bytes 8 w ! i"
  proof (cases "i < 4")
    case True
    then show ?thesis
      by (intro bit_word_eqI) (auto simp: nth_append le_bytes_nth bit_simps)
  next
    case False
    then obtain j where "i = j + 4" by (metis add.commute le_Suc_ex not_less)
    with i show ?thesis
      by (intro bit_word_eqI) (auto simp: nth_append le_bytes_nth bit_simps algebra_simps)
  qed
qed simp

lemma length_bytes_be64: "le_bytes 4 (ucast (revb v) :: u32) @ le_bytes 4 (ucast (drop_bit 32 (revb v)) :: u32)
    = be64 (v :: u64)"
  unfolding le_bytes_split by (simp add: revb_def wbytes_def be64_def le_bytes_le_word)

section \<open>The hash of a message\<close>

lemma fed_start: "0 < LENGTH('w) div 8 \<Longrightarrow> fed C (16 * (LENGTH('w) div 8)) iv [] (sha_start iv :: 'w :: len word sha_state)"
  by (simp add: fed_def sha_start_def wbytes_def)

lemma put_both:
  assumes "length ch = n" and "8 \<le> n" and "length x = 4" and "length y = 4"
  shows "put_bytes (n - 4) y (put_bytes (n - 8) x ch) = take (n - 8) ch @ x @ y"
  using assms by (auto simp: put_bytes_def min_def)

lemma fed_final:
  assumes f: "fed C n iv m s" and n: "8 \<le> n" and small: "length m + n < 2 ^ 61"
  shows "\<exists>s'. sha_final C s = Some s' \<and> hv s' = map revb (md C n iv (padded n m))"
proof -
  let ?k = "pad_gap n (length m + 1)" and ?m = "m @ [0x80]"
  let ?v = "push_bit 3 (msgbytes s)"
  let ?x = "le_bytes 4 (ucast (revb ?v) :: u32)" and ?y = "le_bytes 4 (ucast (drop_bit 32 (revb ?v)) :: u32)"
  have kb: "?k < n" using n by (rule pad_gap_bound)
  have f1: "fed C n iv ?m (sha_update C [0x80] s)"
    using f n small by (intro fed_update) auto
  obtain t where t: "pad_loop C (Suc n) (sha_update C [0x80] s) = Some t"
      "fed C n iv (?m @ replicate ?k 0) t"
    using fed_pad [OF f1 n, of "Suc n"] kb small by auto
  define p where "p = ?m @ replicate ?k 0"
  have pos: "length p mod n = n - 8"
    using pad_gap_mod [OF n, of "length m + 1"] by (simp add: p_def)
  have ch: "length (chunk t) = n" "hv t = md C n iv p"
      "take (n - 8) (chunk t) = drop (n * (length p div n)) p"
    using t(2) pos unfolding p_def [symmetric] by (simp_all add: fed_def)
  have lenv: "?v = of_nat (8 * length m)"
    using f by (simp add: fed_def push_bit_eq_mult)
  have block: "put_bytes (n - 4) ?y (put_bytes (n - 8) ?x (chunk t))
      = drop (n * (length p div n)) p @ be64 ?v"
    using put_both [OF ch(1) n, of ?x ?y] ch(3) length_bytes_be64 [of ?v] by simp
  let ?a = "take (n * (length p div n)) p" and ?b = "drop (n * (length p div n)) p @ be64 ?v"
  have "length ?b = n"
    using pos n unfolding length_append length_partial by (simp add: be64_def)
  then have "md C n iv (?a @ ?b) = compress C (md C n iv ?a) ?b"
    using n length_whole by (intro md_block) auto
  moreover have "?a @ ?b = padded n m"
    unfolding append_assoc [symmetric] append_take_drop_id by (simp add: padded_def lenv p_def)
  moreover have "md C n iv ?a = hv t"
    unfolding ch(2) using md_rest [of n C iv p] n by simp
  ultimately have "md C n iv (padded n m)
      = compress C (hv t) (put_bytes (n - 4) ?y (put_bytes (n - 8) ?x (chunk t)))"
    unfolding block by metis
  then show ?thesis
    using t(1) f by (simp add: sha_final_def Let_def fed_def sha_transform_compress)
qed

lemma sha2_run:
  fixes C :: "'w :: len word sha_config"
  defines "n \<equiv> 16 * (LENGTH('w) div 8)"
  assumes "8 \<le> LENGTH('w)" and "length a + length b + n < 2 ^ 61"
  shows "\<exists>s. sha_final C (sha_update C b (sha_update C a (sha_start iv))) = Some s
    \<and> hv s = map revb (md C n iv (padded n (a @ b)))"
proof -
  have w: "0 < LENGTH('w) div 8" using assms(2) by (simp add: div_greater_zero_iff)
  then have n: "8 \<le> n" unfolding n_def by linarith
  have "fed C n iv [] (sha_start iv)" unfolding n_def using w by (rule fed_start)
  from fed_update [OF this, of a] n have fa: "fed C n iv a (sha_update C a (sha_start iv))" by simp
  have "fed C n iv (a @ b) (sha_update C b (sha_update C a (sha_start iv)))"
    using fa n assms(3) by (intro fed_update) auto
  from fed_final [OF this n] assms(3) show ?thesis by simp
qed



text \<open>The padding of the standard for 1024-bit blocks: the length takes 16 bytes.\<close>

definition long_gap :: "nat \<Rightarrow> nat" where
  "long_gap l = (if l mod 128 \<le> 112 then 112 - l mod 128 else 240 - l mod 128)"

definition padded_1024 :: "u8 list \<Rightarrow> u8 list" where
  "padded_1024 m =
     m @ 0x80 # replicate (long_gap (length m + 1)) 0 @ replicate 8 0 @ be64 (of_nat (8 * length m))"

lemma padding_1024:
  "(padded 128 m = padded_1024 m) = (\<not> (112 \<le> length m mod 128 \<and> length m mod 128 \<le> 119))"
proof -
  let ?z = "\<lambda>k. 0x80 # replicate k 0 @ be64 (of_nat (8 * length m))"
  define r where "r = length m mod 128"
  have r: "r < 128" by (simp add: r_def)
  have l: "(length m + 1) mod 128 = (if r = 127 then 0 else r + 1)"
    unfolding r_def by (simp add: mod_Suc)
  have "padded_1024 m = m @ ?z (long_gap (length m + 1) + 8)"
    by (simp add: padded_1024_def replicate_add)
  moreover have "padded 128 m = m @ ?z (pad_gap 128 (length m + 1))" by (simp add: padded_def)
  moreover have "?z j = ?z k \<longleftrightarrow> j = k" for j k
    by (auto dest: arg_cong [where f = length])
  moreover have "pad_gap 128 (length m + 1) = long_gap (length m + 1) + 8 \<longleftrightarrow> \<not> (112 \<le> r \<and> r \<le> 119)"
    unfolding pad_gap_def long_gap_def l using r by auto
  ultimately show ?thesis by (simp add: r_def)
qed

text \<open>
  For the 512-bit variants the padding that final uses (an 8-byte length) equals the padding
  of the standard (a 16-byte length) exactly when the message length modulo 128 is outside 112
  to 119.
\<close>

theorem sha512_padding:
  assumes "length m < 2 ^ 60"
  shows "\<exists>s. sha_final SHA2Config512 (sha_update SHA2Config512 m (sha_start iv)) = Some s
    \<and> hv s = map revb (md SHA2Config512 128 iv (padded 128 m))
    \<and> (padded 128 m = padded_1024 m) = (\<not> (112 \<le> length m mod 128 \<and> length m mod 128 \<le> 119))"
  using sha2_run [of m "[]" SHA2Config512 iv] assms padding_1024 [of m]
  by (simp add: sha_update_def)

theorem sha512_padding_witness:
  "\<exists>s. sha_final SHA2Config512 (sha_update SHA2Config512 (replicate 112 0) (sha_start SHA512_iv)) = Some s
     \<and> hv s = map revb (md SHA2Config512 128 SHA512_iv (padded 128 (replicate 112 0)))
     \<and> padded 128 (replicate 112 0) \<noteq> padded_1024 (replicate 112 0)"
  using sha512_padding [of "replicate 112 0" SHA512_iv] by simp

end
