(* ===== verification/Rand.thy ===== *)
theory Rand
  imports Prelude
begin

text \<open>
  \<^verbatim>\<open>src/rand\<close>: the pseudo-random generator that chooses load addresses, an xorshift generator with a
  64-bit seed taken from the hardware at start-up.
\<close>

text \<open>\<^verbatim>\<open>setup\<close>: the sources of the seed, in the order the code tries them.\<close>

definition rand_setup :: "u32 \<Rightarrow> u32 \<Rightarrow> u64 \<Rightarrow> u64 \<Rightarrow> u32 \<Rightarrow> u32 \<Rightarrow> u64" where
  "rand_setup cpuid7_ebx cpuid1_ecx rdseed rdrand tsc_hi tsc_lo =
     (if cpuid7_ebx AND push_bit 18 1 \<noteq> 0 then rdseed
      else if cpuid1_ecx AND push_bit 30 1 \<noteq> 0 then rdrand
      else push_bit 32 (ucast tsc_hi) OR ucast tsc_lo)"

definition next_seed :: "u64 \<Rightarrow> u64" where
  "next_seed seed =
     (let x = seed;
          x = x XOR drop_bit 12 x;
          x = x XOR push_bit 25 x;
          x = x XOR drop_bit 27 x
      in x)"

text \<open>\<^verbatim>\<open>_get64\<close>: the value returned and the new seed.\<close>

definition get64 :: "u64 \<Rightarrow> u64 \<times> u64" where
  "get64 seed = (next_seed seed * 0x2545f4914f6cdd1d, next_seed seed)"

text \<open>\<^verbatim>\<open>get(min, max)\<close>, for 64-bit types; \<open>None\<close> is the division by zero of an empty range.\<close>

definition get_range :: "u64 \<Rightarrow> u64 \<Rightarrow> u64 \<Rightarrow> (u64 \<times> u64) option" where
  "get_range lo hi seed =
     (if hi - lo = 0 then None
      else let (v, seed) = get64 seed in Some (lo + v mod (hi - lo), seed))"

section \<open>The seed never degenerates\<close>

lemma shift_right_inj:
  fixes x y :: u64
  assumes "0 < k" and "x XOR drop_bit k x = y XOR drop_bit k y"
  shows "x = y"
proof (rule bit_word_eqI)
  fix n
  show "bit x n = bit y n"
  proof (induction "64 - n" arbitrary: n rule: less_induct)
    case less
    have eq: "(bit x n \<noteq> bit x (k + n)) = (bit y n \<noteq> bit y (k + n))"
      using arg_cong [OF assms(2), of "\<lambda>w. bit w n"] by (simp add: bit_xor_iff bit_drop_bit_eq)
    show ?case
    proof (cases "n < 64")
      case True
      then have "64 - (k + n) < 64 - n" using assms(1) by simp
      from less [OF this] eq show ?thesis by auto
    next
      case False
      then show ?thesis using bit_imp_le_length [of x n] bit_imp_le_length [of y n] by auto
    qed
  qed
qed

lemma shift_left_inj:
  fixes x y :: u64
  assumes "0 < k" and "x XOR push_bit k x = y XOR push_bit k y"
  shows "x = y"
proof (rule bit_word_eqI)
  fix n
  show "n < LENGTH(64) \<Longrightarrow> bit x n = bit y n"
  proof (induction n rule: less_induct)
    case (less n)
    have eq: "(bit x n \<noteq> (k \<le> n \<and> bit x (n - k))) = (bit y n \<noteq> (k \<le> n \<and> bit y (n - k)))"
      using arg_cong [OF assms(2), of "\<lambda>w. bit w n"] less.prems
      by (simp add: bit_xor_iff bit_push_bit_iff)
    show ?case
    proof (cases "k \<le> n")
      case True
      then have "bit x (n - k) = bit y (n - k)"
        using assms(1) less.prems by (intro less.IH) simp_all
      with eq True show ?thesis by auto
    next
      case False
      with eq show ?thesis by auto
    qed
  qed
qed

lemma next_seed_inj: "next_seed x = next_seed y \<Longrightarrow> x = y"
  unfolding next_seed_def Let_def
  by (rule shift_right_inj [of 12], simp, rule shift_left_inj [of 25], simp, rule shift_right_inj [of 27], simp)

lemma next_seed_0: "next_seed 0 = 0"
  by (simp add: next_seed_def)

text \<open>
  The step of the generator is injective and maps only 0 to 0: a nonzero seed stays nonzero
  for any number of calls, so the generator never gets stuck and never seeds itself again.
\<close>

theorem seed_stays_nonzero:
  "inj next_seed \<and> surj next_seed \<and> (\<forall>k seed. ((next_seed ^^ k) seed = 0) = (seed = 0))"
proof -
  have inj: "inj next_seed" using next_seed_inj by (auto simp: inj_def)
  moreover have "surj next_seed" using inj by (simp add: finite_UNIV_inj_surj)
  moreover have "((next_seed ^^ k) seed = 0) = (seed = 0)" for k seed
  proof (induction k)
    case (Suc k)
    have "(next_seed ((next_seed ^^ k) seed) = 0) = ((next_seed ^^ k) seed = 0)"
      using next_seed_inj [of "(next_seed ^^ k) seed" 0] next_seed_0 by auto
    with Suc show ?case by simp
  qed simp
  ultimately show ?thesis by blast
qed

text \<open>
  RAND::get(min, max) with min < max returns a value v with min <= v < max.
\<close>

theorem get_range_bounds:
  assumes "lo < hi"
  shows "\<exists>v seed'. get_range lo hi seed = Some (v, seed') \<and> lo \<le> v \<and> v < hi \<and> seed' = next_seed seed"
proof -
  let ?r = "next_seed seed * 0x2545f4914f6cdd1d mod (hi - lo)"
  have ne: "hi - lo \<noteq> 0" using assms by auto
  have d: "unat (hi - lo) = unat hi - unat lo" using assms by (simp add: unat_diff_u64 less_imp_le)
  have pos: "unat lo < unat hi" using assms by (simp add: word_less_nat_alt)
  have r: "unat ?r < unat hi - unat lo"
    using pos by (simp only: unat_mod d) (rule mod_less_divisor, simp)
  then have "unat lo + unat ?r < 18446744073709551616" using unat_lt_2p64 [of hi] by linarith
  then have "unat (lo + ?r) = unat lo + unat ?r" by (rule unat_add_u64)
  with r have "lo \<le> lo + ?r" "lo + ?r < hi" by (simp_all add: word_le_nat_alt word_less_nat_alt)
  with ne show ?thesis by (simp add: get_range_def get64_def)
qed

theorem get_range_bounds_witness:
  "\<exists>v seed'. get_range 0x400000 0x800000 1 = Some (v, seed') \<and> 0x400000 \<le> v \<and> v < 0x800000 \<and> seed' = next_seed 1"
  by (rule get_range_bounds) simp

end
