(* ===== verification/Syscall.thy ===== *)
theory Syscall
  imports Prelude
begin

text \<open>
  \<^verbatim>\<open>src/syscall\<close>: system calls are named by a 64-bit hash of their name, which user code gets from
  \<^verbatim>\<open>Syscall::callByName\<close> through the kernel linker and passes in \<^verbatim>\<open>rax\<close>; the entry wrapper searches
  the handler table for it.
\<close>

section \<open>The table\<close>

definition hash_base :: u64 where "hash_base = 0x467521903ff4ea37"
definition hash_mul :: u64 where "hash_mul = 0x0064006400640064"

definition hash_char :: "u64 \<Rightarrow> char \<Rightarrow> u64" where
  "hash_char hash c = hash + (hash * 101 + of_char c * hash_mul)"

text \<open>\<^verbatim>\<open>syscall_hash\<close> and its compile-time twin \<^verbatim>\<open>syscall_hash_ce\<close>.\<close>

definition syscall_hash :: "string \<Rightarrow> u64" where
  "syscall_hash str = foldl hash_char hash_base str"

datatype handler = Puts | Exit | Kread | Ioprovide

text \<open>The entries of \<^verbatim>\<open>syscall_map\<close>, the terminating null entry included.\<close>

definition syscall_map :: "(u64 \<times> handler option) list" where
  "syscall_map =
     [(syscall_hash ''puts'', Some Puts), (syscall_hash ''exit'', Some Exit),
      (syscall_hash ''kread'', Some Kread), (syscall_hash ''ioprovide'', Some Ioprovide),
      (0, None)]"

section \<open>Lookup\<close>

fun index_loop :: "u64 \<Rightarrow> u64 \<Rightarrow> (u64 \<times> handler option) list \<Rightarrow> u64" where
  "index_loop hash idx [] = - 1"
| "index_loop hash idx (e # es) = (if fst e = hash then idx else index_loop hash (idx + 1) es)"

text \<open>The loop leaves the terminator out.\<close>

definition syscall_index :: "u64 \<Rightarrow> u64" where
  "syscall_index hash = index_loop hash 0 (butlast syscall_map)"

definition callByName :: "string \<Rightarrow> u64" where
  "callByName name =
     (let hash = syscall_hash name in if syscall_index hash = - 1 then 0 else hash)"

text \<open>
  The search of the wrapper: call the entry whose hash is \<^verbatim>\<open>rax\<close>, or execute \<^verbatim>\<open>ud2\<close> at the null
  entry. The comparison with \<^verbatim>\<open>rax\<close> comes first.
\<close>

datatype outcome = Call handler | CallNull | Ud2

fun dispatch_loop :: "u64 \<Rightarrow> (u64 \<times> handler option) list \<Rightarrow> outcome option" where
  "dispatch_loop rax [] = None"
| "dispatch_loop rax (e # es) =
     (if fst e = rax then Some (case snd e of Some h \<Rightarrow> Call h | None \<Rightarrow> CallNull)
      else if fst e = 0 then Some Ud2
      else dispatch_loop rax es)"

definition dispatch :: "u64 \<Rightarrow> outcome option" where
  "dispatch rax = dispatch_loop rax syscall_map"

text \<open>The wrapper finds its slot in the per-CPU stack array from the task register.\<close>

definition stack_slot :: "u16 \<Rightarrow> u64" where
  "stack_slot tr = drop_bit 1 (ucast tr - 40) + 8"

section \<open>Properties\<close>

lemmas hash_eval = syscall_hash_def hash_char_def hash_base_def hash_mul_def

lemma hashes:
  "syscall_hash ''puts'' = 0x67a803a066805e8c" "syscall_hash ''exit'' = 0x066da266054642b8"
  "syscall_hash ''kread'' = 0xd1a3f69b5be4de58" "syscall_hash ''ioprovide'' = 0xa0bc9c1fde320b64"
  by (simp_all add: hash_eval)

lemma syscall_index_lookup:
  "syscall_index hash = - 1 \<longleftrightarrow> hash \<notin> fst ` set (butlast syscall_map)"
  by (auto simp: syscall_index_def syscall_map_def hashes)

text \<open>
  callByName gives each of the four system calls a distinct nonzero number, and the wrapper,
  entered with that number, calls exactly that handler.
\<close>

theorem syscall_by_name:
  "dispatch (callByName name) =
     (case map_of (butlast syscall_map) (syscall_hash name) of
        Some (Some h) \<Rightarrow> Some (Call h) | _ \<Rightarrow> Some CallNull)
   \<and> map (\<lambda>n. dispatch (callByName n)) [''puts'', ''exit'', ''kread'', ''ioprovide'']
     = [Some (Call Puts), Some (Call Exit), Some (Call Kread), Some (Call Ioprovide)]"
proof
  show "dispatch (callByName name) =
     (case map_of (butlast syscall_map) (syscall_hash name) of
        Some (Some h) \<Rightarrow> Some (Call h) | _ \<Rightarrow> Some CallNull)"
    by (simp add: callByName_def Let_def syscall_index_lookup dispatch_def syscall_map_def hashes)
  show "map (\<lambda>n. dispatch (callByName n)) [''puts'', ''exit'', ''kread'', ''ioprovide'']
     = [Some (Call Puts), Some (Call Exit), Some (Call Kread), Some (Call Ioprovide)]"
    by (simp add: callByName_def Let_def syscall_index_lookup dispatch_def syscall_map_def hashes)
qed

text \<open>
  Whatever user code passes in rax the wrapper's search ends: with the handler of that number,
  with ud2, or for rax = 0 with a call through the null pointer of the terminating entry.
\<close>

theorem dispatch_any:
  "dispatch rax = Some (case map_of syscall_map rax of
     None \<Rightarrow> Ud2 | Some None \<Rightarrow> CallNull | Some (Some h) \<Rightarrow> Call h)
   \<and> dispatch 0 = Some CallNull"
  by (simp add: dispatch_def syscall_map_def hashes)

lemma stack_slot_cpu: "stack_slot (40 + 16 * of_nat cpu) = 8 + 8 * of_nat cpu" if "cpu < 0x800"
proof -
  have "(40 + 16 * of_nat cpu :: u16) = of_nat (40 + 16 * cpu)" by simp
  then have "unat (40 + 16 * of_nat cpu :: u16) = 40 + 16 * cpu"
    using that by (simp only: unsigned_of_nat) (simp add: take_bit_nat_eq_self)
  then have "(ucast (40 + 16 * of_nat cpu :: u16) :: u64) = of_nat (40 + 16 * cpu)"
    by (metis of_nat_unat)
  then have "ucast (40 + 16 * of_nat cpu :: u16) - 40 = (of_nat (16 * cpu) :: u64)" by simp
  moreover have "drop_bit 1 (of_nat (16 * cpu) :: u64) = of_nat (8 * cpu)"
    using that by (simp add: drop_bit_eq_div word_unat_eq_iff unat_div unat_of_nat_u64 del: of_nat_mult)
  ultimately show ?thesis by (simp add: stack_slot_def)
qed

end
