(* ===== verification/Heap.thy ===== *)
theory Heap
  imports Prelude "HOL-Library.Monad_Syntax" "HOL-Library.Multiset"
begin

text \<open>
  \<^verbatim>\<open>src/heap/heap.cpp\<close>: the kernel heap behind \<^verbatim>\<open>new\<close> and \<^verbatim>\<open>delete\<close>. It keeps a chain of tables of huge
  pages and a chain of tables of allocations; both are lists of tables, a table the list of its
  slots. Table pages come from \<^verbatim>\<open>Pagetable::alloc\<close>, which gives zeroed pages (running out of them is not modelled); the huge pages
  \<^verbatim>\<open>Pagetable::halloc\<close> is going to return are an argument. The search jumps back to its start until
  a candidate fits, so it is a partial function (\<open>None\<close>: it does not return, asks for more huge
  pages than given, or divides by a zero alignment).
\<close>

record heap =
  heap_pages :: "u64 list list"
  allocs :: "(u64 \<times> u64) list list"

definition heap_empty :: heap where
  "heap_empty = \<lparr>heap_pages = [], allocs = []\<rparr>"

definition new_pages :: "u64 list" where "new_pages = replicate 511 0"
definition new_table :: "(u64 \<times> u64) list" where "new_table = replicate 255 (0, 0)"

text \<open>The label \<^verbatim>\<open>find_page\<close> with \<^verbatim>\<open>ptr = 0\<close>: the first non-null page of the chain.\<close>

fun first_page :: "u64 list \<Rightarrow> u64 option" where
  "first_page [] = None"
| "first_page (p # ps) = (if p = 0 \<or> p = 0xFFFFFFFFFFFFFFFF then first_page ps else Some p)"

text \<open>The label \<^verbatim>\<open>new_page\<close>: the first free slot of the chain, with a new table at its end if all are full.\<close>

fun add_page :: "u64 \<Rightarrow> u64 list list \<Rightarrow> u64 list list" where
  "add_page a [] = [new_pages[0 := a]]"
| "add_page a (t # ts) =
     (if 0 \<in> set t then (takeWhile (\<lambda>p. p \<noteq> 0) t @ a # tl (dropWhile (\<lambda>p. p \<noteq> 0) t)) # ts
      else t # add_page a ts)"

fun locate :: "u64 list \<Rightarrow> u64 list list \<Rightarrow> (u64 \<times> u64 list list \<times> u64 list) option" where
  "locate avail pages =
     (case first_page (concat pages) of
        Some p \<Rightarrow> Some (p, pages, avail)
      | None \<Rightarrow> (case avail of [] \<Rightarrow> None | a # rest \<Rightarrow> locate rest (add_page a pages)))"

declare locate.simps [simp del]

text \<open>The loop over the huge pages a candidate spans; the mask is the one of the source.\<close>

partial_function (option) span_ok :: "u64 list \<Rightarrow> u64 \<Rightarrow> u64 \<Rightarrow> bool option" where
  "span_ok ps ptr_top pg =
     (if pg < ptr_top then (if pg \<in> set ps then span_ok ps ptr_top (pg + 0x200000) else Some False)
      else Some True)"

fun higher_page :: "u64 \<Rightarrow> u64 list \<Rightarrow> u64 option" where
  "higher_page ptr [] = None"
| "higher_page ptr (p # ps) = (if ptr < p then Some p else higher_page ptr ps)"

fun first_overlap :: "u64 \<Rightarrow> u64 \<Rightarrow> (u64 \<times> u64) list \<Rightarrow> u64 option" where
  "first_overlap ptr ptr_top [] = None"
| "first_overlap ptr ptr_top ((b, sz) # al) =
     (if b + sz \<le> ptr \<or> ptr_top < b then first_overlap ptr ptr_top al else Some (b + sz))"

definition align_up :: "u64 \<Rightarrow> u64 \<Rightarrow> u64" where
  "align_up align ptr = (if ptr mod align \<noteq> 0 then ptr + (align - ptr mod align) else ptr)"

text \<open>The label \<^verbatim>\<open>check_ptr\<close>.\<close>

partial_function (option) check_ptr ::
    "(u64 \<times> u64) list \<Rightarrow> u64 \<Rightarrow> u64 \<Rightarrow> u64 \<Rightarrow> u64 \<Rightarrow> u64 list list \<Rightarrow> u64 list
     \<Rightarrow> (u64 \<times> u64 list list \<times> u64 list) option" where
  "check_ptr al len align page ptr pages avail = do {
     let ptr = align_up align (if ptr < page then page else ptr);
     let ptr_top = ptr + len;
     fits \<leftarrow> span_ok (concat pages) ptr_top (ptr AND 0xFFFFFFFFFFFF000);
     if fits then
       (case first_overlap ptr ptr_top al of
          None \<Rightarrow> Some (ptr, pages, avail)
        | Some alloc_top \<Rightarrow> check_ptr al len align page alloc_top pages avail)
     else
       (case higher_page ptr (concat pages) of
          Some p \<Rightarrow> check_ptr al len align page p pages avail
        | None \<Rightarrow> (case avail of
            [] \<Rightarrow> None
          | a # rest \<Rightarrow> do {
              (page, pages, avail) \<leftarrow> locate rest (add_page a pages);
              check_ptr al len align page 0 pages avail
            }))
   }"

text \<open>Saving the allocation: the first free slot.\<close>

fun save_alloc :: "u64 \<times> u64 \<Rightarrow> (u64 \<times> u64) list list \<Rightarrow> (u64 \<times> u64) list list" where
  "save_alloc a [] = [new_table[0 := a]]"
| "save_alloc a (t # ts) =
     (if 0 \<in> fst ` set t
      then (takeWhile (\<lambda>e. fst e \<noteq> 0) t @ a # tl (dropWhile (\<lambda>e. fst e \<noteq> 0) t)) # ts
      else t # save_alloc a ts)"

definition heap_alloc :: "u64 \<Rightarrow> u64 \<Rightarrow> u64 list \<Rightarrow> heap \<Rightarrow> (u64 \<times> heap) option" where
  "heap_alloc len align avail h =
     (if len = 0 then Some (0, h)
      else if align = 0 then None
      else do {
        let h = (if heap_pages h = [] then h\<lparr>heap_pages := [new_pages]\<rparr> else h);
        let h = (if allocs h = [] then h\<lparr>allocs := [new_table]\<rparr> else h);
        (page, pages, avail) \<leftarrow> locate avail (heap_pages h);
        (ptr, pages, avail) \<leftarrow> check_ptr (concat (allocs h)) len align page 0 pages avail;
        Some (ptr, h\<lparr>heap_pages := pages, allocs := save_alloc (ptr, len) (allocs h)\<rparr>)
      })"

fun free_slot :: "u64 \<Rightarrow> (u64 \<times> u64) list \<Rightarrow> (u64 \<times> u64) list option" where
  "free_slot a [] = None"
| "free_slot a (e # es) =
     (if fst e = a then Some ((0, 0) # es) else map_option (Cons e) (free_slot a es))"

fun free_tables :: "u64 \<Rightarrow> (u64 \<times> u64) list list \<Rightarrow> (u64 \<times> u64) list list" where
  "free_tables a [] = []"
| "free_tables a (t # ts) =
     (case free_slot a t of Some t' \<Rightarrow> t' # ts | None \<Rightarrow> t # free_tables a ts)"

text \<open>\<open>None\<close>: the chain is still null, and the code reads through it.\<close>

definition heap_free :: "u64 \<Rightarrow> heap \<Rightarrow> heap option" where
  "heap_free a h =
     (if a = 0 then Some h
      else if allocs h = [] then None
      else Some (h\<lparr>allocs := free_tables a (allocs h)\<rparr>))"

section \<open>Allocations do not overlap\<close>

text \<open>The live allocations, as pairs of address and size.\<close>

definition live :: "heap \<Rightarrow> (u64 \<times> u64) multiset" where
  "live h = filter_mset (\<lambda>e. fst e \<noteq> 0) (mset (concat (allocs h)))"

lemma first_overlap_None:
  "first_overlap ptr ptr_top al = None \<longleftrightarrow> (\<forall>e \<in> set al. fst e + snd e \<le> ptr \<or> ptr_top < fst e)"
  by (induction al) (auto split: if_splits)

definition fitting :: "(u64 \<times> u64) list \<Rightarrow> u64 \<Rightarrow> u64 \<Rightarrow> u64 \<times> u64 list list \<times> u64 list \<Rightarrow> bool" where
  "fitting al len align r \<longleftrightarrow> first_overlap (fst r) (fst r + len) al = None
     \<and> (\<exists>x. fst r = align_up align x)
     \<and> span_ok (concat (fst (snd r))) (fst r + len) (fst r AND 0xFFFFFFFFFFFF000) = Some True"

lemma check_ptr_result:
  assumes "check_ptr al len align page ptr pages avail = Some r"
  shows "fitting al len align r"
proof (rule check_ptr.raw_induct [of "\<lambda>al len align page ptr pages avail r. fitting al len align r", OF _ assms])
  fix f :: "(u64 \<times> u64) list \<Rightarrow> u64 \<Rightarrow> u64 \<Rightarrow> u64 \<Rightarrow> u64 \<Rightarrow> u64 list list \<Rightarrow> u64 list
     \<Rightarrow> (u64 \<times> u64 list list \<times> u64 list) option"
    and al len align page ptr pages avail r
  let ?ptr = "align_up align (if ptr < page then page else ptr)"
  assume IH: "\<And>al len align page ptr pages avail r.
      f al len align page ptr pages avail = Some r \<Longrightarrow> fitting al len align r"
  assume "do {
     let ptr = ?ptr;
     let ptr_top = ptr + len;
     fits \<leftarrow> span_ok (concat pages) ptr_top (ptr AND 0xFFFFFFFFFFFF000);
     if fits then
       (case first_overlap ptr ptr_top al of
          None \<Rightarrow> Some (ptr, pages, avail)
        | Some alloc_top \<Rightarrow> f al len align page alloc_top pages avail)
     else
       (case higher_page ptr (concat pages) of
          Some p \<Rightarrow> f al len align page p pages avail
        | None \<Rightarrow> (case avail of
            [] \<Rightarrow> None
          | a # rest \<Rightarrow> do {
              (page, pages, avail) \<leftarrow> locate rest (add_page a pages);
              f al len align page 0 pages avail
            }))
   } = Some r"
  then show "fitting al len align r"
    unfolding Let_def bind_eq_Some_conv
    by (auto split: if_splits option.splits list.splits prod.splits simp: bind_eq_Some_conv intro: IH)
      (auto simp: fitting_def)
qed

lemma span_ok_start:
  assumes "span_ok ps ptr_top pg = Some True" and "pg < ptr_top"
  shows "pg \<in> set ps"
  using assms by (subst (asm) span_ok.simps) (simp split: if_splits)

lemma heap_alloc_cases:
  assumes "heap_alloc len align avail h = Some (ptr, h')" and "len \<noteq> 0"
  obtains page pages rest rest' where
    "check_ptr (concat (if allocs h = [] then [new_table] else allocs h)) len align page 0 pages rest
       = Some (ptr, heap_pages h', rest')"
    and "allocs h' = save_alloc (ptr, len) (if allocs h = [] then [new_table] else allocs h)"
  using assms by (auto simp: heap_alloc_def Let_def bind_eq_Some_conv split: if_splits)

lemma save_alloc_live:
  assumes "a \<noteq> 0"
  shows "filter_mset (\<lambda>e. fst e \<noteq> 0) (mset (concat (save_alloc (a, len) ts)))
    = add_mset (a, len) (filter_mset (\<lambda>e. fst e \<noteq> 0) (mset (concat ts)))"
proof (induction ts)
  case Nil
  have nt: "new_table = (0, 0) # replicate 254 (0, 0)"
    using replicate_Suc [of 254 "(0, 0) :: u64 \<times> u64"] by (simp add: new_table_def)
  show ?case using assms unfolding save_alloc.simps nt by simp
next
  case (Cons t ts)
  show ?case
  proof (cases "0 \<in> fst ` set t")
    case True
    then have "\<exists>e \<in> set t. fst e = 0" by (metis imageE)
    then obtain xs y ys where t: "t = xs @ y # ys" "fst y = 0" "\<forall>x \<in> set xs. fst x \<noteq> 0"
      using split_list_first_prop [of t "\<lambda>e. fst e = 0"] by blast
    then have "takeWhile (\<lambda>e. fst e \<noteq> 0) t = xs" "dropWhile (\<lambda>e. fst e \<noteq> 0) t = y # ys"
      by (simp_all add: takeWhile_tail dropWhile_append2)
    with True t assms show ?thesis by simp
  next
    case False
    with Cons show ?thesis by simp
  qed
qed

text \<open>Alignment, for alignments that divide the size of the address space (the powers of two).\<close>

lemma align_up_aligned:
  assumes "unat align dvd 2 ^ 64"
  shows "unat (align_up align x) mod unat align = 0"
proof (cases "x mod align = 0")
  case True
  have "unat x mod unat align = unat (x mod align)" by (simp only: unat_mod)
  with True show ?thesis by (simp add: align_up_def)
next
  case False
  let ?a = "unat align" and ?x = "unat x"
  have pos: "0 < ?a" using assms by (cases "?a = 0") auto
  have m: "unat (x mod align) = ?x mod ?a" by (simp add: unat_mod)
  have le: "?x mod ?a \<le> ?a" using pos by (simp add: less_imp_le)
  have "unat (align - x mod align) = ?a - ?x mod ?a"
    using le m by (subst unat_diff_u64) (simp_all add: word_le_nat_alt)
  then have "unat (align_up align x) = (?x + (?a - ?x mod ?a)) mod 2 ^ 64"
    using False by (simp add: align_up_def unat_word_ariths)
  then have "unat (align_up align x) mod ?a = (?x + (?a - ?x mod ?a)) mod ?a"
    using assms by (simp only: mod_mod_cancel)
  also have "\<dots> = (?x - ?x mod ?a + ?a) mod ?a"
    using le by simp
  also have "\<dots> = 0" by (simp add: minus_mod_eq_mult_div)
  finally show ?thesis .
qed

lemma heap_alloc_apart:
  assumes run: "heap_alloc len align avail h = Some (ptr, h')" and "len \<noteq> 0" and "ptr \<noteq> 0"
    and pow: "unat align dvd 2 ^ 64"
  shows "live h' = add_mset (ptr, len) (live h)
    \<and> (\<forall>e \<in># live h. fst e + snd e \<le> ptr \<or> ptr + len < fst e)
    \<and> unat ptr mod unat align = 0"
proof -
  let ?tables = "if allocs h = [] then [new_table] else allocs h"
  obtain page pages rest rest' where chk:
      "check_ptr (concat ?tables) len align page 0 pages rest = Some (ptr, heap_pages h', rest')"
      and h': "allocs h' = save_alloc (ptr, len) ?tables"
    using heap_alloc_cases [OF run \<open>len \<noteq> 0\<close>] by blast
  have "filter_mset (\<lambda>e. fst e \<noteq> 0) (mset new_table) = {#}"
    by (simp add: new_table_def)
  then have same: "filter_mset (\<lambda>e. fst e \<noteq> 0) (mset (concat ?tables)) = live h"
    by (simp add: live_def)
  have "live h' = add_mset (ptr, len) (live h)"
    unfolding live_def h' using save_alloc_live [OF \<open>ptr \<noteq> 0\<close>, of len ?tables] same by (simp add: live_def)
  moreover have fit: "fitting (concat ?tables) len align (ptr, heap_pages h', rest')"
    using check_ptr_result [OF chk] .
  have "fst e + snd e \<le> ptr \<or> ptr + len < fst e" if "e \<in># live h" for e
    using fit that unfolding fitting_def first_overlap_None same [symmetric] by auto
  moreover have "unat ptr mod unat align = 0"
    using fit align_up_aligned [OF pow] by (auto simp: fitting_def)
  ultimately show ?thesis by blast
qed


text \<open>A run on a fresh heap with one huge page, which the witnesses use.\<close>

lemma concat_new_table: "concat [new_table] = replicate 255 (0, 0)"
  by (simp add: new_table_def)

lemma first_overlap_empty: "first_overlap p q (replicate n (0, 0)) = None"
  by (induction n) simp_all

lemma first_page_zeros: "first_page (replicate n 0) = None"
  by (induction n) simp_all

lemma add_page_new: "add_page a [new_pages] = [a # replicate 510 0]"
proof -
  have eq: "new_pages = 0 # replicate 510 0"
    using replicate_Suc [of 510 "0 :: u64"] by (simp add: new_pages_def)
  show ?thesis unfolding add_page.simps eq by simp
qed

lemma fresh_alloc:
  assumes "a \<noteq> 0" "a \<noteq> 0xFFFFFFFFFFFFFFFF" "a mod align = 0" "align \<noteq> 0" "len \<noteq> 0"
    and "a AND 0xFFFFFFFFFFFF000 = a" and "a + len \<le> a + 0x200000"
  shows "heap_alloc len align [a] heap_empty
    = Some (a, \<lparr>heap_pages = [a # replicate 510 0], allocs = save_alloc (a, len) [new_table]\<rparr>)"
proof -
  have "locate [a] [new_pages] = Some (a, [a # replicate 510 0], [])"
    using assms unfolding locate.simps [of "[a]"] add_page_new list.case locate.simps [of "[]"]
    by (simp add: first_page_zeros) (simp add: new_pages_def first_page_zeros)
  moreover have "check_ptr (concat [new_table]) len align a 0 [a # replicate 510 0] []
      = Some (a, [a # replicate 510 0], [])"
  proof -
    have "align_up align (if 0 < a then a else 0) = a"
      using assms by (simp add: align_up_def word_neq_0_conv)
    moreover have "span_ok (concat [a # replicate 510 0]) (a + len) a = Some True"
    proof -
      have "span_ok (concat [a # replicate 510 0]) (a + len) (a + 0x200000) = Some True"
        using assms(7) by (subst span_ok.simps) (simp only: linorder_not_less [symmetric] if_False)
      then show ?thesis by (subst span_ok.simps) simp
    qed
    ultimately show ?thesis
      using assms unfolding concat_new_table
      by (subst check_ptr.simps) (simp add: first_overlap_empty)
  qed
  ultimately show ?thesis
    using assms by (simp add: heap_alloc_def heap_empty_def)
qed


text \<open>The mask of the search keeps everything but the page offset.\<close>

lemma page_mask:
  assumes "(p :: u64) < 2 ^ 60"
  shows "p AND 0xFFFFFFFFFFFF000 = p AND NOT (mask 12)"
proof -
  have "(0xFFFFFFFFFFFF000 :: u64) = mask 60 AND NOT (mask 12)"
    by (simp add: mask_eq_exp_minus_1)
  then have "p AND 0xFFFFFFFFFFFF000 = (p AND mask 60) AND NOT (mask 12)"
    by (simp only: and.assoc)
  moreover have "p AND mask 60 = p"
  proof -
    have "unat (take_bit 60 p) = take_bit 60 (unat p)" by (simp only: unsigned_take_bit_eq)
    also have "\<dots> = unat p" using assms by (intro take_bit_nat_eq_self) (simp add: word_less_nat_alt)
    finally show ?thesis by (simp only: take_bit_eq_mask [symmetric] word_unat_eq_iff)
  qed
  ultimately show ?thesis by simp
qed

lemma unat_page_mask:
  assumes "(p :: u64) < 2 ^ 60"
  shows "unat (p AND 0xFFFFFFFFFFFF000) + unat p mod 4096 = unat p"
proof -
  have m: "unat (p AND mask 12) = unat p mod 4096"
    by (simp only: take_bit_eq_mask [symmetric] unsigned_take_bit_eq) (simp add: take_bit_eq_mod)
  have le: "unat p mod 4096 \<le> unat p" by simp
  have "p AND NOT (mask 12) = p - (p AND mask 12)"
    using and_not_plus_and [of p "mask 12"] by (simp add: algebra_simps)
  then have "unat (p AND NOT (mask 12)) = unat p - unat p mod 4096"
    using unat_diff_u64 [of "p AND mask 12" p] m le by (simp add: word_le_nat_alt)
  then show ?thesis using page_mask [OF assms] le by simp
qed

text \<open>
  Every pointer Heap::alloc returns lies in the first 4 KiB of one of the heap's 2 MiB pages:
  the code masks the candidate to 4 KiB before it looks the page up.
\<close>

theorem heap_alloc_first_4k:
  assumes run: "heap_alloc len align avail h = Some (ptr, h')" and "len \<noteq> 0"
    and small: "ptr < 2 ^ 60" "len < 2 ^ 60"
  shows "\<exists>page \<in> set (concat (heap_pages h')). page \<le> ptr \<and> unat ptr < unat page + 4096"
proof (intro bexI conjI)
  let ?pg = "ptr AND 0xFFFFFFFFFFFF000"
  have eq: "unat ?pg + unat ptr mod 4096 = unat ptr" by (rule unat_page_mask [OF small(1)])
  show le: "?pg \<le> ptr" using eq by (simp add: word_le_nat_alt)
  show "unat ptr < unat ?pg + 4096" using eq by (metis add_less_cancel_left mod_less_divisor zero_less_numeral)
  have "unat (ptr + len) = unat ptr + unat len"
    using small by (simp add: unat_word_ariths word_less_nat_alt)
  then have "ptr < ptr + len"
    using \<open>len \<noteq> 0\<close> by (simp add: word_less_nat_alt unat_gt_0)
  with le have "?pg < ptr + len" by simp
  moreover obtain tables rest where "fitting tables len align (ptr, heap_pages h', rest)"
    using heap_alloc_cases [OF run \<open>len \<noteq> 0\<close>] check_ptr_result by metis
  ultimately show "?pg \<in> set (concat (heap_pages h'))"
    using span_ok_start [of "concat (heap_pages h')" "ptr + len" ?pg] unfolding fitting_def fst_conv snd_conv by blast
qed

theorem heap_alloc_first_4k_witness:
  "\<exists>page \<in> set [0x400000 :: u64]. page \<le> 0x400000 \<and> (0x400000 :: nat) < unat page + 4096"
proof -
  have "heap_alloc 24 16 [0x400000] heap_empty
    = Some (0x400000, \<lparr>heap_pages = [0x400000 # replicate 510 0], allocs = save_alloc (0x400000, 24) [new_table]\<rparr>)"
    by (rule fresh_alloc) simp_all
  from heap_alloc_first_4k [OF this] show ?thesis by simp
qed

section \<open>Freeing\<close>

lemma free_slot_Some:
  "free_slot a t = Some t' \<Longrightarrow> \<exists>xs y ys. t = xs @ y # ys \<and> fst y = a \<and> t' = xs @ (0, 0) # ys"
proof (induction t arbitrary: t')
  case (Cons e es)
  show ?case
  proof (cases "fst e = a")
    case True
    then show ?thesis using Cons.prems by (intro exI [of _ "[]"]) auto
  next
    case False
    then obtain es' where "free_slot a es = Some es'" "t' = e # es'" using Cons.prems by auto
    with Cons.IH obtain xs y ys where "es = xs @ y # ys" "fst y = a" "es' = xs @ (0, 0) # ys" by blast
    with \<open>t' = e # es'\<close> show ?thesis by (intro exI [of _ "e # xs"]) auto
  qed
qed simp

lemma free_slot_None: "free_slot a t = None \<Longrightarrow> a \<notin> fst ` set t"
  by (induction t) (auto split: if_splits)

lemma free_tables_cases:
  "(\<exists>xs y ys. concat ts = xs @ y # ys \<and> fst y = a \<and> concat (free_tables a ts) = xs @ (0, 0) # ys)
   \<or> (a \<notin> fst ` set (concat ts) \<and> free_tables a ts = ts)"
proof (induction ts)
  case (Cons t ts)
  show ?case
  proof (cases "free_slot a t")
    case None
    then have no: "a \<notin> fst ` set t" by (rule free_slot_None)
    from Cons.IH show ?thesis
    proof
      assume "\<exists>xs y ys. concat ts = xs @ y # ys \<and> fst y = a \<and> concat (free_tables a ts) = xs @ (0, 0) # ys"
      then obtain xs y ys where "concat ts = xs @ y # ys" "fst y = a" "concat (free_tables a ts) = xs @ (0, 0) # ys"
        by blast
      with None show ?thesis by (intro disjI1 exI [of _ "t @ xs"]) auto
    next
      assume "a \<notin> fst ` set (concat ts) \<and> free_tables a ts = ts"
      with None no show ?thesis by (intro disjI2) auto
    qed
  next
    case (Some t')
    from free_slot_Some [OF this] obtain xs y ys where "t = xs @ y # ys" "fst y = a" "t' = xs @ (0, 0) # ys"
      by blast
    with Some show ?thesis by (intro disjI1 exI [of _ xs] exI [of _ y] exI [of _ "ys @ concat ts"]) simp
  qed
qed simp

text \<open>
  Heap::free of an address that was handed out once removes exactly that allocation; an
  unknown address changes no allocation.
\<close>

theorem heap_free_removes:
  assumes "a \<noteq> 0" and "allocs h \<noteq> []"
    and one: "size (filter_mset (\<lambda>e. fst e = a) (live h)) \<le> 1"
  shows "\<exists>h'. heap_free a h = Some h' \<and> live h' = filter_mset (\<lambda>e. fst e \<noteq> a) (live h)"
proof -
  let ?h = "h\<lparr>allocs := free_tables a (allocs h)\<rparr>"
  have "heap_free a h = Some ?h" using assms by (simp add: heap_free_def)
  moreover have "live ?h = filter_mset (\<lambda>e. fst e \<noteq> a) (live h)"
    using free_tables_cases [of "allocs h" a]
  proof
    assume "\<exists>xs y ys. concat (allocs h) = xs @ y # ys \<and> fst y = a
      \<and> concat (free_tables a (allocs h)) = xs @ (0, 0) # ys"
    then obtain xs y ys where eq: "concat (allocs h) = xs @ y # ys" "fst y = a"
      "concat (free_tables a (allocs h)) = xs @ (0, 0) # ys" by blast
    let ?f = "\<lambda>zs :: (u64 \<times> u64) list. filter_mset (\<lambda>e. fst e \<noteq> 0) (mset zs)"
    have "size (filter_mset (\<lambda>e. fst e = a) (?f (xs @ ys))) = 0"
      using one eq \<open>a \<noteq> 0\<close> by (simp add: live_def)
    then have "filter_mset (\<lambda>e. fst e \<noteq> a) (?f (xs @ ys)) = ?f (xs @ ys)"
      unfolding size_eq_0_iff_empty filter_mset_eq_conv by (auto simp: filter_mset_eq_conv)
    with eq \<open>a \<noteq> 0\<close> show ?thesis by (simp add: live_def)
  next
    assume "a \<notin> fst ` set (concat (allocs h)) \<and> free_tables a (allocs h) = allocs h"
    then show ?thesis
      by (auto simp: live_def filter_filter_mset intro!: filter_mset_cong)
  qed
  ultimately show ?thesis by blast
qed

theorem heap_free_removes_witness:
  "\<exists>h'. heap_free 0x400000 \<lparr>heap_pages = [], allocs = [[(0x400000, 24), (0x400020, 8)]]\<rparr> = Some h'
    \<and> live h' = {#(0x400020, 8)#}"
  using heap_free_removes [where a = "0x400000"
      and h = "\<lparr>heap_pages = [], allocs = [[(0x400000, 24), (0x400020, 8)]]\<rparr>"]
  by (simp add: live_def)

end
