(* ===== verification/Process.thy ===== *)
theory Process
  imports Memop Pagetable
begin

text \<open>
  \<^verbatim>\<open>src/process/process.cpp\<close>: the address space of a user process. Its page tables live in the same
  table memory as the kernel's (\<open>cells\<close> of the page allocator); \<open>kmem\<close> holds the bytes of the pages
  that are not tables. Pages come from \<^verbatim>\<open>Pagetable::alloc\<close> as \<open>Pagetable\<close> models it, so building
  tables carries the allocator's fuel.
\<close>

section \<open>State\<close>

record space =
  pts :: ptstate
  kmem :: mem
  kcr3 :: u64
  utable :: u64
  iomap :: "u64 list"
  aslrCode :: u64
  aslrStack :: u64
  uentry :: u64

datatype section_type = SectionTypeCode | SectionTypeData | SectionTypeROData | SectionTypeBSS | SectionTypeStack

text \<open>\<^verbatim>\<open>Pagetable::alloc(1, DATA_RW)\<close> and \<^verbatim>\<open>Pagetable::halloc(1, DATA_RW)\<close>: both zero 4 KiB.\<close>

definition took_page :: "u64 \<times> ptstate \<Rightarrow> space \<Rightarrow> u64 \<times> space" where
  "took_page r s =
     (fst r, s\<lparr>pts := snd r, kmem := if fst r = 0 then kmem s else filled 0x1000 0 (fst r) (kmem s)\<rparr>)"

definition u_alloc :: "nat \<Rightarrow> space \<Rightarrow> (u64 \<times> space) option" where
  "u_alloc fuel s = do {
     r \<leftarrow> pt_alloc fuel 1 DATA_RW (kcr3 s) (pts s);
     Some (took_page r s)
   }"

definition u_halloc :: "nat \<Rightarrow> space \<Rightarrow> (u64 \<times> space) option" where
  "u_halloc fuel s = do {
     r \<leftarrow> pt_halloc fuel 1 DATA_RW (kcr3 s) (pts s);
     Some (took_page r s)
   }"

definition ucell :: "space \<Rightarrow> u64 \<Rightarrow> pte" where
  "ucell s a = cells (pts s) a"

definition set_ucell :: "u64 \<Rightarrow> pte \<Rightarrow> space \<Rightarrow> space" where
  "set_ucell a e s = s\<lparr>pts := set_cell a e (pts s)\<rparr>"

section \<open>Building the tables\<close>

text \<open>
  \<open>user_table\<close> is the code's \<^verbatim>\<open>if (!entry.present) { entry = PTE(alloc, USER_TABLE); addPage(...) }\<close>:
  a new table is itself mapped into the process.
\<close>

fun user_table :: "nat \<Rightarrow> u64 \<Rightarrow> space \<Rightarrow> space option"
  and addPage :: "nat \<Rightarrow> u64 \<Rightarrow> u64 \<Rightarrow> u8 \<Rightarrow> space \<Rightarrow> (u64 \<times> space) option" where
  "user_table 0 a s = None"
| "user_table (Suc n) a s =
     (if present (ucell s a) then Some s
      else do {
        (page, s) \<leftarrow> u_alloc n s;
        let s = set_ucell a (Entry page 0 USER_TABLE) s;
        (_, s) \<leftarrow> addPage n (getUintPtr (ucell s a)) (getUintPtr (ucell s a)) USER_TABLE s;
        Some s
      })"
| "addPage 0 vaddr paddr type s = None"
| "addPage (Suc n) vaddr paddr type s = do {
     s \<leftarrow> (if utable s = 0 then do {
             (page, s) \<leftarrow> u_alloc n s;
             (_, s) \<leftarrow> addPage n page page USER_TABLE (s\<lparr>utable := page\<rparr>);
             Some s
           } else Some s);
     let pte = slot (utable s) (table_index 39 vaddr);
     s \<leftarrow> user_table n pte s;
     let pde = slot (getUintPtr (ucell s pte)) (table_index 30 vaddr);
     s \<leftarrow> user_table n pde s;
     let pdpe = slot (getUintPtr (ucell s pde)) (table_index 21 vaddr);
     s \<leftarrow> user_table n pdpe s;
     let pml4e = slot (getUintPtr (ucell s pdpe)) (table_index 12 vaddr);
     Some (pml4e, set_ucell pml4e (Entry paddr 0 type) s)
   }"

fun addHPage :: "nat \<Rightarrow> u64 \<Rightarrow> u64 \<Rightarrow> u8 \<Rightarrow> space \<Rightarrow> (u64 \<times> space) option" where
  "addHPage n vaddr paddr type s = do {
     s \<leftarrow> (if utable s = 0 then do {
             (page, s) \<leftarrow> u_alloc n s;
             (_, s) \<leftarrow> addPage n page page USER_TABLE (s\<lparr>utable := page\<rparr>);
             Some s
           } else Some s);
     let pte = slot (utable s) (table_index 39 vaddr);
     s \<leftarrow> user_table n pte s;
     let pde = slot (getUintPtr (ucell s pte)) (table_index 30 vaddr);
     s \<leftarrow> user_table n pde s;
     let pdpe = slot (getUintPtr (ucell s pde)) (table_index 21 vaddr);
     Some (pdpe, set_ucell pdpe (Entry paddr 0 type OR 0x80) s)
   }"

section \<open>Translation\<close>

text \<open>The null pointer is 0.\<close>

definition getPhysicalAddress :: "space \<Rightarrow> u64 \<Rightarrow> u64" where
  "getPhysicalAddress s ptr =
     (if utable s = 0 then 0
      else case find_entry (cells (pts s)) ptr (utable s) of
        None \<Rightarrow> 0
      | Some a \<Rightarrow>
          if \<not> present (ucell s a) then 0
          else getUintPtr (ucell s a) + (ptr AND (if hugesize (ucell s a) then 0x1FFFFF else 0xFFF)))"

section \<open>Sections\<close>

text \<open>
  The search for a free range: \<open>vaddr\<close> is the candidate and \<open>caddr\<close> the address the loop is at. It is
  \<open>vaddr\<close> that is tested.
\<close>

partial_function (option) section_search :: "space \<Rightarrow> u64 \<Rightarrow> u64 \<Rightarrow> u64 \<Rightarrow> u64 option" where
  "section_search s len vaddr caddr =
     (if caddr < vaddr + len then
        (if getPhysicalAddress s vaddr \<noteq> 0
         then section_search s len (vaddr + 0x1000) (vaddr + 0x1000)
         else section_search s len vaddr (caddr + 0x1000))
      else Some vaddr)"

fun page_type :: "section_type \<Rightarrow> u8" where
  "page_type SectionTypeCode = USER_CODE_RX"
| "page_type SectionTypeROData = USER_DATA_RO"
| "page_type SectionTypeData = USER_DATA_RW"
| "page_type SectionTypeBSS = USER_DATA_RW"
| "page_type SectionTypeStack = USER_DATA_RW"

function section_pages :: "nat \<Rightarrow> section_type \<Rightarrow> nat \<Rightarrow> u64 \<Rightarrow> space \<Rightarrow> space option" where
  "section_pages fuel type pages vaddr s =
     (if pages = 0 then Some s
      else if vaddr AND 0x1FFFFF = 0 \<and> 0x200 \<le> pages then do {
        (page, s) \<leftarrow> u_halloc fuel s;
        (_, s) \<leftarrow> addHPage fuel vaddr page (page_type type) s;
        section_pages fuel type (pages - 0x200) (vaddr + 0x200000) s
      } else do {
        (page, s) \<leftarrow> u_alloc fuel s;
        (_, s) \<leftarrow> addPage fuel vaddr page (page_type type) s;
        section_pages fuel type (pages - 1) (vaddr + 0x1000) s
      })"
  by pat_completeness auto
termination by (relation "measure (\<lambda>(fuel, type, pages, vaddr, s). pages)") auto

declare section_pages.simps [simp del]

definition addSection :: "nat \<Rightarrow> u64 \<Rightarrow> section_type \<Rightarrow> u64 \<Rightarrow> space \<Rightarrow> (u64 \<times> space) option" where
  "addSection fuel offset type len s =
     (if len = 0 then Some (0, s)
      else do {
        let vaddr = (if type \<noteq> SectionTypeStack then aslrCode s + offset else aslrStack s);
        vaddr \<leftarrow> section_search s len vaddr vaddr;
        s \<leftarrow> section_pages fuel type (unat (drop_bit 12 len + 1)) vaddr s;
        Some (vaddr, s)
      })"

definition setEntryAddress :: "u64 \<Rightarrow> space \<Rightarrow> space" where
  "setEntryAddress ptr s = s\<lparr>uentry := ptr\<rparr>"

section \<open>Reading and writing user memory\<close>

text \<open>The bytes of the current page from a physical address on.\<close>

definition page_limit :: "u64 \<Rightarrow> nat" where
  "page_limit p = 0x1000 - unat (p AND 0xFFF)"

lemma page_limit_pos [simp]: "0 < page_limit p"
  by (simp add: page_limit_def unat_and_fff)

text \<open>The operations on kernel memory: \<open>src\<close> and \<open>dst\<close> are kernel addresses, bytes move with \<open>copy\<close>.\<close>

function writeData :: "space \<Rightarrow> u64 \<Rightarrow> u64 \<Rightarrow> nat \<Rightarrow> machine \<Rightarrow> machine" where
  "writeData s address ptr len \<sigma> =
     (if len = 0 then \<sigma>
      else let dest = getPhysicalAddress s address;
               limit = min (page_limit dest) len
           in writeData s (address + of_nat limit) (ptr + of_nat limit) (len - limit)
                (copy dest ptr (of_nat limit) \<sigma>))"
  by pat_completeness auto
termination by (relation "measure (\<lambda>(s, address, ptr, len, \<sigma>). len)") auto

function readData :: "space \<Rightarrow> u64 \<Rightarrow> u64 \<Rightarrow> nat \<Rightarrow> machine \<Rightarrow> bool \<times> machine" where
  "readData s ptr address len \<sigma> =
     (if len = 0 then (True, \<sigma>)
      else let src = getPhysicalAddress s address
           in if src = 0 then (False, \<sigma>)
           else let limit = min (page_limit src) len
           in readData s (ptr + of_nat limit) (address + of_nat limit) (len - limit)
                (copy ptr src (of_nat limit) \<sigma>))"
  by pat_completeness auto
termination by (relation "measure (\<lambda>(s, ptr, address, len, \<sigma>). len)") auto

text \<open>
  The same loops for the structures on the kernel stack that the callers read into and write from:
  the structure is its list of bytes.
\<close>

definition chunk_bytes :: "u64 \<Rightarrow> nat \<Rightarrow> mem \<Rightarrow> u8 list" where
  "chunk_bytes p n m = map (\<lambda>i. m (p + of_nat i)) [0..<n]"

function read_local :: "space \<Rightarrow> u64 \<Rightarrow> nat \<Rightarrow> u8 list option" where
  "read_local s address len =
     (if len = 0 then Some []
      else let src = getPhysicalAddress s address
           in if src = 0 then None
           else let limit = min (page_limit src) len
           in map_option (\<lambda>bs. chunk_bytes src limit (kmem s) @ bs)
                (read_local s (address + of_nat limit) (len - limit)))"
  by pat_completeness auto
termination by (relation "measure (\<lambda>(s, address, len). len)") auto

definition put_chunk :: "u64 \<Rightarrow> u8 list \<Rightarrow> mem \<Rightarrow> mem" where
  "put_chunk p bs m = (\<lambda>a. if in_range p (length bs) a then bs ! unat (a - p) else m a)"

function write_local :: "u64 \<Rightarrow> u8 list \<Rightarrow> space \<Rightarrow> space" where
  "write_local address bs s =
     (if bs = [] then s
      else let dest = getPhysicalAddress s address;
               limit = min (page_limit dest) (length bs)
           in write_local (address + of_nat limit) (drop limit bs)
                (s\<lparr>kmem := put_chunk dest (take limit bs) (kmem s)\<rparr>))"
  by pat_completeness auto
termination by (relation "measure (\<lambda>(address, bs, s). length bs)") auto

declare writeData.simps [simp del] readData.simps [simp del] read_local.simps [simp del]
  write_local.simps [simp del]

text \<open>
  \<^verbatim>\<open>readString\<close>: the loop that measures the string. At the end of a page \<open>src\<close> becomes the physical
  address of the next character, but the loop goes on indexing it with the whole length.
\<close>

partial_function (option) string_length :: "space \<Rightarrow> u64 \<Rightarrow> u64 \<Rightarrow> u64 \<Rightarrow> u64 \<Rightarrow> u64 option" where
  "string_length s address src len limit =
     (if limit = 0 \<or> kmem s (src + len) = 0 then Some len
      else if limit - 1 = 0
      then string_length s address (getPhysicalAddress s (address + (len + 1))) (len + 1) 0x1000
      else string_length s address src (len + 1) (limit - 1))"

text \<open>\<open>Some None\<close> is the null result.\<close>

definition readString :: "space \<Rightarrow> u64 \<Rightarrow> u8 list option option" where
  "readString s address =
     (let src = getPhysicalAddress s address
      in if src = 0 then Some None
      else do {
        len \<leftarrow> string_length s address src 0 (of_nat (page_limit src));
        if len = 0 then Some None else Some (read_local s address (unat (len + 1)))
      })"

section \<open>Port permissions\<close>

text \<open>One iteration: the bitmap page of the port, allocated and filled on first use.\<close>

definition allow_port :: "nat \<Rightarrow> u16 \<Rightarrow> space \<Rightarrow> space option" where
  "allow_port fuel port s = do {
     let sp = unat port div 8 div 0x1000;
     let byte = of_nat ((unat port div 8) mod 0x1000);
     s \<leftarrow> (if iomap s ! sp = 0 then do {
             (page, s) \<leftarrow> u_alloc fuel s;
             Some (s\<lparr>iomap := (iomap s)[sp := page], kmem := filled 0x1000 0xFF page (kmem s)\<rparr>)
           } else Some s);
     let a = iomap s ! sp + byte;
     Some (s\<lparr>kmem := (kmem s)(a := kmem s a AND NOT (push_bit (unat port mod 8) 1))\<rparr>)
   }"

text \<open>The counter has 16 bits, the comparison is one of \<^verbatim>\<open>int\<close>.\<close>

partial_function (option) ports_loop :: "nat \<Rightarrow> u16 \<Rightarrow> u16 \<Rightarrow> u16 \<Rightarrow> space \<Rightarrow> space option" where
  "ports_loop fuel lo hi i s =
     (if int (unat i) \<le> int (unat hi) - int (unat lo)
      then do {
        s \<leftarrow> allow_port fuel (lo + i) s;
        ports_loop fuel lo hi (i + 1) s
      } else Some s)"

definition allowIOPorts :: "nat \<Rightarrow> u16 \<Rightarrow> u16 \<Rightarrow> space \<Rightarrow> space option" where
  "allowIOPorts fuel lo hi s = ports_loop fuel lo hi 0 s"

section \<open>Deleting a process\<close>

text \<open>
  The destructor without the deletion of the threads, which \<open>Scheduler\<close> models: the pages behind the
  present entries are released, identity-mapped pages and the port maps excepted, then the tables.
\<close>

definition released :: "u64 \<Rightarrow> space \<Rightarrow> space" where
  "released page s = s\<lparr>pts := pt_free page (kcr3 s) (pts s)\<rparr>"

definition drop_page :: "u64 \<Rightarrow> u64 \<Rightarrow> nat \<Rightarrow> space \<Rightarrow> space" where
  "drop_page base ppml4e x4 s =
     (let a = slot ppml4e (of_nat x4); addr = ucell s a
      in if \<not> present addr then s
      else let s = set_ucell a (addr AND NOT 1) s;
               page = getUintPtr addr;
               ptaddr = base OR push_bit 12 (of_nat x4)
           in if page = iomap s ! 0 \<or> page = iomap s ! 1 \<or> page = ptaddr then s else released page s)"

definition drop_pdpe :: "u64 \<Rightarrow> u64 \<Rightarrow> nat \<Rightarrow> space \<Rightarrow> space" where
  "drop_pdpe base pppde x3 s =
     (let a = slot pppde (of_nat x3); addr = ucell s a
      in if \<not> present addr then s
      else let s = set_ucell a (addr AND NOT 1) s;
               ptaddr = base OR push_bit 21 (of_nat x3)
           in if \<not> hugesize addr
              then released (getUintPtr addr) (fold (drop_page ptaddr (getUintPtr addr)) [0..<512] s)
              else if getUintPtr addr = ptaddr then s else released (getUintPtr addr) s)"

definition drop_pde :: "u64 \<Rightarrow> u64 \<Rightarrow> nat \<Rightarrow> space \<Rightarrow> space" where
  "drop_pde base ppde x2 s =
     (let a = slot ppde (of_nat x2); addr = ucell s a
      in if \<not> present addr then s
      else let s = set_ucell a (addr AND NOT 1) s
           in released (getUintPtr addr)
                (fold (drop_pdpe (base OR push_bit 30 (of_nat x2)) (getUintPtr addr)) [0..<512] s))"

definition drop_pte :: "nat \<Rightarrow> space \<Rightarrow> space" where
  "drop_pte x1 s =
     (let a = slot (utable s) (of_nat x1); addr = ucell s a
      in if \<not> present addr then s
      else let s = set_ucell a (addr AND NOT 1) s
           in released (getUintPtr addr)
                (fold (drop_pde (push_bit 39 (of_nat x1)) (getUintPtr addr)) [0..<512] s))"

definition delete_space :: "space \<Rightarrow> space" where
  "delete_space s =
     (let s = (if iomap s ! 0 \<noteq> 0 then released (iomap s ! 0) s else s);
          s = (if iomap s ! 1 \<noteq> 0 then released (iomap s ! 1) s else s)
      in if utable s = 0 then s
      else released (utable s) (fold drop_pte [0..<512] s))"

section \<open>Translation is linear within a page\<close>

lemma unat_in_page:
  fixes a :: u64
  assumes "unat a mod 4096 + k < 4096"
  shows "unat (a + of_nat k) = unat a + k"
proof -
  have "unat a div 4096 < 4503599627370496"
    using unat_lt_2p64 [of a] by (intro less_mult_imp_div_less) simp
  then have "unat a div 4096 * 4096 + 4096 \<le> 18446744073709551616" by simp
  moreover have "unat a = unat a div 4096 * 4096 + unat a mod 4096" by simp
  ultimately have "unat a + k < 18446744073709551616" using assms by linarith
  then show ?thesis by (subst unat_add_u64) (simp_all add: unat_of_nat_u64)
qed

lemma drop_bit_in_page:
  fixes a :: u64
  assumes "unat a mod 4096 + k < 4096" and "12 \<le> j"
  shows "drop_bit j (a + of_nat k) = drop_bit j a"
proof -
  have q: "(unat a + k) div 4096 = unat a div 4096"
    using assms(1) by (simp add: div_add1_eq [of "unat a" k])
  obtain i where j: "j = 12 + i" using assms(2) le_Suc_ex by blast
  have d: "n div 2 ^ j = n div 4096 div 2 ^ i" for n :: nat
    by (simp add: j power_add div_mult2_eq)
  have u: "unat (drop_bit j x) = unat x div 2 ^ j" for x :: u64
    using take_bit_nat_eq_self [of "unat x" 64]
    by (simp only: unsigned_drop_bit_eq drop_bit_eq_div [of j "_ :: nat"]) simp
  have "unat (drop_bit j (a + of_nat k)) = unat (drop_bit j a)"
    by (simp only: u unat_in_page [OF assms(1)] d q)
  then show ?thesis by (simp only: word_unat_eq_iff)
qed

lemma find_entry_in_page:
  assumes "unat a mod 4096 + k < 4096"
  shows "find_entry c (a + of_nat k) pt = find_entry c a pt"
proof -
  have "table_index j (a + of_nat k) = table_index j a" if "12 \<le> j" for j
    using drop_bit_in_page [OF assms that] by (simp add: table_index_def)
  then show ?thesis by (simp add: find_entry_def Let_def)
qed

lemma offset_in_page:
  fixes a :: u64
  assumes "unat a mod 4096 + k < 4096"
  shows "(a + of_nat k) AND 0xFFF = (a AND 0xFFF) + of_nat k"
    and "(a + of_nat k) AND 0x1FFFFF = (a AND 0x1FFFFF) + of_nat k"
proof -
  have k: "k < 4096" using assms by linarith
  have "(unat a + k) mod 4096 = unat a mod 4096 + k"
    using assms by (metis mod_add_left_eq mod_less)
  then show "(a + of_nat k) AND 0xFFF = (a AND 0xFFF) + of_nat k"
    using k by (simp add: word_unat_eq_iff unat_and_fff unat_in_page [OF assms] unat_add_u64 unat_of_nat_u64)
  have m: "unat a mod 2097152 mod 4096 = unat a mod 4096" by (simp add: mod_mod_cancel)
  have "unat a mod 2097152 div 4096 < 512" by (rule less_mult_imp_div_less) simp
  moreover have "unat a mod 2097152 = unat a mod 2097152 div 4096 * 4096 + unat a mod 4096"
    using m by (metis div_mult_mod_eq)
  ultimately have "unat a mod 2097152 + k < 2097152" using assms by linarith
  moreover from this have "(unat a + k) mod 2097152 = unat a mod 2097152 + k"
    by (metis mod_add_left_eq mod_less)
  ultimately show "(a + of_nat k) AND 0x1FFFFF = (a AND 0x1FFFFF) + of_nat k"
    using k by (simp add: word_unat_eq_iff unat_and_1fffff unat_in_page [OF assms] unat_add_u64 unat_of_nat_u64)
qed

lemma getUintPtr_aligned: "unat (getUintPtr e) mod 4096 = 0" "unat (getUintPtr e) < 2 ^ 63"
proof -
  have "getUintPtr e AND mask 12 = 0"
    by (rule bit_word_eqI) (simp add: bit_and_iff bit_mask_iff getUintPtr_bits)
  then show "unat (getUintPtr e) mod 4096 = 0" using unat_and_mask [of "getUintPtr e" 12] by simp
  have "getUintPtr e = getUintPtr e AND mask 63"
    by (rule bit_word_eqI) (auto simp: bit_and_iff bit_mask_iff getUintPtr_bits)
  then have "unat (getUintPtr e) = unat (getUintPtr e) mod 2 ^ 63" using unat_and_mask [of "getUintPtr e" 63] by simp
  then show "unat (getUintPtr e) < 2 ^ 63" by (metis mod_less_divisor zero_less_numeral zero_less_power)
qed

text \<open>A non-null translation is entry plus offset; it keeps the page offset and does not wrap.\<close>

lemma phys_cases:
  assumes "getPhysicalAddress s a \<noteq> 0"
  obtains e where "find_entry (cells (pts s)) a (utable s) = Some e" "present (ucell s e)"
    "getPhysicalAddress s a = getUintPtr (ucell s e) + (a AND (if hugesize (ucell s e) then 0x1FFFFF else 0xFFF))"
    "utable s \<noteq> 0"
  using assms by (auto simp: getPhysicalAddress_def split: if_splits option.splits)

lemma phys_offset:
  assumes "getPhysicalAddress s a \<noteq> 0"
  shows "unat (getPhysicalAddress s a) mod 4096 = unat a mod 4096"
    and "unat (getPhysicalAddress s a) < 2 ^ 63 + 2097152"
proof -
  obtain e where p: "getPhysicalAddress s a
      = getUintPtr (ucell s e) + (a AND (if hugesize (ucell s e) then 0x1FFFFF else 0xFFF))"
    using phys_cases [OF assms] by metis
  let ?b = "getUintPtr (ucell s e)" and ?o = "a AND (if hugesize (ucell s e) then 0x1FFFFF else 0xFFF)"
  have o: "unat ?o < 2097152" "unat ?o mod 4096 = unat a mod 4096"
    by (auto simp: unat_and_fff unat_and_1fffff mod_mod_cancel intro: less_trans [of _ 4096])
  then have "unat (getPhysicalAddress s a) = unat ?b + unat ?o"
    using getUintPtr_aligned(2) [of "ucell s e"] p by (simp add: unat_add_u64)
  then show "unat (getPhysicalAddress s a) mod 4096 = unat a mod 4096"
    and "unat (getPhysicalAddress s a) < 2 ^ 63 + 2097152"
    using getUintPtr_aligned [of "ucell s e"] o by (metis add_0 mod_add_left_eq, linarith)
qed

lemma page_limit_phys:
  "getPhysicalAddress s a \<noteq> 0 \<Longrightarrow> page_limit (getPhysicalAddress s a) = 4096 - unat a mod 4096"
  by (simp add: page_limit_def unat_and_fff phys_offset)

lemma phys_linear:
  assumes p: "getPhysicalAddress s a \<noteq> 0" and k: "k < page_limit (getPhysicalAddress s a)"
  shows "getPhysicalAddress s (a + of_nat k) = getPhysicalAddress s a + of_nat k"
    and "getPhysicalAddress s (a + of_nat k) \<noteq> 0"
proof -
  have pg: "unat a mod 4096 + k < 4096" using k page_limit_phys [OF p] by simp
  obtain e where e: "find_entry (cells (pts s)) a (utable s) = Some e" "present (ucell s e)" "utable s \<noteq> 0"
      "getPhysicalAddress s a = getUintPtr (ucell s e) + (a AND (if hugesize (ucell s e) then 0x1FFFFF else 0xFFF))"
    using phys_cases [OF p] by metis
  show lin: "getPhysicalAddress s (a + of_nat k) = getPhysicalAddress s a + of_nat k"
    unfolding e(4) using e(1,2,3) offset_in_page [OF pg]
    by (simp add: getPhysicalAddress_def find_entry_in_page [OF pg])
  have "unat (getPhysicalAddress s a) mod 4096 + k < 4096" using pg phys_offset(1) [OF p] by simp
  then have "unat (getPhysicalAddress s a + of_nat k) = unat (getPhysicalAddress s a) + k"
    by (rule unat_in_page)
  then have "unat (getPhysicalAddress s a + of_nat k) \<noteq> 0" using p by (simp add: unat_eq_0)
  then show "getPhysicalAddress s (a + of_nat k) \<noteq> 0" unfolding lin by auto
qed

section \<open>User memory as a flat byte array\<close>

text \<open>
  The abstract view of a process: a partial function from virtual addresses to bytes. Reading and
  writing in page-sized pieces refine reading and writing this view byte by byte.
\<close>

definition vmem :: "space \<Rightarrow> u64 \<Rightarrow> u8 option" where
  "vmem s a = (if getPhysicalAddress s a = 0 then None else Some (kmem s (getPhysicalAddress s a)))"

definition vread :: "space \<Rightarrow> u64 \<Rightarrow> nat \<Rightarrow> u8 list option" where
  "vread s a n = those (map (\<lambda>i. vmem s (a + of_nat i)) [0..<n])"

definition all_mapped :: "space \<Rightarrow> u64 \<Rightarrow> nat \<Rightarrow> bool" where
  "all_mapped s a n \<longleftrightarrow> (\<forall>i < n. getPhysicalAddress s (a + of_nat i) \<noteq> 0)"

definition frames :: "space \<Rightarrow> u64 \<Rightarrow> nat \<Rightarrow> u64 set" where
  "frames s a n = (\<lambda>i. getPhysicalAddress s (a + of_nat i)) ` {..<n}"

lemma those_map: "those (map f xs) = (if \<forall>x \<in> set xs. f x \<noteq> None then Some (map (the \<circ> f) xs) else None)"
  by (induction xs) (auto split: option.splits)

lemma vread_mapped:
  "vread s a n = (if all_mapped s a n
     then Some (map (\<lambda>i. kmem s (getPhysicalAddress s (a + of_nat i))) [0..<n]) else None)"
  by (auto simp: vread_def those_map vmem_def all_mapped_def)

lemma all_mapped_chunk:
  assumes "getPhysicalAddress s a \<noteq> 0" and "k \<le> page_limit (getPhysicalAddress s a)"
  shows "all_mapped s a (k + m) \<longleftrightarrow> all_mapped s (a + of_nat k) m"
proof
  show "all_mapped s a (k + m) \<Longrightarrow> all_mapped s (a + of_nat k) m"
    unfolding all_mapped_def by (metis add.assoc nat_add_left_cancel_less of_nat_add)
  assume r: "all_mapped s (a + of_nat k) m"
  show "all_mapped s a (k + m)"
    unfolding all_mapped_def
  proof (intro allI impI)
    fix i assume i: "i < k + m"
    show "getPhysicalAddress s (a + of_nat i) \<noteq> 0"
    proof (cases "i < k")
      case True
      then show ?thesis using phys_linear(2) [OF assms(1), of i] assms(2) by simp
    next
      case False
      then obtain j where "i = k + j" using le_Suc_ex not_less by blast
      with r i show ?thesis by (simp add: all_mapped_def add.assoc)
    qed
  qed
qed

lemma chunk_bytes_phys:
  assumes "getPhysicalAddress s a \<noteq> 0" and "k \<le> page_limit (getPhysicalAddress s a)"
  shows "chunk_bytes (getPhysicalAddress s a) k m = map (\<lambda>i. m (getPhysicalAddress s (a + of_nat i))) [0..<k]"
  using phys_linear(1) [OF assms(1)] assms(2) by (simp add: chunk_bytes_def)

lemma map_upt_shift: "map f [0..<k] @ map (\<lambda>i. f (k + i)) [0..<m] = map f [0..<k + m]"
  by (rule nth_equalityI) (auto simp: nth_append)

text \<open>The loop of \<^verbatim>\<open>readData\<close> reads the abstract view.\<close>

lemma read_local_vread: "read_local s a n = vread s a n"
  unfolding vread_mapped
proof (induction n arbitrary: a rule: less_induct)
  case (less n)
  let ?p = "getPhysicalAddress s a"
  define k where "k = min (page_limit ?p) n"
  consider "n = 0" | "n \<noteq> 0" "?p = 0" | "n \<noteq> 0" "?p \<noteq> 0" by blast
  then show ?case
  proof cases
    case 1
    then show ?thesis by (subst read_local.simps) (simp add: all_mapped_def)
  next
    case 2
    then show ?thesis by (subst read_local.simps) (auto simp: all_mapped_def intro!: exI [of _ 0])
  next
    case 3
    have k: "k \<le> n" "k \<le> page_limit ?p" "0 < k" using 3 by (auto simp: k_def)
    then have n: "n = k + (n - k)" by simp
    have "read_local s a n = map_option (\<lambda>bs. chunk_bytes ?p k (kmem s) @ bs) (read_local s (a + of_nat k) (n - k))"
      using 3 by (subst read_local.simps) (simp add: Let_def k_def)
    also have "read_local s (a + of_nat k) (n - k) = (if all_mapped s (a + of_nat k) (n - k)
        then Some (map (\<lambda>i. kmem s (getPhysicalAddress s (a + of_nat k + of_nat i))) [0..<n - k]) else None)"
      using k by (intro less.IH) simp
    also have "all_mapped s (a + of_nat k) (n - k) \<longleftrightarrow> all_mapped s a n"
      using all_mapped_chunk [OF 3(2) k(2), of "n - k"] n by simp
    finally show ?thesis
      using chunk_bytes_phys [OF 3(2) k(2), of "kmem s"]
        map_upt_shift [of "\<lambda>i. kmem s (getPhysicalAddress s (a + of_nat i))" k "n - k"] n
      by (simp add: add.assoc)
  qed
qed

section \<open>Writing\<close>

lemma phys_kmem [simp]: "getPhysicalAddress (s\<lparr>kmem := m\<rparr>) a = getPhysicalAddress s a"
  by (simp add: getPhysicalAddress_def ucell_def cong: if_cong option.case_cong)

lemma phys_image:
  assumes "getPhysicalAddress s a \<noteq> 0" and "k \<le> page_limit (getPhysicalAddress s a)" "i < k"
  shows "getPhysicalAddress s a + of_nat i = getPhysicalAddress s (a + of_nat i)"
  using phys_linear(1) [OF assms(1)] assms by simp

lemma page_limit_le: "page_limit p \<le> 4096"
  by (simp add: page_limit_def)

text \<open>One piece: the bytes land at the frames of the first addresses.\<close>

lemma put_chunk_phys:
  assumes p: "getPhysicalAddress s a \<noteq> 0" and k: "length bs \<le> page_limit (getPhysicalAddress s a)"
  shows "i < length bs \<Longrightarrow> put_chunk (getPhysicalAddress s a) bs m (getPhysicalAddress s (a + of_nat i)) = bs ! i"
    and "x \<notin> frames s a (length bs) \<Longrightarrow> put_chunk (getPhysicalAddress s a) bs m x = m x"
proof -
  have "unat (of_nat i :: u64) = i" if "i < length bs" for i
    using that k page_limit_le [of "getPhysicalAddress s a"] by (simp add: unat_of_nat_u64)
  then show "i < length bs \<Longrightarrow> put_chunk (getPhysicalAddress s a) bs m (getPhysicalAddress s (a + of_nat i)) = bs ! i"
    using phys_linear(1) [OF p, of i] k by (simp add: put_chunk_def in_range_def)
  assume x: "x \<notin> frames s a (length bs)"
  have "\<not> in_range (getPhysicalAddress s a) (length bs) x"
  proof
    assume r: "in_range (getPhysicalAddress s a) (length bs) x"
    let ?i = "unat (x - getPhysicalAddress s a)"
    have i: "?i < length bs" using r by (simp add: in_range_def)
    have "x = getPhysicalAddress s a + of_nat ?i" by simp
    also have "\<dots> = getPhysicalAddress s (a + of_nat ?i)" using phys_linear(1) [OF p, of ?i] i k by simp
    finally have "x \<in> frames s a (length bs)" unfolding frames_def using i by (intro image_eqI [of _ _ ?i]) auto
    with x show False ..
  qed
  then show "put_chunk (getPhysicalAddress s a) bs m x = m x" by (simp add: put_chunk_def)
qed

definition one_frame_each :: "space \<Rightarrow> u64 \<Rightarrow> nat \<Rightarrow> bool" where
  "one_frame_each s a n \<longleftrightarrow> inj_on (\<lambda>i. getPhysicalAddress s (a + of_nat i)) {..<n}"

lemma one_frame_each_tail:
  assumes "one_frame_each s a (k + m)"
  shows "one_frame_each s (a + of_nat k) m"
proof (unfold one_frame_each_def, rule inj_onI)
  fix i j assume "i \<in> {..<m}" "j \<in> {..<m}"
    and "getPhysicalAddress s (a + of_nat k + of_nat i) = getPhysicalAddress s (a + of_nat k + of_nat j)"
  then have "k + i = k + j"
    using inj_onD [OF assms [unfolded one_frame_each_def], of "k + i" "k + j"] by (simp add: add.assoc)
  then show "i = j" by simp
qed

lemma frames_tail: "frames s (a + of_nat k) m \<subseteq> frames s a (k + m)"
proof
  fix x assume "x \<in> frames s (a + of_nat k) m"
  then obtain i where "i < m" "x = getPhysicalAddress s (a + of_nat (k + i))"
    by (auto simp: frames_def add.assoc)
  then show "x \<in> frames s a (k + m)" unfolding frames_def by (intro image_eqI [of _ _ "k + i"]) auto
qed

lemma write_local_step:
  fixes s :: space and a :: u64
  assumes "bs \<noteq> []"
  defines "k \<equiv> min (page_limit (getPhysicalAddress s a)) (length bs)"
  shows "write_local a bs s = write_local (a + of_nat k) (drop k bs)
      (s\<lparr>kmem := put_chunk (getPhysicalAddress s a) (take k bs) (kmem s)\<rparr>)"
  using assms by (subst write_local.simps) (simp add: Let_def)

lemma write_local_correct:
  assumes "all_mapped s a (length bs)" and "one_frame_each s a (length bs)"
  shows "\<exists>m. write_local a bs s = s\<lparr>kmem := m\<rparr>
    \<and> (\<forall>i < length bs. m (getPhysicalAddress s (a + of_nat i)) = bs ! i)
    \<and> (\<forall>x. x \<notin> frames s a (length bs) \<longrightarrow> m x = kmem s x)"
  using assms
proof (induction bs arbitrary: a s rule: length_induct)
  case (1 bs)
  let ?p = "getPhysicalAddress s a"
  show ?case
  proof (cases "bs = []")
    case True
    then show ?thesis by (subst write_local.simps) (auto intro!: exI [of _ "kmem s"])
  next
    case False
    define k where "k = min (page_limit ?p) (length bs)"
    have k: "k \<le> length bs" "k \<le> page_limit ?p" "0 < k" using False by (auto simp: k_def)
    have p: "?p \<noteq> 0" using 1(2) False by (auto simp: all_mapped_def dest!: spec [of _ 0])
    define s1 where "s1 = s\<lparr>kmem := put_chunk ?p (take k bs) (kmem s)\<rparr>"
    have len: "length (take k bs) = k" and all: "k + length (drop k bs) = length bs" using k by simp_all
    have run: "write_local a bs s = write_local (a + of_nat k) (drop k bs) s1"
      unfolding s1_def k_def by (rule write_local_step [OF False])
    have "all_mapped s (a + of_nat k) (length (drop k bs))"
      using 1(2) all_mapped_chunk [OF p k(2), of "length (drop k bs)"] unfolding all by blast
    then have mapped': "all_mapped s1 (a + of_nat k) (length (drop k bs))"
      by (simp add: all_mapped_def s1_def)
    have "one_frame_each s (a + of_nat k) (length (drop k bs))"
      using one_frame_each_tail [of s a k "length (drop k bs)"] 1(3) unfolding all by blast
    then have "one_frame_each s1 (a + of_nat k) (length (drop k bs))"
      by (simp add: one_frame_each_def s1_def)
    moreover have "length (drop k bs) < length bs" using k by simp
    ultimately obtain m where m: "write_local (a + of_nat k) (drop k bs) s1 = s1\<lparr>kmem := m\<rparr>"
      "\<forall>i < length (drop k bs). m (getPhysicalAddress s1 (a + of_nat k + of_nat i)) = drop k bs ! i"
      "\<forall>x. x \<notin> frames s1 (a + of_nat k) (length (drop k bs)) \<longrightarrow> m x = kmem s1 x"
      using 1(1) mapped' by blast
    have fr: "frames s1 = frames s" by (simp add: frames_def s1_def fun_eq_iff)
    have low: "m (getPhysicalAddress s (a + of_nat i)) = bs ! i" if "i < k" for i
    proof -
      have "getPhysicalAddress s (a + of_nat i) \<notin> frames s (a + of_nat k) (length (drop k bs))"
      proof
        assume "getPhysicalAddress s (a + of_nat i) \<in> frames s (a + of_nat k) (length (drop k bs))"
        then obtain j where "j < length (drop k bs)"
          and eq: "getPhysicalAddress s (a + of_nat i) = getPhysicalAddress s (a + of_nat (k + j))"
          by (auto simp: frames_def add.assoc)
        then have "i \<in> {..<length bs}" "k + j \<in> {..<length bs}" using that all k(1) by auto
        then have "i = k + j"
          using inj_onD [OF 1(3) [unfolded one_frame_each_def] eq] by blast
        with that show False by simp
      qed
      then have "m (getPhysicalAddress s (a + of_nat i)) = kmem s1 (getPhysicalAddress s (a + of_nat i))"
        using m(3) fr by simp
      also have "\<dots> = bs ! i"
        using put_chunk_phys(1) [OF p, of "take k bs" i] k len that by (simp add: s1_def)
      finally show ?thesis .
    qed
    have "m (getPhysicalAddress s (a + of_nat i)) = bs ! i" if "i < length bs" for i
    proof (cases "i < k")
      case False
      then obtain j where j: "i = k + j" using le_Suc_ex not_less by blast
      then have "j < length (drop k bs)" using that by simp
      then have "m (getPhysicalAddress s1 (a + of_nat k + of_nat j)) = drop k bs ! j" using m(2) by blast
      then show ?thesis using j k by (simp add: s1_def add.assoc)
    qed (rule low)
    moreover have "m x = kmem s x" if "x \<notin> frames s a (length bs)" for x
    proof -
      have "x \<notin> frames s (a + of_nat k) (length (drop k bs))" "x \<notin> frames s a k"
        using that frames_tail [of s a k "length (drop k bs)"] all k by (auto simp: frames_def)
      then show ?thesis
        using m(3) fr put_chunk_phys(2) [OF p, of "take k bs" x] k len by (simp add: s1_def)
    qed
    ultimately show ?thesis unfolding run m(1) by (intro exI [of _ m]) (simp add: s1_def)
  qed
qed

text \<open>
  C40: What writeData wrote to a mapped range with one frame per byte, readData reads back,
  and every virtual byte on another frame keeps its value.
\<close>

theorem write_read_roundtrip:
  assumes "all_mapped s a (length bs)" and "one_frame_each s a (length bs)"
  shows "read_local (write_local a bs s) a (length bs) = Some bs
    \<and> (\<forall>b. getPhysicalAddress s b \<notin> frames s a (length bs) \<longrightarrow> vmem (write_local a bs s) b = vmem s b)"
proof -
  obtain m where m: "write_local a bs s = s\<lparr>kmem := m\<rparr>"
    "\<forall>i < length bs. m (getPhysicalAddress s (a + of_nat i)) = bs ! i"
    "\<forall>x. x \<notin> frames s a (length bs) \<longrightarrow> m x = kmem s x"
    using write_local_correct [OF assms] by blast
  have "map (\<lambda>i. m (getPhysicalAddress s (a + of_nat i))) [0..<length bs] = bs"
    using m(2) by (intro nth_equalityI) auto
  then have "read_local (write_local a bs s) a (length bs) = Some bs"
    using assms(1) by (simp add: read_local_vread vread_mapped m(1) all_mapped_def)
  moreover have "vmem (write_local a bs s) b = vmem s b" if "getPhysicalAddress s b \<notin> frames s a (length bs)" for b
    using m(3) that by (simp add: vmem_def m(1))
  ultimately show ?thesis by blast
qed

section \<open>The operations on kernel memory\<close>

text \<open>\<open>copy\<close> between a page and a kernel buffer, as a piece of bytes.\<close>

lemma copy_piece:
  assumes "unat d + k < 18446744073709551616" "unat p + k < 18446744073709551616"
  shows "memory (copy d p (of_nat k) \<sigma>) = put_chunk d (chunk_bytes p k (memory \<sigma>)) (memory \<sigma>)"
proof -
  have k: "unat (of_nat k :: u64) = k" using assms by (simp add: unat_of_nat_u64)
  have "memory (copy d p (of_nat k) \<sigma>) = movs k p d (memory \<sigma>)"
    using copy_movs [of d "of_nat k" p \<sigma>] assms by (simp add: k)
  then show ?thesis
    by (auto simp: movs_def put_chunk_def chunk_bytes_def in_range_def fun_eq_iff)
qed

lemma put_chunk_append:
  assumes "unat d + (length xs + length ys) < 18446744073709551616"
  shows "put_chunk (d + of_nat (length xs)) ys (put_chunk d xs m) = put_chunk d (xs @ ys) m"
proof
  fix a
  have "in_range (d + of_nat (length xs)) (length ys) a
      \<longleftrightarrow> length xs \<le> unat (a - d) \<and> unat (a - d) < length xs + length ys"
    using assms by (intro in_range_shift) simp_all
  moreover have "unat (a - (d + of_nat (length xs))) = unat (a - d) - length xs" if "length xs \<le> unat (a - d)"
  proof -
    have "a - (d + of_nat (length xs)) = (a - d) - of_nat (length xs)" by (simp add: algebra_simps)
    moreover have "unat (of_nat (length xs) :: u64) = length xs" using assms by (simp add: unat_of_nat_u64)
    ultimately show ?thesis
      using that by (simp only: unat_diff_u64 word_le_nat_alt)
  qed
  ultimately show "put_chunk (d + of_nat (length xs)) ys (put_chunk d xs m) a = put_chunk d (xs @ ys) m a"
    by (auto simp: put_chunk_def in_range_def nth_append)
qed

lemma read_local_step:
  assumes "n \<noteq> 0" and "getPhysicalAddress s a \<noteq> 0"
  defines "k \<equiv> min (page_limit (getPhysicalAddress s a)) n"
  shows "read_local s a n = map_option (\<lambda>bs. chunk_bytes (getPhysicalAddress s a) k (kmem s) @ bs)
      (read_local s (a + of_nat k) (n - k))"
  using assms by (subst read_local.simps) (simp add: Let_def)

lemma readData_step:
  assumes "n \<noteq> 0" and "getPhysicalAddress s a \<noteq> 0"
  defines "k \<equiv> min (page_limit (getPhysicalAddress s a)) n"
  shows "readData s d a n \<sigma> = readData s (d + of_nat k) (a + of_nat k) (n - k)
      (copy d (getPhysicalAddress s a) (of_nat k) \<sigma>)"
  using assms by (subst readData.simps) (simp add: Let_def)

text \<open>
  C6: Process::readData refines reading the flat virtual memory byte by byte: it returns true
  exactly when every byte of the range is mapped, and then the kernel buffer holds those bytes
  and nothing else changed.
\<close>

theorem readData_refines:
  assumes "unat d + n < 18446744073709551616"
    and "\<forall>i < n. \<not> in_range d n (getPhysicalAddress s (a + of_nat i))"
    and "\<forall>i < n. memory \<sigma> (getPhysicalAddress s (a + of_nat i)) = kmem s (getPhysicalAddress s (a + of_nat i))"
  shows "case vread s a n of
      None \<Rightarrow> \<not> fst (readData s d a n \<sigma>)
    | Some bs \<Rightarrow> fst (readData s d a n \<sigma>) \<and> memory (snd (readData s d a n \<sigma>)) = put_chunk d bs (memory \<sigma>)"
  unfolding read_local_vread [symmetric]
  using assms
proof (induction n arbitrary: a d \<sigma> rule: less_induct)
  case (less n)
  let ?p = "getPhysicalAddress s a"
  define k where "k = min (page_limit ?p) n"
  consider "n = 0" | "n \<noteq> 0" "?p = 0" | "n \<noteq> 0" "?p \<noteq> 0" by blast
  then show ?case
  proof cases
    case 1
    then show ?thesis
      by (simp add: read_local.simps [of s a] readData.simps [of s d a]) (simp add: put_chunk_def fun_eq_iff)
  next
    case 2
    then show ?thesis by (simp add: read_local.simps [of s a] readData.simps [of s d a])
  next
    case 3
    have k: "k \<le> n" "k \<le> page_limit ?p" "0 < k" using 3 by (auto simp: k_def)
    let ?\<sigma> = "copy d ?p (of_nat k) \<sigma>" and ?c = "chunk_bytes ?p k (kmem s)"
    have src: "\<forall>i < k. ?p + of_nat i = getPhysicalAddress s (a + of_nat i)"
      using phys_image [OF 3(2) k(2)] by blast
    have "chunk_bytes ?p k (memory \<sigma>) = ?c"
      using src less.prems(3) k(1) by (simp add: chunk_bytes_def)
    then have mem1: "memory ?\<sigma> = put_chunk d ?c (memory \<sigma>)"
      using copy_piece [of d k ?p \<sigma>] less.prems(1) phys_offset(2) [OF 3(2)] k page_limit_le [of ?p] by simp
    have len: "length ?c = k" by (simp add: chunk_bytes_def)
    have tail: "getPhysicalAddress s (a + of_nat k + of_nat i) = getPhysicalAddress s (a + of_nat (k + i))" for i
      by (simp add: add.assoc)
    have far: "\<not> in_range d n (getPhysicalAddress s (a + of_nat (k + i)))" if "i < n - k" for i
      using less.prems(2) [rule_format, of "k + i"] that by simp
    have ih: "case read_local s (a + of_nat k) (n - k) of
        None \<Rightarrow> \<not> fst (readData s (d + of_nat k) (a + of_nat k) (n - k) ?\<sigma>)
      | Some bs \<Rightarrow> fst (readData s (d + of_nat k) (a + of_nat k) (n - k) ?\<sigma>)
          \<and> memory (snd (readData s (d + of_nat k) (a + of_nat k) (n - k) ?\<sigma>))
              = put_chunk (d + of_nat k) bs (memory ?\<sigma>)"
    proof (rule less.IH)
      show "n - k < n" using k 3 by simp
      have "unat (d + of_nat k) = unat d + k"
        using less.prems(1) k by (subst unat_add_u64) (simp_all add: unat_of_nat_u64)
      then show "unat (d + of_nat k) + (n - k) < 18446744073709551616" using less.prems(1) k by simp
      show "\<forall>i < n - k. \<not> in_range (d + of_nat k) (n - k) (getPhysicalAddress s (a + of_nat k + of_nat i))"
        using far less.prems(1) k unfolding tail
        by (subst in_range_shift) (auto simp: in_range_def)
      show "\<forall>i < n - k. memory ?\<sigma> (getPhysicalAddress s (a + of_nat k + of_nat i))
          = kmem s (getPhysicalAddress s (a + of_nat k + of_nat i))"
      proof (intro allI impI)
        fix i assume i: "i < n - k"
        then have "\<not> in_range d k (getPhysicalAddress s (a + of_nat (k + i)))"
          using far [OF i] k(1) unfolding in_range_def by linarith
        moreover have "k + i < n" using i by simp
        ultimately show "memory ?\<sigma> (getPhysicalAddress s (a + of_nat k + of_nat i))
            = kmem s (getPhysicalAddress s (a + of_nat k + of_nat i))"
          using less.prems(3) [rule_format, of "k + i"] unfolding tail mem1 put_chunk_def len by simp
      qed
    qed
    have "length bs = n - k" if "read_local s (a + of_nat k) (n - k) = Some bs" for bs
      using that by (auto simp: read_local_vread vread_mapped split: if_splits)
    then show ?thesis
      using ih put_chunk_append [of d ?c] less.prems(1) k
      unfolding readData_step [OF 3, folded k_def] read_local_step [OF 3, folded k_def]
      by (auto simp: mem1 len split: option.splits)
  qed
qed

lemma chunk_bytes_append:
  "chunk_bytes p (k + m) h = chunk_bytes p k h @ chunk_bytes (p + of_nat k) m h"
  by (simp add: chunk_bytes_def map_upt_shift [symmetric] add.assoc)

lemma length_chunk_bytes [simp]: "length (chunk_bytes p n h) = n"
  by (simp add: chunk_bytes_def)

lemma chunk_bytes_kept:
  assumes "\<forall>i < n. m' (p + of_nat i) = m (p + of_nat i)"
  shows "chunk_bytes p n m' = chunk_bytes p n m"
  using assms by (simp add: chunk_bytes_def)

lemma in_range_self: "i < n \<Longrightarrow> n < 18446744073709551616 \<Longrightarrow> in_range p n (p + of_nat i)"
  by (simp add: in_range_def unat_of_nat_u64)

text \<open>\<^verbatim>\<open>writeData\<close> from a kernel buffer writes what the buffer holds.\<close>

lemma writeData_write_local:
  assumes "unat p + n < 18446744073709551616" and "all_mapped s a n"
    and "\<forall>i < n. \<not> in_range p n (getPhysicalAddress s (a + of_nat i))"
  shows "memory (writeData s a p n \<sigma>)
    = kmem (write_local a (chunk_bytes p n (memory \<sigma>)) (s\<lparr>kmem := memory \<sigma>\<rparr>))"
  using assms
proof (induction n arbitrary: a p \<sigma> rule: less_induct)
  case (less n)
  let ?p = "getPhysicalAddress s a" and ?bs = "chunk_bytes p n (memory \<sigma>)"
  show ?case
  proof (cases "n = 0")
    case True
    then show ?thesis
      by (simp add: writeData.simps [of s a] write_local.simps [of a] chunk_bytes_def)
  next
    case False
    define k where "k = min (page_limit ?p) n"
    have k: "k \<le> n" "k \<le> page_limit ?p" "0 < k" using False by (auto simp: k_def)
    have p: "?p \<noteq> 0" using less.prems(2) False by (auto simp: all_mapped_def dest!: spec [of _ 0])
    let ?\<sigma> = "copy ?p p (of_nat k) \<sigma>"
    have n: "n = k + (n - k)" using k by simp
    have split: "?bs = chunk_bytes p k (memory \<sigma>) @ chunk_bytes (p + of_nat k) (n - k) (memory \<sigma>)"
      using chunk_bytes_append [of p k "n - k" "memory \<sigma>"] n by simp
    have mem1: "memory ?\<sigma> = put_chunk ?p (chunk_bytes p k (memory \<sigma>)) (memory \<sigma>)"
      using copy_piece [of ?p k p \<sigma>] less.prems(1) phys_offset(2) [OF p] k page_limit_le [of ?p] by simp
    have out: "memory ?\<sigma> x = memory \<sigma> x" if "in_range p n x" for x
    proof -
      have "x \<notin> frames s a k" using less.prems(3) that k by (auto simp: frames_def)
      then show ?thesis using put_chunk_phys(2) [OF p, of "chunk_bytes p k (memory \<sigma>)" x] k mem1 by simp
    qed
    have rest: "chunk_bytes (p + of_nat k) (n - k) (memory ?\<sigma>) = chunk_bytes (p + of_nat k) (n - k) (memory \<sigma>)"
    proof (rule chunk_bytes_kept, intro allI impI)
      fix i assume "i < n - k"
      then have "in_range p n (p + of_nat (k + i))" using less.prems(1) by (intro in_range_self) auto
      then show "memory ?\<sigma> (p + of_nat k + of_nat i) = memory \<sigma> (p + of_nat k + of_nat i)"
        using out [of "p + of_nat (k + i)"] by (simp add: add.assoc)
    qed
    have "memory (writeData s a p n \<sigma>) = memory (writeData s (a + of_nat k) (p + of_nat k) (n - k) ?\<sigma>)"
      using False by (subst writeData.simps) (simp add: Let_def k_def)
    also have "\<dots> = kmem (write_local (a + of_nat k) (chunk_bytes (p + of_nat k) (n - k) (memory ?\<sigma>)) (s\<lparr>kmem := memory ?\<sigma>\<rparr>))"
    proof (rule less.IH)
      show "n - k < n" using k False by simp
      have u: "unat (p + of_nat k) = unat p + k"
        using less.prems(1) k by (subst unat_add_u64) (simp_all add: unat_of_nat_u64)
      then show "unat (p + of_nat k) + (n - k) < 18446744073709551616" using less.prems(1) k by simp
      show "all_mapped s (a + of_nat k) (n - k)"
        using less.prems(2) all_mapped_chunk [OF p k(2), of "n - k"] n by simp
      show "\<forall>i < n - k. \<not> in_range (p + of_nat k) (n - k) (getPhysicalAddress s (a + of_nat k + of_nat i))"
      proof (intro allI impI)
        fix i assume "i < n - k"
        then have "\<not> in_range p n (getPhysicalAddress s (a + of_nat (k + i)))" using less.prems(3) [rule_format, of "k + i"] by simp
        moreover have "in_range (p + of_nat k) (n - k) x \<Longrightarrow> in_range p n x" for x
          using in_range_shift [of k "n - k" p x] less.prems(1) k by (auto simp: in_range_def)
        ultimately show "\<not> in_range (p + of_nat k) (n - k) (getPhysicalAddress s (a + of_nat k + of_nat i))"
          by (auto simp: add.assoc)
      qed
    qed
    also have "\<dots> = kmem (write_local a ?bs (s\<lparr>kmem := memory \<sigma>\<rparr>))"
    proof -
      have ne: "?bs \<noteq> []" using False by (metis length_chunk_bytes list.size(3))
      have "take k ?bs = chunk_bytes p k (memory \<sigma>)" "drop k ?bs = chunk_bytes (p + of_nat k) (n - k) (memory \<sigma>)"
        unfolding split by simp_all
      then show ?thesis
        using write_local_step [OF ne, of a "s\<lparr>kmem := memory \<sigma>\<rparr>"] by (simp add: k_def [symmetric] mem1 rest [unfolded mem1])
    qed
    finally show ?thesis .
  qed
qed

lemma writeData_frames:
  assumes "unat p + n < 18446744073709551616" and "all_mapped s a n" and "one_frame_each s a n"
    and "\<forall>i < n. \<not> in_range p n (getPhysicalAddress s (a + of_nat i))"
  shows "(\<forall>i < n. memory (writeData s a p n \<sigma>) (getPhysicalAddress s (a + of_nat i)) = memory \<sigma> (p + of_nat i))
    \<and> (\<forall>x. x \<notin> frames s a n \<longrightarrow> memory (writeData s a p n \<sigma>) x = memory \<sigma> x)"
proof -
  let ?s = "s\<lparr>kmem := memory \<sigma>\<rparr>" and ?bs = "chunk_bytes p n (memory \<sigma>)"
  have "all_mapped ?s a (length ?bs)" "one_frame_each ?s a (length ?bs)"
    using assms by (simp_all add: all_mapped_def one_frame_each_def)
  from write_local_correct [OF this] obtain m where m: "write_local a ?bs ?s = ?s\<lparr>kmem := m\<rparr>"
    "\<forall>i < n. m (getPhysicalAddress s (a + of_nat i)) = ?bs ! i"
    "\<forall>x. x \<notin> frames s a n \<longrightarrow> m x = memory \<sigma> x"
    by (auto simp: frames_def)
  have "memory (writeData s a p n \<sigma>) = m"
    using writeData_write_local [OF assms(1,2,4), of \<sigma>] m(1) by simp
  then show ?thesis using m(2,3) by (simp add: chunk_bytes_def)
qed

text \<open>
  C12: Process::writeData to a mapped range, whatever pages it crosses, puts byte i of the
  kernel buffer at the frame of address + i and changes no other byte of memory.
\<close>

theorem writeData_copies:
  assumes "unat p + n < 18446744073709551616" and "all_mapped s a n" and "one_frame_each s a n"
    and "\<forall>i < n. \<not> in_range p n (getPhysicalAddress s (a + of_nat i))"
  shows "(\<forall>i < n. memory (writeData s a p n \<sigma>) (getPhysicalAddress s (a + of_nat i)) = memory \<sigma> (p + of_nat i))
    \<and> (\<forall>x. x \<notin> frames s a n \<longrightarrow> memory (writeData s a p n \<sigma>) x = memory \<sigma> x)"
  using assms by (rule writeData_frames)

section \<open>Mapping a page\<close>

lemma user_table_present: "present (ucell s a) \<Longrightarrow> user_table (Suc n) a s = Some s"
  by simp

lemma find_entry_slots:
  assumes "path_slots c a pt = (a1, a2, a3, a4)"
  shows "find_entry c a pt = (if present (c a1) \<and> present (c a2) \<and> present (c a3)
    then Some (if hugesize (c a3) then a3 else a4) else None)"
  using assms by (clarsimp simp: path_slots_def find_entry_def Let_def)

lemma find_entry_cong:
  assumes "path_slots c a pt = (a1, a2, a3, a4)" and "x \<notin> {a1, a2, a3}"
  shows "find_entry (c(x := e)) a pt = find_entry c a pt"
proof -
  have "a1 \<noteq> x" "a2 \<noteq> x" "a3 \<noteq> x" using assms(2) by auto
  then show ?thesis
    using find_entry_slots [OF assms(1)] find_entry_slots [OF path_slots_upd [OF assms, of e]]
    by simp
qed

text \<open>
  C15: Process::addPage into existing tables makes getPhysicalAddress translate the virtual
  address to the given page, with the write, user and no-execute bits of the memory type, and
  changes no other table entry.
\<close>

theorem addPage_maps:
  assumes path: "path_slots (cells (pts s)) vaddr (utable s) = (a1, a2, a3, a4)"
    and tables: "present (ucell s a1)" "present (ucell s a2)" "present (ucell s a3)" "\<not> hugesize (ucell s a3)"
    and own: "a4 \<notin> {a1, a2, a3}"
    and pt: "utable s \<noteq> 0" and paddr: "paddr AND 0xFFF = 0" "unat paddr < 2 ^ 63" and type: "\<not> type_has type NULLPAGE"
  shows "\<exists>s'. addPage (Suc (Suc n)) vaddr paddr type s = Some (a4, s')
    \<and> getPhysicalAddress s' vaddr = paddr + (vaddr AND 0xFFF)
    \<and> readwrite (ucell s' a4) = type_has type FLAG_W \<and> user (ucell s' a4) = type_has type FLAG_U
    \<and> nx (ucell s' a4) = (\<not> type_has type FLAG_X)
    \<and> (\<forall>a. a \<noteq> a4 \<longrightarrow> ucell s' a = ucell s a)"
proof (intro exI conjI)
  let ?e = "Entry paddr 0 type"
  let ?s = "set_ucell a4 ?e s"
  have slots: "a1 = slot (utable s) (table_index 39 vaddr)" "a2 = slot (getUintPtr (ucell s a1)) (table_index 30 vaddr)"
      "a3 = slot (getUintPtr (ucell s a2)) (table_index 21 vaddr)" "a4 = slot (getUintPtr (ucell s a3)) (table_index 12 vaddr)"
    using path by (auto simp: path_slots_def Let_def ucell_def)
  show "addPage (Suc (Suc n)) vaddr paddr type s = Some (a4, ?s)"
    using pt tables slots by (simp add: Let_def)
  have cell: "ucell ?s a = (if a = a4 then ?e else ucell s a)" for a
    by (simp add: set_ucell_def ucell_def set_cell_def)
  have "find_entry (cells (pts s)) vaddr (utable s) = Some a4"
    using find_entry_path [OF path] tables by (simp add: ucell_def)
  then have "find_entry (cells (pts ?s)) vaddr (utable ?s) = Some a4"
    using find_entry_cong [OF path own] by (simp add: set_ucell_def set_cell_def)
  moreover have "present ?e" "\<not> hugesize ?e" "getUintPtr ?e = paddr"
    using type paddr getUintPtr_Entry by simp_all
  ultimately show "getPhysicalAddress ?s vaddr = paddr + (vaddr AND 0xFFF)"
    using pt cell by (simp add: getPhysicalAddress_def) (simp add: set_ucell_def)
  show "readwrite (ucell ?s a4) = type_has type FLAG_W" "user (ucell ?s a4) = type_has type FLAG_U"
    "nx (ucell ?s a4) = (\<not> type_has type FLAG_X)" by (simp_all add: cell)
  show "\<forall>a. a \<noteq> a4 \<longrightarrow> ucell ?s a = ucell s a" by (simp add: cell)
qed

section \<open>The search of \<^verbatim>\<open>addSection\<close>\<close>

text \<open>
  Once the candidate itself is free the loop runs to its end without another test, so the result is
  the first free page from the start, whatever the length.
\<close>

lemma section_search_free:
  assumes "getPhysicalAddress s v = 0" and "unat v + unat len + 0x1000 < 18446744073709551616"
    and "v \<le> c" and "unat c < unat v + unat len + 0x1000"
  shows "section_search s len v c = Some v"
  using assms(3,4)
proof (induction "unat v + unat len + 0x1000 - unat c" arbitrary: c rule: less_induct)
  case less
  have vl: "unat (v + len) = unat v + unat len" using assms(2) by (simp add: unat_add_u64)
  show ?case
  proof (cases "c < v + len")
    case True
    then have c: "unat c < unat v + unat len" using vl by (simp add: word_less_nat_alt)
    then have u: "unat (c + 0x1000) = unat c + 0x1000" using assms(2) by (simp add: unat_add_u64)
    have "section_search s len v (c + 0x1000) = Some v"
      using less.prems c by (intro less.hyps) (simp_all add: u word_le_nat_alt)
    then show ?thesis using True assms(1) by (subst section_search.simps) simp
  next
    case False
    then show ?thesis by (subst section_search.simps) simp
  qed
qed

text \<open>
  The search of addSection ends at the first page from its start whose own address is
  unmapped, whatever the length of the section: pages behind it are never looked at.
\<close>

theorem section_search_first_free:
  assumes "\<forall>i < k. getPhysicalAddress s (v + of_nat (0x1000 * i)) \<noteq> 0"
    and "getPhysicalAddress s (v + of_nat (0x1000 * k)) = 0"
    and "len \<noteq> 0" and "unat v + 0x1000 * k + unat len + 0x1000 < 18446744073709551616"
  shows "section_search s len v v = Some (v + of_nat (0x1000 * k))"
  using assms
proof (induction k arbitrary: v)
  case 0
  then show ?case using section_search_free [of s v len v] by simp
next
  case (Suc k)
  have u: "unat (v + 0x1000) = unat v + 0x1000" using Suc.prems(4) by (simp add: unat_add_u64)
  have shift: "v + 0x1000 + of_nat (0x1000 * i) = v + of_nat (0x1000 * Suc i)" for i by (simp add: algebra_simps)
  have vl: "unat (v + len) = unat v + unat len" using Suc.prems(4) by (simp add: unat_add_u64)
  have "section_search s len (v + 0x1000) (v + 0x1000) = Some (v + 0x1000 + of_nat (0x1000 * k))"
  proof (rule Suc.IH)
    show "\<forall>i < k. getPhysicalAddress s (v + 0x1000 + of_nat (0x1000 * i)) \<noteq> 0"
      using Suc.prems(1) unfolding shift by blast
    show "getPhysicalAddress s (v + 0x1000 + of_nat (0x1000 * k)) = 0" using Suc.prems(2) unfolding shift .
  qed (use Suc.prems(3,4) u in simp_all)
  moreover have "v < v + len" using vl Suc.prems(3) by (simp add: word_less_nat_alt unat_gt_0)
  moreover have "getPhysicalAddress s v \<noteq> 0" using Suc.prems(1) by (auto dest!: spec [of _ 0])
  ultimately show ?case unfolding shift by (subst section_search.simps) simp
qed

section \<open>Reading strings\<close>

lemma string_length_in_page:
  fixes p :: u64
  assumes "j \<le> l" and "l < lim" "lim \<le> 4096" and "\<forall>i < l. kmem s (p + of_nat i) \<noteq> 0" and "kmem s (p + of_nat l) = 0"
  shows "string_length s a p (of_nat j) (of_nat (lim - j)) = Some (of_nat l)"
  using assms(1)
proof (induction j rule: inc_induct)
  case base
  then show ?case using assms(5) by (subst string_length.simps) simp
next
  case (step j)
  have u: "unat (of_nat (lim - j) :: u64) = lim - j" "unat (of_nat (lim - Suc j) :: u64) = lim - Suc j"
    using assms(3) by (simp_all add: unat_of_nat_u64)
  have pred: "of_nat (lim - j) - 1 = (of_nat (lim - Suc j) :: u64)"
    using step(2) assms(2) by (simp add: of_nat_diff)
  have nz: "of_nat (lim - j) \<noteq> (0 :: u64)" "of_nat (lim - Suc j) \<noteq> (0 :: u64)"
    using u step(2) assms(2) by (auto simp flip: unat_eq_0)
  have "kmem s (p + of_nat j) \<noteq> 0" using assms(4) step(2) by blast
  then show ?case
    using step.IH nz by (subst string_length.simps) (simp add: pred add.commute)
qed

text \<open>
  Process::readString of a string that ends within its page returns it with its NUL, and null
  for the empty string.
\<close>

theorem readString_in_page:
  assumes p: "getPhysicalAddress s a \<noteq> 0" and l: "l < page_limit (getPhysicalAddress s a)"
    and str: "\<forall>i < l. kmem s (getPhysicalAddress s a + of_nat i) \<noteq> 0" "kmem s (getPhysicalAddress s a + of_nat l) = 0"
  shows "readString s a = Some (if l = 0 then None else Some (chunk_bytes (getPhysicalAddress s a) l (kmem s) @ [0]))"
proof -
  let ?p = "getPhysicalAddress s a"
  have le: "page_limit ?p \<le> 4096" by (rule page_limit_le)
  have len: "string_length s a ?p 0 (of_nat (page_limit ?p)) = Some (of_nat l)"
    using string_length_in_page [of 0 l "page_limit ?p" s ?p a] l le str by simp
  have u: "unat (of_nat l :: u64) = l" "unat (of_nat l + 1 :: u64) = l + 1"
    using l le by (simp_all add: unat_of_nat_u64 unat_add_u64)
  have zero: "(of_nat l :: u64) = 0 \<longleftrightarrow> l = 0" using u(1) by (metis unat_eq_0)
  have "all_mapped s a (l + 1)"
    using all_mapped_chunk [OF p, of "l + 1" 0] l by (simp add: all_mapped_def)
  then have "read_local s a (l + 1) = Some (chunk_bytes ?p (l + 1) (kmem s))"
    using chunk_bytes_phys [OF p, of "l + 1" "kmem s"] l by (simp add: read_local_vread vread_mapped)
  moreover have "chunk_bytes ?p (l + 1) (kmem s) = chunk_bytes ?p l (kmem s) @ [0]"
    using str(2) by (simp add: chunk_bytes_def)
  ultimately show ?thesis
    using p len by (simp add: readString_def Let_def zero u(2))
qed

text \<open>
  A string that reaches the end of its page: the next byte tested lies \<open>page_limit\<close> bytes behind the
  address that was translated for it.
\<close>

lemma string_length_crossing:
  fixes s a
  defines "p \<equiv> getPhysicalAddress s a"
  assumes "\<forall>i < page_limit p. kmem s (p + of_nat i) \<noteq> 0" and "j < page_limit p"
  shows "string_length s a p (of_nat j) (of_nat (page_limit p - j))
    = string_length s a (getPhysicalAddress s (a + of_nat (page_limit p))) (of_nat (page_limit p)) 0x1000"
  using assms(3)
proof (induction "page_limit p - j" arbitrary: j)
  case (Suc m)
  have le: "page_limit p \<le> 4096" by (rule page_limit_le)
  have u: "unat (of_nat (page_limit p - j) :: u64) = page_limit p - j"
    "unat (of_nat (page_limit p - Suc j) :: u64) = page_limit p - Suc j"
    using le by (simp_all add: unat_of_nat_u64)
  have pred: "of_nat (page_limit p - j) - 1 = (of_nat (page_limit p - Suc j) :: u64)"
    using Suc.prems by (simp add: of_nat_diff)
  have nz: "of_nat (page_limit p - j) \<noteq> (0 :: u64)" using u(1) Suc.prems by (auto simp flip: unat_eq_0)
  have b: "kmem s (p + of_nat j) \<noteq> 0" using assms(2) Suc.prems by blast
  show ?case
  proof (cases "Suc j = page_limit p")
    case True
    then have one: "of_nat (page_limit p - j) - 1 = (0 :: u64)" unfolding pred by simp
    have eq: "(of_nat j + 1 :: u64) = of_nat (page_limit p)" using True by (metis of_nat_Suc add.commute)
    show ?thesis using nz b one by (subst string_length.simps) (simp add: eq)
  next
    case False
    then have lt: "Suc j < page_limit p" using Suc.prems by simp
    then have "of_nat (page_limit p - Suc j) \<noteq> (0 :: u64)" using u(2) by (auto simp flip: unat_eq_0)
    moreover have "string_length s a p (of_nat (Suc j)) (of_nat (page_limit p - Suc j))
      = string_length s a (getPhysicalAddress s (a + of_nat (page_limit p))) (of_nat (page_limit p)) 0x1000"
      using Suc.hyps(2) lt by (intro Suc.hyps(1)) simp_all
    ultimately show ?thesis using nz b
      by (subst string_length.simps) (simp add: pred add.commute)
  qed
qed simp

section \<open>Port permissions\<close>

definition port_addr :: "space \<Rightarrow> u16 \<Rightarrow> u64" where
  "port_addr s port = iomap s ! (unat port div 8 div 0x1000) + of_nat ((unat port div 8) mod 0x1000)"

text \<open>A set bit of the map denies the port.\<close>

definition port_denied :: "space \<Rightarrow> u16 \<Rightarrow> bool" where
  "port_denied s port \<longleftrightarrow> bit (kmem s (port_addr s port)) (unat port mod 8)"

definition iomap_ok :: "space \<Rightarrow> bool" where
  "iomap_ok s \<longleftrightarrow> length (iomap s) = 2 \<and> iomap s ! 0 \<noteq> 0 \<and> iomap s ! 1 \<noteq> 0
     \<and> 4096 \<le> unat (iomap s ! 0 - iomap s ! 1) \<and> unat (iomap s ! 0 - iomap s ! 1) \<le> 18446744073709551616 - 4096"

lemma unat_u16 [simp]: "unat (a :: u16) < 65536"
  using unsigned_less [of a] by simp

lemma port_map_index: "unat (port :: u16) div 8 div 4096 < 2"
proof -
  have "unat port div 8 < 8192" using unat_u16 [of port] by (intro less_mult_imp_div_less) simp
  then show ?thesis by (intro less_mult_imp_div_less) simp
qed

lemma page_offsets_inj:
  assumes "m0 + of_nat i = m1 + (of_nat j :: u64)" "i < 4096" "j < 4096"
    and "4096 \<le> unat (m0 - m1)" "unat (m0 - m1) \<le> 18446744073709551616 - 4096"
  shows False
proof -
  have "m0 - m1 = of_nat j - of_nat i" using assms(1) by (simp add: algebra_simps)
  then have "unat (m0 - m1) = (if i \<le> j then j - i else j + 18446744073709551616 - i)"
    using assms(2,3) by (simp only: unat_diff_wrap_u64 unat_of_nat_u64)
  then show False using assms(2-5) by (simp split: if_splits)
qed

lemma of_nat_inj_page:
  assumes "i < 4096" "j < 4096" "(of_nat i :: u64) = of_nat j"
  shows "i = j"
proof -
  have "unat (of_nat i :: u64) = i" "unat (of_nat j :: u64) = j" using assms(1,2) by (simp_all add: unat_of_nat_u64)
  with assms(3) show ?thesis by metis
qed

lemma port_addr_inj:
  assumes ok: "iomap_ok s" and eq: "port_addr s p = port_addr s q"
  shows "unat p div 8 = unat q div 8"
proof -
  let ?P = "unat p div 8" and ?Q = "unat q div 8"
  have lt: "?P mod 4096 < 4096" "?Q mod 4096 < 4096" by simp_all
  have cases: "?P div 4096 = 0 \<or> ?P div 4096 = 1" "?Q div 4096 = 0 \<or> ?Q div 4096 = 1"
    using port_map_index [of p] port_map_index [of q] by linarith+
  have bank: "?P div 4096 = ?Q div 4096"
  proof (rule ccontr)
    assume "?P div 4096 \<noteq> ?Q div 4096"
    with cases consider "?P div 4096 = 0" "?Q div 4096 = 1" | "?P div 4096 = 1" "?Q div 4096 = 0" by auto
    then show False
    proof cases
      case 1
      then show False
        using page_offsets_inj [of "iomap s ! 0" "?P mod 4096" "iomap s ! 1" "?Q mod 4096"] eq ok lt
        by (simp add: port_addr_def iomap_ok_def)
    next
      case 2
      then show False
        using page_offsets_inj [of "iomap s ! 0" "?Q mod 4096" "iomap s ! 1" "?P mod 4096"] eq ok lt
        by (simp add: port_addr_def iomap_ok_def)
    qed
  qed
  then have "(of_nat (?P mod 4096) :: u64) = of_nat (?Q mod 4096)" using eq by (simp add: port_addr_def)
  then have "?P mod 4096 = ?Q mod 4096" by (rule of_nat_inj_page [OF lt])
  with bank show ?thesis by (metis div_mult_mod_eq)
qed

lemma allow_port_clears:
  assumes ok: "iomap_ok s"
  shows "\<exists>s'. allow_port fuel port s = Some s' \<and> iomap s' = iomap s
    \<and> (\<forall>q. port_denied s' q \<longleftrightarrow> port_denied s q \<and> q \<noteq> port)"
proof -
  let ?a = "port_addr s port"
  let ?s = "s\<lparr>kmem := (kmem s)(?a := kmem s ?a AND NOT (push_bit (unat port mod 8) 1))\<rparr>"
  have addr: "port_addr ?s q = port_addr s q" for q by (simp add: port_addr_def)
  have "iomap s ! (unat port div 8 div 4096) \<noteq> 0"
    using ok less_2_cases [OF port_map_index [of port]] by (auto simp: iomap_ok_def)
  then have "allow_port fuel port s = Some ?s" by (simp add: allow_port_def port_addr_def Let_def)
  moreover have "port_denied ?s q \<longleftrightarrow> port_denied s q \<and> q \<noteq> port" for q
  proof (cases "port_addr s q = ?a")
    case True
    have q: "q = port \<longleftrightarrow> unat q mod 8 = unat port mod 8"
      using port_addr_inj [OF ok True] by (metis div_mult_mod_eq word_unat_eq_iff)
    have "bit (NOT (push_bit n 1) :: u8) m \<longleftrightarrow> n \<noteq> m" if "n < 8" "m < 8" for n m
      using that by (auto simp: bit_not_iff bit_push_bit_iff bit_exp_iff)
    then have "bit (NOT (push_bit (unat port mod 8) 1) :: u8) (unat q mod 8) \<longleftrightarrow> q \<noteq> port"
      unfolding q by (metis mod_less_divisor zero_less_numeral)
    then show ?thesis unfolding port_denied_def addr by (simp add: True bit_and_iff)
  next
    case False
    then show ?thesis unfolding port_denied_def addr by auto
  qed
  ultimately show ?thesis by (intro exI [of _ ?s]) simp
qed

lemma unat_add_u16: "unat a + unat b < 65536 \<Longrightarrow> unat (a + b :: u16) = unat a + unat b"
  by (simp add: unat_word_ariths)

lemma ports_loop_range:
  assumes "iomap_ok s" and "unat lo + unat i + n = unat hi + 1" and "unat hi - unat lo < 65535"
  shows "\<exists>s'. ports_loop fuel lo hi i s = Some s' \<and> iomap s' = iomap s
    \<and> (\<forall>q. port_denied s' q \<longleftrightarrow> port_denied s q \<and> \<not> (unat lo + unat i \<le> unat q \<and> q \<le> hi))"
  using assms
proof (induction n arbitrary: i s)
  case 0
  then have "\<not> int (unat i) \<le> int (unat hi) - int (unat lo)" by linarith
  then have "ports_loop fuel lo hi i s = Some s" by (subst ports_loop.simps) (simp only: if_False)
  then show ?case using 0 by (auto simp: word_le_nat_alt)
next
  case (Suc n)
  have p: "unat (lo + i) = unat lo + unat i"
    using Suc.prems(2) unat_u16 [of hi] by (intro unat_add_u16) linarith
  have i1: "unat (i + 1) = unat i + 1"
    using Suc.prems(2,3) by (subst unat_add_u16) simp_all
  obtain s1 where s1: "allow_port fuel (lo + i) s = Some s1" "iomap s1 = iomap s"
      "\<forall>q. port_denied s1 q \<longleftrightarrow> port_denied s q \<and> q \<noteq> lo + i"
    using allow_port_clears [OF Suc.prems(1)] by blast
  have "iomap_ok s1" using Suc.prems(1) s1(2) by (simp add: iomap_ok_def)
  then obtain s2 where s2: "ports_loop fuel lo hi (i + 1) s1 = Some s2" "iomap s2 = iomap s1"
      "\<forall>q. port_denied s2 q \<longleftrightarrow> port_denied s1 q \<and> \<not> (unat lo + unat (i + 1) \<le> unat q \<and> q \<le> hi)"
    using Suc.IH [of s1 "i + 1"] Suc.prems(2,3) i1 by auto
  have "ports_loop fuel lo hi i s = Some s2"
  proof -
    have "int (unat i) \<le> int (unat hi) - int (unat lo)" using Suc.prems(2) by linarith
    then show ?thesis using s1(1) s2(1) by (subst ports_loop.simps) (simp only: if_True bind.simps)
  qed
  moreover have "port_denied s2 q \<longleftrightarrow> port_denied s q \<and> \<not> (unat lo + unat i \<le> unat q \<and> q \<le> hi)" for q
  proof -
    have "q \<noteq> lo + i \<and> \<not> (unat lo + unat (i + 1) \<le> unat q \<and> q \<le> hi) \<longleftrightarrow> \<not> (unat lo + unat i \<le> unat q \<and> q \<le> hi)"
      using Suc.prems(2) by (auto simp: word_unat_eq_iff p i1 word_le_nat_alt)
    then show ?thesis using s1(3) s2(3) by blast
  qed
  ultimately show ?case using s1(2) s2(2) by auto
qed

text \<open>With the whole range the 16-bit counter wraps around before it passes the limit.\<close>

lemma ports_loop_full: "ports_loop fuel 0 0xFFFF i s \<noteq> Some s'"
proof
  assume "ports_loop fuel 0 0xFFFF i s = Some s'"
  then have "0 = (0 :: u16) \<and> 0xFFFF = (0xFFFF :: u16) \<longrightarrow> False"
  proof (rule ports_loop.raw_induct [of "\<lambda>fuel lo hi i s s'. lo = (0 :: u16) \<and> hi = (0xFFFF :: u16) \<longrightarrow> False", rotated])
    fix f :: "nat \<Rightarrow> u16 \<Rightarrow> u16 \<Rightarrow> u16 \<Rightarrow> space \<Rightarrow> space option" and fuel lo hi i s s'
    assume ih: "\<And>fuel lo hi i s s'. f fuel lo hi i s = Some s' \<Longrightarrow> lo = 0 \<and> hi = 0xFFFF \<longrightarrow> False"
      and run: "(if int (unat i) \<le> int (unat hi) - int (unat lo)
        then do { s \<leftarrow> allow_port fuel (lo + i) s; f fuel lo hi (i + 1) s } else Some s) = Some s'"
    show "lo = 0 \<and> hi = 0xFFFF \<longrightarrow> False"
    proof
      assume c: "lo = 0 \<and> hi = 0xFFFF"
      have "unat i \<le> 65535" using unat_u16 [of i] by linarith
      moreover have "unat hi = 65535" "unat lo = 0" using c by simp_all
      ultimately have "int (unat i) \<le> int (unat hi) - int (unat lo)" by linarith
      with run obtain s1 where "f fuel lo hi (i + 1) s1 = Some s'" by (auto simp: bind_eq_Some_conv)
      from ih [OF this] c show False by blast
    qed
  qed
  then show False by simp
qed

text \<open>
  allowIOPorts(min, max) allows exactly the ports from min to max in addition to those allowed
  before; called with the whole range 0 to 0xFFFF it never returns.
\<close>

theorem allowIOPorts_range:
  assumes "iomap_ok s" and "lo \<le> hi" and "unat hi - unat lo < 65535"
  shows "(\<exists>s'. allowIOPorts fuel lo hi s = Some s'
      \<and> (\<forall>q. port_denied s' q \<longleftrightarrow> port_denied s q \<and> \<not> (lo \<le> q \<and> q \<le> hi)))
    \<and> allowIOPorts fuel 0 0xFFFF s = None"
proof
  have "unat lo + unat (0 :: u16) + (unat hi + 1 - unat lo) = unat hi + 1"
    using assms(2) by (simp add: word_le_nat_alt)
  from ports_loop_range [OF assms(1) this assms(3), of fuel]
  show "\<exists>s'. allowIOPorts fuel lo hi s = Some s'
      \<and> (\<forall>q. port_denied s' q \<longleftrightarrow> port_denied s q \<and> \<not> (lo \<le> q \<and> q \<le> hi))"
    by (auto simp: allowIOPorts_def word_le_nat_alt)
  show "allowIOPorts fuel 0 0xFFFF s = None"
    using ports_loop_full [of fuel 0 s] unfolding allowIOPorts_def
    by (cases "ports_loop fuel 0 0xFFFF 0 s") auto
qed

section \<open>A concrete process\<close>

text \<open>One page, at \<^verbatim>\<open>0x5000\<close>, whose bytes are at \<^verbatim>\<open>0x9000\<close>.\<close>

definition demo_space :: space where
  "demo_space = \<lparr>pts = set_cell 0x4028 (Entry 0x9000 0 USER_DATA_RW) demo_pt, kmem = (\<lambda>a. if a = 0x9003 then 0 else 65),
     kcr3 = 0x100000, utable = 0x1000, iomap = [0x20000, 0x21000], aslrCode = 0, aslrStack = 0, uentry = 0\<rparr>"

lemma demo_path:
  "path_slots (cells (pts demo_space)) 0x5000 (utable demo_space) = (0x1000, 0x2000, 0x3000, 0x4028)"
  by (simp add: demo_space_def path_slots_def set_cell_def demo_pt_def demo_ptr slot_def table_index_def Let_def)

lemma demo_cells: "ucell demo_space 0x1000 = Entry 0x2000 0 TABLE" "ucell demo_space 0x2000 = Entry 0x3000 0 TABLE"
  "ucell demo_space 0x3000 = Entry 0x4000 0 TABLE" "ucell demo_space 0x4028 = Entry 0x9000 0 USER_DATA_RW"
  by (simp_all add: ucell_def demo_space_def set_cell_def demo_pt_def)

lemma user_not_null: "\<not> type_has USER_DATA_RW NULLPAGE"
  by (simp add: type_has_def USER_DATA_RW_def FLAG_U_def DATA_RW_def FLAG_W_def NULLPAGE_def)

lemma demo_phys: "getPhysicalAddress demo_space 0x5000 = 0x9000"
proof -
  have "find_entry (cells (pts demo_space)) 0x5000 (utable demo_space) = Some 0x4028"
    using find_entry_path [OF demo_path] demo_cells by (simp add: ucell_def table_not_null)
  then show ?thesis
    by (simp add: getPhysicalAddress_def demo_cells user_not_null getUintPtr_Entry) (simp add: demo_space_def)
qed

lemma demo_range:
  assumes "n \<le> 4096"
  shows "all_mapped demo_space 0x5000 n" "one_frame_each demo_space 0x5000 n"
    and "i < 4096 \<Longrightarrow> getPhysicalAddress demo_space (0x5000 + of_nat i) = 0x9000 + of_nat i"
proof -
  have lim: "page_limit (0x9000 :: u64) = 4096" by (simp add: page_limit_def)
  have lin: "getPhysicalAddress demo_space (0x5000 + of_nat i) = 0x9000 + of_nat i" if "i < 4096" for i
    using phys_linear(1) [of demo_space "0x5000" i] that by (simp add: demo_phys lim)
  then show "i < 4096 \<Longrightarrow> getPhysicalAddress demo_space (0x5000 + of_nat i) = 0x9000 + of_nat i" .
  show "all_mapped demo_space 0x5000 n"
    using all_mapped_chunk [of demo_space "0x5000" n 0] assms by (simp add: demo_phys lim all_mapped_def)
  show "one_frame_each demo_space 0x5000 n"
    unfolding one_frame_each_def
  proof (rule inj_onI)
    fix i j assume "i \<in> {..<n}" "j \<in> {..<n}"
      and "getPhysicalAddress demo_space (0x5000 + of_nat i) = getPhysicalAddress demo_space (0x5000 + of_nat j)"
    then have "(of_nat i :: u64) = of_nat j" using assms by (simp add: lin)
    then show "i = j" using \<open>i \<in> {..<n}\<close> \<open>j \<in> {..<n}\<close> assms by (intro of_nat_inj_page) auto
  qed
qed

lemma demo_outside: "i < 4 \<Longrightarrow> \<not> in_range 0x100 4 (0x9000 + of_nat i)"
proof -
  assume "i < 4"
  then consider "i = 0" | "i = 1" | "i = 2" | "i = 3" by linarith
  then show ?thesis by cases (simp_all add: in_range_def)
qed

theorem write_read_roundtrip_witness:
  "read_local (write_local 0x5000 [1, 2, 3] demo_space) 0x5000 3 = Some [1, 2, 3]"
  using write_read_roundtrip [of demo_space "0x5000" "[1, 2, 3]"] demo_range(1,2) [of 3]
  by (simp add: numeral_3_eq_3)

theorem readData_refines_witness:
  "fst (readData demo_space 0x100 0x5000 4 \<lparr>memory = kmem demo_space, DF = False\<rparr>)
   \<and> memory (snd (readData demo_space 0x100 0x5000 4 \<lparr>memory = kmem demo_space, DF = False\<rparr>))
       = put_chunk 0x100 [65, 65, 65, 0] (kmem demo_space)"
proof -
  have lin: "getPhysicalAddress demo_space (0x5000 + of_nat i) = 0x9000 + of_nat i" if "i < 4" for i
    using demo_range(3) [of 0 i] that by simp
  have "vread demo_space 0x5000 4 = Some (map (\<lambda>i. kmem demo_space (0x9000 + of_nat i)) [0..<4])"
    using demo_range(1) [of 4] lin by (simp add: vread_mapped)
  also have "\<dots> = Some [65, 65, 65, 0]" by (simp add: demo_space_def upt_rec)
  finally have v: "vread demo_space 0x5000 4 = Some [65, 65, 65, 0]" .
  show ?thesis
    using readData_refines [of "0x100" 4 demo_space "0x5000" "\<lparr>memory = kmem demo_space, DF = False\<rparr>"]
      lin demo_outside by (simp add: v)
qed

theorem writeData_copies_witness:
  "memory (writeData demo_space 0x5000 0x100 4 \<lparr>memory = (\<lambda>a. ucast a), DF = False\<rparr>) 0x9002 = 2"
proof -
  have lin: "getPhysicalAddress demo_space (0x5000 + of_nat i) = 0x9000 + of_nat i" if "i < 4" for i
    using demo_range(3) [of 0 i] that by simp
  have "\<forall>i < 4. memory (writeData demo_space 0x5000 0x100 4 \<lparr>memory = (\<lambda>a. ucast a), DF = False\<rparr>)
      (getPhysicalAddress demo_space (0x5000 + of_nat i)) = ucast (0x100 + of_nat i :: u64)"
    using writeData_copies [of "0x100" 4 demo_space "0x5000" "\<lparr>memory = (\<lambda>a. ucast a), DF = False\<rparr>"]
      demo_range(1,2) [of 4] lin demo_outside by simp
  from this [rule_format, of 2] lin [of 2] show ?thesis by simp
qed

theorem addPage_maps_witness:
  "\<exists>s'. addPage (Suc (Suc 0)) 0x5000 0xB000 USER_CODE_RX demo_space = Some (0x4028, s')
    \<and> getPhysicalAddress s' 0x5000 = 0xB000"
  using addPage_maps [OF demo_path, of "0xB000" USER_CODE_RX 0]
  by (simp add: demo_cells table_not_null)
    (simp add: demo_space_def type_has_def USER_CODE_RX_def FLAG_U_def CODE_RX_def FLAG_X_def NULLPAGE_def, blast)

theorem section_search_first_free_witness:
  "section_search demo_space 0x3000 0x5000 0x5000 = Some 0x6000"
proof -
  have path: "path_slots (cells (pts demo_space)) 0x6000 (utable demo_space) = (0x1000, 0x2000, 0x3000, 0x4030)"
    by (simp add: demo_space_def path_slots_def set_cell_def demo_pt_def demo_ptr slot_def table_index_def Let_def)
  then have "find_entry (cells (pts demo_space)) 0x6000 (utable demo_space) = Some 0x4030"
    using find_entry_path [OF path] demo_cells by (simp add: ucell_def table_not_null)
  moreover have "\<not> present (ucell demo_space 0x4030)"
    by (simp add: ucell_def demo_space_def set_cell_def demo_pt_def present_def)
  ultimately have "getPhysicalAddress demo_space 0x6000 = 0" by (simp add: getPhysicalAddress_def)
  then show ?thesis
    using section_search_first_free [of 1 demo_space "0x5000" "0x3000"] by (simp add: demo_phys)
qed

theorem readString_in_page_witness: "readString demo_space 0x5000 = Some (Some [65, 65, 65, 0])"
proof -
  have "readString demo_space 0x5000 = Some (Some (chunk_bytes 0x9000 3 (kmem demo_space) @ [0]))"
    using readString_in_page [of demo_space "0x5000" 3]
    by (simp add: demo_phys) (auto simp: page_limit_def demo_space_def numeral_3_eq_3 less_Suc_eq)
  then show ?thesis by (simp add: chunk_bytes_def demo_space_def upt_rec)
qed

theorem allowIOPorts_range_witness:
  "\<exists>s'. allowIOPorts 0 0x60 0x64 demo_space = Some s' \<and> \<not> port_denied s' 0x62 \<and> port_denied s' 0x66"
proof -
  have ok: "iomap_ok demo_space" by (simp add: iomap_ok_def demo_space_def)
  have "port_denied demo_space 0x66" by (simp add: port_denied_def port_addr_def demo_space_def)
  then show ?thesis using allowIOPorts_range [OF ok, of "0x60" "0x64" 0] by force
qed

end
