(* ===== verification/Interrupts.thy ===== *)
theory Interrupts
  imports Scheduler
begin

text \<open>
  \<^verbatim>\<open>src/interrupts\<close>: the descriptor tables, the stubs the interrupt table points to, the assembly
  wrapper that saves and restores the interrupted state, and \<^verbatim>\<open>Interrupts::handle\<close>, which runs the
  registered callbacks. The descriptors are the 64-bit words the hardware reads; the wrapper is
  its list of instructions with an interpreter; the callbacks are functions on a kernel state.
\<close>

section \<open>Packed fields\<close>

text \<open>Reading \<open>n\<close> bits from position \<open>k\<close>, and putting them there.\<close>

definition field :: "nat \<Rightarrow> nat \<Rightarrow> u64 \<Rightarrow> u64" where
  "field k n e = take_bit n (drop_bit k e)"

definition place :: "nat \<Rightarrow> nat \<Rightarrow> u64 \<Rightarrow> u64" where
  "place k n v = push_bit k (take_bit n v)"

section \<open>Descriptors\<close>

definition GDT_Entry ::
    "u64 \<Rightarrow> u64 \<Rightarrow> u64 \<Rightarrow> u64 \<Rightarrow> bool \<Rightarrow> bool \<Rightarrow> bool \<Rightarrow> bool \<Rightarrow> bool \<Rightarrow> bool \<Rightarrow> u64" where
  "GDT_Entry base limit type dpl0 system present0 avl islong db granularity =
     place 0 16 limit OR place 16 24 base OR place 40 4 type OR place 44 1 (of_bool system)
     OR place 45 2 dpl0 OR place 47 1 (of_bool present0) OR place 48 4 (drop_bit 16 limit)
     OR place 52 1 (of_bool avl) OR place 53 1 (of_bool islong) OR place 54 1 (of_bool db)
     OR place 55 1 (of_bool granularity) OR place 56 8 (drop_bit 24 base)"

definition getBase :: "u64 \<Rightarrow> u64" where
  "getBase e = push_bit 24 (field 56 8 e) OR field 16 24 e"

definition getLimit :: "u64 \<Rightarrow> u64" where
  "getLimit e = push_bit 16 (field 48 4 e) OR field 0 16 e"

text \<open>Storing into a field keeps the others.\<close>

definition set_field :: "nat \<Rightarrow> nat \<Rightarrow> u64 \<Rightarrow> u64 \<Rightarrow> u64" where
  "set_field k n v e = (e AND NOT (push_bit k (mask n))) OR place k n v"

definition setBase :: "u64 \<Rightarrow> u64 \<Rightarrow> u64" where
  "setBase base e = set_field 56 8 (drop_bit 24 base) (set_field 16 24 base e)"

definition setLimit :: "u64 \<Rightarrow> u64 \<Rightarrow> u64" where
  "setLimit limit e = set_field 48 4 (drop_bit 16 limit) (set_field 0 16 limit e)"

text \<open>\<^verbatim>\<open>GDT::SystemEntry\<close>: two words.\<close>

definition SystemEntry ::
    "u64 \<Rightarrow> u64 \<Rightarrow> u64 \<Rightarrow> u64 \<Rightarrow> bool \<Rightarrow> bool \<Rightarrow> bool \<Rightarrow> bool \<Rightarrow> bool \<Rightarrow> bool \<Rightarrow> u64 \<times> u64" where
  "SystemEntry base limit type dpl0 system present0 avl islong db granularity =
     (GDT_Entry base limit type dpl0 system present0 avl islong db granularity, place 0 32 (drop_bit 32 base))"

definition sys_getBase :: "u64 \<times> u64 \<Rightarrow> u64" where
  "sys_getBase e = push_bit 32 (field 0 32 (snd e)) OR getBase (fst e)"

definition sys_setBase :: "u64 \<Rightarrow> u64 \<times> u64 \<Rightarrow> u64 \<times> u64" where
  "sys_setBase base e = (setBase base (fst e), set_field 0 32 (drop_bit 32 base) (snd e))"

definition gdt_size :: "u64 \<Rightarrow> u64" where
  "gdt_size sys_count = 8 * 5 + 16 * sys_count"

text \<open>The five fixed entries of \<^verbatim>\<open>Interrupts::init\<close>.\<close>

definition gdt_ents :: "u64 list" where
  "gdt_ents =
     [0,
      GDT_Entry 0 0xFFFFFFFFFFFFFFFF 0xA 0 True True False True False True,
      GDT_Entry 0 0xFFFFFFFFFFFFFFFF 0x2 0 True True False False True True,
      GDT_Entry 0 0xFFFFFFFFFFFFFFFF 0x2 3 True True False False True True,
      GDT_Entry 0 0xFFFFFFFFFFFFFFFF 0xA 3 True True False True False True]"

text \<open>The task register value \<^verbatim>\<open>loadVector\<close> loads.\<close>

definition task_selector :: "u32 \<Rightarrow> u16" where
  "task_selector cpu = ucast (5 * 8 + ucast cpu * 16 :: u64)"

text \<open>\<^verbatim>\<open>REC64\<close>: two words.\<close>

definition REC64 :: "u64 \<Rightarrow> u64 \<Rightarrow> u64 \<Rightarrow> u64 \<Rightarrow> u64 \<Rightarrow> bool \<Rightarrow> u64 \<times> u64" where
  "REC64 offset selector ist type dpl0 present0 =
     (place 0 16 offset OR place 16 16 selector OR place 32 3 ist OR place 40 4 type
      OR place 45 2 dpl0 OR place 47 1 (of_bool present0) OR place 48 16 (drop_bit 16 offset),
      place 0 32 (drop_bit 32 offset))"

text \<open>The handler address \<^verbatim>\<open>KernelLinker::prepareToStart\<close> reads back.\<close>

definition rec_handler :: "u64 \<times> u64 \<Rightarrow> u64" where
  "rec_handler r = field 0 16 (fst r) OR push_bit 16 (field 48 16 (fst r)) OR push_bit 32 (field 0 32 (snd r))"

section \<open>Stubs\<close>

text \<open>The table of the exceptions: mnemonic, and whether the CPU pushes an error code.\<close>

definition faults :: "(string \<times> bool) list" where
  "faults =
     [(''#DE'', False), (''#DB'', False), (''#NMI'', False), (''#BP'', False),
      (''#OF'', False), (''#BR'', False), (''#UD'', False), (''#NM'', False),
      (''#DF'', True), ('''', False), (''#TS'', True), (''#NP'', True),
      (''#SS'', True), (''#GP'', True), (''#PF'', True), ('''', False),
      (''#MF'', False), (''#AC'', True), (''#MC'', False), (''#XM'', False),
      (''#VE'', False), ('''', False), ('''', False), ('''', False),
      ('''', False), ('''', False), ('''', False), ('''', False),
      ('''', False), ('''', False), (''#SX'', True), ('''', False)]"

definition has_error_code :: "nat \<Rightarrow> bool" where
  "has_error_code i \<longleftrightarrow> i < 0x20 \<and> snd (faults ! i)"

text \<open>\<^verbatim>\<open>Interrupts::Handler\<close>: the eleven bytes of a stub.\<close>

definition Handler :: "u8 \<Rightarrow> u8 \<Rightarrow> u32 \<Rightarrow> u8 list" where
  "Handler int_num subrsp diff =
     [0x48, 0x83, 0xEC, subrsp, 0x6A, int_num, 0xE9,
      ucast diff, ucast (drop_bit 8 diff), ucast (drop_bit 16 diff), ucast (drop_bit 24 diff)]"

text \<open>The stub \<open>i\<close> of the table at \<open>handlers\<close>, as \<^verbatim>\<open>init\<close> fills it, and its interrupt gate.\<close>

definition stub_addr :: "u64 \<Rightarrow> nat \<Rightarrow> u64" where
  "stub_addr handlers i = handlers + of_nat (11 * i)"

definition stub :: "u64 \<Rightarrow> u64 \<Rightarrow> nat \<Rightarrow> u8 list" where
  "stub wrapper handlers i =
     (let jmp_from = stub_addr handlers i + 6;
          diff = wrapper - jmp_from - 5
      in Handler (of_nat i) (if i < 0x20 then (if snd (faults ! i) then 0 else 8) else 8) (ucast diff))"

definition idt_entry :: "u64 \<Rightarrow> nat \<Rightarrow> u64 \<times> u64" where
  "idt_entry handlers i = REC64 (stub_addr handlers i) 8 1 0xE 0 True"

section \<open>The wrapper\<close>

datatype greg = RAX | RCX | RDX | RBX | RBP | RSI | RDI | R8 | R9 | R10 | R11 | R12 | R13 | R14 | R15

fun reg_get :: "greg \<Rightarrow> gregs \<Rightarrow> u64" where
  "reg_get RAX g = rax g" | "reg_get RCX g = rcx g" | "reg_get RDX g = rdx g" | "reg_get RBX g = rbx g"
| "reg_get RBP g = rbp g" | "reg_get RSI g = rsi g" | "reg_get RDI g = rdi g"
| "reg_get R8 g = r8 g" | "reg_get R9 g = r9 g" | "reg_get R10 g = r10 g" | "reg_get R11 g = r11 g"
| "reg_get R12 g = r12 g" | "reg_get R13 g = r13 g" | "reg_get R14 g = r14 g" | "reg_get R15 g = r15 g"

fun reg_set :: "greg \<Rightarrow> u64 \<Rightarrow> gregs \<Rightarrow> gregs" where
  "reg_set RAX v g = g\<lparr>rax := v\<rparr>" | "reg_set RCX v g = g\<lparr>rcx := v\<rparr>" | "reg_set RDX v g = g\<lparr>rdx := v\<rparr>"
| "reg_set RBX v g = g\<lparr>rbx := v\<rparr>" | "reg_set RBP v g = g\<lparr>rbp := v\<rparr>" | "reg_set RSI v g = g\<lparr>rsi := v\<rparr>"
| "reg_set RDI v g = g\<lparr>rdi := v\<rparr>" | "reg_set R8 v g = g\<lparr>r8 := v\<rparr>" | "reg_set R9 v g = g\<lparr>r9 := v\<rparr>"
| "reg_set R10 v g = g\<lparr>r10 := v\<rparr>" | "reg_set R11 v g = g\<lparr>r11 := v\<rparr>" | "reg_set R12 v g = g\<lparr>r12 := v\<rparr>"
| "reg_set R13 v g = g\<lparr>r13 := v\<rparr>" | "reg_set R14 v g = g\<lparr>r14 := v\<rparr>" | "reg_set R15 v g = g\<lparr>r15 := v\<rparr>"

text \<open>
  The CPU as the wrapper sees it: the stack is the list of its quadwords, the top first; \<open>swapped\<close>
  tells which GS base is active; \<open>eois\<close> and \<open>pic\<close> are the writes to the interrupt controllers.
\<close>

record wcpu =
  gr :: gregs
  fx :: "u64 list"
  wcr3 :: u64
  sp :: u64
  stk :: "u64 list"
  swapped :: bool
  eois :: "(u64 \<times> u32) list"
  pic :: "u8 list"

datatype instr =
    Swapgs | Push greg | Pop greg | MovFromCr3 greg | MovToCr3 greg
  | XchgStk greg nat | MovFromStk greg nat | Lea greg nat | LeaReg greg greg | MovSp greg
  | MovGs0 greg | SubSp nat | AddSp nat | Fxsave | Fxrstor
  | MovEoi greg | SendEoi greg | MovAl u8 | OutAl | XchgReg greg greg

text \<open>
  Offsets are in quadwords. \<open>kernel_pt\<close> is \<^verbatim>\<open>glob->kernel_pt\<close> (at \<^verbatim>\<open>%gs:0\<close>), \<open>eoi_vector\<close> the
  variable of that name; \<open>SubSp\<close> leaves what it uncovers as zeroes until \<open>Fxsave\<close> fills it.
\<close>

fun exec1 :: "u64 \<Rightarrow> u64 \<Rightarrow> instr \<Rightarrow> wcpu \<Rightarrow> wcpu" where
  "exec1 kernel_pt eoi_vector Swapgs c = c\<lparr>swapped := \<not> swapped c\<rparr>"
| "exec1 kernel_pt eoi_vector (Push r) c = c\<lparr>stk := reg_get r (gr c) # stk c, sp := sp c - 8\<rparr>"
| "exec1 kernel_pt eoi_vector (Pop r) c = c\<lparr>gr := reg_set r (hd (stk c)) (gr c), stk := tl (stk c), sp := sp c + 8\<rparr>"
| "exec1 kernel_pt eoi_vector (MovFromCr3 r) c = c\<lparr>gr := reg_set r (wcr3 c) (gr c)\<rparr>"
| "exec1 kernel_pt eoi_vector (MovToCr3 r) c = c\<lparr>wcr3 := reg_get r (gr c)\<rparr>"
| "exec1 kernel_pt eoi_vector (XchgStk r n) c =
     c\<lparr>gr := reg_set r (stk c ! n) (gr c), stk := (stk c)[n := reg_get r (gr c)]\<rparr>"
| "exec1 kernel_pt eoi_vector (MovFromStk r n) c = c\<lparr>gr := reg_set r (stk c ! n) (gr c)\<rparr>"
| "exec1 kernel_pt eoi_vector (Lea r n) c = c\<lparr>gr := reg_set r (sp c + 8 * of_nat n) (gr c)\<rparr>"
| "exec1 kernel_pt eoi_vector (LeaReg q r) c = c\<lparr>gr := reg_set r (reg_get q (gr c)) (gr c)\<rparr>"
| "exec1 kernel_pt eoi_vector (MovSp r) c = c\<lparr>gr := reg_set r (sp c) (gr c)\<rparr>"
| "exec1 kernel_pt eoi_vector (MovGs0 r) c = c\<lparr>gr := reg_set r kernel_pt (gr c)\<rparr>"
| "exec1 kernel_pt eoi_vector (SubSp n) c = c\<lparr>stk := replicate n 0 @ stk c, sp := sp c - 8 * of_nat n\<rparr>"
| "exec1 kernel_pt eoi_vector (AddSp n) c = c\<lparr>stk := drop n (stk c), sp := sp c + 8 * of_nat n\<rparr>"
| "exec1 kernel_pt eoi_vector Fxsave c = c\<lparr>stk := fx c @ drop 64 (stk c)\<rparr>"
| "exec1 kernel_pt eoi_vector Fxrstor c = c\<lparr>fx := take 64 (stk c)\<rparr>"
| "exec1 kernel_pt eoi_vector (MovEoi r) c = c\<lparr>gr := reg_set r eoi_vector (gr c)\<rparr>"
| "exec1 kernel_pt eoi_vector (SendEoi r) c =
     (if reg_get r (gr c) = 0 then c else c\<lparr>eois := eois c @ [(reg_get r (gr c), 0)]\<rparr>)"
| "exec1 kernel_pt eoi_vector (MovAl b) c = c\<lparr>gr := reg_set RAX ((rax (gr c) AND NOT 0xFF) OR ucast b) (gr c)\<rparr>"
| "exec1 kernel_pt eoi_vector OutAl c = c\<lparr>pic := pic c @ [ucast (rax (gr c))]\<rparr>"
| "exec1 kernel_pt eoi_vector (XchgReg q r) c =
     c\<lparr>gr := reg_set q (reg_get r (gr c)) (reg_set r (reg_get q (gr c)) (gr c))\<rparr>"

definition exec :: "u64 \<Rightarrow> u64 \<Rightarrow> instr list \<Rightarrow> wcpu \<Rightarrow> wcpu" where
  "exec kernel_pt eoi_vector is c = fold (exec1 kernel_pt eoi_vector) is c"

text \<open>The instructions before and after the call of \<^verbatim>\<open>Interrupts::handle\<close>.\<close>

definition wrapper_save :: "instr list" where
  "wrapper_save =
     [Swapgs, Push R15, Push R14, Push R13, Push R12, Push R11, Push R10, Push R9, Push R8,
      Push RDI, Push RSI, Push RBP, Push RBX, Push RDX, Push RCX, Push RAX,
      MovFromCr3 RDI, XchgStk RDI 15, Lea RSI 16, Lea RDX 15, MovGs0 RAX, MovToCr3 RAX,
      SubSp 64, Fxsave, MovSp RCX, LeaReg RSI RBP]"

definition wrapper_restore :: "instr list" where
  "wrapper_restore =
     [Fxrstor, AddSp 64,
      Pop R15, Pop RCX, Pop RDX, Pop RBX, Pop RBP, Pop RSI, Pop RDI, Pop R8, Pop R9, Pop R10,
      Pop R11, Pop R12, Pop R13, Pop R14,
      MovEoi RAX, SendEoi RAX, MovFromStk RAX 1, MovToCr3 RAX, MovAl 0x20, OutAl,
      Pop RAX, XchgReg RAX R15, AddSp 2, Swapgs]"

section \<open>Handling\<close>

record int_info =
  error_code :: u64
  i_rip :: u64
  i_cs :: u64
  i_rflags :: u64
  i_rsp :: u64
  i_ss :: u64

type_synonym 's callback = "u8 \<Rightarrow> u32 \<Rightarrow> callback_regs \<Rightarrow> 's \<Rightarrow> (bool \<times> callback_regs \<times> 's) option"

text \<open>The loop over the callbacks of the interrupt; a callback that does not return gives \<open>None\<close>.\<close>

fun run_callbacks :: "'s callback list \<Rightarrow> u8 \<Rightarrow> u32 \<Rightarrow> callback_regs \<Rightarrow> 's \<Rightarrow> (bool \<times> callback_regs \<times> 's) option" where
  "run_callbacks [] intr code regs s = Some (False, regs, s)"
| "run_callbacks (cb # cbs) intr code regs s = do {
     (handled, regs, s) \<leftarrow> cb intr code regs s;
     if handled then Some (True, regs, s) else run_callbacks cbs intr code regs s
   }"

definition cb_regs_of :: "u32 \<Rightarrow> u64 \<Rightarrow> int_info \<Rightarrow> gregs \<Rightarrow> u64 list \<Rightarrow> callback_regs" where
  "cb_regs_of cpu pagetable ii g sse0 =
     \<lparr>cpuid = cpu,
      info = \<lparr>cr3 = pagetable, rip = i_rip ii, rflags = i_rflags ii, rsp = i_rsp ii,
              cs = ucast (i_cs ii AND 0xFFF8), ss = ucast (i_ss ii AND 0xFFF8), dpl = ucast (i_cs ii AND 7)\<rparr>,
      general = g, sse = sse0\<rparr>"

definition info_back :: "callback_regs \<Rightarrow> int_info \<Rightarrow> int_info" where
  "info_back r ii =
     \<lparr>error_code = error_code ii, i_rip = rip (info r), i_cs = ucast (cs (info r)) OR ucast (dpl (info r)),
      i_rflags = rflags (info r) OR 0x202, i_rsp = rsp (info r), i_ss = ucast (ss (info r)) OR ucast (dpl (info r))\<rparr>"

text \<open>The result: \<open>Halt\<close> is the endless loop after an unhandled exception.\<close>

datatype 's handle_result = Halt 's | Return int_info u64 gregs "u64 list" 's

definition handle ::
    "'s callback list \<Rightarrow> u32 \<Rightarrow> u8 \<Rightarrow> u64 \<Rightarrow> int_info \<Rightarrow> gregs \<Rightarrow> u64 list \<Rightarrow> 's \<Rightarrow> 's handle_result option" where
  "handle callbacks cpu intr pagetable ii g sse0 s = do {
     (handled, r, s) \<leftarrow> run_callbacks callbacks intr (ucast (error_code ii)) (cb_regs_of cpu pagetable ii g sse0) s;
     Some (if handled then Return (info_back r ii) (cr3 (info r)) (general r) (sse r) s
           else if intr < 0x20 then Halt s
           else Return ii pagetable (general r) (sse r) s)
   }"

text \<open>\<^verbatim>\<open>addCallback\<close>\<close>

definition addCallback :: "nat \<Rightarrow> bool \<Rightarrow> u8 \<Rightarrow> 'c \<Rightarrow> (u8 \<Rightarrow> 'c list list) \<Rightarrow> (u8 \<Rightarrow> 'c list list) option" where
  "addCallback cap ok intr cb callbacks =
     map_option (\<lambda>l. callbacks(intr := l)) (list_add cap ok cb (callbacks intr))"

text \<open>
  The call in between: the frame above the saved registers is read as the structures \<^verbatim>\<open>Thread::SSE\<close>,
  \<^verbatim>\<open>Thread::Regs\<close> and \<^verbatim>\<open>int_info\<close>, the result written back to the same places.
\<close>

definition regs_of_stack :: "u64 list \<Rightarrow> gregs" where
  "regs_of_stack l = \<lparr>rax = l ! 0, rcx = l ! 1, rdx = l ! 2, rbx = l ! 3, rbp = l ! 4, rsi = l ! 5, rdi = l ! 6,
     r8 = l ! 7, r9 = l ! 8, r10 = l ! 9, r11 = l ! 10, r12 = l ! 11, r13 = l ! 12, r14 = l ! 13, r15 = l ! 14\<rparr>"

definition stack_of_regs :: "gregs \<Rightarrow> u64 list" where
  "stack_of_regs g = [rax g, rcx g, rdx g, rbx g, rbp g, rsi g, rdi g, r8 g, r9 g, r10 g, r11 g, r12 g, r13 g, r14 g, r15 g]"

definition info_of_stack :: "u64 list \<Rightarrow> int_info" where
  "info_of_stack l = \<lparr>error_code = l ! 0, i_rip = l ! 1, i_cs = l ! 2, i_rflags = l ! 3, i_rsp = l ! 4, i_ss = l ! 5\<rparr>"

definition stack_of_info :: "int_info \<Rightarrow> u64 list" where
  "stack_of_info i = [error_code i, i_rip i, i_cs i, i_rflags i, i_rsp i, i_ss i]"

definition call_handle :: "'s callback list \<Rightarrow> u32 \<Rightarrow> wcpu \<Rightarrow> 's \<Rightarrow> (wcpu \<times> 's) option" where
  "call_handle callbacks cpu c s = do {
     let l = stk c;
     r \<leftarrow> handle callbacks cpu (ucast (rdi (gr c))) (l ! 79) (info_of_stack (drop 80 l))
            (regs_of_stack (drop 64 l)) (take 64 l) s;
     case r of
       Halt s \<Rightarrow> None
     | Return ii pt g sse0 s \<Rightarrow>
         Some (c\<lparr>stk := sse0 @ stack_of_regs g @ [pt] @ stack_of_info ii @ drop 86 l\<rparr>, s)
   }"

text \<open>The whole wrapper up to \<^verbatim>\<open>iretq\<close>; \<open>clobber\<close> is what the C++ code leaves in the registers.\<close>

definition wrapper ::
    "u64 \<Rightarrow> u64 \<Rightarrow> 's callback list \<Rightarrow> u32 \<Rightarrow> gregs \<Rightarrow> u64 list \<Rightarrow> wcpu \<Rightarrow> 's \<Rightarrow> (wcpu \<times> 's) option" where
  "wrapper kernel_pt eoi_vector callbacks cpu clobber clobber_fx c s = do {
     (c, s) \<leftarrow> call_handle callbacks cpu (exec kernel_pt eoi_vector wrapper_save c) s;
     Some (exec kernel_pt eoi_vector wrapper_restore (c\<lparr>gr := clobber, fx := clobber_fx\<rparr>), s)
   }"

section \<open>The task state segments and the controllers\<close>

text \<open>
  The loop of \<^verbatim>\<open>init\<close> over the CPUs: address and \<^verbatim>\<open>iomap_base\<close> of the segment of CPU \<open>idx\<close>, and its
  descriptor. The port maps lie behind the padded array.
\<close>

definition tss_size_pad :: "u64 \<Rightarrow> u64" where
  "tss_size_pad ncpu = (104 * ncpu + 0xFFF) AND NOT 0xFFF"

definition tss_entbuf :: "u64 \<Rightarrow> u64 \<Rightarrow> u64" where
  "tss_entbuf tssbuf idx = tssbuf + 104 * idx"

definition tss_iomap_base :: "u64 \<Rightarrow> u64 \<Rightarrow> u64 \<Rightarrow> u16" where
  "tss_iomap_base tssbuf ncpu idx = ucast (tssbuf + tss_size_pad ncpu - tss_entbuf tssbuf idx)"

definition tss_descriptor :: "u64 \<Rightarrow> u64 \<Rightarrow> u64 \<Rightarrow> u64 \<times> u64" where
  "tss_descriptor tssbuf ncpu idx =
     SystemEntry (tss_entbuf tssbuf idx) (tssbuf + tss_size_pad ncpu - tss_entbuf tssbuf idx + 0x2000 - 1)
       0x9 0 False True False True False False"

text \<open>Writes to the interrupt controllers, as pairs of port and byte, and the mask read back.\<close>

definition pic_init :: "(u16 \<times> u8) list" where
  "pic_init = [(0x20, 0x11), (0xA0, 0x11), (0x21, 0x20), (0xA1, 0x28),
     (0x21, 0x04), (0xA1, 0x02), (0x21, 0x01), (0xA1, 0x01)]"

definition maskIRQ :: "u16 \<Rightarrow> (u16 \<times> u8) list" where
  "maskIRQ m = [(0x21, ucast (m AND 0xFF)), (0xA1, ucast (drop_bit 8 m))]"

definition getIRQmask :: "(u16 \<Rightarrow> u8) \<Rightarrow> u16" where
  "getIRQmask inp = ucast (inp 0x21) OR push_bit 8 (ucast (inp 0xA1))"

text \<open>The callbacks of the scheduler (\<^verbatim>\<open>src/scheduler/scheduler.cpp\<close>).\<close>

definition TimerHandler :: "u64 \<Rightarrow> u64 \<Rightarrow> scheduler callback" where
  "TimerHandler loopbase looptop intr code regs s = SwitchProcess loopbase looptop regs s"

section \<open>Packing\<close>

lemma bit_field: "bit (field k n e) m \<longleftrightarrow> m < n \<and> bit e (k + m)"
  by (simp add: field_def bit_take_bit_iff bit_drop_bit_eq)

lemma bit_place: "bit (place k n v) m \<longleftrightarrow> k \<le> m \<and> m < 64 \<and> m - k < n \<and> bit v (m - k)"
  by (auto simp: place_def bit_push_bit_iff bit_take_bit_iff)

lemma bit_u64_lt: "bit (w :: u64) n \<Longrightarrow> n < 64"
  using bit_imp_le_length [of w n] by simp

lemma field_or [simp]: "field k n (a OR b) = field k n a OR field k n b"
  by (rule bit_word_eqI) (auto simp: bit_field bit_or_iff)

lemma field_place_same: "k + n \<le> 64 \<Longrightarrow> field k n (place k n v) = take_bit n v"
  by (rule bit_word_eqI) (auto simp: bit_field bit_place bit_take_bit_iff)

lemma field_place_other: "j + m \<le> k \<or> k + n \<le> j \<Longrightarrow> field k n (place j m v) = 0"
  by (rule bit_word_eqI) (auto simp: bit_field bit_place)

lemmas field_place = field_place_same field_place_other

lemma join_fields:
  assumes "k + n \<le> 64"
  shows "push_bit k (take_bit n (drop_bit k v)) OR take_bit k v = (take_bit (k + n) v :: u64)"
proof (rule bit_word_eqI)
  fix m assume "m < LENGTH(64)"
  then show "bit (push_bit k (take_bit n (drop_bit k v)) OR take_bit k v) m = bit (take_bit (k + n) v) m"
    using assms by (auto simp: bit_or_iff bit_push_bit_iff bit_take_bit_iff bit_drop_bit_eq)
qed

lemma getBase_Entry:
  "getBase (GDT_Entry base limit type dpl0 system present0 avl islong db granularity) = take_bit 32 base"
  using join_fields [of 24 8 base] by (simp add: getBase_def GDT_Entry_def field_place)

lemma getLimit_Entry:
  "getLimit (GDT_Entry base limit type dpl0 system present0 avl islong db granularity) = take_bit 20 limit"
  using join_fields [of 16 4 limit] by (simp add: getLimit_def GDT_Entry_def field_place)

lemma take_bit_64 [simp]: "take_bit 64 (v :: u64) = v"
  by (rule bit_word_eqI) (simp add: bit_take_bit_iff)

lemma sys_getBase_SystemEntry:
  "sys_getBase (SystemEntry base limit type dpl0 system present0 avl islong db granularity) = base"
  using join_fields [of 32 32 base]
  by (simp add: sys_getBase_def SystemEntry_def getBase_Entry field_place)

lemma bit_set_field:
  "bit (set_field k n v e) m \<longleftrightarrow> m < 64 \<and> (if k \<le> m \<and> m < k + n then bit v (m - k) else bit e m)"
  using bit_u64_lt [of e m]
  by (auto simp: set_field_def bit_or_iff bit_and_iff bit_not_iff bit_push_bit_iff bit_mask_iff bit_place)

lemma field_set_same: "k + n \<le> 64 \<Longrightarrow> field k n (set_field k n v e) = take_bit n v"
  by (rule bit_word_eqI) (auto simp: bit_field bit_set_field bit_take_bit_iff)

lemma field_set_other: "j + m \<le> k \<or> k + n \<le> j \<Longrightarrow> field k n (set_field j m v e) = field k n e"
  by (rule bit_word_eqI) (auto simp: bit_field bit_set_field dest: bit_u64_lt)

lemmas field_set = field_set_same field_set_other

lemma getBase_setBase: "getBase (setBase base e) = take_bit 32 base"
  using join_fields [of 24 8 base] by (simp add: getBase_def setBase_def field_set)

lemma getLimit_setLimit: "getLimit (setLimit limit e) = take_bit 20 limit"
  using join_fields [of 16 4 limit] by (simp add: getLimit_def setLimit_def field_set)

lemma sys_getBase_setBase: "sys_getBase (sys_setBase base e) = base"
  using join_fields [of 32 32 base] by (simp add: sys_getBase_def sys_setBase_def getBase_setBase field_set)

lemma set_fields_apart: "getLimit (setBase base e) = getLimit e" "getBase (setLimit limit e) = getBase e"
  by (simp_all add: getLimit_def getBase_def setBase_def setLimit_def field_set)

lemma rec_handler_REC64: "rec_handler (REC64 offset selector ist type dpl0 present0) = offset"
proof -
  have "push_bit 32 (take_bit 32 (drop_bit 32 offset))
      OR (push_bit 16 (take_bit 16 (drop_bit 16 offset)) OR take_bit 16 offset) = offset"
    using join_fields [of 16 16 offset] join_fields [of 32 32 offset] by simp
  then show ?thesis
    by (simp add: rec_handler_def REC64_def field_place or.commute or.left_commute or.assoc)
qed

text \<open>
  Packing and unpacking of descriptors: a system descriptor gives back its 64-bit base, a
  segment descriptor the low 32 bits of its base and 20 bits of its limit, setters touch only
  their own fields, and an interrupt gate gives back its handler address.
\<close>

theorem descriptors_roundtrip:
  "sys_getBase (SystemEntry base limit type dpl0 system present0 avl islong db granularity) = base
   \<and> sys_getBase (sys_setBase base e) = base
   \<and> getBase (GDT_Entry base limit type dpl0 system present0 avl islong db granularity) = take_bit 32 base
   \<and> getLimit (GDT_Entry base limit type dpl0 system present0 avl islong db granularity) = take_bit 20 limit
   \<and> getLimit (setLimit limit (setBase base f)) = take_bit 20 limit
   \<and> getBase (setLimit limit (setBase base f)) = take_bit 32 base
   \<and> rec_handler (REC64 base selector ist type dpl0 present0) = base"
  by (simp add: sys_getBase_SystemEntry sys_getBase_setBase getBase_Entry getLimit_Entry
      getLimit_setLimit set_fields_apart getBase_setBase rec_handler_REC64)

lemma tss_descriptor_base: "sys_getBase (tss_descriptor tssbuf ncpu idx) = tss_entbuf tssbuf idx"
  by (simp add: tss_descriptor_def sys_getBase_SystemEntry)

lemma tss_iomap_shared:
  assumes "unat ncpu \<le> 256" and "unat idx < unat ncpu"
  shows "tss_entbuf tssbuf idx + ucast (tss_iomap_base tssbuf ncpu idx) = tssbuf + tss_size_pad ncpu"
proof -
  let ?d = "tss_size_pad ncpu - 104 * idx"
  have n: "unat (104 * ncpu) = 104 * unat ncpu" "unat (104 * idx) = 104 * unat idx"
    using assms by (simp_all add: unat_word_ariths)
  then have p: "unat (104 * ncpu + 0xFFF) = 104 * unat ncpu + 0xFFF"
    using assms by (subst unat_add_u64) simp_all
  have m: "tss_size_pad ncpu = (104 * ncpu + 0xFFF) - ((104 * ncpu + 0xFFF) AND 0xFFF)"
    using and_not_plus_and [of "104 * ncpu + 0xFFF" "0xFFF"] by (simp add: tss_size_pad_def algebra_simps)
  have pad: "unat (tss_size_pad ncpu) = 104 * unat ncpu + 0xFFF - (104 * unat ncpu + 0xFFF) mod 4096"
    unfolding m by (subst unat_diff_u64) (simp_all add: word_le_nat_alt unat_and_fff p)
  then have "104 * unat idx \<le> unat (tss_size_pad ncpu)" "unat (tss_size_pad ncpu) < 65536"
    using assms mod_less_divisor [of 4096 "104 * unat ncpu + 0xFFF"] by linarith+
  then have "unat ?d < 65536" by (simp add: unat_diff_u64 word_le_nat_alt n)
  then have "take_bit 16 ?d = ?d"
    by (simp add: take_bit_eq_mod word_unat_eq_iff unat_mod)
  then have "(ucast (ucast ?d :: u16) :: u64) = ?d" by (simp add: unsigned_ucast_eq)
  then show ?thesis by (simp add: tss_iomap_base_def tss_entbuf_def)
qed

lemma getIRQmask_maskIRQ: "getIRQmask (\<lambda>p. the (map_of (maskIRQ m) p)) = m"
proof (rule bit_word_eqI)
  fix n assume "n < LENGTH(16)"
  moreover have "m AND 0xFF = take_bit 8 m" by (simp add: take_bit_eq_mask mask_eq_exp_minus_1)
  ultimately show "bit (getIRQmask (\<lambda>p. the (map_of (maskIRQ m) p))) n = bit m n"
    by (auto simp: getIRQmask_def maskIRQ_def bit_simps)
qed

section \<open>Stubs\<close>

text \<open>
  The three instructions of a stub, read from its bytes: \<^verbatim>\<open>sub rsp, imm8\<close>, \<^verbatim>\<open>push imm8\<close> (sign-extended)
  and \<^verbatim>\<open>jmp rel32\<close>. The result is the jump target and the stack.
\<close>

fun run_stub :: "u64 \<Rightarrow> u8 list \<Rightarrow> u64 list \<Rightarrow> (u64 \<times> u64 list) option" where
  "run_stub addr [x48, x83, xEC, n, x6A, i, xE9, a, b, c, d] st =
     (if x48 = 0x48 \<and> x83 = 0x83 \<and> xEC = 0xEC \<and> x6A = 0x6A \<and> xE9 = 0xE9 \<and> n \<in> {0, 8}
      then Some (addr + 11 + scast (le32 a b c d), scast i # (if n = 8 then [0] else []) @ st)
      else None)"
| "run_stub addr _ st = None"

lemma scast_ucast_near:
  assumes "- (2 ^ 31) \<le> sint (d :: u64)" "sint d < 2 ^ 31"
  shows "scast (ucast d :: u32) = d"
proof -
  have "signed_take_bit 31 (sint d) = sint d"
    using assms by (intro signed_take_bit_int_eq_self) simp_all
  moreover have "sint (ucast d :: u32) = signed_take_bit 31 (sint d)"
    by (rule bit_eqI) (simp add: bit_simps min_def)
  ultimately have "sint (ucast d :: u32) = sint d" by simp
  moreover have "scast (ucast d :: u32) = (word_of_int (sint (ucast d :: u32)) :: u64)"
    by (simp add: signed_of_int)
  ultimately show ?thesis by simp
qed

text \<open>
  The frame \<^verbatim>\<open>handle\<close> expects: the interrupt number, an error code or a placeholder, and the five
  quadwords the CPU pushes.
\<close>

definition pushed :: "nat \<Rightarrow> u64 \<Rightarrow> u64 list \<Rightarrow> u64 list" where
  "pushed i code frame = (if has_error_code i then code # frame else frame)"

text \<open>
  Gate i of the interrupt table points to stub i, whose eleven bytes, executed, jump to the
  wrapper (when it is within 2 GiB) with a stack of the same shape for every interrupt: the
  number, an error code or a placeholder, and the CPU's frame.
\<close>

theorem stub_reaches_wrapper:
  assumes "i < 256" and near: "- (2 ^ 31) \<le> sint (w - (stub_addr handlers i + 11))"
      "sint (w - (stub_addr handlers i + 11)) < 2 ^ 31"
  shows "rec_handler (idt_entry handlers i) = stub_addr handlers i
    \<and> (\<exists>num. run_stub (stub_addr handlers i) (stub w handlers i) (pushed i code frame)
         = Some (w, num # (if has_error_code i then code else 0) # frame) \<and> (ucast num :: u8) = of_nat i)"
proof
  show "rec_handler (idt_entry handlers i) = stub_addr handlers i"
    by (simp add: idt_entry_def rec_handler_REC64)
  let ?d = "w - (stub_addr handlers i + 11)"
  have d: "w - (stub_addr handlers i + 6) - 5 = ?d" by simp
  have sub: "(if i < 0x20 then if snd (faults ! i) then 0 else 8 else 8) = (if has_error_code i then 0 else (8 :: u8))"
    by (simp add: has_error_code_def)
  have num: "(ucast (scast (of_nat i :: u8) :: u64) :: u8) = of_nat i"
    by (rule bit_word_eqI) (simp add: bit_simps)
  show "\<exists>num. run_stub (stub_addr handlers i) (stub w handlers i) (pushed i code frame)
         = Some (w, num # (if has_error_code i then code else 0) # frame) \<and> (ucast num :: u8) = of_nat i"
    unfolding stub_def Let_def d sub
    using scast_ucast_near [OF near] num
    by (simp add: Handler_def le32_bytes pushed_def)
qed

section \<open>The wrapper saves and restores everything\<close>

lemma wrapper_save_effect:
  assumes "stk c = num # rest" and "length (fx c) = 64"
  shows "stk (exec kpt eoi wrapper_save c) = fx c @ stack_of_regs (gr c) @ wcr3 c # rest"
    and "rdi (gr (exec kpt eoi wrapper_save c)) = num"
    and "wcr3 (exec kpt eoi wrapper_save c) = kpt"
    and "sp (exec kpt eoi wrapper_save c) = sp c - 8 * 79"
    and "swapped (exec kpt eoi wrapper_save c) = (\<not> swapped c)"
    and "eois (exec kpt eoi wrapper_save c) = eois c" "pic (exec kpt eoi wrapper_save c) = pic c"
  using assms by (simp_all add: exec_def wrapper_save_def stack_of_regs_def)

lemma al_byte: "(ucast (x AND - 256 OR 32 :: u64) :: u8) = 32"
proof (rule bit_word_eqI)
  fix n assume "n < LENGTH(8)"
  moreover have "(- 256 :: u64) = NOT (mask 8)" by (simp add: mask_eq_exp_minus_1)
  ultimately show "bit (ucast (x AND - 256 OR 32) :: u8) n = bit (32 :: u8) n"
    by (simp only: bit_unsigned_iff bit_or_iff bit_and_iff bit_not_iff bit_mask_iff)
      (auto simp: less_Suc_eq numeral_eq_Suc)
qed

lemma wrapper_restore_effect:
  assumes "stk c = sse0 @ stack_of_regs g @ pt # code # rest" and "length sse0 = 64"
  shows "gr (exec kpt eoi wrapper_restore c) = g"
    and "fx (exec kpt eoi wrapper_restore c) = sse0"
    and "wcr3 (exec kpt eoi wrapper_restore c) = pt"
    and "stk (exec kpt eoi wrapper_restore c) = rest"
    and "sp (exec kpt eoi wrapper_restore c) = sp c + 8 * 81"
    and "swapped (exec kpt eoi wrapper_restore c) = (\<not> swapped c)"
    and "pic (exec kpt eoi wrapper_restore c) = pic c @ [0x20]"
    and "eois (exec kpt eoi wrapper_restore c) = eois c @ (if eoi = 0 then [] else [(eoi, 0)])"
  using assms by (simp_all add: exec_def wrapper_restore_def stack_of_regs_def al_byte)

text \<open>The frame that \<^verbatim>\<open>iretq\<close> pops: the last five fields.\<close>

definition iret_frame :: "int_info \<Rightarrow> u64 list" where
  "iret_frame ii = tl (stack_of_info ii)"

lemma stack_of_info_iret: "stack_of_info ii = error_code ii # iret_frame ii"
  by (simp add: stack_of_info_def iret_frame_def)

lemma info_of_stack_of [simp]: "info_of_stack (stack_of_info ii @ rest) = ii"
  by (simp add: info_of_stack_def stack_of_info_def)

lemma regs_of_stack_of [simp]: "regs_of_stack (stack_of_regs g @ rest) = g"
  by (simp add: stack_of_regs_def regs_of_stack_def)

lemma length_stack_of [simp]: "length (stack_of_regs g) = 15" "length (stack_of_info ii) = 6"
  by (simp_all add: stack_of_regs_def stack_of_info_def)

lemma call_handle_frame:
  assumes "stk c = fx0 @ stack_of_regs g @ pt # stack_of_info ii @ rest" and "length fx0 = 64"
    and "handle callbacks cpu (ucast (rdi (gr c))) pt ii g fx0 s = Some (Return ii' pt' g' fx' s')"
  shows "call_handle callbacks cpu c s
    = Some (c\<lparr>stk := fx' @ stack_of_regs g' @ pt' # stack_of_info ii' @ rest\<rparr>, s')"
proof -
  have pos: "stk c ! 79 = pt" "drop 80 (stk c) = stack_of_info ii @ rest" "drop 64 (stk c) = stack_of_regs g @ pt # stack_of_info ii @ rest"
      "take 64 (stk c) = fx0" "drop 86 (stk c) = rest"
    unfolding assms(1) using assms(2) by (simp_all add: nth_append)
  show ?thesis using assms(3) by (simp add: call_handle_def Let_def pos)
qed

lemma wrapper_effect:
  assumes frame: "stk c = num # stack_of_info ii @ rest" and fx: "length (fx c) = 64"
    and run: "run_callbacks callbacks (ucast num) (ucast (error_code ii))
        (cb_regs_of cpu (wcr3 c) ii (gr c) (fx c)) s = Some (handled, r, s')"
    and alive: "handled \<or> 0x20 \<le> (ucast num :: u8)" and sse: "length (sse r) = 64"
  shows "\<exists>c'. wrapper kpt eoi callbacks cpu clobber clobber_fx c s = Some (c', s')
    \<and> gr c' = general r \<and> fx c' = sse r
    \<and> wcr3 c' = (if handled then cr3 (info r) else wcr3 c)
    \<and> stk c' = iret_frame (if handled then info_back r ii else ii) @ rest
    \<and> sp c' = sp c + 16 \<and> swapped c' = swapped c
    \<and> pic c' = pic c @ [0x20] \<and> eois c' = eois c @ (if eoi = 0 then [] else [(eoi, 0)])"
proof -
  let ?c1 = "exec kpt eoi wrapper_save c"
  let ?ii = "if handled then info_back r ii else ii" and ?pt = "if handled then cr3 (info r) else wcr3 c"
  note save = wrapper_save_effect [OF frame fx, of kpt eoi]
  have "\<not> (ucast num :: u8) < 0x20" if "\<not> handled" using alive that by simp
  then have "handle callbacks cpu (ucast (rdi (gr ?c1))) (wcr3 c) ii (gr c) (fx c) s
      = Some (Return ?ii ?pt (general r) (sse r) s')"
    using run by (simp add: handle_def save(2))
  from call_handle_frame [OF save(1) fx this]
  have call: "call_handle callbacks cpu ?c1 s
      = Some (?c1\<lparr>stk := sse r @ stack_of_regs (general r) @ ?pt # error_code ?ii # iret_frame ?ii @ rest\<rparr>, s')"
    by (simp add: stack_of_info_iret)
  let ?c2 = "?c1\<lparr>stk := sse r @ stack_of_regs (general r) @ ?pt # error_code ?ii # iret_frame ?ii @ rest,
    gr := clobber, fx := clobber_fx\<rparr>"
  have "stk ?c2 = sse r @ stack_of_regs (general r) @ ?pt # error_code ?ii # iret_frame ?ii @ rest" by simp
  note restore = wrapper_restore_effect [OF this sse, of kpt eoi]
  have "wrapper kpt eoi callbacks cpu clobber clobber_fx c s = Some (exec kpt eoi wrapper_restore ?c2, s')"
    by (simp add: wrapper_def call)
  then show ?thesis
    using restore by (intro exI [of _ "exec kpt eoi wrapper_restore ?c2"]) (simp add: save)
qed

text \<open>
  C3: The interrupt wrapper returns with exactly the registers, SSE state, page table and iret
  frame that handle and its callbacks leave (those of the interrupted code when none changes
  them), with the stack and GS base restored and one end-of-interrupt to each controller;
  every register is saved and restored through the right slot.
\<close>

theorem wrapper_resumes:
  assumes frame: "stk c = num # stack_of_info ii @ rest" and fx: "length (fx c) = 64"
    and run: "run_callbacks callbacks (ucast num) (ucast (error_code ii))
        (cb_regs_of cpu (wcr3 c) ii (gr c) (fx c)) s = Some (handled, r, s')"
    and alive: "handled \<or> 0x20 \<le> (ucast num :: u8)" and sse: "length (sse r) = 64"
  shows "\<exists>c'. wrapper kpt eoi callbacks cpu clobber clobber_fx c s = Some (c', s')
    \<and> gr c' = general r \<and> fx c' = sse r
    \<and> wcr3 c' = (if handled then cr3 (info r) else wcr3 c)
    \<and> stk c' = iret_frame (if handled then info_back r ii else ii) @ rest
    \<and> sp c' = sp c + 16 \<and> swapped c' = swapped c
    \<and> pic c' = pic c @ [0x20] \<and> eois c' = eois c @ (if eoi = 0 then [] else [(eoi, 0)])"
  using assms by (rule wrapper_effect)

text \<open>
  The callbacks of an interrupt run in the order of their registration, each on what the
  previous ones left, and none after the first that reports the interrupt as handled.
\<close>

theorem callbacks_in_order:
  "run_callbacks (cbs1 @ cbs2) intr code regs s =
     (case run_callbacks cbs1 intr code regs s of
        Some (False, regs', s') \<Rightarrow> run_callbacks cbs2 intr code regs' s'
      | res \<Rightarrow> res)"
proof (induction cbs1 arbitrary: regs s)
  case (Cons cb cbs1)
  show ?case
  proof (cases "cb intr code regs s")
    case (Some res)
    then show ?thesis by (cases res) (auto simp: Cons.IH)
  qed simp
qed simp

section \<open>Concrete runs\<close>

theorem stub_reaches_wrapper_witness:
  "\<exists>num. run_stub (stub_addr 0x200000 14) (stub 0x100000 0x200000 14) (pushed 14 2 [0x401000, 0x23, 0x202, 0x7FF0, 0x1B])
     = Some (0x100000, [num, 2, 0x401000, 0x23, 0x202, 0x7FF0, 0x1B]) \<and> (ucast num :: u8) = 14"
  using stub_reaches_wrapper [of 14 "0x100000" "0x200000" 2 "[0x401000, 0x23, 0x202, 0x7FF0, 0x1B]"]
  by (simp add: stub_addr_def has_error_code_def faults_def)

definition demo_cpu :: wcpu where
  "demo_cpu = \<lparr>gr = zero_gregs\<lparr>rax := 7, r15 := 9\<rparr>, fx = replicate 64 1, wcr3 = 0x5000, sp = 0x8000,
     stk = [0x20, 0, 0x401000, 0x23, 0x202, 0x7FF0, 0x1B], swapped = False, eois = [], pic = []\<rparr>"

theorem wrapper_resumes_witness:
  "\<exists>c'. wrapper 0x1000 0xFEE000B0 [\<lambda>_ _ r s. Some (True, r\<lparr>info := (info r)\<lparr>rip := 0x402000, cr3 := 0x6000\<rparr>\<rparr>, s + 1 :: nat)]
       0 zero_gregs [] demo_cpu 4 = Some (c', 5)
     \<and> gr c' = gr demo_cpu \<and> wcr3 c' = 0x6000 \<and> stk c' = [0x402000, 0x23, 0x202, 0x7FF0, 0x1B]
     \<and> eois c' = [(0xFEE000B0, 0)]"
proof -
  let ?ii = "\<lparr>error_code = 0, i_rip = 0x401000, i_cs = 0x23, i_rflags = 0x202, i_rsp = 0x7FF0, i_ss = 0x1B\<rparr>"
  let ?cb = "\<lambda>_ _ r s. Some (True, r\<lparr>info := (info r)\<lparr>rip := 0x402000, cr3 := 0x6000\<rparr>\<rparr>, s + 1 :: nat)"
  let ?r = "cb_regs_of 0 (wcr3 demo_cpu) ?ii (gr demo_cpu) (fx demo_cpu)"
  have "stk demo_cpu = 0x20 # stack_of_info ?ii @ []" "length (fx demo_cpu) = 64"
    by (simp_all add: demo_cpu_def stack_of_info_def)
  moreover have "run_callbacks [?cb] (ucast (0x20 :: u64)) (ucast (error_code ?ii)) ?r 4
      = Some (True, ?r\<lparr>info := (info ?r)\<lparr>rip := 0x402000, cr3 := 0x6000\<rparr>\<rparr>, 5)"
    by simp
  ultimately show ?thesis
    using wrapper_resumes [of demo_cpu "0x20" ?ii "[]" "[?cb]" 0 4 True
        "?r\<lparr>info := (info ?r)\<lparr>rip := 0x402000, cr3 := 0x6000\<rparr>\<rparr>" 5 "0x1000" "0xFEE000B0" zero_gregs "[]"]
    by (simp add: cb_regs_of_def info_back_def iret_frame_def stack_of_info_def) (simp add: demo_cpu_def, blast)
qed

end
