(* ===== verification/Acpi.thy ===== *)
theory Acpi
  imports Prelude "HOL-Library.Monad_Syntax"
begin

text \<open>
  \<^verbatim>\<open>src/acpi/acpi.cpp\<close>: reading the firmware tables and driving the interrupt controllers. The tables
  are bytes of memory; the pages the parser asks \<^verbatim>\<open>Pagetable::map\<close> for are recorded in \<open>maps\<close> as low
  address, high address and whether they are writable. Loops that follow the tables are partial
  functions: \<open>None\<close> is a loop that does not end. Accesses to the local APIC are recorded in \<open>lapic\<close>;
  what reads of its registers give is an argument.
\<close>

section \<open>State\<close>

record acpi =
  localApicAddr :: u64
  ioApicAddr :: u64
  rsdpAddr :: u64
  ioApicMaxCount :: u8
  acpiCpuLapicIds :: "u8 list"
  acpiLapicCpuIds :: "u8 list"
  acpiCpuCount :: u8
  activeCpuCount :: u8
  busfreq :: u64
  maps :: "(u64 \<times> u64 \<times> bool) list"
  lapic :: "(u32 \<times> u32) list"
  ports :: "(u16 \<times> u8) list"

definition map_ro :: "u64 \<Rightarrow> u64 \<Rightarrow> acpi \<Rightarrow> acpi" where
  "map_ro low high s = s\<lparr>maps := maps s @ [(low, high, False)]\<rparr>"

definition map_rw :: "u64 \<Rightarrow> u64 \<Rightarrow> acpi \<Rightarrow> acpi" where
  "map_rw low high s = s\<lparr>maps := maps s @ [(low, high, True)]\<rparr>"

section \<open>Tables\<close>

text \<open>One entry of the MADT: the branches on its type.\<close>

definition madt_entry :: "mem \<Rightarrow> u64 \<Rightarrow> acpi \<Rightarrow> acpi" where
  "madt_entry m p s =
     (if m p = 0 then
        s\<lparr>acpiLapicCpuIds := (acpiLapicCpuIds s)[unat (m (p + 3)) := acpiCpuCount s],
          acpiCpuLapicIds := (acpiCpuLapicIds s)[unat (acpiCpuCount s) := m (p + 3)],
          acpiCpuCount := acpiCpuCount s + 1\<rparr>
      else if m p = 1 then
        map_rw (ucast (read32 m (p + 4))) (ucast (read32 m (p + 4)) + 0x1000)
          (s\<lparr>ioApicAddr := ucast (read32 m (p + 4))\<rparr>)
      else s)"

partial_function (option) madt_loop :: "mem \<Rightarrow> u64 \<Rightarrow> u64 \<Rightarrow> acpi \<Rightarrow> acpi option" where
  "madt_loop m p e s =
     (if p < e then madt_loop m (p + ucast (m (p + 1))) e (madt_entry m p (map_ro p (p + 2) s))
      else Some s)"

definition ParseApic :: "mem \<Rightarrow> u64 \<Rightarrow> acpi \<Rightarrow> acpi option" where
  "ParseApic m madt s =
     (let s = map_ro madt (madt + 0x1000) s;
          s = s\<lparr>localApicAddr := ucast (read32 m (madt + 36))\<rparr>;
          s = map_rw (localApicAddr s) (localApicAddr s + 0x1000) s;
          p = madt + 44
      in madt_loop m p (p + (ucast (read32 m (madt + 4)) - 44)) s)"

definition ParseDT :: "mem \<Rightarrow> u64 \<Rightarrow> acpi \<Rightarrow> acpi option" where
  "ParseDT m header s =
     (let s = map_ro header (header + 0x1000) s
      in if read32 m header = 0x43495041 then ParseApic m header s else Some s)"

partial_function (option) rsdt_loop :: "mem \<Rightarrow> u64 \<Rightarrow> u64 \<Rightarrow> acpi \<Rightarrow> acpi option" where
  "rsdt_loop m p e s =
     (if p < e then do {
        s \<leftarrow> ParseDT m (ucast (read32 m p)) (map_ro p (p + 4) s);
        rsdt_loop m (p + 4) e s
      } else Some s)"

definition ParseRsdt :: "mem \<Rightarrow> u64 \<Rightarrow> acpi \<Rightarrow> acpi option" where
  "ParseRsdt m rsdt s =
     (let p = rsdt + 36
      in rsdt_loop m p (p + 4 * ((ucast (read32 m (rsdt + 4)) - 36) div 4)) (map_ro rsdt (rsdt + 0x1000) s))"

partial_function (option) xsdt_loop :: "mem \<Rightarrow> u64 \<Rightarrow> u64 \<Rightarrow> acpi \<Rightarrow> acpi option" where
  "xsdt_loop m p e s =
     (if p < e then do {
        s \<leftarrow> ParseDT m (read64 m p) (map_ro p (p + 8) s);
        xsdt_loop m p e s
      } else Some s)"

definition ParseXsdt :: "mem \<Rightarrow> u64 \<Rightarrow> acpi \<Rightarrow> acpi option" where
  "ParseXsdt m xsdt s =
     (let p = xsdt + 36
      in xsdt_loop m p (p + (ucast (read32 m (xsdt + 4)) - 36)) (map_ro xsdt (xsdt + 0x1000) s))"

definition rsdp_sum :: "mem \<Rightarrow> u64 \<Rightarrow> u8" where
  "rsdp_sum m p = sum_list (map (\<lambda>i. m (p + of_nat i)) [0..<20])"

definition ParseRsdp :: "mem \<Rightarrow> u64 \<Rightarrow> acpi \<Rightarrow> (bool \<times> acpi) option" where
  "ParseRsdp m p s =
     (if rsdp_sum m p \<noteq> 0 then Some (False, s)
      else
        let s = map_ro (p + 16) (p + 20) (s\<lparr>rsdpAddr := p\<rparr>);
            rsdtAddr = read32 m (p + 16)
        in if m (p + 15) = 0 then map_option (Pair True) (ParseRsdt m (ucast rsdtAddr) s)
        else if m (p + 15) = 2 then
          (let s = map_ro (p + 24) (p + 32) s;
               xsdtAddr = read64 m (p + 24)
           in map_option (Pair True)
                (if xsdtAddr \<noteq> 0 then ParseXsdt m xsdtAddr s else ParseRsdt m (ucast rsdtAddr) s))
        else Some (True, s))"

definition ACPI_SIG_RTP_DSR :: u64 where "ACPI_SIG_RTP_DSR = 0x2052545020445352"

text \<open>The candidates of \<^verbatim>\<open>init\<close>: the two addresses from EFI (0 when absent), then the BIOS area.\<close>

definition try_efi :: "mem \<Rightarrow> u64 \<Rightarrow> acpi \<Rightarrow> (bool \<times> acpi) option" where
  "try_efi m ptr s =
     (if ptr = 0 then Some (False, s)
      else let s = map_ro ptr (ptr + 8) s
           in if read64 m ptr \<noteq> ACPI_SIG_RTP_DSR then Some (False, s) else ParseRsdp m ptr s)"

partial_function (option) bios_loop :: "mem \<Rightarrow> u64 \<Rightarrow> acpi \<Rightarrow> (bool \<times> acpi) option" where
  "bios_loop m ptr s =
     (if ptr < 0xFFFFF then
        (if read64 m ptr = ACPI_SIG_RTP_DSR then do {
           (ok, s) \<leftarrow> ParseRsdp m ptr s;
           if ok then Some (True, s) else bios_loop m (ptr + 16) s
         } else bios_loop m (ptr + 16) s)
      else Some (False, s))"

definition find_tables :: "mem \<Rightarrow> u64 \<Rightarrow> u64 \<Rightarrow> acpi \<Rightarrow> (bool \<times> acpi) option" where
  "find_tables m acpi2 acpi1 s = do {
     let s = s\<lparr>acpiCpuCount := 0, activeCpuCount := 1, localApicAddr := 0, ioApicAddr := 0\<rparr>;
     (ok, s) \<leftarrow> try_efi m acpi2 s;
     if ok then Some (True, s)
     else do {
       (ok, s) \<leftarrow> try_efi m acpi1 s;
       if ok then Some (True, s)
       else bios_loop m 0xE0000 (map_ro 0xE0000 0xFFFFF s)
     }
   }"

section \<open>Processors\<close>

definition getLapicIDOfCPU :: "u8 \<Rightarrow> acpi \<Rightarrow> u8" where
  "getLapicIDOfCPU i s = (if localApicAddr s = 0 then 0 else acpiCpuLapicIds s ! unat i)"

definition getCPUIDOfLapic :: "u8 \<Rightarrow> acpi \<Rightarrow> u8" where
  "getCPUIDOfLapic i s = (if localApicAddr s = 0 then 0 else acpiLapicCpuIds s ! unat i)"

definition getCPUCount :: "acpi \<Rightarrow> u32" where
  "getCPUCount s = (if localApicAddr s = 0 then 1 else ucast (acpiCpuCount s))"

definition getActiveCPUCount :: "acpi \<Rightarrow> u32" where
  "getActiveCPUCount s = (if localApicAddr s = 0 then 1 else ucast (activeCpuCount s))"

definition getRSDPAddr :: "acpi \<Rightarrow> u64" where
  "getRSDPAddr s = rsdpAddr s"

definition getLapicAddr :: "acpi \<Rightarrow> u64" where
  "getLapicAddr s = localApicAddr s"

section \<open>The local APIC\<close>

text \<open>\<open>reg\<close> is what the hardware returns for a register.\<close>

definition LapicIn :: "(u32 \<Rightarrow> u32) \<Rightarrow> u32 \<Rightarrow> acpi \<Rightarrow> u32" where
  "LapicIn reg r s = (if localApicAddr s = 0 then 0 else reg r)"

definition LapicOut :: "u32 \<Rightarrow> u32 \<Rightarrow> acpi \<Rightarrow> acpi" where
  "LapicOut r v s = (if localApicAddr s = 0 then s else s\<lparr>lapic := lapic s @ [(r, v)]\<rparr>)"

definition getLapicID :: "(u32 \<Rightarrow> u32) \<Rightarrow> acpi \<Rightarrow> u8" where
  "getLapicID reg s = (if localApicAddr s = 0 then 0 else ucast (drop_bit 24 (LapicIn reg 0x20 s)))"

definition getCPUID :: "(u32 \<Rightarrow> u32) \<Rightarrow> acpi \<Rightarrow> u8" where
  "getCPUID reg s = (if localApicAddr s = 0 then 0 else getCPUIDOfLapic (getLapicID reg s) s)"

definition EOI :: "acpi \<Rightarrow> acpi" where
  "EOI s = LapicOut 0xB0 0 s"

text \<open>
  The rest of \<^verbatim>\<open>init\<close>: an APIC that no table names is found through its model-specific register, then the
  timer is measured against channel 2 of the interval timer. \<open>msr\<close> is what \<^verbatim>\<open>rdmsr\<close> leaves in the register
  the compiler chose, \<open>a\<close> and \<open>b\<close> what the two reads of port \<^verbatim>\<open>0x61\<close> give; the wait for the channel to run
  out only delays.
\<close>

definition detect_lapic :: "bool \<Rightarrow> u64 \<Rightarrow> (u32 \<Rightarrow> u32) \<Rightarrow> acpi \<Rightarrow> acpi" where
  "detect_lapic apic msr reg s =
     (if apic \<and> localApicAddr s = 0 then
        let a = msr AND NOT 0xFFF;
            s = map_rw a (a + 0x1000) (s\<lparr>localApicAddr := a\<rparr>);
            lapicId = getLapicID reg s
        in s\<lparr>acpiCpuLapicIds := (acpiCpuLapicIds s)[0 := lapicId],
             acpiLapicCpuIds := (acpiLapicCpuIds s)[unat lapicId := 0],
             acpiCpuCount := 1\<rparr>
      else s)"

definition out8 :: "u16 \<Rightarrow> u8 \<Rightarrow> acpi \<Rightarrow> acpi" where
  "out8 p v s = s\<lparr>ports := ports s @ [(p, v)]\<rparr>"

definition measure_bus :: "u8 \<Rightarrow> u8 \<Rightarrow> (u32 \<Rightarrow> u32) \<Rightarrow> acpi \<Rightarrow> acpi" where
  "measure_bus a b reg s =
     (let s = LapicOut 0x3E0 3 s;
          s = LapicOut 0x320 (0x20 OR 0x100) s;
          s = out8 0x61 ((a AND 0xFD) OR 1) s;
          s = out8 0x43 0xB2 s;
          s = out8 0x42 0x9B s;
          s = out8 0x42 0x2E s;
          t = b AND 0xFE;
          s = out8 0x61 t s;
          s = out8 0x61 (t OR 1) s;
          s = LapicOut 0x380 0xFFFFFFFF s;
          s = LapicOut 0x320 0x10000 s
      in s\<lparr>busfreq := push_bit 4 (ucast (0xFFFFFFFF - LapicIn reg 0x390 s)) * 100\<rparr>)"

definition init :: "mem \<Rightarrow> u64 \<Rightarrow> u64 \<Rightarrow> bool \<Rightarrow> u64 \<Rightarrow> u8 \<Rightarrow> u8 \<Rightarrow> (u32 \<Rightarrow> u32) \<Rightarrow> acpi \<Rightarrow> acpi option" where
  "init m acpi2 acpi1 apic msr a b reg s = do {
     (_, s) \<leftarrow> find_tables m acpi2 acpi1 s;
     let s = detect_lapic apic msr reg s;
     Some (if localApicAddr s = 0 then s\<lparr>acpiCpuCount := 1\<rparr> else measure_bus a b reg s)
   }"

definition timer_count :: "acpi \<Rightarrow> u32" where
  "timer_count s = (let c = drop_bit 4 (busfreq s div 1000); c = (if c < 0x10 then 0x10 else c) in ucast (c AND 0xFFFFFFFF))"

definition initCPU :: "(u32 \<Rightarrow> u32) \<Rightarrow> acpi \<Rightarrow> acpi" where
  "initCPU reg s =
     (let s = LapicOut 0xE0 0xFFFFFFFF s;
          s = LapicOut 0xD0 ((LapicIn reg 0xD0 s AND 0x00FFFFFF) OR 1) s;
          s = LapicOut 0x320 0x10000 s;
          s = LapicOut 0x340 0x400 s;
          s = LapicOut 0x350 0x10000 s;
          s = LapicOut 0x360 0x10000 s;
          s = LapicOut 0x80 0 s;
          s = LapicOut 0xF0 (0x27 OR 0x100) s;
          s = LapicOut 0x380 (timer_count s) s;
          s = LapicOut 0x3E0 3 s
      in LapicOut 0x320 (0x20 OR 0x20000) s)"

definition activateCPU :: "(u32 \<Rightarrow> u32) \<Rightarrow> acpi \<Rightarrow> acpi" where
  "activateCPU reg s =
     (if localApicAddr s = 0 then s
      else let s = initCPU reg s in EOI (s\<lparr>activeCpuCount := activeCpuCount s + 1\<rparr>))"

text \<open>Sending INIT and STARTUP; the wait for the delivery bit to clear is left to the hardware.\<close>

definition sendCPUInit :: "u32 \<Rightarrow> acpi \<Rightarrow> acpi" where
  "sendCPUInit i s =
     (if localApicAddr s = 0 then s else LapicOut 0x300 0x00004500 (LapicOut 0x310 (push_bit 24 i) s))"

definition sendCPUStartup :: "u32 \<Rightarrow> u8 \<Rightarrow> acpi \<Rightarrow> acpi" where
  "sendCPUStartup i vector s =
     (if localApicAddr s = 0 then s
      else LapicOut 0x300 (ucast vector OR 0x00004600) (LapicOut 0x310 (push_bit 24 i) s))"

section \<open>The IO-APIC\<close>

text \<open>The device: a selected register and the registers behind the window.\<close>

record ioapic =
  regsel :: u32
  ioregs :: "u32 \<Rightarrow> u32"

definition io_write :: "u64 \<Rightarrow> u32 \<Rightarrow> ioapic \<Rightarrow> ioapic" where
  "io_write off v d =
     (if off = 0 then d\<lparr>regsel := v\<rparr>
      else if off = 0x10 then d\<lparr>ioregs := (ioregs d)(regsel d := v)\<rparr> else d)"

definition IOapicIn :: "u32 \<Rightarrow> acpi \<Rightarrow> ioapic \<Rightarrow> u32 \<times> ioapic" where
  "IOapicIn r s d =
     (if ioApicAddr s = 0 then (0, d)
      else let d = io_write 0 r d in (ioregs d (regsel d), d))"

definition IOapicOut :: "u32 \<Rightarrow> u32 \<Rightarrow> acpi \<Rightarrow> ioapic \<Rightarrow> ioapic" where
  "IOapicOut r v s d = (if ioApicAddr s = 0 then d else io_write 0x10 v (io_write 0 r d))"

definition IOapicMap :: "u32 \<Rightarrow> u32 \<times> u32 \<Rightarrow> acpi \<Rightarrow> ioapic \<Rightarrow> ioapic" where
  "IOapicMap idx r s d = IOapicOut (0x10 + idx * 2 + 1) (snd r) s (IOapicOut (0x10 + idx * 2 + 0) (fst r) s d)"

definition IOapicReadMap :: "u32 \<Rightarrow> acpi \<Rightarrow> ioapic \<Rightarrow> (u32 \<times> u32) \<times> ioapic" where
  "IOapicReadMap idx s d =
     (let (a, d) = IOapicIn (0x10 + idx * 2 + 0) s d;
          (b, d) = IOapicIn (0x10 + idx * 2 + 1) s d
      in ((a, b), d))"

text \<open>The two raw words of \<^verbatim>\<open>IOApicRedir\<close>.\<close>

record redir =
  vector :: u8
  deliveryMode :: u8
  destinationMode :: bool
  deliveryStatus :: bool
  pinPolarity :: bool
  remoteIRR :: bool
  triggerMode :: bool
  rmask :: bool
  destination :: u8

definition redir_raw :: "u64 \<Rightarrow> redir \<Rightarrow> u32 \<times> u32" where
  "redir_raw reserved r =
     (ucast (vector r) OR push_bit 8 (ucast (take_bit 3 (deliveryMode r)))
      OR push_bit 11 (of_bool (destinationMode r)) OR push_bit 12 (of_bool (deliveryStatus r))
      OR push_bit 13 (of_bool (pinPolarity r)) OR push_bit 14 (of_bool (remoteIRR r))
      OR push_bit 15 (of_bool (triggerMode r)) OR push_bit 16 (of_bool (rmask r))
      OR push_bit 17 (ucast (take_bit 15 reserved)),
      ucast (take_bit 24 (drop_bit 15 reserved)) OR push_bit 24 (ucast (destination r)))"

definition kbd_redir :: redir where
  "kbd_redir = \<lparr>vector = 0x21, deliveryMode = 1, destinationMode = False, deliveryStatus = False, pinPolarity = False,
     remoteIRR = False, triggerMode = False, rmask = False, destination = 0\<rparr>"

definition initIOAPIC :: "u64 \<Rightarrow> acpi \<Rightarrow> ioapic \<Rightarrow> acpi \<times> ioapic" where
  "initIOAPIC junk s d =
     (if ioApicAddr s = 0 then (s, d)
      else let (v, d) = IOapicIn 0x1 s d;
               s = s\<lparr>ioApicMaxCount := ucast (drop_bit 16 v AND 0xFF)\<rparr>
           in (s, IOapicMap 1 (redir_raw junk kbd_redir) s d))"

definition initAPIC :: "(u32 \<Rightarrow> u32) \<Rightarrow> u64 \<Rightarrow> acpi \<Rightarrow> ioapic \<Rightarrow> bool \<times> acpi \<times> ioapic" where
  "initAPIC reg junk s d =
     (if localApicAddr s = 0 then (False, s, d)
      else let s = initCPU reg s; (s, d) = initIOAPIC junk s d in (True, EOI s, d))"

section \<open>Parsing a MADT\<close>

text \<open>The entries of a table and their bytes.\<close>

datatype entry = LocalApic u8 u8 u32 | IoApic u8 u32 u32 | OtherEntry u8 "u8 list"

fun encode :: "entry \<Rightarrow> u8 list" where
  "encode (LocalApic proc i flags) = [0, 8, proc, i] @ bytes32 flags"
| "encode (IoApic i addr gsib) = [1, 12, i, 0] @ bytes32 addr @ bytes32 gsib"
| "encode (OtherEntry t body) = [t, of_nat (2 + length body)] @ body"

fun entry_ok :: "entry \<Rightarrow> bool" where
  "entry_ok (OtherEntry t body) \<longleftrightarrow> t \<noteq> 0 \<and> t \<noteq> 1 \<and> 2 + length body < 256"
| "entry_ok e \<longleftrightarrow> True"

text \<open>What an entry means.\<close>

fun apply_entry :: "entry \<Rightarrow> acpi \<Rightarrow> acpi" where
  "apply_entry (LocalApic proc i flags) s =
     s\<lparr>acpiLapicCpuIds := (acpiLapicCpuIds s)[unat i := acpiCpuCount s],
       acpiCpuLapicIds := (acpiCpuLapicIds s)[unat (acpiCpuCount s) := i],
       acpiCpuCount := acpiCpuCount s + 1\<rparr>"
| "apply_entry (IoApic i addr gsib) s = s\<lparr>ioApicAddr := ucast addr\<rparr>"
| "apply_entry (OtherEntry t body) s = s"

text \<open>States up to the record of mapped pages.\<close>

definition forget_maps :: "acpi \<Rightarrow> acpi" where
  "forget_maps s = s\<lparr>maps := []\<rparr>"

lemma forget_maps_map [simp]: "forget_maps (map_ro a b s) = forget_maps s" "forget_maps (map_rw a b s) = forget_maps s"
  by (simp_all add: forget_maps_def map_ro_def map_rw_def)

lemma forget_maps_apply: "forget_maps s = forget_maps t \<Longrightarrow> forget_maps (apply_entry e s) = forget_maps (apply_entry e t)"
  by (cases s; cases t; cases e) (simp_all add: forget_maps_def)

lemma unat_of_nat_u8: "n < 256 \<Longrightarrow> unat (of_nat n :: u8) = n"
  by (simp add: unsigned_of_nat take_bit_nat_eq_self)

lemma entry_length: "length (encode e) = unat (encode e ! 1)" if "entry_ok e"
proof (cases e)
  case (OtherEntry t body)
  then show ?thesis using that unat_of_nat_u8 [of "2 + length body"] by simp
qed (simp_all add: bytes32_def)

lemma entry_length_pos: "2 \<le> length (encode e)"
  by (cases e) (simp_all add: bytes32_def)

lemma madt_entry_apply:
  assumes "holds m p (encode e @ rest)" and "entry_ok e" and "forget_maps s = forget_maps t"
  shows "forget_maps (madt_entry m p s) = forget_maps (apply_entry e t)"
proof -
  have "forget_maps (madt_entry m p s) = forget_maps (apply_entry e s)"
  proof (cases e)
    case (LocalApic proc i flags)
    then show ?thesis using assms(1) by (simp add: madt_entry_def holds_Cons add.assoc)
  next
    case (IoApic i addr gsib)
    then have "holds m (p + 4) (bytes32 addr @ bytes32 gsib @ rest)" "m p = 1"
      using assms(1) by (simp_all add: holds_Cons add.assoc)
    then show ?thesis using IoApic read32_holds by (simp add: madt_entry_def)
  next
    case (OtherEntry t body)
    then show ?thesis using assms(1,2) by (simp add: madt_entry_def holds_Cons)
  qed
  also have "\<dots> = forget_maps (apply_entry e t)" using assms(3) by (rule forget_maps_apply)
  finally show ?thesis .
qed

lemma madt_loop_entries:
  assumes "holds m p (concat (map encode es))" and "list_all entry_ok es"
    and "unat p + length (concat (map encode es)) < 18446744073709551616" and "forget_maps s = forget_maps t"
  shows "\<exists>s'. madt_loop m p (p + of_nat (length (concat (map encode es)))) s = Some s'
    \<and> forget_maps s' = forget_maps (fold apply_entry es t)"
  using assms
proof (induction es arbitrary: p s t)
  case Nil
  then show ?case by (subst madt_loop.simps) simp
next
  case (Cons e es)
  let ?n = "length (encode e)" and ?k = "length (concat (map encode es))"
  let ?s = "madt_entry m p (map_ro p (p + 2) s)"
  have h: "holds m p (encode e @ concat (map encode es))" using Cons.prems(1) by simp
  have tail: "holds m (p + of_nat ?n) (concat (map encode es))" using h by (simp add: holds_append)
  have "m (p + 1) = encode e ! 1"
    using h entry_length_pos [of e] unfolding holds_append by (simp add: holds_def) (metis Suc_le_lessD numeral_2_eq_2 of_nat_1 One_nat_def)
  then have n: "ucast (m (p + 1)) = (of_nat ?n :: u64)"
    using entry_length [of e] Cons.prems(2) by simp
  have un: "unat (p + of_nat ?n) = unat p + ?n"
    using Cons.prems(3) by (subst unat_add_u64) (simp_all add: unat_of_nat_u64)
  have "unat (of_nat (?n + ?k) :: u64) = ?n + ?k" using Cons.prems(3) by (intro unat_of_nat_u64) simp
  then have ue: "unat (p + of_nat (?n + ?k)) = unat p + (?n + ?k)"
    using Cons.prems(3) by (subst unat_add_u64) (simp_all del: of_nat_add)
  have lt: "p < p + of_nat (?n + ?k)" unfolding word_less_nat_alt ue using entry_length_pos [of e] by linarith
  have "forget_maps ?s = forget_maps (apply_entry e t)"
    using madt_entry_apply [OF h, of "map_ro p (p + 2) s" t] Cons.prems(2,4) by simp
  then obtain s' where "madt_loop m (p + of_nat ?n) (p + of_nat ?n + of_nat ?k) ?s = Some s'"
      "forget_maps s' = forget_maps (fold apply_entry es (apply_entry e t))"
    using Cons.IH [OF tail, of ?s "apply_entry e t"] Cons.prems(2,3) un by auto
  then show ?case
    using lt n by (subst madt_loop.simps) (simp add: add.assoc)
qed

text \<open>The two tables are inverse to each other when the identifiers are distinct.\<close>

fun lapic_ids :: "entry list \<Rightarrow> u8 list" where
  "lapic_ids [] = []"
| "lapic_ids (LocalApic proc i flags # es) = i # lapic_ids es"
| "lapic_ids (e # es) = lapic_ids es"

definition ids_ok :: "acpi \<Rightarrow> u8 list \<Rightarrow> bool" where
  "ids_ok s l \<longleftrightarrow> unat (acpiCpuCount s) = length l \<and> length (acpiCpuLapicIds s) = 256 \<and> length (acpiLapicCpuIds s) = 256
     \<and> (\<forall>k < length l. acpiCpuLapicIds s ! k = l ! k \<and> acpiLapicCpuIds s ! unat (l ! k) = of_nat k)"

lemma unat_u8 [simp]: "unat (b :: u8) < 256"
  using unsigned_less [of b] by simp

lemma unat_ucast_u8_u32 [simp]: "unat (ucast (b :: u8) :: u32) = unat b"
proof -
  have "unat b < 4294967296" using unat_u8 [of b] by linarith
  then show ?thesis using take_bit_nat_eq_self [of "unat b" 32] by (simp add: unsigned_ucast_eq)
qed

lemma ids_ok_local:
  assumes ok: "ids_ok s l" and new: "i \<notin> set l" and room: "length l < 255"
  shows "ids_ok (apply_entry (LocalApic proc i flags) s) (l @ [i])"
proof -
  have "unat (acpiCpuCount s + 1) = length l + 1"
    using ok room by (simp add: ids_ok_def unat_word_ariths)
  moreover have "acpiCpuCount s = of_nat (length l)"
  proof -
    have "unat (acpiCpuCount s) = length l" using ok by (simp add: ids_ok_def)
    then show ?thesis by (simp flip: \<open>unat (acpiCpuCount s) = length l\<close>)
  qed
  moreover have "unat i \<noteq> unat (l ! k)" if "k < length l" for k
    using new that by (metis nth_mem word_unat_eq_iff)
  ultimately show ?thesis
    using ok room by (auto simp: ids_ok_def nth_append less_Suc_eq nth_list_update)
qed

lemma ids_ok_other: "ids_ok (s\<lparr>ioApicAddr := a\<rparr>) l = ids_ok s l"
  by (simp add: ids_ok_def)

lemma ids_ok_fold:
  assumes "ids_ok s l" and "distinct (l @ lapic_ids es)" and "length (l @ lapic_ids es) \<le> 255"
  shows "ids_ok (fold apply_entry es s) (l @ lapic_ids es)"
  using assms
proof (induction es arbitrary: s l rule: lapic_ids.induct)
  case (2 proc i flags es)
  then have "ids_ok (apply_entry (LocalApic proc i flags) s) (l @ [i])"
    by (intro ids_ok_local) auto
  then show ?case using 2(1) [of "apply_entry (LocalApic proc i flags) s" "l @ [i]"] 2(3,4) by simp
qed (simp_all add: ids_ok_other)

text \<open>
  C39: ParseApic on a well-formed MADT with at most 255 local APICs returns, numbers the
  processors in table order, and getLapicIDOfCPU and getCPUIDOfLapic are inverse to each other
  on them; entries of other types are skipped by their length.
\<close>

theorem madt_processors:
  assumes table: "holds m (madt + 44) (concat (map encode es))" "list_all entry_ok es"
    and len: "unat (read32 m (madt + 4)) = 44 + length (concat (map encode es))"
    and top: "unat madt + 44 + length (concat (map encode es)) < 18446744073709551616"
    and fresh: "acpiCpuCount s = 0" "length (acpiCpuLapicIds s) = 256" "length (acpiLapicCpuIds s) = 256"
    and ids: "distinct (lapic_ids es)" "length (lapic_ids es) \<le> 255" and lapic: "read32 m (madt + 36) \<noteq> 0"
  shows "\<exists>s'. ParseApic m madt s = Some s'
    \<and> unat (getCPUCount s') = length (lapic_ids es)
    \<and> (\<forall>k < length (lapic_ids es). getLapicIDOfCPU (of_nat k) s' = lapic_ids es ! k
         \<and> getCPUIDOfLapic (lapic_ids es ! k) s' = of_nat k)"
proof -
  let ?n = "length (concat (map encode es))" and ?a = "ucast (read32 m (madt + 36)) :: u64"
  let ?s = "map_rw ?a (?a + 0x1000) ((map_ro madt (madt + 0x1000) s)\<lparr>localApicAddr := ?a\<rparr>)"
  have "unat (ucast (read32 m (madt + 4)) :: u64) = 44 + ?n" using len by simp
  from of_nat_unat_eq [OF this] have end_eq: "(ucast (read32 m (madt + 4)) :: u64) - 44 = of_nat ?n"
    by simp
  have u: "unat (madt + 44) = unat madt + 44" using top by (simp add: unat_add_u64)
  obtain s' where s': "madt_loop m (madt + 44) (madt + 44 + of_nat ?n) ?s = Some s'"
      "forget_maps s' = forget_maps (fold apply_entry es ?s)"
    using madt_loop_entries [OF table, of ?s ?s] top u by auto
  have keep: "localApicAddr (fold apply_entry es t) = localApicAddr t" for t
  proof (induction es arbitrary: t)
    case (Cons e es)
    then show ?case by (cases e) simp_all
  qed simp
  have a: "?a \<noteq> 0" using lapic by simp
  have "ids_ok ?s []" using fresh by (simp add: ids_ok_def map_rw_def map_ro_def)
  then have "ids_ok (fold apply_entry es ?s) (lapic_ids es)" using ids_ok_fold [of ?s "[]" es] ids by simp
  then have fin: "ids_ok s' (lapic_ids es)" "localApicAddr s' = ?a"
    using s'(2) keep [of ?s] by (cases s'; cases "fold apply_entry es ?s"; simp add: forget_maps_def ids_ok_def map_rw_def)+
  have "ParseApic m madt s = Some s'"
    using s'(1) by (simp add: ParseApic_def Let_def end_eq map_rw_def map_ro_def)
  moreover have "unat (of_nat k :: u8) = k" if "k < length (lapic_ids es)" for k
    using that ids(2) by (intro unat_of_nat_u8) simp
  ultimately show ?thesis
    using fin a by (auto simp: getCPUCount_def getLapicIDOfCPU_def getCPUIDOfLapic_def ids_ok_def)
qed

text \<open>The loop over an extended table never advances.\<close>

lemma xsdt_loop_stuck:
  assumes "xsdt_loop m p e s = Some s'"
  shows "\<not> p < e"
proof -
  have "p < e \<longrightarrow> False"
  proof (rule xsdt_loop.raw_induct [of "\<lambda>m p e s s'. p < e \<longrightarrow> False", OF _ assms])
    fix f :: "mem \<Rightarrow> u64 \<Rightarrow> u64 \<Rightarrow> acpi \<Rightarrow> acpi option" and m p e s s'
    assume ih: "\<And>m p e s s'. f m p e s = Some s' \<Longrightarrow> p < e \<longrightarrow> False"
      and run: "(if p < e then do { s \<leftarrow> ParseDT m (read64 m p) (map_ro p (p + 8) s); f m p e s } else Some s) = Some s'"
    show "p < e \<longrightarrow> False"
    proof
      assume "p < e"
      with run obtain t where "f m p e t = Some s'" by (auto simp: bind_eq_Some_conv)
      from ih [OF this] \<open>p < e\<close> show False by blast
    qed
  qed
  then show ?thesis by blast
qed

text \<open>
  ParseXsdt on a table with at least one byte of entries never returns, whatever the entries
  are: its loop does not advance.
\<close>

theorem xsdt_never_returns:
  assumes "36 < unat (read32 m (xsdt + 4))" and "unat xsdt + unat (read32 m (xsdt + 4)) < 18446744073709551616"
  shows "ParseXsdt m xsdt s = None"
proof -
  let ?l = "ucast (read32 m (xsdt + 4)) :: u64"
  have l: "unat ?l = unat (read32 m (xsdt + 4))" by simp
  have d: "unat (?l - 36) = unat ?l - 36" using assms(1) l by (intro unat_diff_u64 [THEN trans]) (simp_all add: word_le_nat_alt)
  have x: "unat (xsdt + 36) = unat xsdt + 36" using assms by (simp add: unat_add_u64)
  then have "unat (xsdt + 36 + (?l - 36)) = unat xsdt + 36 + (unat ?l - 36)"
    using assms d l by (subst unat_add_u64) simp_all
  then have "xsdt + 36 < xsdt + 36 + (?l - 36)"
    using assms(1) l x by (simp only: word_less_nat_alt)
  then have "xsdt_loop m (xsdt + 36) (xsdt + 36 + (?l - 36)) (map_ro xsdt (xsdt + 0x1000) s) \<noteq> Some s'" for s'
    using xsdt_loop_stuck by blast
  then show ?thesis
    unfolding ParseXsdt_def Let_def by (metis not_None_eq)
qed

text \<open>The redirection registers of different lines are different.\<close>

lemma redir_register:
  fixes i j :: u32
  assumes "i < 0x78" "j < 0x78"
  shows "0x10 + i * 2 = 0x10 + j * 2 \<longleftrightarrow> i = j" "0x10 + i * 2 + 1 = 0x10 + j * 2 + 1 \<longleftrightarrow> i = j"
    and "0x10 + i * 2 + 1 \<noteq> 0x10 + j * 2"
proof -
  have u: "unat (0x10 + k * 2) = 16 + 2 * unat k" "unat (0x10 + k * 2 + 1) = 17 + 2 * unat k" if "k < 0x78" for k :: u32
    using that by (simp_all add: unat_word_ariths word_less_nat_alt)
  show "0x10 + i * 2 = 0x10 + j * 2 \<longleftrightarrow> i = j" "0x10 + i * 2 + 1 = 0x10 + j * 2 + 1 \<longleftrightarrow> i = j"
    using u [OF assms(1)] u [OF assms(2)] by (auto simp only: word_unat_eq_iff)
  show "0x10 + i * 2 + 1 \<noteq> 0x10 + j * 2"
  proof
    assume "0x10 + i * 2 + 1 = 0x10 + j * 2"
    then have "17 + 2 * unat i = 16 + 2 * unat j" using u [OF assms(1)] u [OF assms(2)] by metis
    then show False by presburger
  qed
qed

text \<open>
  IOapicReadMap of a line returns what the last IOapicMap of that line wrote, and writing one
  of the 120 lines leaves every other as it was.
\<close>

theorem ioapic_roundtrip:
  assumes "idx < 0x78" "idx' < 0x78" and "ioApicAddr s \<noteq> 0"
  shows "fst (IOapicReadMap idx' s (IOapicMap idx r s d)) = (if idx' = idx then r else fst (IOapicReadMap idx' s d))"
proof -
  have ne: "0x10 + idx' * 2 + 1 \<noteq> 0x10 + idx * 2" "0x10 + idx' * 2 \<noteq> 0x10 + idx * 2 + 1"
    using redir_register(3) [OF assms(2,1)] redir_register(3) [OF assms(1,2)] by metis+
  show ?thesis
    using assms(3) redir_register(1,2) [OF assms(2,1)] ne
    unfolding IOapicReadMap_def IOapicMap_def IOapicIn_def IOapicOut_def io_write_def
    by (cases "idx' = idx") (simp_all del: add_right_cancel add_left_cancel)
qed

section \<open>A concrete table\<close>

text \<open>Two processors with the APIC identifiers 0 and 2, at address \<^verbatim>\<open>0x1000\<close>.\<close>

definition demo_entries :: "entry list" where
  "demo_entries = [LocalApic 0 0 1, OtherEntry 2 [0, 0], LocalApic 1 2 1]"

definition demo_acpi :: acpi where
  "demo_acpi = \<lparr>localApicAddr = 0, ioApicAddr = 0, rsdpAddr = 0, ioApicMaxCount = 0, acpiCpuLapicIds = replicate 256 0,
     acpiLapicCpuIds = replicate 256 0, acpiCpuCount = 0, activeCpuCount = 1, busfreq = 0, maps = [], lapic = [], ports = []\<rparr>"

definition demo_table :: "u8 list" where
  "demo_table = bytes32 0x43495041 @ bytes32 64 @ replicate 28 0 @ bytes32 0xFEE00000 @ bytes32 0
     @ concat (map encode demo_entries)"

definition demo_mem :: mem where
  "demo_mem a = (if unat (a - 0x1000) < length demo_table then demo_table ! unat (a - 0x1000) else 0)"

lemma demo_holds: "holds demo_mem 0x1000 demo_table"
proof -
  have "length demo_table = 64" by (simp add: demo_table_def bytes32_def demo_entries_def)
  then show ?thesis by (simp add: holds_def demo_mem_def unat_of_nat_u64)
qed

lemma demo_words: "read32 demo_mem 0x1004 = 64" "read32 demo_mem 0x1024 = 0xFEE00000"
  "holds demo_mem 0x102C (concat (map encode demo_entries))"
proof -
  have len: "length (bytes32 w) = 4" for w by (simp add: bytes32_def)
  have "holds demo_mem 0x1004 (bytes32 64)" "holds demo_mem 0x1024 (bytes32 0xFEE00000)"
      "holds demo_mem 0x102C (concat (map encode demo_entries))"
    using demo_holds unfolding demo_table_def holds_append by (simp_all add: len)
  then show "read32 demo_mem 0x1004 = 64" "read32 demo_mem 0x1024 = 0xFEE00000"
      "holds demo_mem 0x102C (concat (map encode demo_entries))"
    using read32_holds [where rest = "[]"] by simp_all
qed

theorem madt_processors_witness:
  "\<exists>s'. ParseApic demo_mem 0x1000 demo_acpi = Some s' \<and> unat (getCPUCount s') = 2
     \<and> getLapicIDOfCPU 1 s' = 2 \<and> getCPUIDOfLapic 2 s' = 1"
proof -
  note demo_words
  moreover have "length (concat (map encode demo_entries)) = 20" by (simp add: demo_entries_def bytes32_def)
  moreover have "lapic_ids demo_entries = [0, 2]" "list_all entry_ok demo_entries" by (simp_all add: demo_entries_def)
  ultimately obtain s' where "ParseApic demo_mem 0x1000 demo_acpi = Some s'" "unat (getCPUCount s') = 2"
      "\<forall>k < 2. getLapicIDOfCPU (of_nat k) s' = [0, 2] ! k \<and> getCPUIDOfLapic ([0, 2] ! k) s' = of_nat k"
    using madt_processors [of demo_mem "0x1000" demo_entries demo_acpi]
    by (auto simp: demo_acpi_def)
  then show ?thesis by (auto dest: spec [of _ 1])
qed

theorem xsdt_never_returns_witness: "ParseXsdt demo_mem 0x1000 demo_acpi = None"
  by (rule xsdt_never_returns) (simp_all add: demo_words)

theorem ioapic_roundtrip_witness:
  "fst (IOapicReadMap 1 (demo_acpi\<lparr>ioApicAddr := 0xFEC00000\<rparr>)
     (IOapicMap 1 (0x21, 0) (demo_acpi\<lparr>ioApicAddr := 0xFEC00000\<rparr>) \<lparr>regsel = 0, ioregs = (\<lambda>_. 7)\<rparr>)) = (0x21, 0)"
  by (subst ioapic_roundtrip) simp_all

end
