(* ===== verification/Usermem.thy ===== *)
theory Usermem
  imports Process
begin

text \<open>
  The interface between a process and the code that reads and writes structures in its memory, the
  kernel linker and the ELF loader: \<^verbatim>\<open>Process::readData\<close> and \<^verbatim>\<open>Process::writeData\<close> as a memory of
  virtual addresses.
\<close>

section \<open>The interface of user memory\<close>

text \<open>
  What the linker and the loader rely on: \<open>rd\<close> and \<open>wr\<close> move bytes, \<open>ok\<close> says that a range is backed
  by memory, every byte by a cell of its own, and \<open>apart\<close> that two ranges share no cell.
\<close>

locale user_memory =
  fixes rd :: "'s \<Rightarrow> u64 \<Rightarrow> nat \<Rightarrow> u8 list option" and wr :: "u64 \<Rightarrow> u8 list \<Rightarrow> 's \<Rightarrow> 's"
    and ok :: "'s \<Rightarrow> u64 \<Rightarrow> nat \<Rightarrow> bool" and apart :: "'s \<Rightarrow> u64 \<Rightarrow> nat \<Rightarrow> u64 \<Rightarrow> nat \<Rightarrow> bool"
  assumes rd_wr_same: "ok s a (length bs) \<Longrightarrow> rd (wr a bs s) a (length bs) = Some bs"
    and rd_wr_apart: "ok s a (length bs) \<Longrightarrow> apart s a (length bs) b n \<Longrightarrow> rd (wr a bs s) b n = rd s b n"
    and ok_wr: "ok s a (length bs) \<Longrightarrow> ok (wr a bs s) b n = ok s b n"
    and ok_part: "ok s a n \<Longrightarrow> i + m \<le> n \<Longrightarrow> ok s (a + of_nat i) m"
    and ok_apart: "ok s a n \<Longrightarrow> i + k \<le> j \<Longrightarrow> j + m \<le> n \<Longrightarrow> apart s (a + of_nat i) k (a + of_nat j) m"
    and apart_sym: "apart s a n b m \<Longrightarrow> apart s b m a n"
    and ok_rd: "ok s a n \<Longrightarrow> \<exists>bs. rd s a n = Some bs \<and> length bs = n"
begin

text \<open>A range as an array of \<open>n\<close> records of \<open>w\<close> bytes: writing one leaves the others.\<close>

lemma slot_ok: "ok s a (n * w) \<Longrightarrow> i < n \<Longrightarrow> ok s (a + of_nat (i * w)) w"
  using ok_part [of s a "n * w" "i * w" w] mult_le_mono1 [of "Suc i" n w] by (simp add: add.commute)

lemma slot_apart:
  assumes "ok s a (n * w)" and "i < n" and "j < n" and "i \<noteq> j"
  shows "apart s (a + of_nat (i * w)) w (a + of_nat (j * w)) w"
proof -
  have le: "Suc i * w \<le> n * w" "Suc j * w \<le> n * w" using assms by (simp_all add: mult_le_mono1 Suc_leI del: mult_Suc)
  show ?thesis
  proof (cases "i < j")
    case True
    then have "Suc i * w \<le> j * w" by (simp add: mult_le_mono1 Suc_leI del: mult_Suc)
    then show ?thesis using ok_apart [OF assms(1), of "i * w" w "j * w" w] le by (simp add: add.commute)
  next
    case False
    then have "Suc j * w \<le> i * w" using assms(4) by (simp add: mult_le_mono1 Suc_leI del: mult_Suc)
    then show ?thesis
      using apart_sym [OF ok_apart [OF assms(1), of "j * w" w "i * w" w]] le by (simp add: add.commute)
  qed
qed

lemma slot_write:
  assumes "ok s a (n * w)" and "i < n" and "j < n" and "length bs = w"
  shows "rd (wr (a + of_nat (i * w)) bs s) (a + of_nat (j * w)) w
    = (if i = j then Some bs else rd s (a + of_nat (j * w)) w)"
  using rd_wr_same [of s "a + of_nat (i * w)" bs] rd_wr_apart [of s "a + of_nat (i * w)" bs]
    slot_ok [OF assms(1,2)] slot_apart [OF assms(1-3)] assms(4) by auto

end

text \<open>A process provides it: \<open>readData\<close> and \<open>writeData\<close> on ranges whose bytes have a frame each.\<close>

definition user_range :: "space \<Rightarrow> u64 \<Rightarrow> nat \<Rightarrow> bool" where
  "user_range s a n \<longleftrightarrow> all_mapped s a n \<and> one_frame_each s a n"

definition no_shared_frame :: "space \<Rightarrow> u64 \<Rightarrow> nat \<Rightarrow> u64 \<Rightarrow> nat \<Rightarrow> bool" where
  "no_shared_frame s a n b m \<longleftrightarrow> frames s a n \<inter> frames s b m = {}"

lemma user_range_part: "user_range s a n \<Longrightarrow> i + m \<le> n \<Longrightarrow> user_range s (a + of_nat i) m"
proof -
  assume r: "user_range s a n" and "i + m \<le> n"
  then obtain k where "n = i + (m + k)" using le_Suc_ex by (metis add.assoc)
  with r have "one_frame_each s (a + of_nat i) (m + k)" "all_mapped s a (i + (m + k))"
    using one_frame_each_tail [of s a i "m + k"] by (simp_all add: user_range_def)
  then show ?thesis
    unfolding user_range_def one_frame_each_def all_mapped_def
    by (auto intro: inj_on_subset simp: add.assoc simp flip: of_nat_add)
qed

lemma user_range_apart:
  assumes "user_range s a n" and "i + k \<le> j" and "j + m \<le> n"
  shows "no_shared_frame s (a + of_nat i) k (a + of_nat j) m"
proof -
  have "False" if "x < k" "y < m"
    "getPhysicalAddress s (a + of_nat (i + x)) = getPhysicalAddress s (a + of_nat (j + y))" for x y
    using inj_onD [OF assms(1) [unfolded user_range_def one_frame_each_def, THEN conjunct2] that(3)] that(1,2) assms(2,3)
    by simp
  then show ?thesis unfolding no_shared_frame_def frames_def by (auto simp: add.assoc)
qed

lemma write_local_memory:
  assumes "user_range s a (length bs)"
  obtains m where "write_local a bs s = s\<lparr>kmem := m\<rparr>"
    "\<And>i. i < length bs \<Longrightarrow> m (getPhysicalAddress s (a + of_nat i)) = bs ! i"
    "\<And>x. x \<notin> frames s a (length bs) \<Longrightarrow> m x = kmem s x"
  using write_local_correct [of s a bs] assms unfolding user_range_def by blast

interpretation um: user_memory read_local write_local user_range no_shared_frame
proof
  fix s :: space and a b :: u64 and bs :: "u8 list" and i j k m n :: nat
  show "user_range s a n \<Longrightarrow> i + m \<le> n \<Longrightarrow> user_range s (a + of_nat i) m" by (rule user_range_part)
  show "user_range s a n \<Longrightarrow> i + k \<le> j \<Longrightarrow> j + m \<le> n \<Longrightarrow> no_shared_frame s (a + of_nat i) k (a + of_nat j) m"
    by (rule user_range_apart)
  show "no_shared_frame s a n b m \<Longrightarrow> no_shared_frame s b m a n" by (auto simp: no_shared_frame_def)
  show "user_range s a n \<Longrightarrow> \<exists>bs. read_local s a n = Some bs \<and> length bs = n"
    by (simp add: user_range_def read_local_vread vread_mapped)
  assume r: "user_range s a (length bs)"
  then obtain m' where w: "write_local a bs s = s\<lparr>kmem := m'\<rparr>"
    "\<And>i. i < length bs \<Longrightarrow> m' (getPhysicalAddress s (a + of_nat i)) = bs ! i"
    "\<And>x. x \<notin> frames s a (length bs) \<Longrightarrow> m' x = kmem s x"
    using write_local_memory by blast
  show "user_range (write_local a bs s) b n = user_range s b n"
    by (simp add: w(1) user_range_def all_mapped_def one_frame_each_def)
  have "map (\<lambda>i. m' (getPhysicalAddress s (a + of_nat i))) [0..<length bs] = bs"
    using w(2) by (intro nth_equalityI) auto
  then show "read_local (write_local a bs s) a (length bs) = Some bs"
    using r by (simp add: read_local_vread vread_mapped w(1) all_mapped_def user_range_def)
  assume "no_shared_frame s a (length bs) b n"
  then have "m' (getPhysicalAddress s (b + of_nat i)) = kmem s (getPhysicalAddress s (b + of_nat i))" if "i < n" for i
    using that by (intro w(3)) (auto simp: no_shared_frame_def frames_def)
  then show "read_local (write_local a bs s) b n = read_local s b n"
    by (simp add: read_local_vread vread_mapped w(1) all_mapped_def)
qed

end
