(* ===== verification/Kernlink.thy ===== *)
theory Kernlink
  imports Usermem Interrupts Syscall
begin

text \<open>
  \<^verbatim>\<open>src/kernlink/kernlink.cpp\<close>: the kernel linker of a process. It keeps the symbols of the process,
  makes a stub in user memory for every system call the process imports, and maps the kernel
  pages the process needs while interrupts are handled. C strings are lists of bytes that end with
  a NUL, as \<^verbatim>\<open>Process::readString\<close> returns them.
\<close>

section \<open>Symbols\<close>

text \<open>Running off a list without a terminator is an access out of bounds; the value is arbitrary.\<close>

fun streq :: "u8 list \<Rightarrow> u8 list \<Rightarrow> bool" where
  "streq (a # as) (b # bs) = (if a \<noteq> b then False else if a = 0 then True else streq as bs)"
| "streq _ _ = False"

definition cstr :: "string \<Rightarrow> u8 list" where
  "cstr n = map of_char n @ [0]"

definition chars :: "u8 list \<Rightarrow> string" where
  "chars bs = map (\<lambda>b. char_of (unat b)) (takeWhile (\<lambda>b. b \<noteq> 0) bs)"

record linker =
  syscallPage :: u64
  syscallNum :: u64
  symbols :: "(u64 \<times> u8 list) list"

definition new_linker :: linker where
  "new_linker = \<lparr>syscallPage = 0, syscallNum = 0, symbols = []\<rparr>"

definition addSymbol :: "u8 list \<Rightarrow> u64 \<Rightarrow> linker \<Rightarrow> linker" where
  "addSymbol n ptr l = l\<lparr>symbols := symbols l @ [(ptr, n)]\<rparr>"

fun find_symbol :: "(u64 \<times> u8 list) list \<Rightarrow> u8 list \<Rightarrow> u64" where
  "find_symbol [] n = 0"
| "find_symbol (e # es) n = (if streq (snd e) n then fst e else find_symbol es n)"

definition getSymbolByName :: "linker \<Rightarrow> u8 list \<Rightarrow> u64" where
  "getSymbolByName l n = find_symbol (symbols l) n"

section \<open>System call stubs\<close>

definition SyscallEntry :: "u64 \<Rightarrow> u8 list" where
  "SyscallEntry idx =
     [0x41, 0x57, 0x41, 0x56, 0x41, 0x55, 0x41, 0x54, 0x41, 0x53, 0x53, 0x48, 0xb8]
     @ le 8 idx
     @ [0x0f, 0x05, 0x5b, 0x41, 0x5b, 0x41, 0x5c, 0x41, 0x5d, 0x41, 0x5e, 0x41, 0x5f, 0xc3]"

text \<open>\<^verbatim>\<open>0x1000 / sizeof(SyscallEntry)\<close>\<close>

definition countInPage :: u64 where "countInPage = 0x1000 div 35"

text \<open>A free slot of the page of stubs, a new page when there is none.\<close>

definition take_slot :: "nat \<Rightarrow> linker \<Rightarrow> space \<Rightarrow> (u64 \<times> linker \<times> space) option" where
  "take_slot fuel l s = do {
     (l, s) \<leftarrow> (if syscallPage l = 0 \<or> syscallNum l = countInPage then do {
                  (page, s) \<leftarrow> addSection fuel 0 SectionTypeCode (35 * countInPage) s;
                  Some (l\<lparr>syscallPage := page, syscallNum := 0\<rparr>, s)
                } else Some (l, s));
     Some (syscallPage l + syscallNum l * 35, l\<lparr>syscallNum := syscallNum l + 1\<rparr>, s)
   }"

definition place_stub :: "nat \<Rightarrow> u8 list \<Rightarrow> u8 list \<Rightarrow> linker \<Rightarrow> space \<Rightarrow> (u64 \<times> linker \<times> space) option" where
  "place_stub fuel funcname code l s = do {
     (ptr, l, s) \<leftarrow> take_slot fuel l s;
     Some (ptr, addSymbol funcname ptr l, write_local ptr code s)
   }"

text \<open>The bytes stored for \<^verbatim>\<open>__stack_chk_fail\<close>.\<close>

definition chk_fail_code :: "u8 list" where
  "chk_fail_code = [0x0B, 0x0F] @ replicate 33 0"

text \<open>\<open>rsdp\<close> is \<^verbatim>\<open>ACPI::getRSDPAddr()\<close> and \<open>rnd\<close> the number \<^verbatim>\<open>RAND::get\<close> returns.\<close>

definition linkLibrary :: "nat \<Rightarrow> u64 \<Rightarrow> u64 \<Rightarrow> u8 list \<Rightarrow> linker \<Rightarrow> space \<Rightarrow> (u64 \<times> linker \<times> space) option" where
  "linkLibrary fuel rsdp rnd funcname l s =
     (if streq funcname (cstr ''kptr_acpi_rsdp'') then Some (rsdp, l, s)
      else if getSymbolByName l funcname \<noteq> 0 then Some (getSymbolByName l funcname, l, s)
      else if streq funcname (cstr ''__stack_chk_guard'') then do {
        (page, s) \<leftarrow> addSection fuel 0 SectionTypeData 8 s;
        Some (page, addSymbol funcname page l, write_local page (le 8 rnd) s)
      } else do {
        (ptr, l, s) \<leftarrow> (if streq funcname (cstr ''__stack_chk_fail'')
                        then place_stub fuel funcname chk_fail_code l s else Some (0, l, s));
        let syscall_id = callByName (chars funcname);
        if syscall_id \<noteq> 0 then place_stub fuel funcname (SyscallEntry syscall_id) l s
        else Some (ptr, l, s)
      })"

section \<open>Preparing a process\<close>

text \<open>\<^verbatim>\<open>addPage\<close> for a list of pages, in order.\<close>

fun add_pages :: "nat \<Rightarrow> (u64 \<times> u64 \<times> u8) list \<Rightarrow> space \<Rightarrow> space option" where
  "add_pages fuel [] s = Some s"
| "add_pages fuel ((v, p, t) # rs) s = do {
     (_, s) \<leftarrow> addPage fuel v p t s;
     add_pages fuel rs s
   }"

text \<open>The pages of a descriptor table, from the page of its start while below its end.\<close>

partial_function (option) table_pages :: "nat \<Rightarrow> u64 \<Rightarrow> u64 \<Rightarrow> u8 \<Rightarrow> space \<Rightarrow> space option" where
  "table_pages fuel addr e type s =
     (if addr < e then do {
        (_, s) \<leftarrow> addPage fuel addr addr type s;
        table_pages fuel (addr + 0x1000) e type s
      } else Some s)"

text \<open>The pages of the interrupt stubs, each when it differs from the previous one.\<close>

fun handler_pages :: "u64 \<Rightarrow> u64 list \<Rightarrow> (u64 \<times> u64 \<times> u8) list" where
  "handler_pages page [] = []"
| "handler_pages page (h # hs) =
     (if page \<noteq> h AND NOT 0xFFF then (h AND NOT 0xFFF, h AND NOT 0xFFF, CODE_RX) # handler_pages (h AND NOT 0xFFF) hs
      else handler_pages page hs)"

text \<open>The port map of a process that asked for no ports denies them all.\<close>

definition need_iomap :: "nat \<Rightarrow> nat \<Rightarrow> space \<Rightarrow> space option" where
  "need_iomap fuel i s =
     (if iomap s ! i = 0 then do {
        (page, s) \<leftarrow> u_alloc fuel s;
        Some (s\<lparr>iomap := (iomap s)[i := page], kmem := filled 0x1000 0xFF page (kmem s)\<rparr>)
      } else Some s)"

text \<open>The task segments of the descriptor table; \<^verbatim>\<open>ist[0]\<close> is at offset 36 of a segment.\<close>

partial_function (option) task_segments :: "nat \<Rightarrow> u64 \<Rightarrow> u64 \<Rightarrow> space \<Rightarrow> space option" where
  "task_segments fuel ent e s =
     (if ent < e then
        (let w = read64 (kmem s) ent
         in if field 40 4 w \<noteq> 0x9 \<and> field 40 4 w \<noteq> 0xB then task_segments fuel (ent + 8) e s
            else do {
              let base = sys_getBase (w, read64 (kmem s) (ent + 8));
              let page = base AND NOT 0xFFF;
              s \<leftarrow> add_pages fuel [(page, page, DATA_RO), (page + 0x1000, iomap s ! 0, DATA_RO),
                                    (page + 0x2000, iomap s ! 1, DATA_RO)] s;
              let stack = read64 (kmem s) (base + 36) - 0x1000;
              s \<leftarrow> add_pages fuel [(stack, stack, DATA_RW)] s;
              task_segments fuel (ent + 16) e s
            })
      else Some s)"

text \<open>
  \<open>gdt\<close> and \<open>idt\<close> are the address and limit the CPU stores with \<^verbatim>\<open>sgdt\<close> and \<^verbatim>\<open>sidt\<close>; \<open>glob\<close>,
  \<open>wrap\<close> and \<open>sc_wrap\<close> the addresses of \<^verbatim>\<open>Interrupts::glob\<close> and of the two wrappers.
\<close>

definition idt_handlers :: "u64 \<Rightarrow> mem \<Rightarrow> u64 list" where
  "idt_handlers idt m =
     map (\<lambda>i. Interrupts.rec_handler (read64 m (idt + 16 * of_nat i), read64 m (idt + 16 * of_nat i + 8))) [0..<256]"

definition prepareToStart :: "nat \<Rightarrow> u64 \<Rightarrow> u16 \<Rightarrow> u64 \<Rightarrow> u16 \<Rightarrow> u64 \<Rightarrow> u64 \<Rightarrow> u64 \<Rightarrow> space \<Rightarrow> space option" where
  "prepareToStart fuel gdt gdt_limit idt idt_limit glob wrap sc_wrap s = do {
     s \<leftarrow> table_pages fuel (gdt AND NOT 0xFFF) (gdt + ucast gdt_limit) DATA_RW s;
     s \<leftarrow> table_pages fuel (idt AND NOT 0xFFF) (idt + ucast idt_limit) DATA_RO s;
     s \<leftarrow> add_pages fuel (handler_pages 0 (idt_handlers idt (kmem s))) s;
     let h = wrap AND NOT 0xFFF;
     let c = sc_wrap AND NOT 0xFFF;
     s \<leftarrow> add_pages fuel [(glob, glob, DATA_RO), (h, h, CODE_RX), (h + 0x1000, h + 0x1000, CODE_RX),
                           (c, c, CODE_RX), (c + 0x1000, c + 0x1000, CODE_RX)] s;
     s \<leftarrow> need_iomap fuel 0 s;
     s \<leftarrow> need_iomap fuel 1 s;
     task_segments fuel (gdt + 24) (gdt + ucast gdt_limit) s
   }"

section \<open>Comparing names\<close>

lemma streq_terminated:
  assumes "0 \<notin> set x" "0 \<notin> set y"
  shows "streq (x @ 0 # p) (y @ 0 # q) \<longleftrightarrow> x = y"
  using assms
proof (induction x arbitrary: y)
  case Nil
  then show ?case by (cases y) auto
next
  case (Cons a x)
  then show ?case by (cases y) auto
qed

lemma streq_refl: "0 \<in> set n \<Longrightarrow> streq n n"
  by (induction n) auto

lemma streq_name:
  assumes "streq a b"
  shows "takeWhile (\<lambda>b. b \<noteq> 0) a = takeWhile (\<lambda>b. b \<noteq> 0) b"
  using assms by (induction a b rule: streq.induct) (auto split: if_splits)

lemma chars_cong: "streq a b \<Longrightarrow> chars a = chars b"
  by (simp add: chars_def streq_name)

lemma chars_cstr [simp]: "chars (cstr n) = n" if "\<forall>c \<in> set n. of_char c \<noteq> (0 :: u8)"
proof -
  have "unat (of_char c :: u8) = of_char c" for c
  proof -
    have "unat (of_char c :: u8) = unat (of_nat (of_char c) :: u8)" by (simp add: of_nat_of_char)
    also have "\<dots> = of_char c mod 256" by (simp add: unsigned_of_nat take_bit_eq_mod)
    finally show ?thesis by simp
  qed
  then show ?thesis using that by (induction n) (auto simp: chars_def cstr_def)
qed

section \<open>Linking a name\<close>

definition symbols_ok :: "linker \<Rightarrow> bool" where
  "symbols_ok l \<longleftrightarrow> (\<forall>e \<in> set (symbols l). fst e \<noteq> 0)"

lemma find_symbol_append:
  "find_symbol (es @ fs) n = (if \<exists>e \<in> set es. streq (snd e) n then find_symbol es n else find_symbol fs n)"
  by (induction es) auto

lemma find_symbol_0: "\<forall>e \<in> set es. fst e \<noteq> 0 \<Longrightarrow> find_symbol es n = 0 \<longleftrightarrow> (\<forall>e \<in> set es. \<not> streq (snd e) n)"
  by (induction es) auto

lemma addSymbol_found:
  assumes "symbols_ok l" and "getSymbolByName l n = 0" and "0 \<in> set n"
  shows "getSymbolByName (addSymbol n p l) n = p"
  using assms streq_refl [of n] by (auto simp: getSymbolByName_def addSymbol_def find_symbol_append find_symbol_0 symbols_ok_def)

lemma find_symbol_none: "\<forall>e \<in> set es. \<not> streq (snd e) n \<Longrightarrow> find_symbol es n = 0"
  by (induction es) auto

lemma addSymbol_other: "\<not> streq n m \<Longrightarrow> getSymbolByName (addSymbol n p l) m = getSymbolByName l m"
  by (simp add: getSymbolByName_def addSymbol_def find_symbol_append find_symbol_none)

lemma take_slot_symbols: "take_slot fuel l s = Some (ptr, l', s') \<Longrightarrow> symbols l' = symbols l"
  by (auto simp: take_slot_def bind_eq_Some_conv split: if_splits)

lemma place_stub_symbols:
  "place_stub fuel n code l s = Some (ptr, l', s') \<Longrightarrow> symbols l' = symbols l @ [(ptr, n)]"
  by (auto simp: place_stub_def bind_eq_Some_conv addSymbol_def dest: take_slot_symbols)

text \<open>The names the linker treats specially are no system calls.\<close>

lemma special_names: "callByName ''__stack_chk_fail'' = 0" "callByName ''__stack_chk_guard'' = 0"
  "callByName ''kptr_acpi_rsdp'' = 0"
  by (simp_all add: callByName_def Let_def syscall_index_lookup syscall_map_def hashes)
    (simp_all add: hash_eval)

text \<open>
  A name that linkLibrary resolved is resolved to the same address by every later call, which
  then changes nothing, and linking it leaves the address of every other name as it was.
\<close>

theorem link_once:
  assumes "linkLibrary fuel rsdp rnd n l s = Some (ptr, l', s')" and "ptr \<noteq> 0"
    and "0 \<in> set n" and "symbols_ok l"
  shows "linkLibrary fuel' rsdp rnd' n l' s' = Some (ptr, l', s') \<and> symbols_ok l'
    \<and> (\<forall>m. \<not> streq n m \<longrightarrow> getSymbolByName l' m = getSymbolByName l m)"
proof -
  consider "l' = l" "s' = s" "linkLibrary fuel' rsdp rnd' n l s = Some (ptr, l, s)"
    | "\<not> streq n (cstr ''kptr_acpi_rsdp'')" "getSymbolByName l n = 0" "symbols l' = symbols l @ [(ptr, n)]"
  proof -
    have fail: "callByName (chars n) = 0" if "streq n (cstr ''__stack_chk_fail'')"
      using chars_cong [OF that] chars_cstr [of "''__stack_chk_fail''"] special_names by simp
    show ?thesis
      using assms(1,2) that fail
      by (auto simp: linkLibrary_def bind_eq_Some_conv addSymbol_def Let_def
          dest: place_stub_symbols split: if_splits)
  qed
  then show ?thesis
  proof cases
    case 1
    then show ?thesis using assms(4) by simp
  next
    case 2
    then have sym: "getSymbolByName l' = getSymbolByName (addSymbol n ptr l)"
      by (simp add: fun_eq_iff getSymbolByName_def addSymbol_def)
    have "getSymbolByName l' n = ptr" unfolding sym using assms(3,4) 2(2) by (intro addSymbol_found)
    moreover have "symbols_ok l'" using assms(2,4) 2(3) by (simp add: symbols_ok_def)
    ultimately show ?thesis
      using assms(2) 2(1) by (simp add: linkLibrary_def sym addSymbol_other)
  qed
qed

section \<open>The stubs in user memory\<close>

text \<open>The stub page holds the codes placed so far, and room for the rest.\<close>

definition stubs_are :: "u8 list list \<Rightarrow> linker \<Rightarrow> space \<Rightarrow> bool" where
  "stubs_are codes l s \<longleftrightarrow>
     syscallPage l \<noteq> 0 \<and> user_range s (syscallPage l) (117 * 35)
     \<and> unat (syscallNum l) = length codes \<and> length codes \<le> 117
     \<and> (\<forall>i < length codes. read_local s (syscallPage l + of_nat (i * 35)) 35 = Some (codes ! i))"

lemma length_SyscallEntry [simp]: "length (SyscallEntry i) = 35"
  by (simp add: SyscallEntry_def)

lemma length_chk_fail [simp]: "length chk_fail_code = 35"
  by (simp add: chk_fail_code_def)

lemma place_stub_keeps:
  assumes "stubs_are codes l s" and "length codes < 117" and "length code = 35"
  shows "\<exists>ptr l' s'. place_stub fuel n code l s = Some (ptr, l', s')
    \<and> ptr = syscallPage l + of_nat (length codes * 35) \<and> symbols l' = symbols l @ [(ptr, n)]
    \<and> stubs_are (codes @ [code]) l' s' \<and> read_local s' ptr 35 = Some code"
proof -
  let ?k = "length codes" and ?p = "syscallPage l"
  let ?ptr = "?p + of_nat (?k * 35)"
  have st: "?p \<noteq> 0" "user_range s ?p (117 * 35)" "unat (syscallNum l) = ?k"
    "\<And>i. i < ?k \<Longrightarrow> read_local s (?p + of_nat (i * 35)) 35 = Some (codes ! i)"
    using assms(1) by (auto simp: stubs_are_def)
  have num: "syscallNum l = of_nat ?k" using of_nat_unat_eq [OF st(3)] .
  have "countInPage = 117" by (simp add: countInPage_def)
  then have ne: "syscallNum l \<noteq> countInPage" using st(3) assms(2) by (auto simp: word_unat_eq_iff)
  have num1: "unat (syscallNum l + 1) = Suc ?k"
    using st(3) assms(2) by (subst unat_add_u64) simp_all
  let ?l = "addSymbol n ?ptr (l\<lparr>syscallNum := syscallNum l + 1\<rparr>)" and ?s = "write_local ?ptr code s"
  have run: "place_stub fuel n code l s = Some (?ptr, ?l, ?s)"
    using st(1) ne by (simp add: place_stub_def take_slot_def num)
  have rd: "read_local ?s (?p + of_nat (j * 35)) 35 = (if ?k = j then Some code else read_local s (?p + of_nat (j * 35)) 35)"
    if "j < 117" for j
    using um.slot_write [OF st(2) assms(2) that assms(3)] .
  have "user_range ?s ?p (117 * 35)"
    using um.ok_wr [of s ?ptr code ?p "117 * 35"] um.slot_ok [OF st(2) assms(2)] assms(3) st(2) by simp
  moreover have "read_local ?s (?p + of_nat (i * 35)) 35 = Some ((codes @ [code]) ! i)" if "i < Suc ?k" for i
    using rd [of i] st(4) [of i] that assms(2) by (auto simp: nth_append less_Suc_eq)
  ultimately have "stubs_are (codes @ [code]) ?l ?s"
    using st(1) num1 assms(2) by (simp add: stubs_are_def addSymbol_def)
  then show ?thesis
    using run rd [of ?k] assms(2) by (simp add: addSymbol_def)
qed

section \<open>Running a stub\<close>

text \<open>The instructions of the stubs, decoded from their bytes.\<close>

datatype uinstr = UPush greg | UPop greg | UMovRax u64 | USyscall | URet

definition high_reg :: "u8 \<Rightarrow> greg" where
  "high_reg k = [R8, R9, R10, R11, R12, R13, R14, R15] ! unat k"

fun decode1 :: "u8 list \<Rightarrow> (uinstr \<times> u8 list) option" where
  "decode1 [] = None"
| "decode1 [a] = (if a = 0xC3 then Some (URet, []) else None)"
| "decode1 (a # b # bs) =
     (if a = 0x41 \<and> 0x50 \<le> b \<and> b < 0x58 then Some (UPush (high_reg (b - 0x50)), bs)
      else if a = 0x41 \<and> 0x58 \<le> b \<and> b < 0x60 then Some (UPop (high_reg (b - 0x58)), bs)
      else if a = 0x48 \<and> b = 0xB8 \<and> 8 \<le> length bs then Some (UMovRax (fld 0 8 bs), drop 8 bs)
      else if a = 0x0F \<and> b = 0x05 then Some (USyscall, bs)
      else if a = 0x53 then Some (UPush RBX, b # bs)
      else if a = 0x5B then Some (UPop RBX, b # bs)
      else None)"

fun decode :: "nat \<Rightarrow> u8 list \<Rightarrow> uinstr list option" where
  "decode 0 bs = (if bs = [] then Some [] else None)"
| "decode (Suc n) bs =
     (if bs = [] then Some []
      else do { (i, bs) \<leftarrow> decode1 bs; is \<leftarrow> decode n bs; Some (i # is) })"

text \<open>
  Running them from a state of the registers and the stack, the return address on top; the kernel
  is any function on the registers. The result has the address returned to.
\<close>

fun run_user :: "(gregs \<Rightarrow> gregs) \<Rightarrow> uinstr list \<Rightarrow> gregs \<Rightarrow> u64 list \<Rightarrow> (u64 \<times> gregs \<times> u64 list) option" where
  "run_user k (UPush r # is) g st = run_user k is g (reg_get r g # st)"
| "run_user k (UPop r # is) g (v # st) = run_user k is (reg_set r v g) st"
| "run_user k (UMovRax v # is) g st = run_user k is (g\<lparr>rax := v\<rparr>) st"
| "run_user k (USyscall # is) g st = run_user k is (k g) st"
| "run_user k (URet # is) g (v # st) = Some (v, g, st)"
| "run_user k _ _ _ = None"

lemma decode_numeral:
  "decode (numeral k) bs =
     (if bs = [] then Some []
      else do { (i, bs) \<leftarrow> decode1 bs; is \<leftarrow> decode (pred_numeral k) bs; Some (i # is) })"
  by (simp add: numeral_eq_Suc)

lemma SyscallEntry_decodes:
  "decode 20 (SyscallEntry i) = Some [UPush R15, UPush R14, UPush R13, UPush R12, UPush R11, UPush RBX,
     UMovRax i, USyscall, UPop RBX, UPop R11, UPop R12, UPop R13, UPop R14, UPop R15, URet]"
proof -
  have "fld 0 8 (le 8 i @ r) = i" for r
    by (simp add: fld_def take_bit_length_eq [where 'a = 64, simplified])
  moreover obtain b0 b1 b2 b3 b4 b5 b6 b7 where "le 8 i = [b0, b1, b2, b3, b4, b5, b6, b7]"
    by (simp add: le_def upt_rec)
  ultimately have b: "le 8 i = [b0, b1, b2, b3, b4, b5, b6, b7]"
    and v: "fld 0 8 (b0 # b1 # b2 # b3 # b4 # b5 # b6 # b7 # r) = i" for r
    by simp_all
  show ?thesis
    by (simp add: SyscallEntry_def b v decode_numeral high_reg_def)
qed

lemma linked_call:
  assumes "callByName (chars n) \<noteq> 0"
  shows "\<exists>h. dispatch (callByName (chars n)) = Some (Call h)"
    and "m \<in> {''__stack_chk_fail'', ''__stack_chk_guard'', ''kptr_acpi_rsdp''} \<Longrightarrow> \<not> streq n (cstr m)"
proof -
  show "\<exists>h. dispatch (callByName (chars n)) = Some (Call h)"
    using assms
    by (auto simp: callByName_def Let_def syscall_index_lookup dispatch_def syscall_map_def hashes split: if_splits)
  show "\<not> streq n (cstr m)" if "m \<in> {''__stack_chk_fail'', ''__stack_chk_guard'', ''kptr_acpi_rsdp''}"
  proof
    assume "streq n (cstr m)"
    then have "chars n = m" using that chars_cong [of n "cstr m"] chars_cstr [of m] by auto
    with assms that special_names show False by auto
  qed
qed


text \<open>
  The pages of the interrupt stubs: each handler's page is mapped, onto itself, and nothing else.
\<close>

lemma handler_pages_cover:
  "h \<in> set hs \<Longrightarrow> h AND NOT 0xFFF = page \<or> (h AND NOT 0xFFF, h AND NOT 0xFFF, CODE_RX) \<in> set (handler_pages page hs)"
  by (induction hs arbitrary: page) (simp_all, metis)

lemma handler_pages_only:
  "r \<in> set (handler_pages page hs) \<Longrightarrow> \<exists>h \<in> set hs. r = (h AND NOT 0xFFF, h AND NOT 0xFFF, CODE_RX)"
  by (induction hs arbitrary: page) (auto split: if_splits)

section \<open>A concrete linker\<close>

definition demo_linker :: linker where
  "demo_linker = \<lparr>syscallPage = 0x5000, syscallNum = 0, symbols = []\<rparr>"

lemma demo_linker_ok: "stubs_are [] demo_linker demo_space" "symbols_ok demo_linker"
  using demo_range(1,2) [of 4095] by (simp_all add: stubs_are_def demo_linker_def user_range_def symbols_ok_def)

lemma demo_call: "callByName (chars (cstr ''puts'')) \<noteq> 0"
  by (subst chars_cstr) (simp_all add: callByName_def Let_def syscall_index_lookup syscall_map_def hashes)


theorem link_once_witness:
  "linkLibrary 7 0x1000 5 (cstr ''puts'') \<lparr>syscallPage = 0, syscallNum = 0, symbols = [(0x7000, cstr ''puts'')]\<rparr> demo_space
   = Some (0x7000, \<lparr>syscallPage = 0, syscallNum = 0, symbols = [(0x7000, cstr ''puts'')]\<rparr>, demo_space)"
  using link_once [of 0 "0x1000" 0 "cstr ''puts''" "\<lparr>syscallPage = 0, syscallNum = 0, symbols = [(0x7000, cstr ''puts'')]\<rparr>"
      demo_space "0x7000" "\<lparr>syscallPage = 0, syscallNum = 0, symbols = [(0x7000, cstr ''puts'')]\<rparr>" demo_space 7 5]
  by (simp add: linkLibrary_def symbols_ok_def getSymbolByName_def cstr_def)

end
