(* ===== verification/Readelf.thy ===== *)
theory Readelf
  imports Kernlink
begin

text \<open>
  \<^verbatim>\<open>src/readelf\<close>: the loader. \<^verbatim>\<open>readelf\<close> checks the header of an image in kernel memory, creates a
  section for every loadable segment, copies the headers to the base of the process and then
  works on that copy: program headers, entry point and dynamic table are rewritten to load
  addresses, symbols are collected and relocations resolved. Structures are their packed bytes;
  \<open>None\<close> means that the code does not return, or that it uses a value it never set.
\<close>

section \<open>Structures\<close>

record hdr =
  e_magic :: u32
  e_class :: u8
  e_data :: u8
  e_fversion :: u8
  e_osabi :: u8
  e_abiversion :: u8
  e_pad :: "u8 list"
  e_type :: u16
  e_machine :: u16
  e_version :: u32
  e_entry :: u64
  e_phoff :: u64
  e_shoff :: u64
  e_flags :: u32
  e_ehsize :: u16
  e_phentsize :: u16
  e_phnum :: u16
  e_shentsize :: u16
  e_shnum :: u16
  e_shstrndx :: u16

definition hdr_of :: "u8 list \<Rightarrow> hdr" where
  "hdr_of bs =
     \<lparr>e_magic = ucast (fld 0 4 bs), e_class = ucast (fld 4 1 bs), e_data = ucast (fld 5 1 bs),
      e_fversion = ucast (fld 6 1 bs), e_osabi = ucast (fld 7 1 bs), e_abiversion = ucast (fld 8 1 bs),
      e_pad = take 7 (drop 9 bs), e_type = ucast (fld 16 2 bs), e_machine = ucast (fld 18 2 bs),
      e_version = ucast (fld 20 4 bs), e_entry = fld 24 8 bs, e_phoff = fld 32 8 bs, e_shoff = fld 40 8 bs,
      e_flags = ucast (fld 48 4 bs), e_ehsize = ucast (fld 52 2 bs), e_phentsize = ucast (fld 54 2 bs),
      e_phnum = ucast (fld 56 2 bs), e_shentsize = ucast (fld 58 2 bs), e_shnum = ucast (fld 60 2 bs),
      e_shstrndx = ucast (fld 62 2 bs)\<rparr>"

definition hdr_bytes :: "hdr \<Rightarrow> u8 list" where
  "hdr_bytes h =
     le 4 (ucast (e_magic h)) @ le 1 (ucast (e_class h)) @ le 1 (ucast (e_data h)) @ le 1 (ucast (e_fversion h))
     @ le 1 (ucast (e_osabi h)) @ le 1 (ucast (e_abiversion h)) @ e_pad h @ le 2 (ucast (e_type h))
     @ le 2 (ucast (e_machine h)) @ le 4 (ucast (e_version h)) @ le 8 (e_entry h) @ le 8 (e_phoff h)
     @ le 8 (e_shoff h) @ le 4 (ucast (e_flags h)) @ le 2 (ucast (e_ehsize h)) @ le 2 (ucast (e_phentsize h))
     @ le 2 (ucast (e_phnum h)) @ le 2 (ucast (e_shentsize h)) @ le 2 (ucast (e_shnum h)) @ le 2 (ucast (e_shstrndx h))"

record prog =
  p_type :: u32
  p_flags :: u32
  p_offset :: u64
  p_vaddr :: u64
  p_paddr :: u64
  p_filesz :: u64
  p_memsz :: u64
  p_align :: u64

definition prog_of :: "u8 list \<Rightarrow> prog" where
  "prog_of bs =
     \<lparr>p_type = ucast (fld 0 4 bs), p_flags = ucast (fld 4 4 bs), p_offset = fld 8 8 bs, p_vaddr = fld 16 8 bs,
      p_paddr = fld 24 8 bs, p_filesz = fld 32 8 bs, p_memsz = fld 40 8 bs, p_align = fld 48 8 bs\<rparr>"

definition prog_bytes :: "prog \<Rightarrow> u8 list" where
  "prog_bytes p =
     le 4 (ucast (p_type p)) @ le 4 (ucast (p_flags p)) @ le 8 (p_offset p) @ le 8 (p_vaddr p)
     @ le 8 (p_paddr p) @ le 8 (p_filesz p) @ le 8 (p_memsz p) @ le 8 (p_align p)"

record dyn =
  d_tag :: u64
  d_val :: u64

definition dyn_of :: "u8 list \<Rightarrow> dyn" where
  "dyn_of bs = \<lparr>d_tag = fld 0 8 bs, d_val = fld 8 8 bs\<rparr>"

definition dyn_bytes :: "dyn \<Rightarrow> u8 list" where
  "dyn_bytes d = le 8 (d_tag d) @ le 8 (d_val d)"

record sym =
  s_name :: u32
  s_bind :: u8
  s_value :: u64

definition sym_of :: "u8 list \<Rightarrow> sym" where
  "sym_of bs = \<lparr>s_name = ucast (fld 0 4 bs), s_bind = drop_bit 4 (ucast (fld 4 1 bs)), s_value = fld 8 8 bs\<rparr>"

text \<open>A short entry without addend has addend 0: the code clears or zeroes the field before.\<close>

record rela =
  r_addr :: u64
  r_type :: u32
  r_sym :: u32
  r_add :: u64

definition rela_of :: "u8 list \<Rightarrow> rela" where
  "rela_of bs = \<lparr>r_addr = fld 0 8 bs, r_type = ucast (fld 8 4 bs), r_sym = ucast (fld 12 4 bs), r_add = fld 16 8 bs\<rparr>"

definition PT_NULL :: u32 where "PT_NULL = 0"
definition PT_LOAD :: u32 where "PT_LOAD = 1"
definition PT_DYNAMIC :: u32 where "PT_DYNAMIC = 2"
definition PT_PHDR :: u32 where "PT_PHDR = 6"

definition DT_PLTRELSZ :: u64 where "DT_PLTRELSZ = 2"
definition DT_PLTGOT :: u64 where "DT_PLTGOT = 3"
definition DT_HASH :: u64 where "DT_HASH = 4"
definition DT_STRTAB :: u64 where "DT_STRTAB = 5"
definition DT_SYMTAB :: u64 where "DT_SYMTAB = 6"
definition DT_RELA :: u64 where "DT_RELA = 7"
definition DT_RELASZ :: u64 where "DT_RELASZ = 8"
definition DT_RELAENT :: u64 where "DT_RELAENT = 9"
definition DT_SYMENT :: u64 where "DT_SYMENT = 11"
definition DT_INIT :: u64 where "DT_INIT = 12"
definition DT_FINI :: u64 where "DT_FINI = 13"
definition DT_REL :: u64 where "DT_REL = 17"
definition DT_RELSZ :: u64 where "DT_RELSZ = 18"
definition DT_RELENT :: u64 where "DT_RELENT = 19"
definition DT_PLTREL :: u64 where "DT_PLTREL = 20"
definition DT_DEBUG :: u64 where "DT_DEBUG = 21"
definition DT_JMPREL :: u64 where "DT_JMPREL = 23"
definition DT_INIT_ARRAY :: u64 where "DT_INIT_ARRAY = 25"
definition DT_FINI_ARRAY :: u64 where "DT_FINI_ARRAY = 26"

section \<open>Load addresses\<close>

definition read_hdr :: "space \<Rightarrow> hdr option" where
  "read_hdr s = map_option hdr_of (read_local s (aslrCode s) 64)"

text \<open>\<^verbatim>\<open>phdr_base\<close> and \<^verbatim>\<open>phdr_top\<close>\<close>

definition phdr_base :: "space \<Rightarrow> hdr \<Rightarrow> u64" where
  "phdr_base s elf = aslrCode s + e_phoff elf"

definition phdr_top :: "space \<Rightarrow> hdr \<Rightarrow> u64" where
  "phdr_top s elf = phdr_base s elf + ucast (e_phnum elf) * 56"

text \<open>
  The loop of the two searches. \<open>Some None\<close> is their result 0; a table that ends below its start
  leaves \<^verbatim>\<open>prog\<close> unset.
\<close>

partial_function (option) find_segment :: "space \<Rightarrow> (prog \<Rightarrow> bool) \<Rightarrow> u64 \<Rightarrow> u64 \<Rightarrow> prog option option" where
  "find_segment s P phdr e =
     (if phdr < e then
        (case read_local s phdr 56 of
           None \<Rightarrow> Some None
         | Some bs \<Rightarrow> if P (prog_of bs) then Some (Some (prog_of bs)) else find_segment s P (phdr + 56) e)
      else if phdr = e then Some None else None)"

definition readelf_find_load_addr :: "space \<Rightarrow> u64 \<Rightarrow> u64 option" where
  "readelf_find_load_addr s faddr =
     (case read_hdr s of
        None \<Rightarrow> Some 0
      | Some elf \<Rightarrow> do {
          r \<leftarrow> find_segment s (\<lambda>p. p_type p = PT_LOAD \<and> p_offset p \<le> faddr \<and> faddr < p_offset p + p_filesz p)
                 (phdr_base s elf) (phdr_top s elf);
          Some (case r of None \<Rightarrow> 0 | Some p \<Rightarrow> faddr + p_paddr p - p_offset p)
        })"

definition readelf_find_load_offset :: "space \<Rightarrow> u64 \<Rightarrow> u64 option" where
  "readelf_find_load_offset s faddr =
     (case read_hdr s of
        None \<Rightarrow> Some 0
      | Some elf \<Rightarrow> do {
          r \<leftarrow> find_segment s (\<lambda>p. p_type p = PT_LOAD \<and> p_vaddr p \<le> faddr \<and> faddr < p_vaddr p + p_filesz p)
                 (phdr_base s elf) (phdr_top s elf);
          Some (case r of None \<Rightarrow> 0 | Some p \<Rightarrow> faddr + p_offset p - p_vaddr p)
        })"

text \<open>The two searches in a row, as the callers use them.\<close>

definition load_addr_of :: "space \<Rightarrow> u64 \<Rightarrow> u64 option" where
  "load_addr_of s v = do { offset \<leftarrow> readelf_find_load_offset s v; readelf_find_load_addr s offset }"

section \<open>Rewriting the headers\<close>

partial_function (option) fix_phdrs :: "u64 \<Rightarrow> u64 \<Rightarrow> space \<Rightarrow> (bool \<times> space) option" where
  "fix_phdrs phdr e s =
     (if phdr < e then
        (case read_local s phdr 56 of
           None \<Rightarrow> Some (False, s)
         | Some bs \<Rightarrow>
             if p_type (prog_of bs) = PT_NULL then fix_phdrs (phdr + 56) e s
             else if p_type (prog_of bs) = PT_LOAD then
               fix_phdrs (phdr + 56) e
                 (write_local phdr (prog_bytes (prog_of bs\<lparr>p_paddr := p_paddr (prog_of bs) + aslrCode s\<rparr>)) s)
             else do {
               paddr \<leftarrow> readelf_find_load_addr s (p_offset (prog_of bs));
               if paddr = 0 then Some (False, s)
               else fix_phdrs (phdr + 56) e (write_local phdr (prog_bytes (prog_of bs\<lparr>p_paddr := paddr\<rparr>)) s)
             })
      else Some (True, s))"

definition readelf_dylink_fix_phdr :: "space \<Rightarrow> (bool \<times> space) option" where
  "readelf_dylink_fix_phdr s =
     (case read_hdr s of
        None \<Rightarrow> Some (False, s)
      | Some elf \<Rightarrow> fix_phdrs (phdr_base s elf) (phdr_top s elf) s)"

definition readelf_dylink_fix_entry :: "space \<Rightarrow> (bool \<times> space) option" where
  "readelf_dylink_fix_entry s =
     (case read_hdr s of
        None \<Rightarrow> Some (False, s)
      | Some elf \<Rightarrow> do {
          entry \<leftarrow> load_addr_of s (e_entry elf);
          Some (if entry = 0 then (False, s)
                else (True, setEntryAddress entry (write_local (aslrCode s) (hdr_bytes (elf\<lparr>e_entry := entry\<rparr>)) s)))
        })"

definition pointer_tags :: "u64 list" where
  "pointer_tags = [DT_PLTGOT, DT_HASH, DT_STRTAB, DT_SYMTAB, DT_RELA, DT_INIT, DT_FINI, DT_REL, DT_DEBUG,
     DT_JMPREL, DT_INIT_ARRAY, DT_FINI_ARRAY]"

partial_function (option) fix_dynamic :: "u64 \<Rightarrow> u64 \<Rightarrow> space \<Rightarrow> (bool \<times> space) option" where
  "fix_dynamic dynptr e s =
     (if dynptr < e then
        (case read_local s dynptr 16 of
           None \<Rightarrow> Some (False, s)
         | Some bs \<Rightarrow>
             if d_tag (dyn_of bs) \<in> set pointer_tags then do {
               v \<leftarrow> load_addr_of s (d_val (dyn_of bs));
               if v = 0 then Some (False, s)
               else fix_dynamic (dynptr + 16) e (write_local dynptr (dyn_bytes (dyn_of bs\<lparr>d_val := v\<rparr>)) s)
             } else fix_dynamic (dynptr + 16) e s)
      else Some (True, s))"

definition readelf_dylink_fix_dynamic_table :: "u64 \<Rightarrow> u64 \<Rightarrow> space \<Rightarrow> (bool \<times> space) option" where
  "readelf_dylink_fix_dynamic_table dyntbl dynsz s = fix_dynamic dyntbl (dyntbl + dynsz) s"

partial_function (option) dynamic_find :: "space \<Rightarrow> u64 \<Rightarrow> u64 \<Rightarrow> u64 \<Rightarrow> u64 option" where
  "dynamic_find s dynptr e tag =
     (if dynptr < e then
        (case read_local s dynptr 16 of
           None \<Rightarrow> Some 0
         | Some bs \<Rightarrow> if d_tag (dyn_of bs) \<noteq> tag then dynamic_find s (dynptr + 16) e tag
                     else Some (d_val (dyn_of bs)))
      else Some 0)"

definition readelf_dylink_dynamic_find :: "space \<Rightarrow> u64 \<Rightarrow> u64 \<Rightarrow> u64 \<Rightarrow> u64 option" where
  "readelf_dylink_dynamic_find s dyntbl dynsz tag = dynamic_find s dyntbl (dyntbl + dynsz) tag"

section \<open>Relocations\<close>

text \<open>
  The process and its linker, and what the linker needs: the allocator's fuel, the address of the
  firmware tables and the random number of the stack guard, which a process uses at most once.
\<close>

record env =
  fuel :: nat
  rsdp :: u64
  guard :: u64

type_synonym image = "linker \<times> space"

text \<open>The address a symbol resolves to: its name first, then its own value. The null name is not a string.\<close>

definition resolve :: "env \<Rightarrow> u8 list \<Rightarrow> sym \<Rightarrow> image \<Rightarrow> (u64 \<times> image) option" where
  "resolve v n sy ls = do {
     let addr = getSymbolByName (fst ls) n;
     (addr, l, s) \<leftarrow> (if addr = 0 then linkLibrary (fuel v) (rsdp v) (guard v) n (fst ls) (snd ls) else Some (addr, ls));
     if addr = 0 then do {
       offset \<leftarrow> readelf_find_load_offset s (s_value sy);
       addr \<leftarrow> (if offset = 0 then Some 0 else readelf_find_load_addr s offset);
       Some (addr, l, s)
     } else Some (addr, l, s)
   }"

definition readelf_dylink_process_reloc :: "env \<Rightarrow> rela \<Rightarrow> u64 \<Rightarrow> u64 \<Rightarrow> u64 \<Rightarrow> image \<Rightarrow> (bool \<times> image) option" where
  "readelf_dylink_process_reloc v ent symtab syment strtab ls =
     (if r_sym ent = 0 then Some (False, ls)
      else case read_local (snd ls) (symtab + syment * ucast (r_sym ent)) 24 of
        None \<Rightarrow> Some (False, ls)
      | Some bs \<Rightarrow>
          let sy = sym_of bs
          in if s_name sy = 0 then Some (False, ls)
          else do {
            name \<leftarrow> readString (snd ls) (strtab + ucast (s_name sy));
            ptr \<leftarrow> load_addr_of (snd ls) (r_addr ent);
            n \<leftarrow> name;
            (addr, l, s) \<leftarrow> resolve v n sy ls;
            if s_bind sy \<noteq> 2 \<and> addr = 0 then Some (False, l, s)
            else if r_type ent = 7 \<or> r_type ent = 6
            then Some (True, l, write_local ptr (le 8 (addr + r_add ent)) s)
            else Some (False, l, s)
          })"

partial_function (option) reloc_loop ::
    "env \<Rightarrow> u64 \<Rightarrow> u64 \<Rightarrow> u64 \<Rightarrow> u64 \<Rightarrow> u64 \<Rightarrow> u64 \<Rightarrow> image \<Rightarrow> (bool \<times> image) option" where
  "reloc_loop v sz entsz rel symtab syment strtab ls =
     (if sz = 0 then Some (True, ls)
      else case read_local (snd ls) rel (unat entsz) of
        None \<Rightarrow> Some (False, ls)
      | Some bs \<Rightarrow> do {
          (ok, ls) \<leftarrow> readelf_dylink_process_reloc v (rela_of bs) symtab syment strtab ls;
          if ok then reloc_loop v (sz - entsz) entsz (rel + entsz) symtab syment strtab ls
          else Some (False, ls)
        })"

definition readelf_dylink_handle_dynamic_jmprel :: "env \<Rightarrow> u64 \<Rightarrow> u64 \<Rightarrow> u64 \<Rightarrow> image \<Rightarrow> (bool \<times> image) option" where
  "readelf_dylink_handle_dynamic_jmprel v dyntbl dynsz jmprel ls = do {
     symtab \<leftarrow> readelf_dylink_dynamic_find (snd ls) dyntbl dynsz DT_SYMTAB;
     pltrel \<leftarrow> readelf_dylink_dynamic_find (snd ls) dyntbl dynsz DT_PLTREL;
     pltrelsz \<leftarrow> readelf_dylink_dynamic_find (snd ls) dyntbl dynsz DT_PLTRELSZ;
     syment \<leftarrow> readelf_dylink_dynamic_find (snd ls) dyntbl dynsz DT_SYMENT;
     strtab \<leftarrow> readelf_dylink_dynamic_find (snd ls) dyntbl dynsz DT_STRTAB;
     let syment = (if syment = 0 then 24 else syment);
     if jmprel = 0 \<or> symtab = 0 then Some (False, ls)
     else if pltrel \<noteq> DT_REL \<and> pltrel \<noteq> DT_RELA then Some (False, ls)
     else let entsz = (if pltrel = DT_REL then 16 else 24)
       in if pltrelsz mod entsz \<noteq> 0 then Some (False, ls)
       else reloc_loop v pltrelsz entsz jmprel symtab syment strtab ls
   }"

definition readelf_dylink_handle_dynamic_rel :: "env \<Rightarrow> u64 \<Rightarrow> u64 \<Rightarrow> u64 \<Rightarrow> image \<Rightarrow> (bool \<times> image) option" where
  "readelf_dylink_handle_dynamic_rel v dyntbl dynsz rel ls = do {
     sz \<leftarrow> readelf_dylink_dynamic_find (snd ls) dyntbl dynsz DT_RELSZ;
     entsz \<leftarrow> readelf_dylink_dynamic_find (snd ls) dyntbl dynsz DT_RELENT;
     symtab \<leftarrow> readelf_dylink_dynamic_find (snd ls) dyntbl dynsz DT_SYMTAB;
     syment \<leftarrow> readelf_dylink_dynamic_find (snd ls) dyntbl dynsz DT_SYMENT;
     strtab \<leftarrow> readelf_dylink_dynamic_find (snd ls) dyntbl dynsz DT_STRTAB;
     if sz = 0 \<or> entsz \<noteq> 16 then Some (False, ls)
     else reloc_loop v sz entsz rel symtab syment strtab ls
   }"

definition readelf_dylink_handle_dynamic_rela :: "env \<Rightarrow> u64 \<Rightarrow> u64 \<Rightarrow> u64 \<Rightarrow> image \<Rightarrow> (bool \<times> image) option" where
  "readelf_dylink_handle_dynamic_rela v dyntbl dynsz rela ls = do {
     sz \<leftarrow> readelf_dylink_dynamic_find (snd ls) dyntbl dynsz DT_RELASZ;
     entsz \<leftarrow> readelf_dylink_dynamic_find (snd ls) dyntbl dynsz DT_RELAENT;
     symtab \<leftarrow> readelf_dylink_dynamic_find (snd ls) dyntbl dynsz DT_SYMTAB;
     syment \<leftarrow> readelf_dylink_dynamic_find (snd ls) dyntbl dynsz DT_SYMENT;
     strtab \<leftarrow> readelf_dylink_dynamic_find (snd ls) dyntbl dynsz DT_STRTAB;
     if sz = 0 \<or> entsz \<noteq> 24 then Some (False, ls)
     else reloc_loop v sz entsz rela symtab syment strtab ls
   }"

section \<open>Symbols of the image\<close>

text \<open>\<open>n\<close> counts the words of the hash table that are left.\<close>

fun symtab_loop :: "nat \<Rightarrow> u64 \<Rightarrow> u64 \<Rightarrow> u64 \<Rightarrow> u64 \<Rightarrow> image \<Rightarrow> (bool \<times> image) option" where
  "symtab_loop 0 hashtab symtab syment strtab ls = Some (True, ls)"
| "symtab_loop (Suc n) hashtab symtab syment strtab ls =
     (case read_local (snd ls) hashtab 4 of
        None \<Rightarrow> Some (False, ls)
      | Some bs \<Rightarrow>
          let idx = fld 0 4 bs
          in if idx = 0 then symtab_loop n (hashtab + 4) symtab syment strtab ls
          else (case read_local (snd ls) (symtab + syment * idx) 24 of
              None \<Rightarrow> Some (False, ls)
            | Some bs \<Rightarrow>
                let sy = sym_of bs
                in if s_name sy = 0 \<or> s_value sy = 0 then symtab_loop n (hashtab + 4) symtab syment strtab ls
                else do {
                  ptr \<leftarrow> readelf_find_load_addr (snd ls) (s_value sy);
                  if ptr = 0 then symtab_loop n (hashtab + 4) symtab syment strtab ls
                  else do {
                    name \<leftarrow> readString (snd ls) (strtab + ucast (s_name sy));
                    symtab_loop n (hashtab + 4) symtab syment strtab
                      (case name of
                         None \<Rightarrow> ls
                       | Some nm \<Rightarrow> if nm \<noteq> [] \<and> hd nm \<noteq> 0 then (addSymbol nm ptr (fst ls), snd ls) else ls)
                  }
                }))"

definition readelf_dylink_handle_dynamic_symtab :: "u64 \<Rightarrow> u64 \<Rightarrow> u64 \<Rightarrow> image \<Rightarrow> (bool \<times> image) option" where
  "readelf_dylink_handle_dynamic_symtab dyntbl dynsz symtab ls = do {
     syment \<leftarrow> readelf_dylink_dynamic_find (snd ls) dyntbl dynsz DT_SYMENT;
     strtab \<leftarrow> readelf_dylink_dynamic_find (snd ls) dyntbl dynsz DT_STRTAB;
     hashtab \<leftarrow> readelf_dylink_dynamic_find (snd ls) dyntbl dynsz DT_HASH;
     if syment = 0 \<or> strtab = 0 \<or> hashtab = 0 then Some (False, ls)
     else case read_local (snd ls) hashtab 8 of
       None \<Rightarrow> Some (False, ls)
     | Some bs \<Rightarrow> symtab_loop (unat (ucast (fld 0 4 bs) + ucast (fld 4 4 bs) :: u32)) (hashtab + 8) symtab syment strtab ls
   }"

section \<open>The dynamic table\<close>

definition handle_dynamic_entry :: "env \<Rightarrow> u64 \<Rightarrow> u64 \<Rightarrow> dyn \<Rightarrow> image \<Rightarrow> (bool \<times> image) option" where
  "handle_dynamic_entry v dyntbl dynsz d ls =
     (if d_tag d = DT_JMPREL then readelf_dylink_handle_dynamic_jmprel v dyntbl dynsz (d_val d) ls
      else if d_tag d = DT_REL then readelf_dylink_handle_dynamic_rel v dyntbl dynsz (d_val d) ls
      else if d_tag d = DT_RELA then readelf_dylink_handle_dynamic_rela v dyntbl dynsz (d_val d) ls
      else if d_tag d = DT_SYMTAB then readelf_dylink_handle_dynamic_symtab dyntbl dynsz (d_val d) ls
      else Some (True, ls))"

partial_function (option) dynamic_loop :: "env \<Rightarrow> u64 \<Rightarrow> u64 \<Rightarrow> u64 \<Rightarrow> u64 \<Rightarrow> image \<Rightarrow> (bool \<times> image) option" where
  "dynamic_loop v dynptr e dyntbl dynsz ls =
     (if dynptr < e then
        (case read_local (snd ls) dynptr 16 of
           None \<Rightarrow> Some (False, ls)
         | Some bs \<Rightarrow> do {
             (ok, ls) \<leftarrow> handle_dynamic_entry v dyntbl dynsz (dyn_of bs) ls;
             if ok then dynamic_loop v (dynptr + 16) e dyntbl dynsz ls else Some (False, ls)
           })
      else Some (True, ls))"

definition readelf_dylink_handle_dynamic_table :: "env \<Rightarrow> u64 \<Rightarrow> u64 \<Rightarrow> image \<Rightarrow> (bool \<times> image) option" where
  "readelf_dylink_handle_dynamic_table v dyntbl dynsz ls = dynamic_loop v dyntbl (dyntbl + dynsz) dyntbl dynsz ls"

partial_function (option) segments_loop :: "env \<Rightarrow> u64 \<Rightarrow> u64 \<Rightarrow> image \<Rightarrow> (bool \<times> image) option" where
  "segments_loop v phdr e ls =
     (if phdr < e then
        (case read_local (snd ls) phdr 56 of
           None \<Rightarrow> Some (False, ls)
         | Some bs \<Rightarrow>
             if p_type (prog_of bs) \<noteq> PT_DYNAMIC then segments_loop v (phdr + 56) e ls
             else do {
               (ok, s) \<leftarrow> readelf_dylink_fix_dynamic_table (p_paddr (prog_of bs)) (p_filesz (prog_of bs)) (snd ls);
               if \<not> ok then Some (False, fst ls, s)
               else do {
                 (ok, ls) \<leftarrow> readelf_dylink_handle_dynamic_table v (p_paddr (prog_of bs)) (p_filesz (prog_of bs)) (fst ls, s);
                 if \<not> ok then Some (False, ls) else segments_loop v (phdr + 56) e ls
               }
             })
      else Some (True, ls))"

definition readelf_dylink_handle_dynamic :: "env \<Rightarrow> image \<Rightarrow> (bool \<times> image) option" where
  "readelf_dylink_handle_dynamic v ls =
     (case read_hdr (snd ls) of
        None \<Rightarrow> Some (False, ls)
      | Some elf \<Rightarrow> segments_loop v (phdr_base (snd ls) elf) (phdr_top (snd ls) elf) ls)"

definition readelf_dylink :: "env \<Rightarrow> image \<Rightarrow> (bool \<times> image) option" where
  "readelf_dylink v ls = do {
     (ok, s) \<leftarrow> readelf_dylink_fix_phdr (snd ls);
     if \<not> ok then Some (False, fst ls, s)
     else do {
       (ok, s) \<leftarrow> readelf_dylink_fix_entry s;
       if \<not> ok then Some (False, fst ls, s)
       else readelf_dylink_handle_dynamic v (fst ls, s)
     }
   }"

section \<open>Loading\<close>

definition header_ok :: "hdr \<Rightarrow> bool" where
  "header_ok elf \<longleftrightarrow>
     e_magic elf = 0x464C457F \<and> e_class elf = 2 \<and> e_data elf = 1 \<and> e_fversion elf = 1 \<and> e_osabi elf = 0
     \<and> e_abiversion elf = 0
     \<and> e_machine elf = 62 \<and> e_type elf = 3 \<and> e_version elf = 1 \<and> e_flags elf = 0 \<and> e_ehsize elf = 64
     \<and> e_phoff elf = 64"

text \<open>\<^verbatim>\<open>shentsize * shnum\<close> is a product of \<^verbatim>\<open>int\<close>.\<close>

definition image_size :: "hdr \<Rightarrow> u64" where
  "image_size elf = e_shoff elf + scast (ucast (e_shentsize elf) * ucast (e_shnum elf) :: u32)"

definition segment_type :: "u32 \<Rightarrow> section_type option" where
  "segment_type flags =
     (if flags AND 1 \<noteq> 0 then (if flags AND 2 \<noteq> 0 then None else Some SectionTypeCode)
      else Some (if flags AND 2 \<noteq> 0 then SectionTypeData else SectionTypeROData))"

text \<open>\<^verbatim>\<open>writeData\<close> from the image in kernel memory.\<close>

definition write_image :: "u64 \<Rightarrow> u64 \<Rightarrow> u64 \<Rightarrow> space \<Rightarrow> space" where
  "write_image a ptr len s = s\<lparr>kmem := memory (writeData s a ptr (unat len) \<lparr>memory = kmem s, DF = False\<rparr>)\<rparr>"

definition load_segment :: "nat \<Rightarrow> u64 \<Rightarrow> prog \<Rightarrow> section_type \<Rightarrow> space \<Rightarrow> space option" where
  "load_segment n elfbase p type s = do {
     let palign = p_offset p AND 0xFFF;
     (a, s) \<leftarrow> addSection n (p_vaddr p AND NOT 0xFFF) type (p_memsz p + palign) s;
     Some (write_image (a + palign) (elfbase + p_offset p) (p_filesz p) s)
   }"

fun load_progs :: "nat \<Rightarrow> nat \<Rightarrow> u64 \<Rightarrow> u64 \<Rightarrow> hdr \<Rightarrow> space \<Rightarrow> (bool \<times> space) option" where
  "load_progs n 0 progs_low elfbase elf s = Some (True, s)"
| "load_progs n (Suc k) progs_low elfbase elf s =
     (let p = prog_of (chunk_bytes (elfbase + progs_low) 56 (kmem s))
      in if p_type p = PT_NULL \<or> p_type p = PT_DYNAMIC then load_progs n k (progs_low + 56) elfbase elf s
      else if p_type p = PT_PHDR then
        (if p_offset p \<noteq> e_phoff elf \<or> p_filesz p \<noteq> 56 * ucast (e_phnum elf) then Some (False, s)
         else load_progs n k (progs_low + 56) elfbase elf s)
      else if p_type p = PT_LOAD then
        (case segment_type (p_flags p) of
           None \<Rightarrow> Some (False, s)
         | Some type \<Rightarrow> do {
             s \<leftarrow> load_segment n elfbase p type s;
             load_progs n k (progs_low + 56) elfbase elf s
           })
      else if 0x60000000 \<le> p_type p \<and> p_type p \<le> 0x7FFFFFFF then load_progs n k (progs_low + 56) elfbase elf s
      else Some (False, s))"

definition readelf :: "env \<Rightarrow> u64 \<Rightarrow> image \<Rightarrow> (u64 \<times> image) option" where
  "readelf v elfbase ls = do {
     let elf = hdr_of (chunk_bytes elfbase 64 (kmem (snd ls)));
     if \<not> header_ok elf then Some (0, ls)
     else do {
       (ok, s) \<leftarrow> load_progs (fuel v) (unat (e_phnum elf)) 64 elfbase elf (snd ls);
       if \<not> ok then Some (0, fst ls, s)
       else do {
         let s = write_image (aslrCode s) elfbase (64 + 56 * ucast (e_phnum elf)) s;
         (ok, ls) \<leftarrow> readelf_dylink v (fst ls, s);
         Some (if ok then image_size elf else 0, ls)
       }
     }
   }"

section \<open>Packing\<close>

lemma fld_head [simp]: "length xs = n \<Longrightarrow> fld 0 n (xs @ ys) = un_le xs" "length xs = n \<Longrightarrow> fld 0 n xs = un_le xs"
  by (simp_all add: fld_def)

lemma fld_skip [simp]: "length xs \<le> k \<Longrightarrow> fld k n (xs @ ys) = fld (k - length xs) n ys"
  by (simp add: fld_def)

lemma take_bit_u64 [simp]: "take_bit 64 (v :: u64) = v"
  by (rule bit_word_eqI) (auto simp: bit_simps)

lemma narrow_id [simp]:
  "(ucast (take_bit 32 (ucast (w :: u32) :: u64)) :: u32) = w"
  "(ucast (take_bit 16 (ucast (x :: u16) :: u64)) :: u16) = x"
  "(ucast (take_bit 8 (ucast (y :: u8) :: u64)) :: u8) = y"
  by (rule bit_word_eqI; auto simp: bit_simps)+

lemma prog_roundtrip [simp]: "prog_of (prog_bytes p) = p"
  by (simp add: prog_of_def prog_bytes_def)

lemma length_prog_bytes [simp]: "length (prog_bytes p) = 56"
  by (simp add: prog_bytes_def)

lemma dyn_roundtrip [simp]: "dyn_of (dyn_bytes d) = d"
  by (simp add: dyn_of_def dyn_bytes_def)

lemma length_dyn_bytes [simp]: "length (dyn_bytes d) = 16"
  by (simp add: dyn_bytes_def)

lemma hdr_roundtrip [simp]: "length (e_pad h) = 7 \<Longrightarrow> hdr_of (hdr_bytes h) = h"
  by (simp add: hdr_of_def hdr_bytes_def)

lemma length_hdr_bytes [simp]: "length (e_pad h) = 7 \<Longrightarrow> length (hdr_bytes h) = 64"
  by (simp add: hdr_bytes_def)

section \<open>The headers in user memory\<close>

text \<open>The copy of the headers at the base of the process, as a header and a list of segments.\<close>

definition headers_are :: "hdr \<Rightarrow> prog list \<Rightarrow> space \<Rightarrow> bool" where
  "headers_are elf ps s \<longleftrightarrow>
     read_local s (aslrCode s) 64 = Some (hdr_bytes elf) \<and> length (e_pad elf) = 7 \<and> e_phoff elf = 64
     \<and> unat (e_phnum elf) = length ps \<and> user_range s (aslrCode s) (64 + length ps * 56)
     \<and> unat (aslrCode s) + 64 + length ps * 56 < 18446744073709551616
     \<and> (\<forall>i < length ps. read_local s (aslrCode s + 64 + of_nat (i * 56)) 56 = Some (prog_bytes (ps ! i)))"

lemma read_hdr_headers: "headers_are elf ps s \<Longrightarrow> read_hdr s = Some elf"
  by (simp add: headers_are_def read_hdr_def)

lemma ucast_phnum: "unat (e_phnum elf) = n \<Longrightarrow> (ucast (e_phnum elf) :: u64) = of_nat n"
  by (metis of_nat_unat)

lemma phdr_bounds:
  assumes "headers_are elf ps s"
  shows "phdr_base s elf = aslrCode s + 64 + of_nat (0 * 56)" "phdr_top s elf = aslrCode s + 64 + of_nat (length ps * 56)"
  using assms ucast_phnum [of elf "length ps"] by (simp_all add: phdr_base_def phdr_top_def headers_are_def)

lemma phdr_at:
  assumes "headers_are elf ps s" and "i \<le> length ps"
  shows "unat (aslrCode s + 64 + of_nat (i * 56)) = unat (aslrCode s) + 64 + i * 56"
proof -
  have b: "unat (aslrCode s) + 64 + i * 56 < 18446744073709551616" using assms by (auto simp: headers_are_def)
  then have "unat (aslrCode s + 64) = unat (aslrCode s) + 64" by (subst unat_add_u64) simp_all
  moreover have "unat (of_nat (i * 56) :: u64) = i * 56" using b by (intro unat_of_nat_u64) simp
  ultimately show ?thesis using b by (subst unat_add_u64) simp_all
qed

lemma phdr_less:
  assumes "headers_are elf ps s" and "i \<le> length ps"
  shows "aslrCode s + 64 + of_nat (i * 56) < aslrCode s + 64 + of_nat (length ps * 56) \<longleftrightarrow> i < length ps"
  using phdr_at [OF assms] phdr_at [OF assms(1) order_refl] by (simp only: word_less_nat_alt) simp

lemma phdr_next: "a + of_nat (i * 56) + 56 = a + of_nat (Suc i * 56)" for a :: u64
  by simp

lemma find_segment_list:
  assumes "headers_are elf ps s" and "i \<le> length ps"
  shows "find_segment s P (aslrCode s + 64 + of_nat (i * 56)) (aslrCode s + 64 + of_nat (length ps * 56))
    = Some (find P (drop i ps))"
  using assms(2)
proof (induction "length ps - i" arbitrary: i)
  case 0
  then have "i = length ps" by simp
  then show ?case by (subst find_segment.simps) simp
next
  case (Suc k)
  then have i: "i < length ps" by simp
  have "read_local s (aslrCode s + 64 + of_nat (i * 56)) 56 = Some (prog_bytes (ps ! i))"
    using assms(1) i by (simp add: headers_are_def)
  moreover have "drop i ps = ps ! i # drop (Suc i) ps" using i by (rule Cons_nth_drop_Suc [symmetric])
  moreover have "find_segment s P (aslrCode s + 64 + of_nat (Suc i * 56)) (aslrCode s + 64 + of_nat (length ps * 56))
      = Some (find P (drop (Suc i) ps))"
    using Suc.hyps(2) i by (intro Suc.hyps(1)) simp_all
  ultimately show ?case
    using phdr_less [OF assms(1), of i] i
    by (subst find_segment.simps) (simp add: phdr_next del: of_nat_mult of_nat_Suc mult_Suc)
qed

text \<open>The two searches on the list of segments.\<close>

definition at_offset :: "u64 \<Rightarrow> prog \<Rightarrow> bool" where
  "at_offset f p \<longleftrightarrow> p_type p = PT_LOAD \<and> p_offset p \<le> f \<and> f < p_offset p + p_filesz p"

definition at_vaddr :: "u64 \<Rightarrow> prog \<Rightarrow> bool" where
  "at_vaddr v p \<longleftrightarrow> p_type p = PT_LOAD \<and> p_vaddr p \<le> v \<and> v < p_vaddr p + p_filesz p"

definition load_addr :: "prog list \<Rightarrow> u64 \<Rightarrow> u64" where
  "load_addr ps f = (case find (at_offset f) ps of None \<Rightarrow> 0 | Some p \<Rightarrow> f + p_paddr p - p_offset p)"

definition load_offset :: "prog list \<Rightarrow> u64 \<Rightarrow> u64" where
  "load_offset ps v = (case find (at_vaddr v) ps of None \<Rightarrow> 0 | Some p \<Rightarrow> v + p_offset p - p_vaddr p)"

lemma find_load:
  assumes "headers_are elf ps s"
  shows "readelf_find_load_addr s f = Some (load_addr ps f)" "readelf_find_load_offset s f = Some (load_offset ps f)"
    and "load_addr_of s f = Some (load_addr ps (load_offset ps f))"
proof -
  have seg: "find_segment s P (phdr_base s elf) (phdr_top s elf) = Some (find P ps)" for P
    using find_segment_list [OF assms, of 0] phdr_bounds [OF assms] by simp
  show a: "readelf_find_load_addr s f = Some (load_addr ps f)" for f
    using seg by (simp add: readelf_find_load_addr_def read_hdr_headers [OF assms] load_addr_def at_offset_def [abs_def])
  show o: "readelf_find_load_offset s f = Some (load_offset ps f)"
    using seg by (simp add: readelf_find_load_offset_def read_hdr_headers [OF assms] load_offset_def at_vaddr_def [abs_def])
  show "load_addr_of s f = Some (load_addr ps (load_offset ps f))"
    by (simp add: load_addr_of_def a o)
qed

section \<open>Rewriting the segment table\<close>

text \<open>The loop of \<^verbatim>\<open>readelf_dylink_fix_phdr\<close> on the list: from entry \<open>i\<close>, \<open>k\<close> entries left.\<close>

fun fix_list :: "u64 \<Rightarrow> nat \<Rightarrow> nat \<Rightarrow> prog list \<Rightarrow> bool \<times> prog list" where
  "fix_list base i 0 ps = (True, ps)"
| "fix_list base i (Suc k) ps =
     (let p = ps ! i
      in if p_type p = PT_NULL then fix_list base (Suc i) k ps
      else if p_type p = PT_LOAD then fix_list base (Suc i) k (ps[i := p\<lparr>p_paddr := p_paddr p + base\<rparr>])
      else if load_addr ps (p_offset p) = 0 then (False, ps)
      else fix_list base (Suc i) k (ps[i := p\<lparr>p_paddr := load_addr ps (p_offset p)\<rparr>]))"

lemma headers_write:
  assumes "headers_are elf ps s" and "i < length ps"
  shows "headers_are elf (ps[i := p]) (write_local (aslrCode s + 64 + of_nat (i * 56)) (prog_bytes p) s)"
    and "aslrCode (write_local (aslrCode s + 64 + of_nat (i * 56)) (prog_bytes p) s) = aslrCode s"
proof -
  let ?a = "aslrCode s + 64 + of_nat (i * 56)" and ?n = "length ps"
  let ?s = "write_local ?a (prog_bytes p) s"
  have h: "user_range s (aslrCode s) (64 + ?n * 56)" using assms(1) by (simp add: headers_are_def)
  have tab: "user_range s (aslrCode s + 64) (?n * 56)"
    using um.ok_part [OF h, of 64 "?n * 56"] by simp
  have slot: "user_range s ?a (length (prog_bytes p))" using um.slot_ok [OF tab assms(2)] by simp
  obtain m where m: "?s = s\<lparr>kmem := m\<rparr>" using write_local_memory [OF slot] by blast
  then show base: "aslrCode ?s = aslrCode s" by simp
  have "64 + i * 56 + 56 \<le> 64 + ?n * 56" using assms(2) by simp
  then have "no_shared_frame s (aslrCode s + of_nat (64 + i * 56)) 56 (aslrCode s + of_nat 0) 64"
    using um.apart_sym [OF um.ok_apart [OF h, of 0 64 "64 + i * 56" 56]] by simp
  then have ap: "no_shared_frame s ?a (length (prog_bytes p)) (aslrCode s) 64" by (simp add: add.assoc)
  have hd: "read_local ?s (aslrCode s) 64 = read_local s (aslrCode s) 64" by (rule um.rd_wr_apart [OF slot ap])
  have sl: "read_local ?s (aslrCode s + 64 + of_nat (j * 56)) 56
      = (if i = j then Some (prog_bytes p) else read_local s (aslrCode s + 64 + of_nat (j * 56)) 56)" if "j < ?n" for j
    using um.slot_write [OF tab assms(2) that, of "prog_bytes p"] by simp
  have "user_range ?s (aslrCode s) (64 + ?n * 56)" using h um.ok_wr [OF slot] by simp
  then show "headers_are elf (ps[i := p]) ?s"
    using assms(1) hd sl unfolding headers_are_def base by (simp add: nth_list_update del: of_nat_mult)
qed

lemma fix_phdrs_list:
  assumes "headers_are elf ps s" and "i + k = length ps"
  shows "\<exists>s'. fix_phdrs (aslrCode s + 64 + of_nat (i * 56)) (aslrCode s + 64 + of_nat (length ps * 56)) s
      = Some (fst (fix_list (aslrCode s) i k ps), s')
    \<and> headers_are elf (snd (fix_list (aslrCode s) i k ps)) s' \<and> aslrCode s' = aslrCode s"
  using assms
proof (induction k arbitrary: i ps s)
  case 0
  then show ?case by (subst fix_phdrs.simps) simp
next
  case (Suc k)
  let ?a = "aslrCode s + 64 + of_nat (i * 56)" and ?p = "ps ! i"
  have i: "i < length ps" using Suc.prems(2) by simp
  have rd: "read_local s ?a 56 = Some (prog_bytes ?p)" using Suc.prems(1) i by (simp add: headers_are_def)
  have lt: "?a < aslrCode s + 64 + of_nat (length ps * 56)"
    using phdr_less [OF Suc.prems(1), of i] i by simp
  have step: "?case" if "fix_phdrs ?a (aslrCode s + 64 + of_nat (length ps * 56)) s
        = fix_phdrs (aslrCode s' + 64 + of_nat (Suc i * 56)) (aslrCode s' + 64 + of_nat (length qs * 56)) s'"
      "fix_list (aslrCode s) i (Suc k) ps = fix_list (aslrCode s') (Suc i) k qs"
      "headers_are elf qs s'" "length qs = length ps" "aslrCode s' = aslrCode s" for qs s'
    using Suc.IH [OF that(3), of "Suc i"] Suc.prems(2) that by simp
  have wr: ?case if w: "fix_phdrs ?a (aslrCode s + 64 + of_nat (length ps * 56)) s
        = fix_phdrs (?a + 56) (aslrCode s + 64 + of_nat (length ps * 56)) (write_local ?a (prog_bytes q) s)"
      "fix_list (aslrCode s) i (Suc k) ps = fix_list (aslrCode s) (Suc i) k (ps[i := q])" for q
    using step [of "write_local ?a (prog_bytes q) s" "ps[i := q]"] headers_write [OF Suc.prems(1) i, of q] w
    by (simp only: phdr_next length_list_update)
  consider "p_type ?p = PT_NULL" | "p_type ?p = PT_LOAD"
    | "p_type ?p \<notin> {PT_NULL, PT_LOAD}" "load_addr ps (p_offset ?p) = 0"
    | "p_type ?p \<notin> {PT_NULL, PT_LOAD}" "load_addr ps (p_offset ?p) \<noteq> 0"
    by blast
  then show ?case
  proof cases
    case 1
    then have "fix_phdrs ?a (aslrCode s + 64 + of_nat (length ps * 56)) s
        = fix_phdrs (?a + 56) (aslrCode s + 64 + of_nat (length ps * 56)) s"
      using lt rd by (subst fix_phdrs.simps) simp
    moreover have "fix_list (aslrCode s) i (Suc k) ps = fix_list (aslrCode s) (Suc i) k ps"
      using 1 by (simp add: Let_def)
    ultimately show ?thesis
      using step [of s ps] Suc.prems(1) unfolding phdr_next by blast
  next
    case 2
    then show ?thesis
      using lt rd by (intro wr [of "?p\<lparr>p_paddr := p_paddr ?p + aslrCode s\<rparr>"]; (subst fix_phdrs.simps)?)
        (simp_all add: Let_def PT_LOAD_def PT_NULL_def)
  next
    case 3
    then show ?thesis
      using lt rd find_load(1) [OF Suc.prems(1)] Suc.prems(1) by (subst fix_phdrs.simps) (simp add: Let_def)
  next
    case 4
    then show ?thesis
      using lt rd find_load(1) [OF Suc.prems(1)]
      by (intro wr [of "?p\<lparr>p_paddr := load_addr ps (p_offset ?p)\<rparr>"]; (subst fix_phdrs.simps)?) (simp_all add: Let_def)
  qed
qed

text \<open>
  C19: readelf_dylink_fix_phdr on the headers in user memory refines the rewriting of the list
  of segments: it always returns, with the same verdict, and leaves exactly the rewritten list
  in memory, the header untouched.
\<close>

theorem fix_phdr_refines:
  assumes "headers_are elf ps s"
  shows "\<exists>s'. readelf_dylink_fix_phdr s = Some (fst (fix_list (aslrCode s) 0 (length ps) ps), s')
    \<and> headers_are elf (snd (fix_list (aslrCode s) 0 (length ps) ps)) s' \<and> aslrCode s' = aslrCode s"
  using fix_phdrs_list [OF assms, of 0 "length ps"] phdr_bounds [OF assms]
  by (simp add: readelf_dylink_fix_phdr_def read_hdr_headers [OF assms])

text \<open>With the loadable segments first, they are moved by the base and the others follow them.\<close>

definition rebase :: "u64 \<Rightarrow> prog \<Rightarrow> prog" where
  "rebase base p = p\<lparr>p_paddr := p_paddr p + base\<rparr>"

lemma find_map: "find P (map f xs) = map_option f (find (P \<circ> f) xs)"
  by (induction xs) auto

lemma find_append: "find P (xs @ ys) = (case find P xs of None \<Rightarrow> find P ys | r \<Rightarrow> r)"
  by (induction xs) auto

lemma find_loads:
  assumes "\<forall>p \<in> set os. p_type p \<noteq> PT_LOAD"
  shows "find (at_offset f) (ls @ os) = find (at_offset f) ls" "find (at_vaddr f) (ls @ os) = find (at_vaddr f) ls"
proof -
  have "find (at_offset f) os = None" "find (at_vaddr f) os = None"
    using assms unfolding find_None_iff by (auto simp: at_offset_def at_vaddr_def)
  then show "find (at_offset f) (ls @ os) = find (at_offset f) ls" "find (at_vaddr f) (ls @ os) = find (at_vaddr f) ls"
    by (auto simp: find_append split: option.splits)
qed

lemma load_addr_loads: "\<forall>p \<in> set os. p_type p \<noteq> PT_LOAD \<Longrightarrow> load_addr (ls @ os) f = load_addr ls f"
  by (simp add: load_addr_def find_loads)

lemma load_offset_loads: "\<forall>p \<in> set os. p_type p \<noteq> PT_LOAD \<Longrightarrow> load_offset (ls @ os) v = load_offset ls v"
  by (simp add: load_offset_def find_loads)

lemma fix_list_loads:
  assumes "\<forall>p \<in> set ls. p_type p = PT_LOAD"
  shows "fix_list base (length pre) (length ls + k) (pre @ ls @ os)
    = fix_list base (length (pre @ map (rebase base) ls)) k ((pre @ map (rebase base) ls) @ os)"
  using assms
proof (induction ls arbitrary: pre)
  case (Cons p ls)
  have "fix_list base (length pre) (length (p # ls) + k) (pre @ (p # ls) @ os)
      = fix_list base (length (pre @ [rebase base p])) (length ls + k) ((pre @ [rebase base p]) @ ls @ os)"
    using Cons.prems by (simp add: Let_def PT_LOAD_def PT_NULL_def rebase_def)
  also have "\<dots> = fix_list base (length ((pre @ [rebase base p]) @ map (rebase base) ls)) k
      (((pre @ [rebase base p]) @ map (rebase base) ls) @ os)"
    using Cons.prems by (intro Cons.IH) simp
  finally show ?case by simp
qed simp

lemma fix_list_others:
  assumes "\<forall>p \<in> set os. p_type p \<notin> {PT_NULL, PT_LOAD} \<and> load_addr ls (p_offset p) \<noteq> 0"
    and "\<forall>p \<in> set pre. p_type p \<noteq> PT_LOAD"
  shows "fix_list base (length (ls @ pre)) (length os) (ls @ pre @ os)
    = (True, ls @ pre @ map (\<lambda>p. p\<lparr>p_paddr := load_addr ls (p_offset p)\<rparr>) os)"
  using assms
proof (induction os arbitrary: pre)
  case (Cons p os)
  let ?p = "p\<lparr>p_paddr := load_addr ls (p_offset p)\<rparr>"
  have "load_addr (ls @ pre @ p # os) (p_offset p) = load_addr ls (p_offset p)"
    using Cons.prems by (intro load_addr_loads) auto
  then have "fix_list base (length (ls @ pre)) (length (p # os)) (ls @ pre @ p # os)
      = fix_list base (length (ls @ pre @ [?p])) (length os) (ls @ (pre @ [?p]) @ os)"
    using Cons.prems(1)
    by (simp add: Let_def nth_append list_update_append)
  also have "\<dots> = (True, ls @ (pre @ [?p]) @ map (\<lambda>p. p\<lparr>p_paddr := load_addr ls (p_offset p)\<rparr>) os)"
    using Cons.IH [of "pre @ [?p]"] Cons.prems by simp
  finally show ?case by simp
qed simp

definition placed :: "u64 \<Rightarrow> prog list \<Rightarrow> prog list \<Rightarrow> prog list" where
  "placed base ls os = map (rebase base) ls
     @ map (\<lambda>p. p\<lparr>p_paddr := load_addr (map (rebase base) ls) (p_offset p)\<rparr>) os"

lemma fix_list_placed:
  assumes "\<forall>p \<in> set ls. p_type p = PT_LOAD"
    and "\<forall>p \<in> set os. p_type p \<notin> {PT_NULL, PT_LOAD} \<and> load_addr (map (rebase base) ls) (p_offset p) \<noteq> 0"
  shows "fix_list base 0 (length (ls @ os)) (ls @ os) = (True, placed base ls os)"
  using fix_list_loads [OF assms(1), of base "[]" "length os" os]
    fix_list_others [OF assms(2), of "[]" base] by (simp add: placed_def)

text \<open>Rewriting the entry point.\<close>

lemma headers_write_entry:
  assumes "headers_are elf ps s"
  shows "headers_are (elf\<lparr>e_entry := v\<rparr>) ps (setEntryAddress v (write_local (aslrCode s) (hdr_bytes (elf\<lparr>e_entry := v\<rparr>)) s))"
proof -
  let ?n = "length ps" and ?elf = "elf\<lparr>e_entry := v\<rparr>"
  have h: "user_range s (aslrCode s) (64 + ?n * 56)" and pad: "length (e_pad ?elf) = 7"
    using assms by (simp_all add: headers_are_def)
  have r: "user_range s (aslrCode s) (length (hdr_bytes ?elf))"
    using um.ok_part [OF h, of 0 64] pad by simp
  let ?s = "write_local (aslrCode s) (hdr_bytes ?elf) s"
  obtain m where m: "?s = s\<lparr>kmem := m\<rparr>" using write_local_memory [OF r] by blast
  have rd: "read_local ?s (aslrCode s) 64 = Some (hdr_bytes ?elf)" using um.rd_wr_same [OF r] pad by simp
  have sl: "read_local ?s (aslrCode s + 64 + of_nat (i * 56)) 56 = read_local s (aslrCode s + 64 + of_nat (i * 56)) 56"
    if "i < ?n" for i
  proof (rule um.rd_wr_apart [OF r])
    have "64 + i * 56 + 56 \<le> 64 + ?n * 56" using that by simp
    then show "no_shared_frame s (aslrCode s) (length (hdr_bytes ?elf)) (aslrCode s + 64 + of_nat (i * 56)) 56"
      using um.ok_apart [OF h, of 0 64 "64 + i * 56" 56] pad by (simp add: add.assoc)
  qed
  have ur: "user_range ?s (aslrCode s) (64 + ?n * 56)" using h um.ok_wr [OF r] by simp
  have keep: "read_local (setEntryAddress v ?s) = read_local ?s" "user_range (setEntryAddress v ?s) = user_range ?s"
      "aslrCode (setEntryAddress v ?s) = aslrCode s"
  proof -
    have "getPhysicalAddress (setEntryAddress v t) a = getPhysicalAddress t a" for t a
      by (simp add: getPhysicalAddress_def ucell_def setEntryAddress_def cong: if_cong option.case_cong)
    then show "read_local (setEntryAddress v ?s) = read_local ?s" "user_range (setEntryAddress v ?s) = user_range ?s"
      by (simp_all add: fun_eq_iff read_local_vread vread_mapped user_range_def all_mapped_def one_frame_each_def)
        (simp add: setEntryAddress_def)
    show "aslrCode (setEntryAddress v ?s) = aslrCode s" by (simp add: setEntryAddress_def m)
  qed
  show ?thesis
    using assms rd sl ur unfolding headers_are_def keep by (simp del: of_nat_mult)
qed

text \<open>
  C20: With the loadable segments first, the two header passes succeed, move every loadable
  segment by the base of the process, place every other segment inside the one that contains
  it, and set the entry point, in the header and in the process, to the load address of the
  image's entry point.
\<close>

theorem entry_rebased:
  fixes s :: space and p :: prog
  defines "base \<equiv> aslrCode s"
  assumes h: "headers_are elf (ls @ os) s" and ls: "\<forall>p \<in> set ls. p_type p = PT_LOAD"
    and os: "\<forall>p \<in> set os. p_type p \<notin> {PT_NULL, PT_LOAD} \<and> load_addr (map (rebase base) ls) (p_offset p) \<noteq> 0"
    and seg: "find (at_vaddr (e_entry elf)) ls = Some p"
      "find (at_offset (e_entry elf + p_offset p - p_vaddr p)) ls = Some p"
    and nonzero: "e_entry elf - p_vaddr p + (p_paddr p + base) \<noteq> 0"
  shows "\<exists>s1 s2. readelf_dylink_fix_phdr s = Some (True, s1) \<and> readelf_dylink_fix_entry s1 = Some (True, s2)
    \<and> uentry s2 = e_entry elf - p_vaddr p + (p_paddr p + base)
    \<and> headers_are (elf\<lparr>e_entry := e_entry elf - p_vaddr p + (p_paddr p + base)\<rparr>) (placed base ls os) s2"
proof -
  let ?qs = "placed base ls os" and ?e = "e_entry elf - p_vaddr p + (p_paddr p + base)"
  obtain s1 where s1: "readelf_dylink_fix_phdr s = Some (True, s1)" "headers_are elf ?qs s1"
    using fix_phdrs_list [OF h, of 0 "length (ls @ os)"] phdr_bounds [OF h] fix_list_placed [OF ls os]
    by (auto simp: readelf_dylink_fix_phdr_def read_hdr_headers [OF h] base_def)
  have others: "\<forall>q \<in> set (map (\<lambda>p. p\<lparr>p_paddr := load_addr (map (rebase base) ls) (p_offset p)\<rparr>) os). p_type q \<noteq> PT_LOAD"
    using os by auto
  have same: "at_vaddr v \<circ> rebase base = at_vaddr v" "at_offset v \<circ> rebase base = at_offset v" for v
    by (simp_all add: fun_eq_iff at_vaddr_def at_offset_def rebase_def)
  have "load_offset ?qs (e_entry elf) = e_entry elf + p_offset p - p_vaddr p"
    unfolding placed_def load_offset_loads [OF others] by (simp add: load_offset_def find_map same seg(1) rebase_def)
  moreover have "load_addr ?qs (e_entry elf + p_offset p - p_vaddr p) = ?e"
    unfolding placed_def load_addr_loads [OF others] by (simp add: load_addr_def find_map same seg(2) rebase_def)
  ultimately have "load_addr_of s1 (e_entry elf) = Some ?e" using find_load(3) [OF s1(2)] by simp
  then have "readelf_dylink_fix_entry s1
      = Some (True, setEntryAddress ?e (write_local (aslrCode s1) (hdr_bytes (elf\<lparr>e_entry := ?e\<rparr>)) s1))"
    using nonzero by (simp add: readelf_dylink_fix_entry_def read_hdr_headers [OF s1(2)])
  then show ?thesis
    using s1(1) headers_write_entry [OF s1(2), of ?e] by (auto simp: setEntryAddress_def)
qed


section \<open>Lookups in the dynamic table\<close>

definition dynamics_are :: "u64 \<Rightarrow> dyn list \<Rightarrow> space \<Rightarrow> bool" where
  "dynamics_are tbl ds s \<longleftrightarrow> unat tbl + length ds * 16 < 18446744073709551616
     \<and> (\<forall>i < length ds. read_local s (tbl + of_nat (i * 16)) 16 = Some (dyn_bytes (ds ! i)))"

lemma dyn_next: "a + of_nat (i * 16) + 16 = a + of_nat (Suc i * 16)" for a :: u64
  by simp

lemma dynamic_find_list:
  assumes "dynamics_are tbl ds s" and "i \<le> length ds"
  shows "dynamic_find s (tbl + of_nat (i * 16)) (tbl + of_nat (length ds * 16)) tag
    = Some (case find (\<lambda>d. d_tag d = tag) (drop i ds) of None \<Rightarrow> 0 | Some d \<Rightarrow> d_val d)"
  using assms(2)
proof (induction "length ds - i" arbitrary: i)
  case 0
  then have "i = length ds" by simp
  then show ?case by (subst dynamic_find.simps) simp
next
  case (Suc k)
  then have i: "i < length ds" by simp
  have at: "unat (tbl + of_nat (j * 16)) = unat tbl + j * 16" if "j \<le> length ds" for j
  proof -
    have b: "unat tbl + j * 16 < 18446744073709551616" using assms(1) that by (auto simp: dynamics_are_def)
    then have "unat (of_nat (j * 16) :: u64) = j * 16" by (simp add: unat_of_nat_u64 del: of_nat_mult)
    with b show ?thesis by (subst unat_add_u64) simp_all
  qed
  have "tbl + of_nat (i * 16) < tbl + of_nat (length ds * 16)"
    using at [of i] at [of "length ds"] i by (simp only: word_less_nat_alt)
  moreover have "read_local s (tbl + of_nat (i * 16)) 16 = Some (dyn_bytes (ds ! i))"
    using assms(1) i by (simp add: dynamics_are_def)
  moreover have "drop i ds = ds ! i # drop (Suc i) ds" using i by (rule Cons_nth_drop_Suc [symmetric])
  moreover have "dynamic_find s (tbl + of_nat (Suc i * 16)) (tbl + of_nat (length ds * 16)) tag
      = Some (case find (\<lambda>d. d_tag d = tag) (drop (Suc i) ds) of None \<Rightarrow> 0 | Some d \<Rightarrow> d_val d)"
    using Suc.hyps(2) i by (intro Suc.hyps(1)) simp_all
  ultimately show ?case
    by (subst dynamic_find.simps) (simp add: dyn_next del: of_nat_mult of_nat_Suc mult_Suc)
qed

section \<open>Relocations\<close>

lemma process_reloc_known:
  assumes "headers_are elf ps s" and "r_sym ent \<noteq> 0"
    and "read_local s (symtab + syment * ucast (r_sym ent)) 24 = Some bs" and "s_name (sym_of bs) \<noteq> 0"
    and "readString s (strtab + ucast (s_name (sym_of bs))) = Some (Some n)"
    and "getSymbolByName l n \<noteq> 0" and "r_type ent \<in> {6, 7}"
  shows "readelf_dylink_process_reloc v ent symtab syment strtab (l, s)
    = Some (True, l, write_local (load_addr ps (load_offset ps (r_addr ent))) (le 8 (getSymbolByName l n + r_add ent)) s)"
  using assms by (auto simp: readelf_dylink_process_reloc_def resolve_def find_load(3) [OF assms(1)] Let_def)

text \<open>
  A JUMP_SLOT or GLOB_DAT relocation against a symbol the linker knows stores the symbol's
  address plus the addend at the load address of its target and changes nothing else in user
  memory.
\<close>

theorem reloc_known_symbol:
  fixes ps :: "prog list" and ent :: rela
  defines "ptr \<equiv> load_addr ps (load_offset ps (r_addr ent))"
  assumes "headers_are elf ps s" and "r_sym ent \<noteq> 0"
    and "read_local s (symtab + syment * ucast (r_sym ent)) 24 = Some bs" and "s_name (sym_of bs) \<noteq> 0"
    and "readString s (strtab + ucast (s_name (sym_of bs))) = Some (Some n)"
    and "getSymbolByName l n \<noteq> 0" and "r_type ent \<in> {6, 7}" and "user_range s ptr 8"
  shows "\<exists>s'. readelf_dylink_process_reloc v ent symtab syment strtab (l, s) = Some (True, l, s')
    \<and> read_local s' ptr 8 = Some (le 8 (getSymbolByName l n + r_add ent))
    \<and> (\<forall>b k. no_shared_frame s ptr 8 b k \<longrightarrow> read_local s' b k = read_local s b k)"
  using process_reloc_known [OF assms(2-8)] um.rd_wr_same [of s ptr "le 8 (getSymbolByName l n + r_add ent)"]
    um.rd_wr_apart [of s ptr "le 8 (getSymbolByName l n + r_add ent)"] assms(9)
  by (simp add: ptr_def)

text \<open>A name that is no system call and no special name links to nothing and changes nothing.\<close>

lemma linkLibrary_unknown:
  assumes "callByName (chars n) = 0" and "getSymbolByName l n = 0"
    and "\<forall>m \<in> {''__stack_chk_fail'', ''__stack_chk_guard'', ''kptr_acpi_rsdp''}. \<not> streq n (cstr m)"
  shows "linkLibrary f r g n l s = Some (0, l, s)"
  using assms by (simp add: linkLibrary_def)

text \<open>
  A relocation against a name that is no symbol, no system call and no special name, whose
  value lies in no segment and which is not weak, fails and leaves linker and process
  unchanged.
\<close>

theorem reloc_unknown_symbol:
  assumes "headers_are elf ps s" and "r_sym ent \<noteq> 0"
    and "read_local s (symtab + syment * ucast (r_sym ent)) 24 = Some bs" and "s_name (sym_of bs) \<noteq> 0"
    and "readString s (strtab + ucast (s_name (sym_of bs))) = Some (Some n)"
    and "getSymbolByName l n = 0" and "callByName (chars n) = 0"
    and "\<forall>m \<in> {''__stack_chk_fail'', ''__stack_chk_guard'', ''kptr_acpi_rsdp''}. \<not> streq n (cstr m)"
    and "load_offset ps (s_value (sym_of bs)) = 0" and "s_bind (sym_of bs) \<noteq> 2"
  shows "readelf_dylink_process_reloc v ent symtab syment strtab (l, s) = Some (False, l, s)"
  using assms linkLibrary_unknown [OF assms(7,6,8)]
  by (simp add: readelf_dylink_process_reloc_def resolve_def find_load [OF assms(1)] Let_def)

section \<open>Rejected images\<close>

lemma writable_code_rejected:
  assumes "p_type (prog_of (chunk_bytes (elfbase + low) 56 (kmem s))) = PT_LOAD"
    and "p_flags (prog_of (chunk_bytes (elfbase + low) 56 (kmem s))) AND 3 = 3"
  shows "load_progs n (Suc k) low elfbase elf s = Some (False, s)"
proof -
  let ?f = "p_flags (prog_of (chunk_bytes (elfbase + low) 56 (kmem s)))"
  have "?f AND 1 = (?f AND 3) AND 1" "?f AND 2 = (?f AND 3) AND 2" by (simp_all add: and.assoc)
  then have "segment_type ?f = None" using assms(2) by (simp add: segment_type_def)
  then show ?thesis using assms(1) by (simp add: PT_LOAD_def PT_NULL_def PT_DYNAMIC_def PT_PHDR_def)
qed

section \<open>A concrete image\<close>

text \<open>
  A position-independent image with one loadable segment and a dynamic table, loaded at
  \<^verbatim>\<open>0x5000\<close>; behind the headers a symbol and its name.
\<close>

definition demo_hdr :: hdr where
  "demo_hdr = \<lparr>e_magic = 0x464C457F, e_class = 2, e_data = 1, e_fversion = 1, e_osabi = 0, e_abiversion = 0,
     e_pad = replicate 7 0, e_type = 3, e_machine = 62, e_version = 1, e_entry = 0x300, e_phoff = 64,
     e_shoff = 0x2000, e_flags = 0, e_ehsize = 64, e_phentsize = 56, e_phnum = 2, e_shentsize = 64, e_shnum = 4,
     e_shstrndx = 0\<rparr>"

definition demo_load :: "u64 \<Rightarrow> prog" where
  "demo_load pa = \<lparr>p_type = PT_LOAD, p_flags = 5, p_offset = 0, p_vaddr = 0, p_paddr = pa, p_filesz = 0x1000,
     p_memsz = 0x1000, p_align = 0x1000\<rparr>"

definition demo_dynamic :: prog where
  "demo_dynamic = \<lparr>p_type = PT_DYNAMIC, p_flags = 6, p_offset = 0x400, p_vaddr = 0x400, p_paddr = 0x400,
     p_filesz = 0x40, p_memsz = 0x40, p_align = 8\<rparr>"

definition demo_sym :: "u8 list" where
  "demo_sym = le 4 1 @ [0x12, 0, 0, 0] @ le 8 0x5000 @ le 8 0"

definition demo_bytes :: "u64 \<Rightarrow> u8 list" where
  "demo_bytes pa = hdr_bytes demo_hdr @ prog_bytes (demo_load pa) @ prog_bytes demo_dynamic @ demo_sym @ [0] @ cstr ''quit''"

definition demo_image :: "u64 \<Rightarrow> space" where
  "demo_image pa = demo_space\<lparr>aslrCode := 0x5000, kmem := put_chunk 0x9000 (demo_bytes pa) (kmem demo_space)\<rparr>"

lemma demo_pad [simp]: "length (e_pad demo_hdr) = 7"
  by (simp add: demo_hdr_def)

lemma length_demo_bytes: "length (demo_bytes pa) = 206"
  by (simp add: demo_bytes_def demo_sym_def cstr_def)

lemma demo_image_phys: "getPhysicalAddress (demo_image pa) a = getPhysicalAddress demo_space a"
  by (simp add: demo_image_def getPhysicalAddress_def ucell_def cong: if_cong option.case_cong)

lemma demo_image_range: "n \<le> 4096 \<Longrightarrow> user_range (demo_image pa) 0x5000 n"
  using demo_range(1,2) [of n] by (simp add: user_range_def all_mapped_def one_frame_each_def demo_image_phys)

lemma demo_image_read:
  assumes "k + n \<le> 206"
  shows "read_local (demo_image pa) (0x5000 + of_nat k) n = Some (take n (drop k (demo_bytes pa)))"
proof -
  have "user_range (demo_image pa) (0x5000 + of_nat k) n"
    using um.ok_part [OF demo_image_range [of 4096], of k n] assms by simp
  moreover have "kmem (demo_image pa) (getPhysicalAddress (demo_image pa) (0x5000 + of_nat k + of_nat i)) = (demo_bytes pa) ! (k + i)"
    if "i < n" for i
  proof -
    have "getPhysicalAddress (demo_image pa) (0x5000 + of_nat (k + i)) = 0x9000 + of_nat (k + i)"
      using demo_range(3) [of 0 "k + i"] that assms by (simp only: demo_image_phys)
    moreover have "in_range 0x9000 206 (0x9000 + of_nat (k + i))"
      by (rule in_range_self) (use that assms in simp_all)
    moreover have "unat (of_nat (k + i) :: u64) = k + i" using that assms by (simp add: unat_of_nat_u64 del: of_nat_add)
    ultimately show ?thesis
      by (simp add: demo_image_def put_chunk_def length_demo_bytes add.assoc)
  qed
  then have "map (\<lambda>i. kmem (demo_image pa) (getPhysicalAddress (demo_image pa) (0x5000 + of_nat k + of_nat i))) [0..<n]
      = take n (drop k (demo_bytes pa))"
    using assms by (intro nth_equalityI) (simp_all add: length_demo_bytes)
  ultimately show ?thesis by (simp add: read_local_vread vread_mapped user_range_def)
qed

lemma demo_headers: "headers_are demo_hdr [demo_load pa, demo_dynamic] (demo_image pa)"
proof -
  have base: "aslrCode (demo_image pa) = 0x5000" by (simp add: demo_image_def)
  have "read_local (demo_image pa) 0x5000 64 = Some (hdr_bytes demo_hdr)"
    using demo_image_read [of 0 64] by (simp add: demo_bytes_def)
  moreover have "read_local (demo_image pa) (0x5000 + 64 + of_nat (i * 56)) 56 = Some (prog_bytes ([demo_load pa, demo_dynamic] ! i))"
    if "i < 2" for i
  proof -
    have "0x5000 + 64 + of_nat (i * 56) = (0x5000 + of_nat (64 + i * 56) :: u64)" by simp
    moreover have "take 56 (drop (64 + i * 56) (demo_bytes pa)) = prog_bytes ([demo_load pa, demo_dynamic] ! i)"
      using that by (auto simp: demo_bytes_def less_2_cases_iff)
    ultimately show ?thesis using demo_image_read [of "64 + i * 56" 56] that by simp
  qed
  moreover have demo_phnum: "unat (e_phnum demo_hdr) = 2" "e_phoff demo_hdr = 64" by (simp_all add: demo_hdr_def)
  ultimately show ?thesis
    using demo_image_range [of 176] by (simp add: headers_are_def base demo_phnum)
qed

theorem fix_phdr_refines_witness:
  "\<exists>s'. readelf_dylink_fix_phdr (demo_image 0) = Some (True, s')
     \<and> headers_are demo_hdr [(demo_load 0)\<lparr>p_paddr := 0x5000\<rparr>, demo_dynamic\<lparr>p_paddr := 0x5400\<rparr>] s'"
  using fix_phdr_refines [OF demo_headers [of 0]]
  by (simp add: demo_image_def Let_def load_addr_def at_offset_def demo_load_def demo_dynamic_def PT_LOAD_def
      PT_NULL_def PT_DYNAMIC_def) blast

theorem entry_rebased_witness:
  "\<exists>s1 s2. readelf_dylink_fix_phdr (demo_image 0) = Some (True, s1) \<and> readelf_dylink_fix_entry s1 = Some (True, s2)
     \<and> uentry s2 = 0x5300"
  using entry_rebased [of demo_hdr "[demo_load 0]" "[demo_dynamic]" "demo_image 0" "demo_load 0"] demo_headers [of 0]
  by (simp add: demo_image_def load_addr_def at_offset_def at_vaddr_def demo_load_def demo_dynamic_def demo_hdr_def
      rebase_def PT_LOAD_def PT_NULL_def PT_DYNAMIC_def) blast

text \<open>The symbol at \<^verbatim>\<open>0x50B0\<close> and its name at \<^verbatim>\<open>0x50C9\<close>, in the image after its headers were rewritten.\<close>

lemma demo_sym_read: "read_local (demo_image pa) 0x50B0 24 = Some demo_sym"
proof -
  have "take 24 (drop 176 (demo_bytes pa)) = demo_sym" by (simp add: demo_bytes_def demo_sym_def)
  then show ?thesis using demo_image_read [of 176 24 pa] by simp
qed

lemma demo_sym_of: "sym_of demo_sym = \<lparr>s_name = 1, s_bind = 1, s_value = 0x5000\<rparr>"
  by (simp add: sym_of_def demo_sym_def fld_def)

lemma demo_name: "readString (demo_image pa) 0x50C9 = Some (Some (cstr ''quit''))"
proof -
  have b: "kmem (demo_image pa) (0x90C9 + of_nat i) = cstr ''quit'' ! i" if "i < 5" for i
  proof -
    have "in_range 0x9000 206 (0x9000 + of_nat (201 + i))" by (rule in_range_self) (use that in simp_all)
    moreover have "unat (of_nat (201 + i) :: u64) = 201 + i" using that by (simp add: unat_of_nat_u64 del: of_nat_add)
    moreover have "demo_bytes pa ! (201 + i) = cstr ''quit'' ! i"
      by (simp add: demo_bytes_def demo_sym_def nth_append)
    ultimately show ?thesis by (simp add: demo_image_def put_chunk_def length_demo_bytes)
  qed
  have phys: "getPhysicalAddress (demo_image pa) 0x50C9 = 0x90C9"
    using demo_range(3) [of 0 201] by (simp add: demo_image_phys)
  have "i = 0 \<or> i = 1 \<or> i = 2 \<or> i = 3" if "i < 4" for i :: nat using that by linarith
  then have "\<forall>i < 4. kmem (demo_image pa) (0x90C9 + of_nat i) \<noteq> 0" using b by (force simp: cstr_def)
  moreover have "kmem (demo_image pa) (0x90C9 + of_nat 4) = 0" using b [of 4] by (simp add: cstr_def)
  ultimately have "readString (demo_image pa) 0x50C9
      = Some (Some (chunk_bytes 0x90C9 4 (kmem (demo_image pa)) @ [0]))"
    using readString_in_page [of "demo_image pa" "0x50C9" 4] phys by (simp add: page_limit_def)
  moreover have "chunk_bytes 0x90C9 4 (kmem (demo_image pa)) = map of_char ''quit''"
    using b [of 0] b [of 1] b [of 2] b [of 3] by (simp add: chunk_bytes_def upt_rec cstr_def)
  ultimately show ?thesis by (simp add: cstr_def)
qed

definition demo_env :: env where
  "demo_env = \<lparr>fuel = 0, rsdp = 0, guard = 0\<rparr>"

theorem reloc_known_symbol_witness:
  "\<exists>s'. readelf_dylink_process_reloc demo_env \<lparr>r_addr = 0x200, r_type = 6, r_sym = 1, r_add = 4\<rparr> 0x5098 24 0x50C8
      (\<lparr>syscallPage = 0, syscallNum = 0, symbols = [(0x7000, cstr ''quit'')]\<rparr>, demo_image 0x5000)
      = Some (True, \<lparr>syscallPage = 0, syscallNum = 0, symbols = [(0x7000, cstr ''quit'')]\<rparr>, s')
    \<and> read_local s' 0x5200 8 = Some (le 8 0x7004)"
proof -
  let ?l = "\<lparr>syscallPage = 0, syscallNum = 0, symbols = [(0x7000, cstr ''quit'')]\<rparr>"
  have "load_addr [demo_load 0x5000, demo_dynamic] (load_offset [demo_load 0x5000, demo_dynamic] 0x200) = 0x5200"
    by (simp add: load_addr_def load_offset_def at_offset_def at_vaddr_def demo_load_def)
  moreover have "user_range (demo_image 0x5000) 0x5200 8"
    using um.ok_part [OF demo_image_range [of 4096], of "0x200" 8] by simp
  moreover have "getSymbolByName ?l (cstr ''quit'') = 0x7000" by (simp add: getSymbolByName_def cstr_def)
  ultimately show ?thesis
    using reloc_known_symbol [OF demo_headers [of "0x5000"],
        of "\<lparr>r_addr = 0x200, r_type = 6, r_sym = 1, r_add = 4\<rparr>" "0x5098" 24 demo_sym "0x50C8" "cstr ''quit''" ?l demo_env]
    by (simp add: demo_sym_read demo_sym_of demo_name) blast
qed

theorem reloc_unknown_symbol_witness:
  "readelf_dylink_process_reloc demo_env \<lparr>r_addr = 0x200, r_type = 6, r_sym = 1, r_add = 4\<rparr> 0x5098 24 0x50C8
      (new_linker, demo_image 0x5000) = Some (False, new_linker, demo_image 0x5000)"
proof -
  have "callByName ''quit'' = 0"
    by (simp add: callByName_def Let_def syscall_index_lookup syscall_map_def hashes) (simp add: hash_eval)
  then have "callByName (chars (cstr ''quit'')) = 0" by (subst chars_cstr) simp_all
  moreover have "load_offset [demo_load 0x5000, demo_dynamic] 0x5000 = 0"
    by (simp add: load_offset_def at_vaddr_def demo_load_def demo_dynamic_def PT_LOAD_def PT_DYNAMIC_def)
  ultimately show ?thesis
    using reloc_unknown_symbol [OF demo_headers [of "0x5000"],
        of "\<lparr>r_addr = 0x200, r_type = 6, r_sym = 1, r_add = 4\<rparr>" "0x5098" 24 demo_sym "0x50C8" "cstr ''quit''" new_linker demo_env]
    by (simp add: demo_sym_read demo_sym_of demo_name) (simp add: new_linker_def getSymbolByName_def cstr_def)
qed

end
