(* ===== verification/Modules.thy ===== *)
theory Modules
  imports Readelf Rand
begin

text \<open>
  \<^verbatim>\<open>src/moduleloader/modules.cpp\<close>: modules are ELF images, one behind another in memory. Each is loaded
  into a process of its own, names itself through exported strings and lists its requirements,
  ports it wants to use and CPU features it needs; a module whose requirements hold is prepared
  and handed to the scheduler. C strings are lists of bytes that end with a NUL.
\<close>

section \<open>Module information\<close>

record module_info =
  m_name :: "u8 list option"
  m_version :: "u8 list option"
  m_description :: "u8 list option"
  m_requirements :: "u8 list option"
  m_developer :: "u8 list option"

definition parseModuleInfo :: "linker \<Rightarrow> space \<Rightarrow> (bool \<times> module_info) option" where
  "parseModuleInfo l s =
     (let name = getSymbolByName l (cstr ''module_name'');
          version = getSymbolByName l (cstr ''module_version'');
          desc = getSymbolByName l (cstr ''module_description'');
          reqs = getSymbolByName l (cstr ''module_requirements'');
          dev = getSymbolByName l (cstr ''module_developer'')
      in if name = 0 \<or> version = 0 \<or> desc = 0 \<or> reqs = 0 \<or> dev = 0
         then Some (False, \<lparr>m_name = None, m_version = None, m_description = None, m_requirements = None, m_developer = None\<rparr>)
         else do {
           n \<leftarrow> readString s name;
           v \<leftarrow> readString s version;
           d \<leftarrow> readString s desc;
           r \<leftarrow> readString s reqs;
           e \<leftarrow> readString s dev;
           Some (True, \<lparr>m_name = n, m_version = v, m_description = d, m_requirements = r, m_developer = e\<rparr>)
         })"

section \<open>Requirements\<close>

definition readHexChar :: "u8 \<Rightarrow> 'a :: len word \<Rightarrow> 'a word option" where
  "readHexChar c v =
     (if 0x30 \<le> c \<and> c \<le> 0x39 then Some (push_bit 4 v OR ucast (c - 0x30))
      else if 0x61 \<le> c \<and> c \<le> 0x66 then Some (push_bit 4 v OR ucast (c - 0x61 + 10))
      else if 0x41 \<le> c \<and> c \<le> 0x46 then Some (push_bit 4 v OR ucast (c - 0x41 + 10))
      else None)"

text \<open>The loop of \<^verbatim>\<open>parsePort\<close>: \<open>second\<close> tells that \<^verbatim>\<open>port\<close> points to \<^verbatim>\<open>max\<close>.\<close>

fun port_loop :: "u8 list \<Rightarrow> bool \<Rightarrow> u16 \<Rightarrow> u16 \<Rightarrow> (bool \<times> u16 \<times> u16) option" where
  "port_loop [] second lo hi = None"
| "port_loop (c # xs) second lo hi =
     (if c = 0 then Some (second, lo, hi)
      else if c = 0x2D \<and> \<not> second then port_loop xs True lo hi
      else if second then (case readHexChar c hi of None \<Rightarrow> None | Some v \<Rightarrow> port_loop xs second lo v)
      else (case readHexChar c lo of None \<Rightarrow> None | Some v \<Rightarrow> port_loop xs second v hi))"

definition parsePort :: "u8 list \<Rightarrow> u16 \<Rightarrow> u16 \<Rightarrow> (u16 \<times> u16) option" where
  "parsePort str lo hi =
     (case port_loop str False lo hi of
        None \<Rightarrow> None
      | Some (second, lo, hi) \<Rightarrow>
          let hi = (if second then hi else lo) in if lo \<le> hi then Some (lo, hi) else None)"

datatype cpuid_reg = REG_eax | REG_ebx | REG_ecx | REG_edx

text \<open>Digits up to the dot; the rest of the string behind it.\<close>

fun func_loop :: "u8 list \<Rightarrow> u32 \<Rightarrow> (u32 \<times> u8 list) option" where
  "func_loop [] f = None"
| "func_loop (c # xs) f =
     (if c = 0 then None
      else if c = 0x2E then Some (f, xs)
      else case readHexChar c f of None \<Rightarrow> None | Some v \<Rightarrow> func_loop xs v)"

fun bit_loop :: "u8 list \<Rightarrow> u8 \<Rightarrow> u8 option" where
  "bit_loop [] b = None"
| "bit_loop (c # xs) b =
     (if c = 0 then Some b else case readHexChar c b of None \<Rightarrow> None | Some v \<Rightarrow> bit_loop xs v)"

definition reg_letter :: "u8 \<Rightarrow> cpuid_reg option" where
  "reg_letter c =
     (if c = 0x61 \<or> c = 0x41 then Some REG_eax
      else if c = 0x62 \<or> c = 0x42 then Some REG_ebx
      else if c = 0x63 \<or> c = 0x43 then Some REG_ecx
      else if c = 0x64 \<or> c = 0x44 then Some REG_edx
      else None)"

definition parseCPUID :: "u8 list \<Rightarrow> u32 \<Rightarrow> u8 \<Rightarrow> (u32 \<times> cpuid_reg \<times> u8) option" where
  "parseCPUID str func b = do {
     (func, xs) \<leftarrow> func_loop str func;
     (case xs of
        r # d # xs \<Rightarrow> do {
          reg \<leftarrow> reg_letter r;
          (if d \<noteq> 0x2E then None else Some ());
          b \<leftarrow> bit_loop xs b;
          Some (func, reg, b)
        }
      | _ \<Rightarrow> None)
   }"

fun strprefix :: "u8 list \<Rightarrow> u8 list \<Rightarrow> u8 list option" where
  "strprefix str [] = None"
| "strprefix [] (p # ps) = (if p = 0 then Some [] else None)"
| "strprefix (c # str) (p # ps) =
     (if p = 0 then Some (c # str) else if c \<noteq> p then None else strprefix str ps)"

text \<open>
  \<open>cpuid\<close> is what the instruction returns in \<^verbatim>\<open>eax\<close>, \<^verbatim>\<open>ebx\<close>, \<^verbatim>\<open>ecx\<close> and \<^verbatim>\<open>edx\<close>. A bit number of 32 and more
  shifts by more than the width, which the language leaves undefined.
\<close>

type_synonym cpuid = "u32 \<Rightarrow> u32 \<times> u32 \<times> u32 \<times> u32"

fun reg_of :: "cpuid_reg \<Rightarrow> u32 \<times> u32 \<times> u32 \<times> u32 \<Rightarrow> u32" where
  "reg_of REG_eax (a, b, c, d) = a"
| "reg_of REG_ebx (a, b, c, d) = b"
| "reg_of REG_ecx (a, b, c, d) = c"
| "reg_of REG_edx (a, b, c, d) = d"

definition bindRequirement :: "nat \<Rightarrow> cpuid \<Rightarrow> u8 list \<Rightarrow> space \<Rightarrow> (bool \<times> space) option" where
  "bindRequirement n cp req s =
     (case strprefix req (cstr ''port/'') of
        Some nr \<Rightarrow>
          (case parsePort nr 0 0 of
             None \<Rightarrow> Some (False, s)
           | Some (lo, hi) \<Rightarrow> map_option (Pair True) (allowIOPorts n lo hi s))
      | None \<Rightarrow>
          (case strprefix req (cstr ''cpuid/'') of
             Some nr \<Rightarrow>
               (case parseCPUID nr 0 0 of
                  None \<Rightarrow> Some (False, s)
                | Some (func, reg, b) \<Rightarrow>
                    if func AND 0xFFFF \<noteq> 0 \<and> fst (cp (func AND 0xFFFF0000)) < func then Some (False, s)
                    else if 32 \<le> b then None
                    else Some (bit (reg_of reg (cp func)) (unat b), s))
           | None \<Rightarrow> Some (False, s)))"

function bind_loop :: "nat \<Rightarrow> cpuid \<Rightarrow> u8 list \<Rightarrow> space \<Rightarrow> (bool \<times> space) option" where
  "bind_loop n cp [] s = None"
| "bind_loop n cp (c # xs) s =
     (if c = 0 then Some (True, s)
      else if c = 0x3B then bind_loop n cp xs s
      else do {
        (ok, s) \<leftarrow> bindRequirement n cp (takeWhile (\<lambda>b. b \<noteq> 0 \<and> b \<noteq> 0x3B) (c # xs) @ [0]) s;
        if ok then bind_loop n cp (dropWhile (\<lambda>b. b \<noteq> 0 \<and> b \<noteq> 0x3B) xs) s else Some (False, s)
      })"
  by pat_completeness auto
termination
  by (relation "measure (\<lambda>(n, cp, xs, s). length xs)") (auto simp: le_imp_less_Suc length_dropWhile_le)

definition bindRequirements :: "nat \<Rightarrow> cpuid \<Rightarrow> u8 list option \<Rightarrow> space \<Rightarrow> (bool \<times> space) option" where
  "bindRequirements n cp reqs s = (case reqs of None \<Rightarrow> Some (True, s) | Some xs \<Rightarrow> bind_loop n cp xs s)"

section \<open>Loading modules\<close>

text \<open>
  What the loader finds on the machine: the tables \<^verbatim>\<open>prepareToStart\<close> reads, the CPU, and for each
  new process the two random numbers of its constructor and the linker's parameters.
\<close>

record machine_env =
  k_gdt :: "u64 \<times> u16"
  k_idt :: "u64 \<times> u16"
  k_glob :: u64
  k_wrapper :: u64
  k_sc_wrapper :: u64
  k_cpuid :: cpuid
  k_aslr :: "nat \<Rightarrow> u64 \<times> u64"
  k_env :: "nat \<Rightarrow> env"

definition new_process :: "u64 \<times> u64 \<Rightarrow> space \<Rightarrow> space" where
  "new_process r s = s\<lparr>utable := 0, iomap := [0, 0], aslrCode := push_bit 21 (fst r), aslrStack := push_bit 21 (snd r),
     uentry := 0\<rparr>"

text \<open>The two numbers that the constructor draws: members are initialised in the order of their declaration.\<close>

definition draw_aslr :: "u64 \<Rightarrow> ((u64 \<times> u64) \<times> u64) option" where
  "draw_aslr seed = do {
     (c, seed) \<leftarrow> get_range 0x400000 0x800000 seed;
     (k, seed) \<leftarrow> get_range 0x200000 0x400000 seed;
     Some ((c, k), seed)
   }"

text \<open>
  \<^verbatim>\<open>loadMemory\<close>: \<open>k\<close> counts the processes created, \<open>procs\<close> collects those handed to
  \<^verbatim>\<open>Scheduler::registerProcess\<close>, with their names; a process that is not released is destroyed.
\<close>

partial_function (option) loadMemory ::
    "machine_env \<Rightarrow> nat \<Rightarrow> u64 \<Rightarrow> u64 \<Rightarrow> space \<Rightarrow> (u8 list option \<times> space) list
      \<Rightarrow> (nat \<times> space \<times> (u8 list option \<times> space) list) option" where
  "loadMemory v k mem memsize s procs =
     (if memsize = 0 then Some (k, s, procs)
      else do {
        (size, l, p) \<leftarrow> readelf (k_env v k) mem (new_linker, new_process (k_aslr v k) s);
        if size = 0 then Some (Suc k, delete_space p, procs)
        else do {
          (ok, mi) \<leftarrow> parseModuleInfo l p;
          if \<not> ok then Some (Suc k, delete_space p, procs)
          else do {
            (ok, p) \<leftarrow> bindRequirements (fuel (k_env v k)) (k_cpuid v) (m_requirements mi) p;
            if ok then do {
              p \<leftarrow> prepareToStart (fuel (k_env v k)) (fst (k_gdt v)) (snd (k_gdt v)) (fst (k_idt v)) (snd (k_idt v))
                     (k_glob v) (k_wrapper v) (k_sc_wrapper v) p;
              loadMemory v (Suc k) (mem + size) (memsize - size) p (procs @ [(m_name mi, p)])
            } else loadMemory v (Suc k) (mem + size) (memsize - size) (delete_space p) procs
          }
        }
      })"

definition parseInternal ::
    "machine_env \<Rightarrow> u64 \<Rightarrow> u64 \<Rightarrow> nat \<times> space \<times> (u8 list option \<times> space) list
      \<Rightarrow> (nat \<times> space \<times> (u8 list option \<times> space) list) option" where
  "parseInternal v modules_start modules_end st =
     (let modules_size = modules_end - modules_start
      in if 1 < modules_size then loadMemory v (fst st) modules_start modules_size (fst (snd st)) (snd (snd st))
         else Some st)"

text \<open>The module table of the boot loader, entries of two words.\<close>

fun initrd_loop ::
    "machine_env \<Rightarrow> nat \<Rightarrow> u64 \<Rightarrow> nat \<times> space \<times> (u8 list option \<times> space) list
      \<Rightarrow> (nat \<times> space \<times> (u8 list option \<times> space) list) option" where
  "initrd_loop v 0 mods st = Some st"
| "initrd_loop v (Suc n) mods st = do {
     let base = ucast (read32 (kmem (fst (snd st))) mods);
     let e = ucast (read32 (kmem (fst (snd st))) (mods + 4));
     st \<leftarrow> loadMemory v (fst st) base (e - base) (fst (snd st)) (snd (snd st));
     initrd_loop v n (mods + 8) st
   }"

text \<open>\<open>mb\<close> is the payload: flags, address and number of the modules.\<close>

definition parseInitRD ::
    "machine_env \<Rightarrow> (u32 \<times> u32 \<times> u32) option \<Rightarrow> nat \<times> space \<times> (u8 list option \<times> space) list
      \<Rightarrow> (nat \<times> space \<times> (u8 list option \<times> space) list) option" where
  "parseInitRD v mb st =
     (case mb of
        None \<Rightarrow> Some st
      | Some (flags, paddr, cnt) \<Rightarrow> if flags AND 8 = 0 then Some st else initrd_loop v (unat cnt) (ucast paddr) st)"


section \<open>Hexadecimal ports\<close>

definition hex_digit :: "u8 \<Rightarrow> u8" where
  "hex_digit d = (if d < 10 then 0x30 + d else 0x61 + (d - 10))"

definition hex16 :: "u16 \<Rightarrow> u8 list" where
  "hex16 p = map (\<lambda>i. hex_digit (ucast (take_bit 4 (drop_bit (4 * i) p)))) [3, 2, 1, 0]"

lemma hex_digit_read:
  assumes "d < 16"
  shows "readHexChar (hex_digit d) v = Some (push_bit 4 v OR ucast d)" "hex_digit d \<noteq> 0" "hex_digit d \<noteq> 0x2D"
proof -
  have d: "unat d < 16" using assms by (simp add: word_less_nat_alt)
  have c: "unat (hex_digit d) = (if unat d < 10 then 48 + unat d else 87 + unat d)"
    using d by (auto simp: hex_digit_def word_less_nat_alt unat_word_ariths unat_sub word_le_nat_alt)
  show "readHexChar (hex_digit d) v = Some (push_bit 4 v OR ucast d)"
  proof (cases "d < 10")
    case True
    then have "hex_digit d = 0x30 + d" "unat d < 10" by (simp_all add: hex_digit_def word_less_nat_alt)
    then show ?thesis using c by (simp add: readHexChar_def word_le_nat_alt)
  next
    case False
    then have e: "hex_digit d = 0x61 + (d - 10)" "\<not> unat d < 10" by (simp_all add: hex_digit_def word_less_nat_alt)
    have "\<not> hex_digit d \<le> 0x39" "0x61 \<le> hex_digit d" "hex_digit d \<le> 0x66"
      using c d e(2) by (simp_all add: word_le_nat_alt)
    then show ?thesis using e(1) by (simp add: readHexChar_def)
  qed
  show "hex_digit d \<noteq> 0" "hex_digit d \<noteq> 0x2D"
    using c by (auto simp: word_unat_eq_iff split: if_splits)
qed

lemma nibble: "ucast (take_bit 4 (x :: u16)) < (16 :: u8)"
proof -
  have "ucast (take_bit 4 x) = (take_bit 4 (ucast x) :: u8)" by (rule bit_word_eqI) (auto simp: bit_simps)
  then show ?thesis by (simp add: take_bit_eq_mod word_less_nat_alt unat_mod)
qed

lemma nibbles_join:
  fixes p v :: u16
  shows "push_bit 4 (push_bit 4 (push_bit 4 (push_bit 4 v OR ucast (ucast (take_bit 4 (drop_bit 12 p)) :: u8))
      OR ucast (ucast (take_bit 4 (drop_bit 8 p)) :: u8)) OR ucast (ucast (take_bit 4 (drop_bit 4 p)) :: u8))
      OR ucast (ucast (take_bit 4 p) :: u8) = p"
proof (rule bit_word_eqI)
  fix k assume "k < LENGTH(16)"
  then have "k < 4 \<or> 4 \<le> k \<and> k < 8 \<or> 8 \<le> k \<and> k < 12 \<or> 12 \<le> k \<and> k < 16" by auto
  then show "bit (push_bit 4 (push_bit 4 (push_bit 4 (push_bit 4 v OR ucast (ucast (take_bit 4 (drop_bit 12 p)) :: u8))
      OR ucast (ucast (take_bit 4 (drop_bit 8 p)) :: u8)) OR ucast (ucast (take_bit 4 (drop_bit 4 p)) :: u8))
      OR ucast (ucast (take_bit 4 p) :: u8)) k = bit p k"
    by (elim disjE conjE) (simp_all add: bit_simps, auto)
qed

lemma port_loop_hex:
  "port_loop (hex16 p @ r) False lo hi = port_loop r False p hi"
  "port_loop (hex16 p @ r) True lo hi = port_loop r True lo p"
  using nibbles_join [of lo p] nibbles_join [of hi p]
  by (simp_all add: hex16_def hex_digit_read [OF nibble])

lemma strprefix_end [simp]: "strprefix xs (0 # ps) = Some xs"
  by (cases xs) simp_all

text \<open>
  The requirement port/ followed by two four-digit hexadecimal numbers, or one, allows exactly
  that range of ports, or that port; a range written backwards is refused and changes nothing.
\<close>

theorem port_requirement:
  "bindRequirement n cp (map of_char ''port/'' @ hex16 lo @ 0x2D # hex16 hi @ [0]) s
     = (if lo \<le> hi then map_option (Pair True) (allowIOPorts n lo hi s) else Some (False, s))
   \<and> bindRequirement n cp (map of_char ''port/'' @ hex16 lo @ [0]) s = map_option (Pair True) (allowIOPorts n lo lo s)"
  by (simp add: bindRequirement_def cstr_def parsePort_def port_loop_hex)

section \<open>Lists of requirements\<close>

fun split :: "u8 list \<Rightarrow> u8 list list" where
  "split [] = [[]]"
| "split (c # xs) = (if c = 0x3B then [] # split xs else (c # hd (split xs)) # tl (split xs))"

fun bind_all :: "nat \<Rightarrow> cpuid \<Rightarrow> u8 list list \<Rightarrow> space \<Rightarrow> (bool \<times> space) option" where
  "bind_all n cp [] s = Some (True, s)"
| "bind_all n cp (t # ts) s = do {
     (ok, s) \<leftarrow> bindRequirement n cp (t @ [0]) s;
     if ok then bind_all n cp ts s else Some (False, s)
   }"

lemma split_not_Nil [simp]: "split xs \<noteq> []"
  by (cases xs) auto

lemma split_word: "split xs = takeWhile (\<lambda>b. b \<noteq> 0x3B) xs #
    (case dropWhile (\<lambda>b. b \<noteq> 0x3B) xs of [] \<Rightarrow> [] | c # r \<Rightarrow> split r)"
  by (induction xs) auto

definition requirement_list :: "u8 list \<Rightarrow> u8 list list" where
  "requirement_list xs = filter (\<lambda>w. w \<noteq> []) (split xs)"

lemma requirement_list_Cons:
  assumes "c \<noteq> 0x3B"
  shows "requirement_list (c # xs)
    = (c # takeWhile (\<lambda>b. b \<noteq> 0x3B) xs) # requirement_list (dropWhile (\<lambda>b. b \<noteq> 0x3B) xs)"
proof (cases "dropWhile (\<lambda>b. b \<noteq> 0x3B) xs")
  case Nil
  have "split (c # xs) = [c # takeWhile (\<lambda>b. b \<noteq> 0x3B) xs]"
    using assms unfolding split.simps split_word [of xs] Nil by simp
  then show ?thesis unfolding Nil requirement_list_def by simp
next
  case (Cons d r)
  then have "d = 0x3B" by (metis (mono_tags, lifting) hd_dropWhile list.distinct(1) list.sel(1))
  moreover have "split (c # xs) = (c # takeWhile (\<lambda>b. b \<noteq> 0x3B) xs) # split r"
    using assms unfolding split.simps split_word [of xs] Cons by simp
  ultimately show ?thesis unfolding Cons requirement_list_def by simp
qed

lemma bind_loop_list:
  assumes "0 \<notin> set xs"
  shows "bind_loop n cp (xs @ [0]) s = bind_all n cp (requirement_list xs) s"
  using assms
proof (induction xs arbitrary: s rule: length_induct)
  case (1 xs)
  show ?case
  proof (cases xs)
    case Nil
    then show ?thesis by (simp add: requirement_list_def)
  next
    case (Cons c ys)
    show ?thesis
    proof (cases "c = 0x3B")
      case True
      then show ?thesis using 1 Cons by (simp add: requirement_list_def)
    next
      case False
      let ?P = "\<lambda>b :: u8. b \<noteq> 0 \<and> b \<noteq> 0x3B" and ?Q = "\<lambda>b :: u8. b \<noteq> 0x3B"
      have c: "c \<noteq> 0" and z: "0 \<notin> set ys" using 1(2) Cons by auto
      have t: "takeWhile ?P (ys @ [0]) = takeWhile ?Q ys" "dropWhile ?P (ys @ [0]) = dropWhile ?Q ys @ [0]"
        using z by (induction ys) auto
      have step: "bind_loop n cp (xs @ [0]) s = do {
          (ok, s) \<leftarrow> bindRequirement n cp ((c # takeWhile ?Q ys) @ [0]) s;
          if ok then bind_loop n cp (dropWhile ?Q ys @ [0]) s else Some (False, s) }"
        unfolding Cons append_Cons bind_loop.simps using c False by (simp only: if_False t takeWhile.simps) simp
      have "length (dropWhile ?Q ys) < length xs" using Cons length_dropWhile_le [of ?Q ys] by simp
      moreover have "0 \<notin> set (dropWhile ?Q ys)" using z set_dropWhileD by metis
      ultimately have "bind_loop n cp (dropWhile ?Q ys @ [0]) s' = bind_all n cp (requirement_list (dropWhile ?Q ys)) s'" for s'
        using 1(1) by blast
      moreover have "requirement_list xs = (c # takeWhile ?Q ys) # requirement_list (dropWhile ?Q ys)"
        unfolding Cons by (rule requirement_list_Cons [OF False])
      ultimately show ?thesis
        unfolding step by (cases "bindRequirement n cp (c # takeWhile ?Q ys @ [0]) s") auto
    qed
  qed
qed

text \<open>
  bindRequirements does what splitting the string at semicolons and binding the nonempty parts
  from left to right does, up to and including the first that fails.
\<close>

theorem requirements_in_order:
  assumes "0 \<notin> set reqs"
  shows "bindRequirements n cp (Some (reqs @ [0])) s = bind_all n cp (requirement_list reqs) s"
  using bind_loop_list [OF assms] by (simp add: bindRequirements_def)

section \<open>Images that are not modules\<close>

lemma delete_new_process: "delete_space (new_process r s) = new_process r s"
  by (simp add: delete_space_def new_process_def)

text \<open>
  loadMemory on memory without a valid ELF header returns after one attempt, registers nothing
  and leaves page tables and memory unchanged.
\<close>

theorem not_an_image:
  assumes "memsize \<noteq> 0" and "\<not> header_ok (hdr_of (chunk_bytes mem 64 (kmem s)))"
  shows "loadMemory v k mem memsize s procs = Some (Suc k, new_process (k_aslr v k) s, procs)"
proof -
  have "kmem (new_process (k_aslr v k) s) = kmem s" by (simp add: new_process_def)
  then have "readelf (k_env v k) mem (new_linker, new_process (k_aslr v k) s) = Some (0, new_linker, new_process (k_aslr v k) s)"
    using assms(2) by (simp add: readelf_def Let_def)
  then show ?thesis using assms(1) by (subst loadMemory.simps) (simp add: delete_new_process)
qed

theorem requirements_in_order_witness:
  "bindRequirements 0 (\<lambda>_. (0, 0, 0, 0)) (Some (map of_char '';;foo;bar'' @ [0])) demo_space
   = bind_all 0 (\<lambda>_. (0, 0, 0, 0)) [map of_char ''foo'', map of_char ''bar''] demo_space"
  using requirements_in_order [of "map of_char '';;foo;bar''" 0 "\<lambda>_. (0, 0, 0, 0)" demo_space]
  by (simp add: requirement_list_def)

definition demo_machine :: machine_env where
  "demo_machine = \<lparr>k_gdt = (0, 0), k_idt = (0, 0), k_glob = 0, k_wrapper = 0, k_sc_wrapper = 0,
     k_cpuid = (\<lambda>_. (0, 0, 0, 0)), k_aslr = (\<lambda>_. (0x400000, 0x200000)), k_env = (\<lambda>_. demo_env)\<rparr>"

theorem not_an_image_witness:
  "loadMemory demo_machine 0 0x100000 0x2000 demo_space []
   = Some (1, new_process (0x400000, 0x200000) demo_space, [])"
proof -
  have "\<not> header_ok (hdr_of (chunk_bytes 0x100000 64 (kmem demo_space)))"
    by (simp add: header_ok_def hdr_of_def fld_def chunk_bytes_def demo_space_def upt_rec)
  then show ?thesis
    using not_an_image [of "0x2000" "0x100000" demo_space demo_machine 0 "[]"] by (simp add: demo_machine_def)
qed

section \<open>Where a process is put\<close>

lemma unat_push21: "unat r < 2 ^ 43 \<Longrightarrow> unat (push_bit 21 r :: u64) = unat r * 2097152"
  by (simp add: push_bit_eq_mult unat_word_ariths)

text \<open>
  The code of a process starts at a multiple of 2 MiB between \<open>2^43\<close> and \<open>2^44\<close>, its stacks between \<open>2^42\<close> and \<open>2^43\<close>:
  the two never meet, and neither lies in the memory that the kernel maps to itself.
\<close>

theorem aslr_ranges:
  "\<exists>r. draw_aslr seed = Some (r, next_seed (next_seed seed))
     \<and> unat (aslrCode (new_process r s)) \<in> {2 ^ 43..<2 ^ 44} \<and> unat (aslrCode (new_process r s)) mod 2 ^ 21 = 0
     \<and> unat (aslrStack (new_process r s)) \<in> {2 ^ 42..<2 ^ 43} \<and> unat (aslrStack (new_process r s)) mod 2 ^ 21 = 0"
proof -
  obtain c where c: "get_range 0x400000 0x800000 seed = Some (c, next_seed seed)" "0x400000 \<le> c" "c < 0x800000"
    using get_range_bounds [of "0x400000" "0x800000" seed] by auto
  obtain k where k: "get_range 0x200000 0x400000 (next_seed seed) = Some (k, next_seed (next_seed seed))" "0x200000 \<le> k" "k < 0x400000"
    using get_range_bounds [of "0x200000" "0x400000" "next_seed seed"] by auto
  have n: "4194304 \<le> unat c" "unat c < 8388608" "2097152 \<le> unat k" "unat k < 4194304"
    using c(2,3) k(2,3) by (simp_all add: word_le_nat_alt word_less_nat_alt)
  show ?thesis
    using c(1) k(1) n by (intro exI [of _ "(c, k)"]) (simp add: draw_aslr_def new_process_def unat_push21)
qed

end
