(* ===== verification/Cpuid.thy ===== *)
theory Cpuid
  imports Sprintf "HOL-Library.Monad_Syntax"
begin

text \<open>
  \<^verbatim>\<open>src/cpuid\<close>: what the CPU says about itself. The class caches the answers of the \<^verbatim>\<open>cpuid\<close> instruction,
  which is an argument: from the leaf and subleaf in \<^verbatim>\<open>eax\<close> and \<^verbatim>\<open>ecx\<close> to \<^verbatim>\<open>eax\<close>, \<^verbatim>\<open>ebx\<close>, \<^verbatim>\<open>ecx\<close> and
  \<^verbatim>\<open>edx\<close>. Where the code leaves \<^verbatim>\<open>ecx\<close> unset the subleaf is \<open>x\<close>.
\<close>

section \<open>Feature masks and names\<close>

text \<open>The three enumerations, by enumerator and value.\<close>

definition Feature :: "(string \<times> u64) list" where
  "Feature =
     [(''FPU'', 0x1), (''VME'', 0x2), (''DE'', 0x4), (''PSE'', 0x8),
      (''TSC'', 0x10), (''MSR'', 0x20), (''PAE'', 0x40), (''MCE'', 0x80),
      (''CX8'', 0x100), (''APIC'', 0x200), (''SEP'', 0x800), (''MTRR'', 0x1000),
      (''PGE'', 0x2000), (''MCA'', 0x4000), (''CMOV'', 0x8000), (''PAT'', 0x10000),
      (''PSE36'', 0x20000), (''PSN'', 0x40000), (''CLFSH'', 0x80000), (''DS'', 0x200000),
      (''ACPI'', 0x400000), (''MMX'', 0x800000), (''FXSR'', 0x1000000), (''SSE'', 0x2000000),
      (''SSE2'', 0x4000000), (''SS'', 0x8000000), (''HTT'', 0x10000000), (''TM'', 0x20000000),
      (''IA64'', 0x40000000), (''PBE'', 0x80000000), (''SSE3'', 0x100000000), (''PCLMUL'', 0x200000000),
      (''DTES64'', 0x400000000), (''MONITOR'', 0x800000000), (''DS_CPL'', 0x1000000000), (''VMX'', 0x2000000000),
      (''SMX'', 0x4000000000), (''EST'', 0x8000000000), (''TM2'', 0x10000000000), (''SSSE3'', 0x20000000000),
      (''CNTX_ID'', 0x40000000000), (''SDBG'', 0x80000000000), (''FMA'', 0x100000000000), (''CX16'', 0x200000000000),
      (''XTPR'', 0x400000000000), (''PDCM'', 0x800000000000), (''PCID'', 0x2000000000000), (''DCA'', 0x4800000000000),
      (''SSE4_1'', 0x8000000000000), (''SSE4_2'', 0x10000000000000), (''x2APIC'', 0x20000000000000), (''MOVBE'', 0x40000000000000),
      (''POPCNT'', 0x80000000000000), (''TSC_DL'', 0x100000000000000), (''AES'', 0x200000000000000), (''XSAVE'', 0x400000000000000),
      (''OSXSAVE'', 0x800000000000000), (''AVX'', 0x1000000000000000), (''F16C'', 0x2000000000000000), (''RDRND'', 0x4000000000000000),
      (''HV'', 0x8000000000000000)]"

definition FeatureExt :: "(string \<times> u64) list" where
  "FeatureExt =
     [(''FSGSB'', 0x1), (''TSCADJ'', 0x2), (''SGX'', 0x4), (''BMI1'', 0x8),
      (''HLE'', 0x10), (''AVX2'', 0x20), (''SMEP'', 0x80), (''BMI2'', 0x100),
      (''ERMS'', 0x200), (''INVPCID'', 0x400), (''RTM'', 0x800), (''PQM'', 0x1000),
      (''FCSFDS'', 0x2000), (''MPX'', 0x4000), (''PQE'', 0x8000), (''A512F'', 0x10000),
      (''A512DQ'', 0x20000), (''RDSEED'', 0x40000), (''ADX'', 0x80000), (''SMAP'', 0x100000),
      (''A512IMA'', 0x200000), (''PCOMMIT'', 0x400000), (''CLFOPT'', 0x800000), (''CLWB'', 0x1000000),
      (''INTELPT'', 0x2000000), (''A512PF'', 0x4000000), (''A512ER'', 0x8000000), (''A512CD'', 0x10000000),
      (''SHA'', 0x20000000), (''A512BW'', 0x40000000), (''A512VL'', 0x80000000), (''PREWT1'', 0x100000000),
      (''A512VBM'', 0x200000000), (''PKU'', 0x800000000), (''OSPKE'', 0x1000000000)]"

definition ExtFeature :: "(string \<times> u64) list" where
  "ExtFeature =
     [(''FPU'', 0x1), (''VME'', 0x2), (''DE'', 0x4), (''PSE'', 0x8),
      (''TSC'', 0x10), (''MSR'', 0x20), (''PAE'', 0x40), (''MCE'', 0x80),
      (''CX8'', 0x100), (''APIC'', 0x200), (''SEP'', 0x800), (''MTRR'', 0x1000),
      (''PGE'', 0x2000), (''MCA'', 0x4000), (''CMOV'', 0x8000), (''PAT'', 0x10000),
      (''PSE36'', 0x20000), (''MP'', 0x80000), (''NX'', 0x100000), (''MMXEXT'', 0x400000),
      (''MMX'', 0x800000), (''FXSR'', 0x1000000), (''FXSROPT'', 0x2000000), (''PDPE1GB'', 0x4000000),
      (''RDTSCP'', 0x8000000), (''LM'', 0x20000000), (''3DNOWE'', 0x40000000), (''3DNOW'', 0x80000000),
      (''LAHFLM'', 0x100000000), (''CMPLEG'', 0x200000000), (''SVM'', 0x400000000), (''EXTAPIC'', 0x800000000),
      (''CR8LEG'', 0x1000000000), (''ABM'', 0x2000000000), (''SSE4A'', 0x4000000000), (''MASSE'', 0x8000000000),
      (''3DNOWPF'', 0x10000000000), (''OSVW'', 0x20000000000), (''IBS'', 0x40000000000), (''XOP'', 0x80000000000),
      (''SKINIT'', 0x100000000000), (''WDT'', 0x200000000000), (''LWP'', 0x800000000000), (''FMA4'', 0x1000000000000),
      (''TCE'', 0x2000000000000), (''NODEID'', 0x8000000000000), (''TBM'', 0x20000000000000), (''TOPOEXT'', 0x40000000000000),
      (''PCTRCRE'', 0x80000000000000), (''PCTRNB'', 0x100000000000000), (''DBX'', 0x400000000000000), (''PERFTSC'', 0x800000000000000),
      (''PCXL2I'', 0x1000000000000000)]"

text \<open>The tables of names, by bit.\<close>

definition CPUID_FEAT_STR :: "string list" where
  "CPUID_FEAT_STR =
     [''fpu'', ''vme'', ''de'', ''pse'', ''tsc'', ''msr'', ''pae'', ''mce'',
      ''cx8'', ''apic'', '''', ''sep'', ''mtrr'', ''pge'', ''mca'', ''cmov'',
      ''pat'', ''pse36'', ''psn'', ''clfsh'', '''', ''ds'', ''acpi'', ''mmx'',
      ''fxsr'', ''sse'', ''sse2'', ''ss'', ''htt'', ''tm'', ''ia64'', ''pbe'',
      ''sse3'', ''pclmul'', ''dtes64'', ''monitor'', ''ds-cpl'', ''vmx'', ''smx'', ''est'',
      ''tm2'', ''ssse3'', ''cnxt-id'', ''sdbg'', ''fma'', ''cx16'', ''xtpr'', ''pdcm'',
      '''', ''pcid'', ''dca'', ''sse4.1'', ''sse4.2'', ''x2apic'', ''movbe'', ''popcnt'',
      ''tsc-dl'', ''aes'', ''xsave'', ''osxsave'', ''avx'', ''f16c'', ''rdrnd'', ''hv'']"

definition CPUID_FEAT_EXT_STR :: "string list" where
  "CPUID_FEAT_EXT_STR =
     [''fsgsbase'', ''ia32tscadj'', ''sgx'', ''bmi1'', ''hle'', ''avx2'', '''', ''smep'',
      ''bmi2'', ''erms'', ''invpcid'', ''rtm'', ''pqm'', ''fpucsds'', ''mpx'', ''pqe'',
      ''avx512f'', ''avx512dq'', ''rdseed'', ''adx'', ''smap'', ''avx512ifma'', ''pcommit'', ''clflushopt'',
      ''clwb'', ''intel_pt'', ''avx512pf'', ''avx512er'', ''avx512cd'', ''sha'', ''avx512bw'', ''avx512vl'',
      ''prefetchwt1'', ''avx512vbmi'', '''', ''pku'', ''ospke'', '''', '''', '''',
      '''', '''', '''', '''', '''', '''', '''', '''',
      '''', '''', '''', '''', '''', '''', '''', '''',
      '''', '''', '''', '''', '''', '''', '''', '''']"

definition CPUID_EXT_FEAT_STR :: "string list" where
  "CPUID_EXT_FEAT_STR =
     [''fpu'', ''vme'', ''de'', ''pse'', ''tsc'', ''msr'', ''pae'', ''mce'',
      ''cx8'', ''apic'', '''', ''syscall'', ''mtrr'', ''pge'', ''mca'', ''cmov'',
      ''pat'', ''pse36'', '''', ''mp'', ''nx'', '''', ''mmxext'', ''mmx'',
      ''fxsr'', ''fxsr_opt'', ''pdpe1gb'', ''rdtscp'', '''', ''lm'', ''3dnowext'', ''3dnow'',
      ''lahf_lm'', ''cmp_legacy'', ''svm'', ''extapic'', ''cr8_legacy'', ''abm'', ''sse4a'', ''misalignsse'',
      ''3dnowprefetch'', ''osvw'', ''ibs'', ''xop'', ''skinit'', ''wdt'', '''', ''lwp'',
      ''fma4'', ''tce'', '''', ''nodeid_msr'', '''', ''tbm'', ''topoext'', ''perfctr_core'',
      ''perfctr_nb'', '''', ''dbx'', ''perftsc'', ''pcx_l2i'', '''', '''', '''']"

section \<open>The cached answers\<close>

record cpu_info =
  stepping :: u32
  itype :: u32
  model :: u32
  family :: u32

record cpu =
  vendor :: "u32 list"
  brandString :: "u32 list"
  features :: u64
  features_ext :: u64
  ext_features :: u64
  cinfo :: cpu_info
  maxCPUID :: u32

definition cpu_init :: cpu where
  "cpu_init = \<lparr>vendor = replicate 4 0, brandString = replicate 13 0, features = 0, features_ext = 0, ext_features = 0,
     cinfo = \<lparr>stepping = 0xFFFFFFFF, itype = 0, model = 0, family = 0\<rparr>, maxCPUID = 0\<rparr>"

record answer =
  eax :: u32
  ebx :: u32
  ecx :: u32
  edx :: u32

type_synonym cpu_instr = "u32 \<Rightarrow> u32 \<Rightarrow> answer"

definition getVendor :: "cpu_instr \<Rightarrow> u32 \<Rightarrow> cpu \<Rightarrow> u32 list \<times> cpu" where
  "getVendor q x c =
     (let c = (if vendor c ! 0 = 0
               then c\<lparr>vendor := [ebx (q 0 x), edx (q 0 x), ecx (q 0 x), 0]\<rparr> else c)
      in (vendor c, c))"

definition getMaxCPUID :: "cpu_instr \<Rightarrow> u32 \<Rightarrow> cpu \<Rightarrow> u32 \<times> cpu" where
  "getMaxCPUID q x c =
     (let c = (if maxCPUID c = 0 then c\<lparr>maxCPUID := eax (q 0x80000000 x)\<rparr> else c) in (maxCPUID c, c))"

text \<open>The bit field laid over \<^verbatim>\<open>eax\<close>: the stepping has three bits, the model starts at bit 3.\<close>

definition info_fields :: "u32 \<Rightarrow> cpu_info" where
  "info_fields a =
     (let fam = take_bit 4 (drop_bit 7 a);
          mo = take_bit 4 (drop_bit 3 a);
          ext = fam = 6 \<or> fam = 15
      in \<lparr>stepping = take_bit 3 a, itype = take_bit 2 (drop_bit 11 a),
          model = (if ext then mo + push_bit 4 (take_bit 4 (drop_bit 13 a)) else mo),
          family = (if ext then fam + take_bit 8 (drop_bit 17 a) else fam)\<rparr>)"

definition getFeatures :: "cpu_instr \<Rightarrow> u32 \<Rightarrow> cpu \<Rightarrow> u64 \<times> cpu" where
  "getFeatures q x c =
     (let c = (if features c = 0
               then c\<lparr>features := push_bit 32 (ucast (ecx (q 1 x))) OR ucast (edx (q 1 x)), cinfo := info_fields (eax (q 1 x))\<rparr>
               else c)
      in (features c, c))"

definition getFeaturesExt :: "cpu_instr \<Rightarrow> cpu \<Rightarrow> u64 \<times> cpu" where
  "getFeaturesExt q c =
     (let c = (if features_ext c = 0
               then c\<lparr>features_ext := ucast (ebx (q 7 0)) OR push_bit 32 (ucast (ecx (q 7 0)))\<rparr> else c)
      in (features_ext c, c))"

definition getExtFeatures :: "cpu_instr \<Rightarrow> u32 \<Rightarrow> cpu \<Rightarrow> u64 \<times> cpu" where
  "getExtFeatures q x c =
     (if ext_features c \<noteq> 0 then (ext_features c, c)
      else let (m, c) = getMaxCPUID q x c;
               c = (if 0x80000001 \<le> m
                    then c\<lparr>ext_features := ucast (edx (q 0x80000001 x)) OR push_bit 32 (ucast (ecx (q 0x80000001 x)))\<rparr>
                    else c)
           in (ext_features c, c))"

definition getInfo :: "cpu_instr \<Rightarrow> u32 \<Rightarrow> cpu \<Rightarrow> cpu_info \<times> cpu" where
  "getInfo q x c =
     (let c = (if itype (cinfo c) = 0xFFFFFFFF then snd (getFeatures q x c) else c) in (cinfo c, c))"

definition getBrandString :: "cpu_instr \<Rightarrow> u32 \<Rightarrow> cpu \<Rightarrow> u32 list \<times> cpu" where
  "getBrandString q x c =
     (if brandString c ! 0 \<noteq> 0 then (brandString c, c)
      else let (m, c) = getMaxCPUID q x c;
               words = (\<lambda>l. [eax (q l x), ebx (q l x), ecx (q l x), edx (q l x)]);
               c = (if 0x80000004 \<le> m
                    then c\<lparr>brandString := words 0x80000002 @ words 0x80000003 @ words 0x80000004 @ [0]\<rparr> else c)
           in (brandString c, c))"

section \<open>The feature string\<close>

definition bitcnt :: "u64 \<Rightarrow> u32" where
  "bitcnt v = fold (\<lambda>b r. r + ucast (drop_bit b v AND 1)) [0..<64] 0"

text \<open>The three words of features, read in this order.\<close>

definition all_features :: "cpu_instr \<Rightarrow> u32 \<Rightarrow> cpu \<Rightarrow> (u64 \<times> u64 \<times> u64) \<times> cpu" where
  "all_features q x c =
     (let (f, c) = getFeatures q x c; (ef, c) = getExtFeatures q x c; (fe, c) = getFeaturesExt q c in ((f, ef, fe), c))"

definition getFeaturesStrSize :: "cpu_instr \<Rightarrow> u32 \<Rightarrow> cpu \<Rightarrow> u64 \<times> cpu" where
  "getFeaturesStrSize q x c =
     (let ((f, ef, fe), c) = all_features q x c in (ucast (17 * (bitcnt f + bitcnt ef + bitcnt fe)), c))"

text \<open>
  The position of \<^verbatim>\<open>buf\<close> and what has been stored so far, relative to the start of the buffer;
  one call of \<^verbatim>\<open>snprintf\<close> with \<^verbatim>\<open>"%s "\<close>.
\<close>

type_synonym outbuf = "int \<times> (int \<rightharpoonup> char)"

definition put_name :: "nat \<Rightarrow> string \<Rightarrow> outbuf \<Rightarrow> outbuf option" where
  "put_name bufsize name b = do {
     p \<leftarrow> vsnprintf (\<lambda>_. name) True (nat (int bufsize - fst b)) ''%s '' [1];
     Some (fst b + out_len p,
           \<lambda>i. if fst b \<le> i \<and> written p (nat (i - fst b)) \<noteq> None then written p (nat (i - fst b)) else snd b i)
   }"

fun names_loop :: "nat \<Rightarrow> u64 \<Rightarrow> (nat \<times> string) list \<Rightarrow> outbuf \<Rightarrow> outbuf option" where
  "names_loop bufsize f [] b = Some b"
| "names_loop bufsize f ((i, name) # ns) b = do {
     b \<leftarrow> (if bit f i \<and> name \<noteq> [] then put_name bufsize name b else Some b);
     names_loop bufsize f ns b
   }"

definition getFeaturesStr :: "cpu_instr \<Rightarrow> u32 \<Rightarrow> cpu \<Rightarrow> nat \<Rightarrow> ((int \<rightharpoonup> char) \<times> cpu) option" where
  "getFeaturesStr q x c bufsize = do {
     let ((f, ef, fe), c) = all_features q x c;
     b \<leftarrow> names_loop bufsize f (enumerate 0 CPUID_FEAT_STR) (0, Map.empty);
     b \<leftarrow> names_loop bufsize ef (enumerate 0 CPUID_EXT_FEAT_STR) b;
     b \<leftarrow> names_loop bufsize fe (enumerate 0 CPUID_FEAT_EXT_STR) b;
     Some ((snd b)(fst b \<mapsto> CHR 0x00), c)
   }"


section \<open>Masks and names\<close>

definition single_bit :: "u64 \<Rightarrow> bool" where
  "single_bit m \<longleftrightarrow> m \<noteq> 0 \<and> m AND (m - 1) = 0"

fun named_bits :: "u64 \<Rightarrow> string list \<Rightarrow> u64" where
  "named_bits m [] = 0"
| "named_bits m (n # ns) = (if n = [] then 0 else m) OR named_bits (m + m) ns"

definition all_bits :: "(string \<times> u64) list \<Rightarrow> u64" where
  "all_bits es = foldr (\<lambda>(e, m) a. m OR a) es 0"

text \<open>
  Every enumerator of the three feature enumerations is a single bit, CPUID_FEAT_DCA excepted,
  and together they are exactly the bits the name tables have names for.
\<close>

theorem feature_masks:
  "list_all (\<lambda>(e, m). single_bit m \<longleftrightarrow> e \<noteq> ''DCA'') (Feature @ FeatureExt @ ExtFeature)
   \<and> all_bits Feature = named_bits 1 CPUID_FEAT_STR
   \<and> all_bits FeatureExt = named_bits 1 CPUID_FEAT_EXT_STR
   \<and> all_bits ExtFeature = named_bits 1 CPUID_EXT_FEAT_STR"
proof (intro conjI)
  show "list_all (\<lambda>(e, m). single_bit m \<longleftrightarrow> e \<noteq> ''DCA'') (Feature @ FeatureExt @ ExtFeature)"
    by (simp add: Feature_def FeatureExt_def ExtFeature_def single_bit_def)
  show "all_bits Feature = named_bits 1 CPUID_FEAT_STR"
    by (simp add: Feature_def all_bits_def CPUID_FEAT_STR_def)
  show "all_bits FeatureExt = named_bits 1 CPUID_FEAT_EXT_STR"
    by (simp add: FeatureExt_def all_bits_def CPUID_FEAT_EXT_STR_def)
  show "all_bits ExtFeature = named_bits 1 CPUID_EXT_FEAT_STR"
    by (simp add: ExtFeature_def all_bits_def CPUID_EXT_FEAT_STR_def)
qed

section \<open>Family, model and stepping\<close>

text \<open>The fields where the CPU puts them.\<close>

definition signature_fields :: "u32 \<Rightarrow> u32 \<times> u32 \<times> u32 \<times> u32" where
  "signature_fields a = (take_bit 4 a, take_bit 4 (drop_bit 4 a), take_bit 4 (drop_bit 8 a), take_bit 2 (drop_bit 12 a))"

lemma info_off_by_one:
  "signature_fields 0x0906EA = (0xA, 0xE, 6, 0)"
  "info_fields 0x0906EA = \<lparr>stepping = 2, itype = 0, model = 0xD, family = 0xD\<rparr>"
  by (simp_all add: signature_fields_def info_fields_def Let_def)

lemma getInfo_never_asks: "getInfo q x cpu_init = (\<lparr>stepping = 0xFFFFFFFF, itype = 0, model = 0, family = 0\<rparr>, cpu_init)"
  by (simp add: getInfo_def cpu_init_def)

section \<open>The feature string fits\<close>

lemma format_name: "\<exists>as. format_actions (\<lambda>_. name) ''%s '' [1] = Some as \<and> text_of as = name @ '' ''"
  by (simp add: convert_def conv_def no_flags_def out_str_def raw_def raw_size_def is_digit_def Let_def)

definition text_in :: "outbuf \<Rightarrow> string \<Rightarrow> bool" where
  "text_in b t \<longleftrightarrow> fst b = int (length t)
     \<and> (\<forall>i. snd b i = (if 0 \<le> i \<and> i < int (length t) then Some (t ! nat i)
                       else if i = int (length t) \<and> t \<noteq> [] then Some (CHR 0x00) else None))"

lemma put_name_text:
  assumes "text_in b t" and "length t + length name + 1 < bufsize"
  shows "\<exists>b'. put_name bufsize name b = Some b' \<and> text_in b' (t @ name @ '' '')"
proof -
  let ?n = "name @ '' ''"
  obtain as where as: "format_actions (\<lambda>_. name) ''%s '' [1] = Some as" "text_of as = ?n" using format_name by blast
  have room: "nat (int bufsize - fst b) = bufsize - length t" using assms by (simp add: text_in_def)
  have v: "map_option (\<lambda>p. (out_len p, written p)) (vsnprintf (\<lambda>_. name) True (bufsize - length t) ''%s '' [1])
      = Some (int (length ?n), \<lambda>i. if i < length ?n then Some (?n ! i) else if i = length ?n then Some (CHR 0x00) else None)"
    unfolding vsnprintf_text as(1) option.map Let_def as(2) using assms(2) by auto
  obtain p where p: "vsnprintf (\<lambda>_. name) True (bufsize - length t) ''%s '' [1] = Some p"
    "out_len p = int (length ?n)"
    "written p = (\<lambda>i. if i < length ?n then Some (?n ! i) else if i = length ?n then Some (CHR 0x00) else None)"
    using v by (cases "vsnprintf (\<lambda>_. name) True (bufsize - length t) ''%s '' [1]") simp_all
  have "text_in (fst b + out_len p,
     \<lambda>i. if fst b \<le> i \<and> written p (nat (i - fst b)) \<noteq> None then written p (nat (i - fst b)) else snd b i) (t @ ?n)"
    using assms(1) p(2,3) unfolding text_in_def
    by (auto simp: nth_append nat_diff_distrib' nat_less_iff)
  then show ?thesis using p(1) room by (simp add: put_name_def)
qed

definition feature_text :: "u64 \<Rightarrow> (nat \<times> string) list \<Rightarrow> string" where
  "feature_text f ns = concat (map (\<lambda>(i, n). if bit f i \<and> n \<noteq> [] then n @ '' '' else []) ns)"

lemma names_loop_text:
  assumes "text_in b t" and "length t + length (feature_text f ns) < bufsize"
  shows "\<exists>b'. names_loop bufsize f ns b = Some b' \<and> text_in b' (t @ feature_text f ns)"
  using assms
proof (induction ns arbitrary: b t)
  case (Cons e ns)
  obtain i n where e: "e = (i, n)" by (cases e)
  show ?case
  proof (cases "bit f i \<and> n \<noteq> []")
    case True
    then have len: "length t + length n + 1 + length (feature_text f ns) < bufsize"
      using Cons.prems(2) by (simp add: feature_text_def e)
    then obtain b1 where b1: "put_name bufsize n b = Some b1" "text_in b1 (t @ n @ '' '')"
      using put_name_text [OF Cons.prems(1), of n bufsize] by auto
    moreover from len have "length (t @ n @ '' '') + length (feature_text f ns) < bufsize" by simp
    ultimately show ?thesis
      using Cons.IH [of b1 "t @ n @ '' ''"] True by (auto simp: e feature_text_def)
  next
    case False
    then show ?thesis using Cons by (auto simp: e feature_text_def)
  qed
qed (simp add: feature_text_def)

text \<open>Every name and its space take at most 16 characters per feature bit.\<close>

lemma feature_text_length:
  "\<forall>n \<in> set tab. length n \<le> 15 \<Longrightarrow>
   length (feature_text f (enumerate k tab)) \<le> 16 * length (filter (bit f) [k..<k + length tab])"
proof (induction tab arbitrary: k)
  case (Cons n tab)
  have "[k..<k + length (n # tab)] = k # [Suc k..<Suc k + length tab]" by (simp add: upt_rec)
  then show ?case using Cons.IH [of "Suc k"] Cons.prems by (auto simp: feature_text_def)
qed (simp add: feature_text_def)

lemma bitcnt_filter: "unat (bitcnt v) = length (filter (bit v) [0..<64])"
proof -
  have one: "ucast (drop_bit b v AND 1) = (of_bool (bit v b) :: u32)" for b
    by (cases "bit v b") (auto intro!: bit_word_eqI simp: bit_simps bit_1_iff neq0_conv intro: gr0I)
  have "unat (fold (\<lambda>b r. r + ucast (drop_bit b v AND 1)) bs r) = unat r + length (filter (bit v) bs)"
    if "unat (r :: u32) + length bs < 4294967296" for bs r
    using that
  proof (induction bs arbitrary: r)
    case (Cons b bs)
    have "unat (r + 1) = unat r + 1" using Cons.prems by (simp add: unat_word_ariths)
    then show ?case using Cons one by simp
  qed simp
  from this [of 0 "[0..<64]"] show ?thesis by (simp add: bitcnt_def)
qed

lemma tables_ok:
  "length CPUID_FEAT_STR = 64" "length CPUID_EXT_FEAT_STR = 64" "length CPUID_FEAT_EXT_STR = 64"
  "\<forall>n \<in> set CPUID_FEAT_STR. length n \<le> 15" "\<forall>n \<in> set CPUID_EXT_FEAT_STR. length n \<le> 15"
  "\<forall>n \<in> set CPUID_FEAT_EXT_STR. length n \<le> 15"
  by (simp_all add: CPUID_FEAT_STR_def CPUID_EXT_FEAT_STR_def CPUID_FEAT_EXT_STR_def)

definition features_text :: "u64 \<times> u64 \<times> u64 \<Rightarrow> string" where
  "features_text w = feature_text (fst w) (enumerate 0 CPUID_FEAT_STR)
     @ feature_text (fst (snd w)) (enumerate 0 CPUID_EXT_FEAT_STR)
     @ feature_text (snd (snd w)) (enumerate 0 CPUID_FEAT_EXT_STR)"

lemma features_text_length:
  "length (features_text (f, ef, fe)) \<le> 16 * (unat (bitcnt f) + unat (bitcnt ef) + unat (bitcnt fe))"
  using feature_text_length [OF tables_ok(4), of f 0] feature_text_length [OF tables_ok(5), of ef 0]
    feature_text_length [OF tables_ok(6), of fe 0]
  by (simp add: features_text_def bitcnt_filter tables_ok(1-3))

lemma bitcnt_zero: "unat (bitcnt v) = 0 \<longleftrightarrow> v = 0"
proof
  assume "unat (bitcnt v) = 0"
  then have "\<forall>b < 64. \<not> bit v b" by (auto simp: bitcnt_filter filter_empty_conv)
  then show "v = 0" by (intro bit_word_eqI) auto
qed (simp add: bitcnt_filter)

lemma bitcnt_le: "unat (bitcnt v) \<le> 64"
  using length_filter_le [of "bit v" "[0..<64]"] by (simp add: bitcnt_filter)

lemma unat_17: "unat w \<le> 192 \<Longrightarrow> unat (17 * w :: u32) = 17 * unat w"
  by (simp add: unat_word_ariths)

lemma room_left: "0 < n \<Longrightarrow> l \<le> 16 * n \<Longrightarrow> b = 17 * n \<Longrightarrow> l < (b :: nat)"
  by simp

lemma str_size:
  assumes "all_features q x c = ((f, ef, fe), c')"
  shows "unat (fst (getFeaturesStrSize q x c)) = 17 * (unat (bitcnt f) + unat (bitcnt ef) + unat (bitcnt fe))"
proof -
  have b: "unat (bitcnt f) + unat (bitcnt ef) + unat (bitcnt fe) \<le> 192"
    using bitcnt_le [of f] bitcnt_le [of ef] bitcnt_le [of fe] by simp
  then have "unat (bitcnt f + bitcnt ef + bitcnt fe) = unat (bitcnt f) + unat (bitcnt ef) + unat (bitcnt fe)"
    by (simp add: unat_word_ariths)
  then have "unat (17 * (bitcnt f + bitcnt ef + bitcnt fe)) = 17 * (unat (bitcnt f) + unat (bitcnt ef) + unat (bitcnt fe))"
    using b unat_17 [of "bitcnt f + bitcnt ef + bitcnt fe"] by simp
  then show ?thesis using assms by (simp only: getFeaturesStrSize_def Let_def case_prod_conv fst_conv unat_ucast_u32)
qed

text \<open>
  C38: A buffer of getFeaturesStrSize bytes holds the feature string: with at least one
  feature getFeaturesStr writes exactly the names of the set bits, a space behind each, and
  one NUL, all inside the buffer.
\<close>

theorem features_str_fits:
  fixes q :: cpu_instr and x :: u32 and c :: cpu
  defines "w \<equiv> fst (all_features q x c)" and "bufsize \<equiv> unat (fst (getFeaturesStrSize q x c))"
  assumes "w \<noteq> (0, 0, 0)"
  shows "length (features_text w) < bufsize
    \<and> getFeaturesStr q x c bufsize =
      Some (\<lambda>i. if 0 \<le> i \<and> i < int (length (features_text w)) then Some (features_text w ! nat i)
               else if i = int (length (features_text w)) then Some (CHR 0x00) else None,
            snd (all_features q x c))"
proof -
  obtain f ef fe c' where a: "all_features q x c = ((f, ef, fe), c')" by (metis surj_pair)
  let ?n = "unat (bitcnt f) + unat (bitcnt ef) + unat (bitcnt fe)"
  have w: "w = (f, ef, fe)" by (simp add: w_def a)
  have pos: "0 < ?n" using assms(3) bitcnt_zero [of f] bitcnt_zero [of ef] bitcnt_zero [of fe] by (auto simp: w)
  have len: "length (features_text w) < bufsize"
    unfolding w bufsize_def by (rule room_left [OF pos features_text_length str_size [OF a]])
  have "text_in (0, Map.empty) []" by (simp add: text_in_def)
  then obtain b1 where b1: "names_loop bufsize f (enumerate 0 CPUID_FEAT_STR) (0, Map.empty) = Some b1"
      "text_in b1 (feature_text f (enumerate 0 CPUID_FEAT_STR))"
    using names_loop_text [of "(0, Map.empty)" "[]" f "enumerate 0 CPUID_FEAT_STR" bufsize] len
    by (auto simp: features_text_def w)
  obtain b2 where b2: "names_loop bufsize ef (enumerate 0 CPUID_EXT_FEAT_STR) b1 = Some b2"
      "text_in b2 (feature_text f (enumerate 0 CPUID_FEAT_STR) @ feature_text ef (enumerate 0 CPUID_EXT_FEAT_STR))"
    using names_loop_text [OF b1(2), of ef "enumerate 0 CPUID_EXT_FEAT_STR" bufsize] len
    by (auto simp: features_text_def w)
  obtain b3 where b3: "names_loop bufsize fe (enumerate 0 CPUID_FEAT_EXT_STR) b2 = Some b3" "text_in b3 (features_text w)"
    using names_loop_text [OF b2(2), of fe "enumerate 0 CPUID_FEAT_EXT_STR" bufsize] len
    by (auto simp: features_text_def w)
  have "(snd b3)(fst b3 \<mapsto> CHR 0x00)
      = (\<lambda>i. if 0 \<le> i \<and> i < int (length (features_text w)) then Some (features_text w ! nat i)
             else if i = int (length (features_text w)) then Some (CHR 0x00) else None)"
    using b3(2) by (auto simp: text_in_def fun_eq_iff)
  then show ?thesis
    using len b1(1) b2(1) b3(1) by (simp add: getFeaturesStr_def a)
qed

definition demo_cpuid :: cpu_instr where
  "demo_cpuid l x = \<lparr>eax = 0x80000001, ebx = 0, ecx = 0, edx = if l = 1 then 0x11 else 0\<rparr>"

theorem features_str_fits_witness:
  "map_option (\<lambda>r. map (fst r) [0..9]) (getFeaturesStr demo_cpuid 0 cpu_init 34) = Some (map Some (''fpu tsc '' @ [CHR 0x00]) @ [None])"
proof -
  have a: "all_features demo_cpuid 0 cpu_init = ((0x11, 0, 0), cpu_init\<lparr>features := 0x11, cinfo := info_fields 0x80000001, maxCPUID := 0x80000001\<rparr>)"
    by (simp add: all_features_def getFeatures_def getExtFeatures_def getMaxCPUID_def getFeaturesExt_def demo_cpuid_def cpu_init_def Let_def)
  have t: "features_text (0x11, 0, 0) = ''fpu tsc ''"
    by (simp add: features_text_def feature_text_def CPUID_FEAT_STR_def CPUID_EXT_FEAT_STR_def CPUID_FEAT_EXT_STR_def bit_simps)
  have "unat (bitcnt 0x11) = 2" "unat (bitcnt 0) = 0" by (simp_all add: bitcnt_filter upt_rec)
  then have "unat (fst (getFeaturesStrSize demo_cpuid 0 cpu_init)) = 34" using str_size [OF a] by simp
  then show ?thesis
    using features_str_fits [of demo_cpuid 0 cpu_init, unfolded a fst_conv snd_conv t] by (simp add: upto_rec1)
qed

end
