(* ===== verification/Printbuf.thy ===== *)
theory Printbuf
  imports Sprintf "HOL-Library.Monad_Syntax"
begin

text \<open>
  Formatting into a character array and reading it back: what the users of \<^verbatim>\<open>snprintf\<close> in the kernel and
  in the drivers do. A character array is a partial map from offsets to characters, without the bytes that were
  never written; offsets are 64-bit, so that an offset before the start of the array is a large one.
\<close>

section \<open>Arrays\<close>

text \<open>The characters up to the NUL; \<open>None\<close>: the reader meets a byte that was never written.\<close>

fun c_string :: "nat \<Rightarrow> (nat \<rightharpoonup> char) \<Rightarrow> nat \<Rightarrow> string option" where
  "c_string 0 buf i = None"
| "c_string (Suc n) buf i =
     (case buf i of None \<Rightarrow> None
      | Some c \<Rightarrow> if c = CHR 0x00 then Some [] else map_option (Cons c) (c_string n buf (Suc i)))"

type_synonym cbuf = "u64 \<rightharpoonup> char"

text \<open>
  \<^verbatim>\<open>snprintf(buf + off, len, fmt, ...)\<close>: the value that is added to a pointer or a \<^verbatim>\<open>size_t\<close>, and the array.
\<close>

definition snprintf_at :: "(u64 \<Rightarrow> string) \<Rightarrow> u64 \<Rightarrow> u64 \<Rightarrow> string \<Rightarrow> u64 list \<Rightarrow> cbuf \<Rightarrow> (u64 \<times> cbuf) option" where
  "snprintf_at strs off len fmt args buf = do {
     p \<leftarrow> vsnprintf strs True (unat len) fmt args;
     Some (word_of_int (out_len p),
           \<lambda>a. case written p (unat (a - off)) of Some c \<Rightarrow> Some c | None \<Rightarrow> buf a)
   }"

definition byte_of :: "char \<Rightarrow> u8" where
  "byte_of c = of_nat (of_char c)"

text \<open>The bytes that a reader of the string at the start of the array sees, the NUL included.\<close>

definition buf_string :: "nat \<Rightarrow> cbuf \<Rightarrow> u8 list option" where
  "buf_string n buf = map_option (\<lambda>t. map byte_of (t @ [CHR 0x00])) (c_string n (\<lambda>i. buf (of_nat i)) 0)"

section \<open>What is in the array\<close>

definition put_text :: "u64 \<Rightarrow> string \<Rightarrow> cbuf \<Rightarrow> cbuf" where
  "put_text off t buf = (\<lambda>a. if unat (a - off) < length t then Some (t ! unat (a - off)) else buf a)"

lemma snprintf_at_text:
  assumes "map_option text_of (format_actions strs fmt args) = Some t"
  shows "snprintf_at strs off len fmt args buf =
    Some (if length t \<le> unat len then (of_nat (length t), put_text off (t @ [CHR 0x00]) buf)
          else (- 1, put_text off (take (unat len) t) buf))"
proof -
  obtain as where as: "format_actions strs fmt args = Some as" "text_of as = t" using assms by auto
  have v: "map_option (\<lambda>p. (out_len p, written p)) (vsnprintf strs True (unat len) fmt args)
      = Some (if length t \<le> unat len
       then (int (length t), \<lambda>i. if i < length t then Some (t ! i)
                               else if i = length t then Some (CHR 0x00) else None)
       else (- 1, \<lambda>i. if i < unat len then Some (t ! i) else None))"
    unfolding vsnprintf_text as(1) option.map Let_def as(2) by simp
  show ?thesis
  proof (cases "length t \<le> unat len")
    case True
    then obtain p where "vsnprintf strs True (unat len) fmt args = Some p" "out_len p = int (length t)"
        "written p = (\<lambda>i. if i < length t then Some (t ! i) else if i = length t then Some (CHR 0x00) else None)"
      using v by auto
    then show ?thesis using True
      by (auto simp: snprintf_at_def put_text_def fun_eq_iff nth_append less_Suc_eq)
  next
    case False
    then obtain p where "vsnprintf strs True (unat len) fmt args = Some p" "out_len p = - 1"
        "written p = (\<lambda>i. if i < unat len then Some (t ! i) else None)"
      using v by auto
    then show ?thesis using False by (auto simp: snprintf_at_def put_text_def fun_eq_iff)
  qed
qed

lemma put_text_append:
  assumes "length t + length u < 18446744073709551616" and "u \<noteq> []"
  shows "put_text (off + of_nat (length t)) u (put_text off (t @ [c]) buf) = put_text off (t @ u) buf"
proof
  fix a
  have "unat (a - (off + of_nat (length t))) < length u \<longleftrightarrow> length t \<le> unat (a - off) \<and> unat (a - off) < length t + length u"
    using in_range_shift [of "length t" "length u" off a] assms(1) by (simp add: in_range_def)
  moreover have "unat (a - (off + of_nat (length t))) = unat (a - off) - length t" if "length t \<le> unat (a - off)"
  proof -
    have "a - (off + of_nat (length t)) = (a - off) - of_nat (length t)" by simp
    then show ?thesis using that assms(1)
      by (simp only: unat_diff_wrap_u64) (simp add: unat_of_nat_u64)
  qed
  ultimately show "put_text (off + of_nat (length t)) u (put_text off (t @ [c]) buf) a = put_text off (t @ u) buf a"
    using assms(2) by (auto simp: put_text_def nth_append less_Suc_eq)
qed

lemma put_text_put:
  assumes "length t \<le> length u" and "length u < 18446744073709551616"
  shows "put_text off u (put_text off t buf) = put_text off u buf"
  using assms by (auto simp: put_text_def fun_eq_iff)

lemma c_string_text:
  assumes "CHR 0x00 \<notin> set t" and "\<forall>i < length t. buf (k + i) = Some (t ! i)"
    and "buf (k + length t) = Some (CHR 0x00)" and "length t < n"
  shows "c_string n buf k = Some t"
  using assms
proof (induction t arbitrary: n k)
  case Nil
  then show ?case by (cases n) simp_all
next
  case (Cons c t)
  from Cons.prems(2) have c: "buf k = Some c" and r: "\<forall>i < length t. buf (Suc k + i) = Some (t ! i)"
    by (auto dest: spec [of _ 0] spec [of _ "Suc _"])
  obtain m where n: "n = Suc m" "length t < m" using Cons.prems(4) by (cases n) auto
  have "c_string m buf (Suc k) = Some t" using Cons.IH [OF _ r _ n(2)] Cons.prems(1,3) by simp
  then show ?case using c Cons.prems(1) by (auto simp: n)
qed

lemma unat_byte_of: "unat (byte_of c) = of_char c"
  unfolding byte_of_def by (subst unat_of_nat) (simp add: nat_of_char_less_256)

lemma byte_of_nul [simp]: "byte_of c = 0 \<longleftrightarrow> c = CHR 0x00"
proof -
  have "byte_of c = 0 \<longleftrightarrow> (of_char c :: nat) = 0" using unat_byte_of [of c] by (metis unat_eq_0)
  also have "\<dots> \<longleftrightarrow> (of_char c :: nat) = of_char (CHR 0x00)" by simp
  finally show ?thesis by (simp only: of_char_eq_iff)
qed

lemma bytes_not_nul: "CHR 0x00 \<notin> set t \<Longrightarrow> 0 \<notin> set (map byte_of t)"
  by (auto simp: image_iff dest: sym)

lemma buf_string_text:
  assumes "CHR 0x00 \<notin> set t" and "length t < n" and "n \<le> 18446744073709551616"
  shows "buf_string n (put_text 0 (t @ CHR 0x00 # rest) buf) = Some (map byte_of t @ [0])"
proof -
  have u: "unat (of_nat i :: u64) = i" if "i \<le> length t" for i
    using that assms(2,3) by (simp add: unat_of_nat_u64)
  have "c_string n (\<lambda>i. put_text 0 (t @ CHR 0x00 # rest) buf (of_nat i)) 0 = Some t"
    using assms(1,2) by (intro c_string_text) (simp_all add: put_text_def u nth_append)
  then show ?thesis by (simp add: buf_string_def)
qed

section \<open>Numbers with leading zeros\<close>

definition zpad :: "nat \<Rightarrow> string \<Rightarrow> string" where
  "zpad w t = replicate (w - length t) CHR ''0'' @ t"

definition numeral_in :: "nat \<Rightarrow> nat \<Rightarrow> string" where
  "numeral_in base n = (if n = 0 then ''0'' else digits_loop base False n [])"

lemma digits_loop_length:
  assumes "2 \<le> base"
  shows "n < base ^ k \<Longrightarrow> length (digits_loop base caps n []) \<le> k"
proof (induction k arbitrary: n)
  case 0
  then show ?case by (simp add: digits_loop.simps)
next
  case (Suc k)
  show ?case
  proof (cases "n = 0")
    case False
    have "n div base < base ^ k" using Suc.prems assms by (simp add: div_less_iff_less_mult mult.commute)
    from Suc.IH [OF this] False show ?thesis using digits_loop_snoc [of n base caps] assms by simp
  qed (simp add: digits_loop.simps)
qed

lemma digit_char_not_nul: "d < 16 \<Longrightarrow> digit_char caps d \<noteq> CHR 0x00"
proof -
  assume "d < 16"
  then have "of_char (digit_char caps d) \<ge> (48 :: nat)" by (auto simp: digit_char_def)
  then show ?thesis by auto
qed

lemma digits_loop_not_nul:
  assumes "2 \<le> base" and "base \<le> 16"
  shows "CHR 0x00 \<notin> set (digits_loop base caps n [])"
proof (induction n rule: less_induct)
  case (less n)
  show ?case
  proof (cases "n = 0")
    case False
    then have "CHR 0x00 \<notin> set (digits_loop base caps (n div base) [])" using less assms by simp
    moreover have "digit_char caps (n mod base) \<noteq> CHR 0x00"
      by (rule digit_char_not_nul [OF mod_base_16 [OF assms]])
    ultimately show ?thesis using False assms digits_loop_snoc [of n base caps] by auto
  qed (simp add: digits_loop.simps)
qed

lemma zpad_length:
  "2 \<le> base \<Longrightarrow> n < base ^ w \<Longrightarrow> 0 < w \<Longrightarrow> length (zpad w (numeral_in base n)) = w"
  using digits_loop_length [of base n w False] by (auto simp: zpad_def numeral_in_def)

lemma zpad_not_nul: "2 \<le> base \<Longrightarrow> base \<le> 16 \<Longrightarrow> CHR 0x00 \<notin> set (zpad w (numeral_in base n))"
  using digits_loop_not_nul [of base False n] by (auto simp: zpad_def numeral_in_def)

lemma digits_loop_Nil: "2 \<le> base \<Longrightarrow> digits_loop base caps n [] = [] \<longleftrightarrow> n = 0"
  using digits_loop_snoc [of n base caps] by (cases "n = 0") (auto simp: digits_loop.simps)

lemma out_num_zpad:
  assumes "\<not> (sig \<and> v <s 0)" and "2 \<le> base"
  shows "out_num (no_flags\<lparr>fl_leadzero := True\<rparr>) (int w) v base sig False = zpad w (numeral_in base (unat v))"
proof -
  have "longlong_to_string v base sig False False = numeral_in base (unat v)"
    using assms digits_loop_Nil [of base False "unat v"]
    by (auto simp: longlong_to_string_def Let_def numeral_in_def)
  then show ?thesis by (auto simp: out_num_def out_str_def no_flags_def Let_def zpad_def nat_diff_distrib)
qed

lemma u8_not_negative: "\<not> (ucast (a :: u8) :: u64) <s 0"
  by (simp add: word_sless_alt signed_take_bit_eq_if_positive bit_simps sint_uint)

lemma unat_ucast_small: "unat (ucast (a :: u8) :: u64) = unat a" "unat (ucast (b :: u16) :: u64) = unat b"
  by (transfer; simp add: take_bit_eq_mod mod_mod_cancel)+

lemma arg_u8:
  "signed_arg (no_flags\<lparr>fl_leadzero := True\<rparr>) (ucast (a :: u8)) = Some (ucast a)"
  "unsigned_arg (no_flags\<lparr>fl_leadzero := True\<rparr>) (ucast a) = Some (ucast a)"
  "unsigned_arg (no_flags\<lparr>fl_leadzero := True\<rparr>) (ucast (b :: u16)) = Some (ucast b)"
proof -
  have "(scast (ucast (ucast a :: u64) :: u32) :: u64) = ucast a"
    by (rule bit_word_eqI) (auto simp: bit_simps min_def)
  moreover have "(ucast (ucast (ucast a :: u64) :: u32) :: u64) = ucast a"
      "(ucast (ucast (ucast b :: u64) :: u32) :: u64) = ucast b"
    by (rule bit_word_eqI; auto simp: bit_simps dest: bit_imp_le_length)+
  ultimately show "signed_arg (no_flags\<lparr>fl_leadzero := True\<rparr>) (ucast (a :: u8)) = Some (ucast a)"
      "unsigned_arg (no_flags\<lparr>fl_leadzero := True\<rparr>) (ucast a) = Some (ucast a)"
      "unsigned_arg (no_flags\<lparr>fl_leadzero := True\<rparr>) (ucast (b :: u16)) = Some (ucast b)"
    by (simp_all add: signed_arg_def unsigned_arg_def no_flags_def)
qed

lemma convert_padded:
  "convert strs (CHR ''0'' # CHR ''3'' # CHR ''d'' # rest) (ucast (a :: u8) # as)
     = Got (Emit (zpad 3 (numeral_in 10 (unat a))), rest, as)"
  "convert strs (CHR ''0'' # CHR ''2'' # CHR ''x'' # rest) (ucast a # as)
     = Got (Emit (zpad 2 (numeral_in 16 (unat a))), rest, as)"
  "convert strs (CHR ''0'' # CHR ''4'' # CHR ''x'' # rest) (ucast (b :: u16) # as)
     = Got (Emit (zpad 4 (numeral_in 16 (unat b))), rest, as)"
  using out_num_zpad [of True "ucast a" 10 3] out_num_zpad [of False "ucast a" 16 2] out_num_zpad [of False "ucast b" 16 4]
  by (simp_all add: convert_def conv_def number_def is_digit_def raw_size_def arg_u8 u8_not_negative unat_ucast_small)

end
