(* ===== verification/Pci.thy ===== *)
theory Pci
  imports Printbuf "HOL-Library.Monad_Syntax"
begin

text \<open>
  The PCI driver module (\<^verbatim>\<open>src/modules/driver.pci/main.cpp\<close>): the layout of the configuration header,
  reading it through the ports, the recursive scan of the buses, and the names under which the devices
  are announced with \<^verbatim>\<open>ioprovide\<close>. The configuration space is a parameter \<open>conf\<close>: what the data port
  0xCFC yields after an address has been written to 0xCF8. The scan is depth first; the main result is
  that it announces exactly the devices on the buses that are reachable through bridges, each once.
\<close>

unbundle bit_operations_syntax

section \<open>The configuration header\<close>

text \<open>A packed structure as its fields with their sizes in bytes.\<close>

fun offsetof :: "string \<Rightarrow> (string \<times> nat) list \<Rightarrow> nat option" where
  "offsetof f [] = None"
| "offsetof f ((g, w) # fs) = (if f = g then Some 0 else map_option ((+) w) (offsetof f fs))"

definition sizeof :: "(string \<times> nat) list \<Rightarrow> nat" where
  "sizeof fs = sum_list (map snd fs)"

definition Device_head :: "(string \<times> nat) list" where
  "Device_head =
     [(''vendor'', 2), (''device'', 2), (''command'', 2), (''status'', 2),
      (''revision'', 1), (''prog_if'', 1), (''subclass'', 1), (''classcode'', 1),
      (''cache_line_size'', 1), (''latency_timer'', 1), (''header_type'', 1), (''bist'', 1)]"

definition Device_device :: "(string \<times> nat) list" where
  "Device_device =
     [(''bar'', 6 * 4), (''cardbus_cis'', 4), (''subsystem_vendor'', 2), (''subsystem_id'', 2),
      (''rom_base'', 4), (''caps_ptr'', 1), (''rsvd'', 3 + 4),
      (''intr_line'', 1), (''intr_pin'', 1), (''min_grant'', 1), (''max_latency'', 1)]"

definition Device_pcibridge :: "(string \<times> nat) list" where
  "Device_pcibridge =
     [(''bar'', 2 * 4),
      (''prim_bus_num'', 1), (''sec_bus_num'', 1), (''sub_bus_num'', 1), (''sec_latency_timer'', 1),
      (''iobase'', 1), (''iolimit'', 1), (''sec_status'', 2), (''membase'', 2), (''memlim'', 2),
      (''pref_membase'', 2), (''pref_memlim'', 2), (''pref_membase_u32'', 4), (''pref_memlim_u32'', 4),
      (''iobase_u16'', 2), (''iolim_u16'', 2), (''caps_ptr'', 1), (''rsvd'', 3), (''rom_base'', 4),
      (''intr_line'', 1), (''intr_pin'', 1), (''bridgectl'', 2)]"

definition Device_cardbusbridge :: "(string \<times> nat) list" where
  "Device_cardbusbridge =
     [(''cardbus_sock_exca_base'', 4), (''cap_off'', 1), (''rsvd'', 1), (''sec_status'', 2),
      (''pci_bus_num'', 1), (''cardbus_bus_num'', 1), (''sub_bus_num'', 1), (''cardbus_lat_timer'', 1),
      (''membase0'', 4), (''memlim0'', 4), (''membase1'', 4), (''memlim1'', 4),
      (''iobase0'', 4), (''iolim0'', 4), (''iobase1'', 4), (''iolim1'', 4),
      (''intr_line'', 1), (''intr_pin'', 1), (''bridgectl'', 1), (''sub_device'', 2), (''sub_vendor'', 2),
      (''pccard_base'', 4)]"

definition head_off :: "string \<Rightarrow> u8" where
  "head_off f = of_nat (the (offsetof f Device_head))"

definition bridge_off :: "string \<Rightarrow> u8" where
  "bridge_off f = of_nat (sizeof Device_head + the (offsetof f Device_pcibridge))"

section \<open>Reading the configuration space\<close>

type_synonym config = "u32 \<Rightarrow> u32"

definition config_address :: "u8 \<Rightarrow> u8 \<Rightarrow> u8 \<Rightarrow> u32" where
  "config_address bus slot func =
     0x80000000 OR push_bit 16 (ucast bus) OR push_bit 11 (ucast slot) OR push_bit 8 (ucast func)"

definition readConfig32 :: "config \<Rightarrow> u8 \<Rightarrow> u8 \<Rightarrow> u8 \<Rightarrow> u8 \<Rightarrow> u32" where
  "readConfig32 conf bus slot func offset =
     conf (config_address bus slot func OR (ucast offset AND 0xFC))"

definition Device_read :: "config \<Rightarrow> u8 \<Rightarrow> u8 \<Rightarrow> u8 \<Rightarrow> u8 \<Rightarrow> 'a :: len word" where
  "Device_read conf bus slot func offset =
     ucast (drop_bit (unat (offset AND 3) * 8) (readConfig32 conf bus slot func offset))"

definition getHeaderType :: "config \<Rightarrow> u8 \<Rightarrow> u8 \<Rightarrow> u8 \<Rightarrow> u8" where
  "getHeaderType conf bus slot func = Device_read conf bus slot func (head_off ''header_type'')"

definition getVendorID :: "config \<Rightarrow> u8 \<Rightarrow> u8 \<Rightarrow> u8 \<Rightarrow> u16" where
  "getVendorID conf bus slot func = Device_read conf bus slot func (head_off ''vendor'')"

definition getDeviceID :: "config \<Rightarrow> u8 \<Rightarrow> u8 \<Rightarrow> u8 \<Rightarrow> u16" where
  "getDeviceID conf bus slot func = Device_read conf bus slot func (head_off ''device'')"

definition getBaseClass :: "config \<Rightarrow> u8 \<Rightarrow> u8 \<Rightarrow> u8 \<Rightarrow> u8" where
  "getBaseClass conf bus slot func = Device_read conf bus slot func (head_off ''classcode'')"

definition getSubClass :: "config \<Rightarrow> u8 \<Rightarrow> u8 \<Rightarrow> u8 \<Rightarrow> u8" where
  "getSubClass conf bus slot func = Device_read conf bus slot func (head_off ''subclass'')"

definition getProgIf :: "config \<Rightarrow> u8 \<Rightarrow> u8 \<Rightarrow> u8 \<Rightarrow> u8" where
  "getProgIf conf bus slot func = Device_read conf bus slot func (head_off ''prog_if'')"

definition getRevision :: "config \<Rightarrow> u8 \<Rightarrow> u8 \<Rightarrow> u8 \<Rightarrow> u8" where
  "getRevision conf bus slot func = Device_read conf bus slot func (head_off ''revision'')"

definition getSecondaryBus :: "config \<Rightarrow> u8 \<Rightarrow> u8 \<Rightarrow> u8 \<Rightarrow> u8" where
  "getSecondaryBus conf bus slot func = Device_read conf bus slot func (bridge_off ''sec_bus_num'')"

section \<open>Announcing a device\<close>

text \<open>The static \<^verbatim>\<open>checked\<close> of \<^verbatim>\<open>scanBus\<close> and the calls of \<^verbatim>\<open>ioprovide\<close> so far.\<close>

record pci =
  checked :: u64
  ioprovided :: "(string \<times> u64) list"

text \<open>\<^verbatim>\<open>snprintf(pathbuf, sizeof(pathbuf), fmt, ...)\<close> over what the buffer held, then \<^verbatim>\<open>ioprovide(pathbuf, ptr)\<close>.\<close>

definition provide_path :: "string \<Rightarrow> u64 list \<Rightarrow> u64 \<Rightarrow> (nat \<rightharpoonup> char) \<times> pci \<Rightarrow> ((nat \<rightharpoonup> char) \<times> pci) option" where
  "provide_path fmt args ptr bs = do {
     p \<leftarrow> vsnprintf (\<lambda>_. []) True 64 fmt args;
     let pathbuf = fst bs ++ written p;
     path \<leftarrow> c_string 64 pathbuf 0;
     Some (pathbuf, (snd bs)\<lparr>ioprovided := ioprovided (snd bs) @ [(path, ptr)]\<rparr>)
   }"

definition provideDevice :: "config \<Rightarrow> u8 \<Rightarrow> u8 \<Rightarrow> u8 \<Rightarrow> pci \<Rightarrow> pci option" where
  "provideDevice conf bus device function s = do {
     let baseClass = getBaseClass conf bus device function;
     let subClass = getSubClass conf bus device function;
     let progIf = getProgIf conf bus device function;
     let rev = getRevision conf bus device function;
     let vendorId = getVendorID conf bus device function;
     let deviceId = getDeviceID conf bus device function;
     let ptr = ucast (config_address bus device function);
     bs \<leftarrow> provide_path ''pci/path.%03d.%03d.%03d'' [ucast bus, ucast device, ucast function] ptr (Map.empty, s);
     bs \<leftarrow> provide_path ''pci/class.%02x.%02x.%02x'' [ucast baseClass, ucast subClass, ucast progIf] ptr bs;
     bs \<leftarrow> provide_path ''pci/vendor.%04x/device.%04x/rev.%02x'' [ucast vendorId, ucast deviceId, ucast rev] ptr bs;
     Some (snd bs)
   }"

section \<open>The scan\<close>

fun each :: "('a \<Rightarrow> 's \<Rightarrow> 's option) \<Rightarrow> 'a list \<Rightarrow> 's \<Rightarrow> 's option" where
  "each f [] s = Some s"
| "each f (x # xs) s = Option.bind (f x s) (each f xs)"

text \<open>
  \<^verbatim>\<open>scanBus\<close>, \<^verbatim>\<open>scanDevice\<close> and \<^verbatim>\<open>scanFunction\<close> call each other; the first two take the scan of a bus as an
  argument and \<open>scanBus\<close> ties the knot with a bound on the depth of the recursion. The result is \<open>None\<close>
  when that bound is not enough, and where the C++ is undefined: the shift \<^verbatim>\<open>1llu << bus\<close> by 64 or more.
\<close>

definition scanFunction :: "config \<Rightarrow> (u8 \<Rightarrow> pci \<Rightarrow> pci option) \<Rightarrow> u8 \<Rightarrow> u8 \<Rightarrow> u8 \<Rightarrow> pci \<Rightarrow> pci option" where
  "scanFunction conf scan bus device function s =
     (let baseClass = getBaseClass conf bus device function;
          subClass = getSubClass conf bus device function
      in if baseClass = 0x06 \<and> subClass = 0x04
         then scan (getSecondaryBus conf bus device function) s
         else provideDevice conf bus device function s)"

definition scanDevice :: "config \<Rightarrow> (u8 \<Rightarrow> pci \<Rightarrow> pci option) \<Rightarrow> u8 \<Rightarrow> u8 \<Rightarrow> pci \<Rightarrow> pci option" where
  "scanDevice conf scan bus device s =
     (if getVendorID conf bus device 0 = 0xFFFF then Some s
      else do {
        s \<leftarrow> scanFunction conf scan bus device 0 s;
        if getHeaderType conf bus device 0 AND 0x80 \<noteq> 0
        then each (\<lambda>function s.
               if getVendorID conf bus device function \<noteq> 0xFFFF
               then scanFunction conf scan bus device function s else Some s)
             (map of_nat [1..<8]) s
        else Some s
      })"

fun scanBus :: "nat \<Rightarrow> config \<Rightarrow> u8 \<Rightarrow> pci \<Rightarrow> pci option" where
  "scanBus 0 conf bus s = None"
| "scanBus (Suc n) conf bus s =
     (if 64 \<le> unat bus then None
      else if checked s AND push_bit (unat bus) 1 \<noteq> 0 then Some s
      else each (scanDevice conf (scanBus n conf) bus) (map of_nat [0..<32])
             (s\<lparr>checked := checked s OR push_bit (unat bus) 1\<rparr>))"

text \<open>The loop over the functions of the host controller, with its \<^verbatim>\<open>break\<close>.\<close>

fun host_loop :: "nat \<Rightarrow> config \<Rightarrow> u8 list \<Rightarrow> pci \<Rightarrow> pci option" where
  "host_loop n conf [] s = Some s"
| "host_loop n conf (function # fs) s =
     (if getVendorID conf 0 0 function \<noteq> 0xFFFF then Some s
      else Option.bind (scanBus n conf function s) (host_loop n conf fs))"

definition scanAllBuses :: "nat \<Rightarrow> config \<Rightarrow> pci \<Rightarrow> pci option" where
  "scanAllBuses n conf s =
     (if getHeaderType conf 0 0 0 AND 0x80 = 0 then scanBus n conf 0 s
      else host_loop n conf (map of_nat [0..<8]) s)"

text \<open>\<^verbatim>\<open>module()\<close>, up to its \<^verbatim>\<open>exit(0)\<close>: \<^verbatim>\<open>checked\<close> starts as zero.\<close>

definition pci_module :: "nat \<Rightarrow> config \<Rightarrow> pci option" where
  "pci_module n conf = scanAllBuses n conf \<lparr>checked = 0, ioprovided = []\<rparr>"

section \<open>The names of a device\<close>

definition device_paths :: "config \<Rightarrow> u8 \<times> u8 \<times> u8 \<Rightarrow> string list" where
  "device_paths conf = (\<lambda>(b, d, f).
     [''pci/path.'' @ zpad 3 (numeral_in 10 (unat b)) @ ''.'' @ zpad 3 (numeral_in 10 (unat d)) @ ''.''
        @ zpad 3 (numeral_in 10 (unat f)),
      ''pci/class.'' @ zpad 2 (numeral_in 16 (unat (getBaseClass conf b d f))) @ ''.''
        @ zpad 2 (numeral_in 16 (unat (getSubClass conf b d f))) @ ''.''
        @ zpad 2 (numeral_in 16 (unat (getProgIf conf b d f))),
      ''pci/vendor.'' @ zpad 4 (numeral_in 16 (unat (getVendorID conf b d f))) @ ''/device.''
        @ zpad 4 (numeral_in 16 (unat (getDeviceID conf b d f))) @ ''/rev.''
        @ zpad 2 (numeral_in 16 (unat (getRevision conf b d f)))])"

lemma format_device_paths:
  fixes b d f :: u8 and v w :: u16
  shows "map_option text_of (format_actions strs ''pci/path.%03d.%03d.%03d'' [ucast b, ucast d, ucast f])
      = Some (''pci/path.'' @ zpad 3 (numeral_in 10 (unat b)) @ ''.'' @ zpad 3 (numeral_in 10 (unat d)) @ ''.''
        @ zpad 3 (numeral_in 10 (unat f)))"
    "map_option text_of (format_actions strs ''pci/class.%02x.%02x.%02x'' [ucast b, ucast d, ucast f])
      = Some (''pci/class.'' @ zpad 2 (numeral_in 16 (unat b)) @ ''.'' @ zpad 2 (numeral_in 16 (unat d)) @ ''.''
        @ zpad 2 (numeral_in 16 (unat f)))"
    "map_option text_of (format_actions strs ''pci/vendor.%04x/device.%04x/rev.%02x'' [ucast v, ucast w, ucast f])
      = Some (''pci/vendor.'' @ zpad 4 (numeral_in 16 (unat v)) @ ''/device.'' @ zpad 4 (numeral_in 16 (unat w))
        @ ''/rev.'' @ zpad 2 (numeral_in 16 (unat f)))"
  by (simp_all add: convert_padded)

lemma provide_path_text:
  assumes "map_option text_of (format_actions (\<lambda>_. []) fmt args) = Some t" and "length t < 64" and "CHR 0x00 \<notin> set t"
  shows "\<exists>buf'. provide_path fmt args ptr (buf, s) = Some (buf', s\<lparr>ioprovided := ioprovided s @ [(t, ptr)]\<rparr>)"
proof -
  obtain as where as: "format_actions (\<lambda>_. []) fmt args = Some as" "text_of as = t" using assms(1) by auto
  let ?w = "\<lambda>i. if i < length t then Some (t ! i) else if i = length t then Some (CHR 0x00) else None"
  have "map_option (\<lambda>p. (out_len p, written p)) (vsnprintf (\<lambda>_. []) True 64 fmt args) = Some (int (length t), ?w)"
    unfolding vsnprintf_text as(1) option.map Let_def as(2) using assms(2) by auto
  then obtain p where p: "vsnprintf (\<lambda>_. []) True 64 fmt args = Some p" "written p = ?w" by auto
  have "c_string 64 (buf ++ written p) 0 = Some t"
    by (rule c_string_text) (simp_all add: assms(2,3) p(2) map_add_def)
  then show ?thesis by (simp add: provide_path_def p(1))
qed

definition device_calls :: "config \<Rightarrow> u8 \<times> u8 \<times> u8 \<Rightarrow> (string \<times> u64) list" where
  "device_calls conf = (\<lambda>(b, d, f). map (\<lambda>p. (p, ucast (config_address b d f))) (device_paths conf (b, d, f)))"

lemma unat_u8_u16: "unat (a :: u8) < 256" "unat (v :: u16) < 65536"
  using unsigned_less [of a] unsigned_less [of v] by simp_all

lemma provideDevice_calls:
  "provideDevice conf b d f s = Some (s\<lparr>ioprovided := ioprovided s @ device_calls conf (b, d, f)\<rparr>)"
proof -
  let ?ptr = "ucast (config_address b d f) :: u64"
  let ?t = "\<lambda>i. device_paths conf (b, d, f) ! i"
  have len: "length (?t i) < 64" "CHR 0x00 \<notin> set (?t i)" if "i < 3" for i
    using that unat_u8_u16 less_trans [OF unat_u8_u16(1), of 1000]
    by (auto simp: device_paths_def nth_Cons zpad_length zpad_not_nul split: nat.splits)
  have fmt: "map_option text_of (format_actions (\<lambda>_. []) ''pci/path.%03d.%03d.%03d'' [ucast b, ucast d, ucast f]) = Some (?t 0)"
    "map_option text_of (format_actions (\<lambda>_. []) ''pci/class.%02x.%02x.%02x''
       [ucast (getBaseClass conf b d f), ucast (getSubClass conf b d f), ucast (getProgIf conf b d f)]) = Some (?t 1)"
    "map_option text_of (format_actions (\<lambda>_. []) ''pci/vendor.%04x/device.%04x/rev.%02x''
       [ucast (getVendorID conf b d f), ucast (getDeviceID conf b d f), ucast (getRevision conf b d f)]) = Some (?t 2)"
    by (simp_all only: format_device_paths) (simp_all add: device_paths_def)
  let ?s1 = "s\<lparr>ioprovided := ioprovided s @ [(?t 0, ?ptr)]\<rparr>"
  let ?s2 = "?s1\<lparr>ioprovided := ioprovided ?s1 @ [(?t 1, ?ptr)]\<rparr>"
  obtain b1 where 1: "provide_path ''pci/path.%03d.%03d.%03d'' [ucast b, ucast d, ucast f] ?ptr (Map.empty, s) = Some (b1, ?s1)"
    using provide_path_text [OF fmt(1) len, of ?ptr Map.empty s] by auto
  obtain b2 where 2: "provide_path ''pci/class.%02x.%02x.%02x''
      [ucast (getBaseClass conf b d f), ucast (getSubClass conf b d f), ucast (getProgIf conf b d f)] ?ptr (b1, ?s1) = Some (b2, ?s2)"
    using provide_path_text [OF fmt(2) len, of ?ptr b1 ?s1] by auto
  obtain b3 where 3: "provide_path ''pci/vendor.%04x/device.%04x/rev.%02x''
      [ucast (getVendorID conf b d f), ucast (getDeviceID conf b d f), ucast (getRevision conf b d f)] ?ptr (b2, ?s2)
      = Some (b3, ?s2\<lparr>ioprovided := ioprovided ?s2 @ [(?t 2, ?ptr)]\<rparr>)"
    using provide_path_text [OF fmt(3) len, of ?ptr b2 ?s2] by auto
  have "device_calls conf (b, d, f) = [(?t 0, ?ptr), (?t 1, ?ptr), (?t 2, ?ptr)]"
    by (simp add: device_calls_def device_paths_def)
  then show ?thesis
    by (simp only: provideDevice_def Let_def 1 2 3 Option.bind.simps snd_conv) simp
qed

section \<open>The scan reaches every device once\<close>

text \<open>The topology that the configuration space describes.\<close>

definition fn_present :: "config \<Rightarrow> u8 \<times> u8 \<times> u8 \<Rightarrow> bool" where
  "fn_present conf = (\<lambda>(b, d, f). unat d < 32 \<and> getVendorID conf b d 0 \<noteq> 0xFFFF
     \<and> (f = 0 \<or> getHeaderType conf b d 0 AND 0x80 \<noteq> 0 \<and> unat f < 8 \<and> getVendorID conf b d f \<noteq> 0xFFFF))"

definition bridge :: "config \<Rightarrow> u8 \<times> u8 \<times> u8 \<Rightarrow> bool" where
  "bridge conf = (\<lambda>(b, d, f). getBaseClass conf b d f = 0x06 \<and> getSubClass conf b d f = 0x04)"

definition secondary :: "config \<Rightarrow> u8 \<times> u8 \<times> u8 \<Rightarrow> u8" where
  "secondary conf = (\<lambda>(b, d, f). getSecondaryBus conf b d f)"

definition links :: "config \<Rightarrow> (u8 \<times> u8) set" where
  "links conf = {(fst x, secondary conf x) | x. fn_present conf x \<and> bridge conf x}"

definition devices_on :: "config \<Rightarrow> u8 set \<Rightarrow> (u8 \<times> u8 \<times> u8) set" where
  "devices_on conf B = {x. fst x \<in> B \<and> fn_present conf x \<and> \<not> bridge conf x}"

definition seen :: "pci \<Rightarrow> u8 set" where
  "seen s = {b. unat b < 64 \<and> bit (checked s) (unat b)}"

text \<open>
  A piece of the scan that handled the devices \<open>A\<close> and followed bridges to the buses \<open>T\<close>: the new buses
  are reachable from \<open>T\<close>, what their bridges lead to has been seen as well, and what was announced are
  the devices \<open>A\<close> and those on the new buses.
\<close>

definition scanned :: "config \<Rightarrow> (u8 \<times> u8 \<times> u8) set \<Rightarrow> u8 set \<Rightarrow> pci \<Rightarrow> pci \<Rightarrow> bool" where
  "scanned conf A T s s' \<longleftrightarrow>
     seen s \<subseteq> seen s' \<and> T \<subseteq> seen s'
     \<and> links conf `` (seen s' - seen s) \<subseteq> seen s'
     \<and> seen s' - seen s \<subseteq> (links conf)\<^sup>* `` T
     \<and> (\<exists>ds. distinct ds \<and> set ds = A \<union> devices_on conf (seen s' - seen s)
           \<and> ioprovided s' = ioprovided s @ concat (map (device_calls conf) ds))"

lemma scanned_refl [simp]: "scanned conf {} {} s s"
  by (simp add: scanned_def devices_on_def)

lemma scanned_seen: "b \<in> seen s \<Longrightarrow> scanned conf {} {b} s s"
  by (simp add: scanned_def devices_on_def)

lemma scanned_trans:
  assumes 1: "scanned conf A T s s1" and 2: "scanned conf B U s1 s2"
    and "A \<inter> B = {}" and "fst ` A \<subseteq> seen s" and "fst ` B \<subseteq> seen s"
  shows "scanned conf (A \<union> B) (T \<union> U) s s2"
proof -
  obtain ds where ds: "distinct ds" "set ds = A \<union> devices_on conf (seen s1 - seen s)"
      "ioprovided s1 = ioprovided s @ concat (map (device_calls conf) ds)" using 1 by (auto simp: scanned_def)
  obtain es where es: "distinct es" "set es = B \<union> devices_on conf (seen s2 - seen s1)"
      "ioprovided s2 = ioprovided s1 @ concat (map (device_calls conf) es)" using 2 by (auto simp: scanned_def)
  have sub: "seen s \<subseteq> seen s1" "seen s1 \<subseteq> seen s2" using 1 2 by (auto simp: scanned_def)
  then have new: "seen s2 - seen s = (seen s1 - seen s) \<union> (seen s2 - seen s1)" by auto
  have "set ds \<inter> set es = {}" using sub assms(3-5) by (auto simp: ds(2) es(2) devices_on_def)
  moreover have "set (ds @ es) = (A \<union> B) \<union> devices_on conf (seen s2 - seen s)"
    unfolding new by (auto simp: ds(2) es(2) devices_on_def)
  ultimately have "\<exists>ds. distinct ds \<and> set ds = (A \<union> B) \<union> devices_on conf (seen s2 - seen s)
      \<and> ioprovided s2 = ioprovided s @ concat (map (device_calls conf) ds)"
    using ds es by (intro exI [of _ "ds @ es"]) simp
  moreover have "links conf `` (seen s2 - seen s) \<subseteq> seen s2" "seen s2 - seen s \<subseteq> (links conf)\<^sup>* `` (T \<union> U)"
    unfolding new using 1 2 by (auto simp: scanned_def)
  ultimately show ?thesis using 1 2 by (auto simp: scanned_def)
qed

lemma scanned_each:
  assumes step: "\<And>x s. x \<in> set xs \<Longrightarrow> S \<subseteq> seen s \<Longrightarrow> \<exists>s'. g x s = Some s' \<and> scanned conf (A x) (T x) s s'"
    and "distinct xs" and disj: "\<And>x y. x \<in> set xs \<Longrightarrow> y \<in> set xs \<Longrightarrow> x \<noteq> y \<Longrightarrow> A x \<inter> A y = {}"
    and own: "\<And>x. x \<in> set xs \<Longrightarrow> fst ` A x \<subseteq> S" and "S \<subseteq> seen s"
  shows "\<exists>s'. each g xs s = Some s' \<and> scanned conf (\<Union>x \<in> set xs. A x) (\<Union>x \<in> set xs. T x) s s'"
  using assms
proof (induction xs arbitrary: s)
  case (Cons x xs)
  obtain s1 where s1: "g x s = Some s1" "scanned conf (A x) (T x) s s1" using Cons.prems(1) [of x s] Cons.prems(5) by auto
  then have "S \<subseteq> seen s1" using Cons.prems(5) by (auto simp: scanned_def)
  have "\<exists>s2. each g xs s1 = Some s2 \<and> scanned conf (\<Union>x \<in> set xs. A x) (\<Union>x \<in> set xs. T x) s1 s2"
    by (rule Cons.IH) (use Cons.prems \<open>S \<subseteq> seen s1\<close> in auto)
  then obtain s2 where s2: "each g xs s1 = Some s2"
      "scanned conf (\<Union>x \<in> set xs. A x) (\<Union>x \<in> set xs. T x) s1 s2" by blast
  have "A x \<inter> A y = {}" if "y \<in> set xs" for y using Cons.prems(2,3) that by fastforce
  then have disj: "A x \<inter> (\<Union>x \<in> set xs. A x) = {}" by blast
  have own: "fst ` A x \<subseteq> seen s" "fst ` (\<Union>x \<in> set xs. A x) \<subseteq> seen s"
    using Cons.prems(4,5) by fastforce+
  have "scanned conf (A x \<union> (\<Union>x \<in> set xs. A x)) (T x \<union> (\<Union>x \<in> set xs. T x)) s s2"
    by (rule scanned_trans [OF s1(2) s2(2) disj own])
  then show ?case using s1(1) s2(1) by simp
qed simp

definition own :: "config \<Rightarrow> u8 \<times> u8 \<times> u8 \<Rightarrow> (u8 \<times> u8 \<times> u8) set" where
  "own conf x = (if bridge conf x then {} else {x})"

definition target :: "config \<Rightarrow> u8 \<times> u8 \<times> u8 \<Rightarrow> u8 set" where
  "target conf x = (if bridge conf x then {secondary conf x} else {})"

definition functions_of :: "config \<Rightarrow> u8 \<Rightarrow> u8 \<Rightarrow> (u8 \<times> u8 \<times> u8) set" where
  "functions_of conf b d = {x. fn_present conf x \<and> fst x = b \<and> fst (snd x) = d}"

lemma scanned_own: "scanned conf {(b, d, f)} {} s (s\<lparr>ioprovided := ioprovided s @ device_calls conf (b, d, f)\<rparr>)"
  by (auto simp: scanned_def seen_def devices_on_def intro: exI [of _ "[(b, d, f)]"])

lemma scanFunction_scanned:
  assumes "\<And>c. (b, c) \<in> links conf \<Longrightarrow> \<exists>s'. scan c s = Some s' \<and> scanned conf {} {c} s s'" and "fn_present conf (b, d, f)"
  shows "\<exists>s'. scanFunction conf scan b d f s = Some s' \<and> scanned conf (own conf (b, d, f)) (target conf (b, d, f)) s s'"
proof (cases "bridge conf (b, d, f)")
  case True
  then have "(b, secondary conf (b, d, f)) \<in> links conf" using assms(2) by (force simp: links_def)
  from assms(1) [OF this] True show ?thesis
    by (simp add: scanFunction_def own_def target_def bridge_def secondary_def)
next
  case False
  then show ?thesis
    using scanned_own [of conf b d f s] by (auto simp: scanFunction_def own_def target_def bridge_def provideDevice_calls)
qed

lemma small_functions: "set (map of_nat [1..<8] :: u8 list) = {f. f \<noteq> 0 \<and> unat f < 8}"
proof -
  have "f \<in> of_nat ` {1..<8}" if "f \<noteq> 0" "unat f < 8" for f :: u8
    using that by (intro image_eqI [of _ _ "unat f"]) (auto simp: unat_gt_0 Suc_le_eq)
  moreover have "(of_nat k :: u8) \<noteq> 0 \<and> unat (of_nat k :: u8) < 8" if "k \<in> {1..<8}" for k
    using that nat_dvd_not_less [of k 256] by (auto simp: unat_of_nat word_of_nat_eq_0_iff)
  ultimately show ?thesis by auto
qed

lemma below_of_nat: "k \<le> 256 \<Longrightarrow> {b :: u8. unat b < k} = of_nat ` {..<k}"
proof (intro set_eqI iffI)
  fix b :: u8 assume "b \<in> {b. unat b < k}"
  then show "b \<in> of_nat ` {..<k}" by (intro image_eqI [of _ _ "unat b"]) simp_all
qed (auto simp: unat_of_nat)

lemma distinct_small: "n \<le> 256 \<Longrightarrow> distinct (map of_nat [k..<n] :: u8 list)"
  by (auto simp: distinct_map inj_on_def word_of_nat_eq_iff take_bit_eq_mod)

lemma Union_own: "(\<Union>x \<in> X. own conf x) = {x \<in> X. \<not> bridge conf x}"
  by (auto simp: own_def)

lemma scanDevice_scanned:
  assumes scan: "\<And>c s. (b, c) \<in> links conf \<Longrightarrow> S \<subseteq> seen s \<Longrightarrow> \<exists>s'. scan c s = Some s' \<and> scanned conf {} {c} s s'"
    and "b \<in> S" and "S \<subseteq> seen s" and "unat d < 32"
  shows "\<exists>s'. scanDevice conf scan b d s = Some s'
    \<and> scanned conf (\<Union>x \<in> functions_of conf b d. own conf x) (\<Union>x \<in> functions_of conf b d. target conf x) s s'"
proof (cases "getVendorID conf b d 0 = 0xFFFF")
  case True
  then have "functions_of conf b d = {}" by (auto simp: functions_of_def fn_present_def)
  with True show ?thesis by (simp add: scanDevice_def)
next
  case False
  define rest :: "u8 list" where "rest = (if getHeaderType conf b d 0 AND 0x80 \<noteq> 0 then map of_nat [1..<8] else [])"
  have rest: "set rest = {f. getHeaderType conf b d 0 AND 0x80 \<noteq> 0 \<and> f \<noteq> 0 \<and> unat f < 8}" "distinct rest"
    unfolding rest_def using small_functions distinct_small [of 8 1] by (simp_all del: set_map)
  let ?g = "\<lambda>f s. if getVendorID conf b d f \<noteq> 0xFFFF then scanFunction conf scan b d f s else Some s"
  define fns where "fns f = {x \<in> functions_of conf b d. snd (snd x) = f}" for f
  let ?A = "\<lambda>f. \<Union>x \<in> fns f. own conf x" and ?T = "\<lambda>f. \<Union>x \<in> fns f. target conf x"
  have p0: "fn_present conf (b, d, 0)" using False assms(4) by (simp add: fn_present_def)
  then obtain s1 where s1: "scanFunction conf scan b d 0 s = Some s1"
      "scanned conf (own conf (b, d, 0)) (target conf (b, d, 0)) s s1"
    using scanFunction_scanned [where scan = scan, OF scan [OF _ assms(3)]] by blast
  have "S \<subseteq> seen s1" using s1(2) assms(3) by (auto simp: scanned_def)
  have one: "\<exists>s'. ?g f s = Some s' \<and> scanned conf (?A f) (?T f) s s'" if "f \<in> set rest" "S \<subseteq> seen s" for f s
  proof (cases "getVendorID conf b d f = 0xFFFF")
    case True
    then have "fns f = {}" using that(1) by (auto simp: fns_def functions_of_def fn_present_def rest)
    then show ?thesis using True by simp
  next
    case False
    then have p: "fn_present conf (b, d, f)" using that(1) p0 by (simp add: fn_present_def rest)
    then have "fns f = {(b, d, f)}" by (auto simp: fns_def functions_of_def)
    then show ?thesis using scanFunction_scanned [where scan = scan, OF scan [OF _ that(2)] p] False by simp
  qed
  have "\<exists>s'. each ?g rest s1 = Some s' \<and> scanned conf (\<Union>f \<in> set rest. ?A f) (\<Union>f \<in> set rest. ?T f) s1 s'"
    by (rule scanned_each [OF one rest(2) _ _ \<open>S \<subseteq> seen s1\<close>])
      (use assms(2) in \<open>auto simp: Union_own fns_def functions_of_def\<close>)
  then obtain s2 where s2: "each ?g rest s1 = Some s2"
      "scanned conf (\<Union>f \<in> set rest. ?A f) (\<Union>f \<in> set rest. ?T f) s1 s2" by blast
  have all: "functions_of conf b d = insert (b, d, 0) (\<Union>f \<in> set rest. fns f)"
    using p0 by (auto simp: fns_def functions_of_def fn_present_def rest)
  have "scanned conf (own conf (b, d, 0) \<union> (\<Union>f \<in> set rest. ?A f)) (target conf (b, d, 0) \<union> (\<Union>f \<in> set rest. ?T f)) s s2"
    by (rule scanned_trans [OF s1(2) s2(2)])
      (use assms(2,3) in \<open>auto simp: own_def fns_def functions_of_def rest split: if_splits\<close>)
  moreover have "scanDevice conf scan b d s = Some s2"
    using s1(1) s2(1) False by (auto simp: scanDevice_def rest_def split: if_splits)
  ultimately show ?thesis unfolding all by (simp add: UN_UN_flatten)
qed

lemma seen_mark: "unat b < 64 \<Longrightarrow> seen (s\<lparr>checked := checked s OR push_bit (unat b) 1\<rparr>) = insert b (seen s)"
  by (auto simp: seen_def bit_simps word_unat_eq_iff)

lemma checked_seen: "unat b < 64 \<Longrightarrow> checked s AND push_bit (unat b) 1 \<noteq> 0 \<longleftrightarrow> b \<in> seen s"
  by (simp add: seen_def and_exp_eq_0_iff_not_bit)

lemma scanned_bus:
  assumes "scanned conf {x. fn_present conf x \<and> fst x = b \<and> \<not> bridge conf x} (links conf `` {b}) s0 s'"
    and s0: "seen s0 = insert b (seen s)" "ioprovided s0 = ioprovided s" and "b \<notin> seen s"
  shows "scanned conf {} {b} s s'"
proof -
  have new: "seen s' - seen s = insert b (seen s' - seen s0)"
    using assms by (auto simp: scanned_def)
  have "seen s' - seen s0 \<subseteq> (links conf)\<^sup>* `` (links conf `` {b})" using assms(1) by (auto simp: scanned_def)
  then have "seen s' - seen s \<subseteq> (links conf)\<^sup>* `` {b}"
    unfolding new by (auto intro: converse_rtrancl_into_rtrancl)
  moreover have "devices_on conf (seen s' - seen s)
      = {x. fn_present conf x \<and> fst x = b \<and> \<not> bridge conf x} \<union> devices_on conf (seen s' - seen s0)"
    unfolding new by (auto simp: devices_on_def)
  moreover have "links conf `` (seen s' - seen s) \<subseteq> seen s'" unfolding new using assms(1) by (auto simp: scanned_def)
  ultimately show ?thesis using assms by (auto simp: scanned_def)
qed

definition low_buses :: "u8 set" where
  "low_buses = {b. unat b < 64}"

lemma scanBus_scanned:
  assumes "(links conf)\<^sup>* `` {b} \<subseteq> low_buses" and "card (low_buses - seen s) < n"
  shows "\<exists>s'. scanBus n conf b s = Some s' \<and> scanned conf {} {b} s s'"
  using assms
proof (induction n arbitrary: b s)
  case (Suc n)
  have b: "unat b < 64" "b \<in> low_buses" using Suc.prems(1) by (auto simp: low_buses_def)
  show ?case
  proof (cases "b \<in> seen s")
    case True
    then show ?thesis using b(1) checked_seen [of b s] scanned_seen by auto
  next
    case False
    define s0 where "s0 = s\<lparr>checked := checked s OR push_bit (unat b) 1\<rparr>"
    have s0: "seen s0 = insert b (seen s)" "ioprovided s0 = ioprovided s" unfolding s0_def using seen_mark [OF b(1), of s] by simp_all
    have "card (low_buses - seen s0) < card (low_buses - seen s)"
      using False b(2) by (intro psubset_card_mono) (auto simp: s0)
    then have room: "card (low_buses - seen s1) < n" if "seen s0 \<subseteq> seen s1" for s1
      using Suc.prems(2) that card_mono [of "low_buses - seen s0" "low_buses - seen s1"] by fastforce
    have scan: "\<exists>s'. scanBus n conf c s1 = Some s' \<and> scanned conf {} {c} s1 s'"
      if "(b, c) \<in> links conf" "seen s0 \<subseteq> seen s1" for c s1
    proof (rule Suc.IH [OF _ room [OF that(2)]])
      show "(links conf)\<^sup>* `` {c} \<subseteq> low_buses"
        using Suc.prems(1) that(1) by (auto intro: converse_rtrancl_into_rtrancl)
    qed
    let ?devs = "map of_nat [0..<32] :: u8 list"
    let ?A = "\<lambda>d. \<Union>x \<in> functions_of conf b d. own conf x" and ?T = "\<lambda>d. \<Union>x \<in> functions_of conf b d. target conf x"
    have devs: "set ?devs = {d. unat d < 32}"
      using below_of_nat [of 32] by (simp add: atLeast0LessThan)
    have "\<exists>s'. each (scanDevice conf (scanBus n conf) b) ?devs s0 = Some s'
        \<and> scanned conf (\<Union>d \<in> set ?devs. ?A d) (\<Union>d \<in> set ?devs. ?T d) s0 s'"
    proof (rule scanned_each [where S = "seen s0"])
      fix d s1 assume "d \<in> set ?devs" and s1: "seen s0 \<subseteq> seen s1"
      then have "unat d < 32" using devs by blast
      show "\<exists>s'. scanDevice conf (scanBus n conf) b d s1 = Some s' \<and> scanned conf (?A d) (?T d) s1 s'"
        by (rule scanDevice_scanned [OF scan _ s1 \<open>unat d < 32\<close>]) (simp_all add: s0)
    qed (use distinct_small [of 32 0] in \<open>auto simp: Union_own functions_of_def s0\<close>)
    then obtain s' where s': "each (scanDevice conf (scanBus n conf) b) ?devs s0 = Some s'"
        "scanned conf (\<Union>d \<in> set ?devs. ?A d) (\<Union>d \<in> set ?devs. ?T d) s0 s'" by blast
    have "(\<Union>d \<in> set ?devs. ?A d) = {x. fn_present conf x \<and> fst x = b \<and> \<not> bridge conf x}"
      unfolding devs by (auto simp: Union_own functions_of_def fn_present_def)
    moreover have "(\<Union>d \<in> set ?devs. ?T d) = links conf `` {b}"
      unfolding devs by (fastforce simp: target_def functions_of_def fn_present_def links_def split: if_splits)
    ultimately have "scanned conf {} {b} s s'" using scanned_bus [OF _ s0 False] s'(2) by simp
    then show ?thesis using s'(1) b(1) False checked_seen [OF b(1), of s] by (simp add: s0_def)
  qed
qed simp

lemma card_low_buses: "card low_buses = 64"
proof -
  have "low_buses = of_nat ` {..<64}"
    using below_of_nat [of 64] by (simp add: low_buses_def)
  moreover have "inj_on (of_nat :: nat \<Rightarrow> u8) {..<64}" by (auto simp: inj_on_def word_of_nat_eq_iff take_bit_eq_mod)
  ultimately show ?thesis using card_image [of "of_nat :: nat \<Rightarrow> u8" "{..<64}"] by simp
qed

lemma closed_reachable: "r `` X \<subseteq> X \<Longrightarrow> Y \<subseteq> X \<Longrightarrow> r\<^sup>* `` Y \<subseteq> X"
proof -
  assume c: "r `` X \<subseteq> X" "Y \<subseteq> X"
  have "(a, b) \<in> r\<^sup>* \<Longrightarrow> a \<in> X \<Longrightarrow> b \<in> X" for a b by (induction rule: rtrancl_induct) (use c(1) in auto)
  then show ?thesis using c(2) by auto
qed

text \<open>
  C21: On a machine whose host controller has one function and whose bridges lead to buses
  below 64, the recursive scan ends, visits exactly the buses that are reachable from bus 0
  through bridges, and announces exactly the devices on them, each once and with its three
  paths and its configuration address.
\<close>

theorem pci_scan_complete:
  assumes "getHeaderType conf 0 0 0 AND 0x80 = 0" and low: "(links conf)\<^sup>* `` {0} \<subseteq> low_buses"
  shows "\<exists>s ds. pci_module 65 conf = Some s \<and> seen s = (links conf)\<^sup>* `` {0}
    \<and> distinct ds \<and> set ds = devices_on conf ((links conf)\<^sup>* `` {0})
    \<and> ioprovided s = concat (map (device_calls conf) ds)"
proof -
  let ?s0 = "\<lparr>checked = 0, ioprovided = []\<rparr>"
  have none: "seen ?s0 = {}" by (simp add: seen_def)
  obtain s where s: "scanBus 65 conf 0 ?s0 = Some s" "scanned conf {} {0} ?s0 s"
    using scanBus_scanned [OF low, of ?s0 65] by (auto simp: none card_low_buses simp del: scanBus.simps)
  have "seen s = (links conf)\<^sup>* `` {0}"
    using s(2) closed_reachable [of "links conf" "seen s" "{0}"] by (auto simp: scanned_def none)
  with s show ?thesis using assms(1) by (auto simp: scanned_def none pci_module_def scanAllBuses_def simp del: scanBus.simps)
qed

text \<open>The address tells the function: it can be read back from it.\<close>

definition address_function :: "u32 \<Rightarrow> u8 \<times> u8 \<times> u8" where
  "address_function a = (ucast (drop_bit 16 a), ucast (drop_bit 11 a) AND 31, ucast (drop_bit 8 a) AND 7)"

lemma not_bit_small: "unat (d :: u8) < 2 ^ k \<Longrightarrow> k \<le> n \<Longrightarrow> \<not> bit d n"
proof
  assume d: "unat d < 2 ^ k" "k \<le> n" "bit d n"
  then have "bit (unat d) n" by (simp add: bit_unsigned_iff)
  then have "2 ^ n \<le> unat d" using bit_nat_iff less_le_trans by (metis bit_iff_odd div_less even_zero not_le)
  moreover have "(2 :: nat) ^ k \<le> 2 ^ n" using d(2) by simp
  ultimately show False using d(1) by linarith
qed

lemma address_function_config:
  assumes "unat d < 32" and "unat f < 8"
  shows "address_function (config_address b d f) = (b, d, f)"
proof -
  have d: "\<not> bit d n" if "5 \<le> n" for n using not_bit_small [of d 5] assms(1) that by simp
  have f: "\<not> bit f n" if "3 \<le> n" for n using not_bit_small [of f 3] assms(2) that by simp
  have eight: "n < 8 \<longleftrightarrow> n \<in> {0, 1, 2, 3, 4, 5, 6, 7}" for n :: nat by auto
  have "ucast (drop_bit 16 (config_address b d f)) = b"
    by (rule bit_word_eqI) (auto simp: config_address_def bit_simps eight d f)
  moreover have "ucast (drop_bit 11 (config_address b d f)) AND 31 = d"
    by (rule bit_word_eqI) (auto simp: config_address_def bit_simps eight d f)
  moreover have "ucast (drop_bit 8 (config_address b d f)) AND 7 = f"
    by (rule bit_word_eqI) (auto simp: config_address_def bit_simps eight d f)
  ultimately show ?thesis by (simp add: address_function_def)
qed

lemma config_address_parts:
  "(config_address b d f OR (ucast (off :: u8) AND 0xFC)) AND 0xFC = ucast off AND 0xFC"
  "(config_address b d f OR (ucast (off :: u8) AND 0xFC)) AND NOT 0xFF = config_address b d f"
proof -
  have low: "\<not> bit (config_address b d f) n" if "n < 8" for n
  proof -
    have "n \<in> {0, 1, 2, 3, 4, 5, 6, 7}" using that by auto
    then show ?thesis by (auto simp: config_address_def bit_simps)
  qed
  have fc: "n < 8" if "bit (0xFC :: u32) n" for n
  proof -
    have "bit (ucast (0xFC :: u8) :: u32) n" using that by simp
    then show ?thesis using bit_imp_le_length [of "0xFC :: u8" n] by (simp only: bit_ucast_iff) simp
  qed
  show "(config_address b d f OR (ucast (off :: u8) AND 0xFC)) AND 0xFC = ucast off AND 0xFC"
    by (rule bit_word_eqI) (use low fc in \<open>auto simp: bit_simps\<close>)
  show "(config_address b d f OR (ucast (off :: u8) AND 0xFC)) AND NOT 0xFF = config_address b d f"
    by (rule bit_word_eqI) (use low fc in \<open>auto simp: bit_simps bit_255\<close>)
qed

definition demo_conf :: config where
  "demo_conf a =
     (let r = a AND 0xFC; x = a AND NOT 0xFF
      in if x = config_address 0 0 0 then (if r = 0 then 0x12378086 else if r = 8 then 0x06000002 else 0)
         else if x = config_address 0 1 0
         then (if r = 0 then 0x00011B36 else if r = 8 then 0x06040000 else if r = 0x18 then 0x00010100 else 0)
         else if x = config_address 1 2 0 then (if r = 0 then 0x100E8086 else if r = 8 then 0x02000003 else 0)
         else 0xFFFFFFFF)"

lemma offsets:
  "head_off ''vendor'' = 0" "head_off ''header_type'' = 14" "head_off ''subclass'' = 10" "head_off ''classcode'' = 11"
  "bridge_off ''sec_bus_num'' = 25"
  by (simp_all add: head_off_def bridge_off_def Device_head_def Device_pcibridge_def sizeof_def)

lemma demo_read:
  "readConfig32 demo_conf b d f off =
     (let r = ucast off AND 0xFC :: u32; x = config_address b d f
      in if x = config_address 0 0 0 then (if r = 0 then 0x12378086 else if r = 8 then 0x06000002 else 0)
         else if x = config_address 0 1 0
         then (if r = 0 then 0x00011B36 else if r = 8 then 0x06040000 else if r = 0x18 then 0x00010100 else 0)
         else if x = config_address 1 2 0 then (if r = 0 then 0x100E8086 else if r = 8 then 0x02000003 else 0)
         else 0xFFFFFFFF)"
  unfolding readConfig32_def demo_conf_def config_address_parts ..

lemma config_address_eq:
  assumes "unat d < 32" "unat f < 8" "unat d' < 32" "unat f' < 8"
  shows "config_address b d f = config_address b' d' f' \<longleftrightarrow> (b, d, f) = (b', d', f')"
proof
  assume eq: "config_address b d f = config_address b' d' f'"
  have "(b, d, f) = address_function (config_address b d f)" by (simp only: address_function_config [OF assms(1,2)])
  also have "\<dots> = (b', d', f')" unfolding eq by (rule address_function_config [OF assms(3,4)])
  finally show "(b, d, f) = (b', d', f')" .
qed simp

lemma demo_present: "fn_present demo_conf (b, d, f) \<longleftrightarrow> (b, d, f) \<in> {(0, 0, 0), (0, 1, 0), (1, 2, 0)}"
proof
  assume p: "fn_present demo_conf (b, d, f)"
  then have d: "unat d < 32" and v: "getVendorID demo_conf b d 0 \<noteq> 0xFFFF"
    and f: "f = 0 \<or> getHeaderType demo_conf b d 0 AND 0x80 \<noteq> 0" by (auto simp: fn_present_def)
  have "config_address b d 0 \<in> {config_address 0 0 0, config_address 0 1 0, config_address 1 2 0}"
    by (rule ccontr) (use v in \<open>simp add: getVendorID_def Device_read_def demo_read Let_def offsets\<close>)
  then have bd: "(b, d) \<in> {(0, 0), (0, 1), (1, 2)}" using d by (simp add: config_address_eq)
  then have "getHeaderType demo_conf b d 0 AND 0x80 = 0"
    by (auto simp: getHeaderType_def Device_read_def demo_read config_address_eq Let_def offsets)
  then show "(b, d, f) \<in> {(0, 0, 0), (0, 1, 0), (1, 2, 0)}" using bd f by auto
next
  assume "(b, d, f) \<in> {(0, 0, 0), (0, 1, 0), (1, 2, 0)}"
  then show "fn_present demo_conf (b, d, f)"
    by (auto simp: fn_present_def getVendorID_def Device_read_def demo_read config_address_eq Let_def offsets)
qed

lemma demo_bridge:
  "\<not> bridge demo_conf (0, 0, 0)" "bridge demo_conf (0, 1, 0)" "\<not> bridge demo_conf (1, 2, 0)" "secondary demo_conf (0, 1, 0) = 1"
  by (simp_all add: bridge_def secondary_def getBaseClass_def getSubClass_def getSecondaryBus_def Device_read_def demo_read
      config_address_eq Let_def offsets)

lemma demo_links: "links demo_conf = {(0, 1)}"
proof -
  have "(0, 1) \<in> links demo_conf"
    using demo_bridge(2,4) demo_present [of 0 1 0] unfolding links_def by force
  moreover have "links demo_conf \<subseteq> {(0, 1)}" using demo_bridge by (auto simp: links_def demo_present)
  ultimately show ?thesis by blast
qed

theorem pci_scan_complete_witness:
  "\<exists>s ds. pci_module 65 demo_conf = Some s \<and> seen s = {0, 1} \<and> distinct ds \<and> set ds = {(0, 0, 0), (1, 2, 0)}
     \<and> ioprovided s = concat (map (device_calls demo_conf) ds)"
proof -
  have h: "getHeaderType demo_conf 0 0 0 AND 0x80 = 0"
    by (simp add: getHeaderType_def Device_read_def demo_read Let_def offsets)
  have r: "(links demo_conf)\<^sup>* `` {0} = {0, 1}"
    using closed_reachable [of "links demo_conf" "{0, 1}" "{0}"] by (auto simp: demo_links)
  moreover have "devices_on demo_conf {0, 1} = {(0, 0, 0), (1, 2, 0)}"
    using demo_bridge by (auto simp: devices_on_def demo_present)
  ultimately show ?thesis using pci_scan_complete [OF h] by (auto simp: low_buses_def)
qed

text \<open>
  A host controller with several functions: the loop leaves at the first function that exists.
\<close>

text \<open>
  With a host controller that exists and has several functions the driver scans no bus and
  announces nothing.
\<close>

theorem pci_multifunction_host:
  assumes "getHeaderType conf 0 0 0 AND 0x80 \<noteq> 0" and "getVendorID conf 0 0 0 \<noteq> 0xFFFF"
  shows "pci_module n conf = Some \<lparr>checked = 0, ioprovided = []\<rparr>"
proof -
  have "map of_nat [0..<8] = (0 :: u8) # map of_nat [1..<8]" by (simp add: upt_rec)
  then show ?thesis using assms by (simp add: pci_module_def scanAllBuses_def)
qed

theorem pci_multifunction_host_witness: "pci_module 65 (\<lambda>_. 0x00800000) = Some \<lparr>checked = 0, ioprovided = []\<rparr>"
  by (rule pci_multifunction_host)
    (simp_all add: getHeaderType_def getVendorID_def Device_read_def readConfig32_def offsets)

text \<open>A bus number of 64 or more: the shift is undefined.\<close>

lemma scanBus_undefined: "64 \<le> unat b \<Longrightarrow> scanBus n conf b s = None"
  by (cases n) simp_all

text \<open>
  The sizes of the three variants of the header: the one of the CardBus bridge is an odd number of
  bytes, since \<^verbatim>\<open>bridgectl\<close> has one byte in it.
\<close>

lemma header_sizes:
  "sizeof (Device_head @ Device_device) = 64" "sizeof (Device_head @ Device_pcibridge) = 64"
  "sizeof (Device_head @ Device_cardbusbridge) = 71" "offsetof ''sub_device'' (Device_head @ Device_cardbusbridge) = Some 0x3F"
  by (simp_all add: sizeof_def Device_head_def Device_device_def Device_pcibridge_def Device_cardbusbridge_def)

section \<open>Numbers for the log\<close>

text \<open>
  \<^verbatim>\<open>putn\<close> of an unsigned type of \<open>w\<close> bytes, which both drivers contain: the buffer has \<open>4 * w\<close> characters;
  \<open>None\<close>: a store in front of it, or a division by zero. The result is the string given to \<^verbatim>\<open>puts\<close> and
  the number of its digits.
\<close>

function putn_loop :: "nat \<Rightarrow> u64 \<Rightarrow> u8 \<Rightarrow> nat \<Rightarrow> nat \<Rightarrow> string \<Rightarrow> (nat \<times> string) option" where
  "putn_loop sz len base off x buf =
     (if of_nat sz + 1 - len \<le> (of_nat off :: u64) \<or> 0 < x
      then if off = 0 \<or> base = 0 then None
      else let c = (of_nat (x mod unat base) :: u8)
           in putn_loop sz len base (off - 1) (x div unat base)
                (char_of (unat (if c < 10 then 48 + c else 87 + c)) # buf)
      else Some (off, buf))"
  by pat_completeness auto
termination by (relation "measure (\<lambda>(sz, len, base, off, x, buf). off)") auto

declare putn_loop.simps [simp del]

definition putn :: "nat \<Rightarrow> nat \<Rightarrow> u8 \<Rightarrow> u64 \<Rightarrow> (string \<times> nat) option" where
  "putn w x base len =
     (let sz = w * 4 - 1
      in map_option (\<lambda>(off, buf). (buf, sz - off)) (putn_loop sz len base sz x []))"

lemma putn_digit:
  assumes "d < 16"
  shows "char_of (unat (if (of_nat d :: u8) < 10 then 48 + of_nat d else 87 + of_nat d :: u8)) = digit_char False d"
proof -
  have "d = 0 \<or> d = 1 \<or> d = 2 \<or> d = 3 \<or> d = 4 \<or> d = 5 \<or> d = 6 \<or> d = 7 \<or> d = 8 \<or> d = 9
      \<or> d = 10 \<or> d = 11 \<or> d = 12 \<or> d = 13 \<or> d = 14 \<or> d = 15" using assms by presburger
  then show ?thesis by (elim disjE) (simp_all add: digit_char_def)
qed

lemma putn_loop_digits:
  assumes "2 \<le> unat base" and "unat base \<le> 16" and "off < sz" and "sz < 256"
  shows "length (digits_loop (unat base) False x []) \<le> off \<Longrightarrow>
    putn_loop sz 1 base off x buf
      = Some (off - length (digits_loop (unat base) False x []), digits_loop (unat base) False x [] @ buf)"
  using assms(3)
proof (induction x arbitrary: off buf rule: less_induct)
  case (less x)
  have "\<not> of_nat sz \<le> (of_nat off :: u64)"
    using less.prems(2) assms(4) by (simp add: word_le_nat_alt unat_of_nat)
  then have cond: "of_nat sz + 1 - 1 \<le> (of_nat off :: u64) \<or> 0 < x \<longleftrightarrow> 0 < x" by simp
  show ?case
  proof (cases "x = 0")
    case True
    then show ?thesis using cond by (subst putn_loop.simps) (simp add: digits_loop.simps)
  next
    case False
    let ?ds = "digits_loop (unat base) False (x div unat base) []" and ?d = "x mod unat base"
    have ds: "digits_loop (unat base) False x [] = ?ds @ [digit_char False ?d]"
      using digits_loop_snoc [of x "unat base" False] False assms(1) by simp
    have "?d < 16" using mod_base_16 [OF assms(1,2)] .
    have "base \<noteq> 0" using assms(1) by auto
    have "x div unat base < x" "length ?ds \<le> off - 1" "off - 1 < sz"
      using False assms(1) less.prems by (simp_all add: ds)
    from less.IH [OF this, of "digit_char False ?d # buf"]
    show ?thesis
      using cond False less.prems(1) \<open>base \<noteq> 0\<close>
      by (subst putn_loop.simps) (simp only: putn_digit [OF \<open>?d < 16\<close>] Let_def ds, simp)
  qed
qed

lemma putn_text:
  assumes "2 \<le> unat base" and "unat base \<le> 16" and "x < unat base ^ (w * 4 - 1)" and "0 < w" and "w \<le> 8"
  shows "putn w x base 1 = Some (numeral_in (unat base) x, length (numeral_in (unat base) x))"
proof -
  let ?sz = "w * 4 - 1" and ?ds = "digits_loop (unat base) False (x div unat base) []"
  have d: "x mod unat base < 16" using mod_base_16 [OF assms(1,2)] .
  have ne: "base \<noteq> 0" "?sz \<noteq> 0" using assms(1,4) by auto
  have "x div unat base < unat base ^ (?sz - 1)"
  proof -
    have "Suc (?sz - 1) = ?sz" using ne(2) by (simp only: Suc_pred neq0_conv)
    then have "x < unat base ^ (?sz - 1) * unat base" using assms(3) by (metis power_Suc2)
    then show ?thesis using assms(1) by (simp add: div_less_iff_less_mult)
  qed
  then have len: "length ?ds \<le> ?sz - 1" by (rule digits_loop_length [OF assms(1)])
  have all: "numeral_in (unat base) x = ?ds @ [digit_char False (x mod unat base)]"
    using digits_loop_snoc [of x "unat base" False] assms(1)
    by (auto simp: numeral_in_def digits_loop.simps digit_char_def char_of_def bit_0)
  have "putn_loop ?sz 1 base ?sz x [] = putn_loop ?sz 1 base (?sz - 1) (x div unat base) [digit_char False (x mod unat base)]"
    using ne by (subst putn_loop.simps) (simp only: putn_digit [OF d] Let_def, simp)
  also have "\<dots> = Some (?sz - 1 - length ?ds, ?ds @ [digit_char False (x mod unat base)])"
    by (rule putn_loop_digits) (use assms len ne in auto)
  finally show ?thesis using len ne(2) by (simp add: putn_def all Let_def)
qed

lemma putn_binary_overflows: "putn 1 8 2 1 = None"
  by (simp add: putn_def putn_loop.simps)

end
