(* ===== verification/Layout.thy ===== *)
theory Layout
  imports Prelude
begin

unbundle bit_operations_syntax

text \<open>
  How the compiler lays out the structures that the sources share with firmware, boot loaders, ELF
  files and the processor: the rules of the System V and Itanium ABI for x86-64 that the sources rely
  on, bit-fields and \<^verbatim>\<open>__attribute__((packed))\<close> included, and the numbering of enumerations. The theory
  gives the rules and proves them sound (members do not overlap, stay inside the structure and are
  aligned); the structures and enumerations themselves are in the theories of their components.
\<close>

section \<open>Types and their layout\<close>

text \<open>
  A scalar has its size as alignment; a bit-field has the size of its declared type and its width;
  the flag of a structure is its packed attribute; a base class is the first member; a member without
  a name is an anonymous structure or union. A flexible array member is an array of length zero.
\<close>

datatype cty =
    Scalar nat
  | Bits nat nat
  | Array nat cty
  | Struct bool "(string \<times> cty) list"
  | CUnion "(string \<times> cty) list"

abbreviation uint8_t :: cty where "uint8_t \<equiv> Scalar 1"
abbreviation uint16_t :: cty where "uint16_t \<equiv> Scalar 2"
abbreviation uint32_t :: cty where "uint32_t \<equiv> Scalar 4"
abbreviation uint64_t :: cty where "uint64_t \<equiv> Scalar 8"
abbreviation pointer :: cty where "pointer \<equiv> Scalar 8"

text \<open>Size and alignment in bytes, or the unit in bytes and the width in bits.\<close>

datatype shape = Plain nat nat | Bitfield nat nat

text \<open>Members by their dotted names: offset from the start of the object and size, both in bits.\<close>

type_synonym places = "(string \<times> nat \<times> nat) list"

fun bits :: "shape \<Rightarrow> nat" where
  "bits (Plain n a) = 8 * n"
| "bits (Bitfield n w) = w"

fun alignment :: "shape \<Rightarrow> nat" where
  "alignment (Plain n a) = a"
| "alignment (Bitfield n w) = n"

definition round_up :: "nat \<Rightarrow> nat \<Rightarrow> nat" where
  "round_up a n = (n + a - 1) div a * a"

text \<open>
  Where the next member goes when the members before it end at bit \<open>pos\<close>: a member that is not a
  bit-field at its alignment, or at the next byte of a packed structure; a bit-field at the next bit,
  unless it would cross a boundary of its declared type in a structure that is not packed.
\<close>

fun place_member :: "bool \<Rightarrow> nat \<Rightarrow> shape \<Rightarrow> nat" where
  "place_member packed pos (Plain n a) = round_up (8 * (if packed then 1 else a)) pos"
| "place_member packed pos (Bitfield n w) =
     (if packed \<or> pos mod (8 * n) + w \<le> 8 * n then pos else round_up (8 * n) pos)"

fun place_all :: "bool \<Rightarrow> nat \<Rightarrow> shape list \<Rightarrow> nat list" where
  "place_all packed pos [] = []"
| "place_all packed pos (s # ss) = place_member packed pos s # place_all packed (place_member packed pos s + bits s) ss"

fun end_of :: "bool \<Rightarrow> nat \<Rightarrow> shape list \<Rightarrow> nat" where
  "end_of packed pos [] = pos"
| "end_of packed pos (s # ss) = end_of packed (place_member packed pos s + bits s) ss"

definition struct_alignment :: "bool \<Rightarrow> shape list \<Rightarrow> nat" where
  "struct_alignment packed ss = (if packed then 1 else fold max (map alignment ss) 1)"

definition struct_shape :: "bool \<Rightarrow> shape list \<Rightarrow> shape" where
  "struct_shape packed ss =
     (let a = struct_alignment packed ss in Plain (round_up (8 * a) (end_of packed 0 ss) div 8) a)"

definition union_shape :: "shape list \<Rightarrow> shape" where
  "union_shape ss =
     (let a = struct_alignment False ss in Plain (round_up (8 * a) (fold max (map bits ss) 0) div 8) a)"

definition dotted :: "string \<Rightarrow> string \<Rightarrow> string" where
  "dotted x y = (if x = [] then y else x @ ''.'' @ y)"

definition member_places :: "string \<times> (shape \<times> places) \<Rightarrow> nat \<Rightarrow> places" where
  "member_places m pos =
     (case m of (x, s, inner) \<Rightarrow>
        (if x = [] then [] else [(x, pos, bits s)]) @ map (\<lambda>(y, q, w). (dotted x y, pos + q, w)) inner)"

primrec layout :: "cty \<Rightarrow> shape \<times> places" where
  "layout (Scalar n) = (Plain n n, [])"
| "layout (Bits n w) = (Bitfield n w, [])"
| "layout (Array n t) =
     (case layout t of (s, inner) \<Rightarrow> (Plain (n * (bits s div 8)) (alignment s), []))"
| "layout (Struct packed ms) =
     (let ls = map (map_prod id layout) ms; ss = map (fst \<circ> snd) ls
      in (struct_shape packed ss, concat (map2 member_places ls (place_all packed 0 ss))))"
| "layout (CUnion ms) =
     (let ls = map (map_prod id layout) ms
      in (union_shape (map (fst \<circ> snd) ls), concat (map (\<lambda>l. member_places l 0) ls)))"

definition sizeof :: "cty \<Rightarrow> nat" where
  "sizeof t = bits (fst (layout t)) div 8"

definition bit_offset :: "cty \<Rightarrow> string \<Rightarrow> nat" where
  "bit_offset t f = fst (the (map_of (snd (layout t)) f))"

definition bit_size :: "cty \<Rightarrow> string \<Rightarrow> nat" where
  "bit_size t f = snd (the (map_of (snd (layout t)) f))"

definition field_off :: "string \<Rightarrow> cty \<Rightarrow> nat" where
  "field_off f t = bit_offset t f div 8"

text \<open>The members of a structure with their offsets in bytes.\<close>

definition offsets :: "cty \<Rightarrow> (string \<times> nat) list" where
  "offsets t = map (\<lambda>(f, b, w). (f, b div 8)) (snd (layout t))"

section \<open>Members of a structure in memory\<close>

definition struct_size :: "cty \<Rightarrow> u64" where
  "struct_size t = of_nat (sizeof t)"

definition field16 :: "mem \<Rightarrow> u64 \<Rightarrow> cty \<Rightarrow> string \<Rightarrow> u16" where
  "field16 m p t f = read16 m (p + of_nat (field_off f t))"

definition field32 :: "mem \<Rightarrow> u64 \<Rightarrow> cty \<Rightarrow> string \<Rightarrow> u32" where
  "field32 m p t f = read32 m (p + of_nat (field_off f t))"

definition field64 :: "mem \<Rightarrow> u64 \<Rightarrow> cty \<Rightarrow> string \<Rightarrow> u64" where
  "field64 m p t f = read64 m (p + of_nat (field_off f t))"

text \<open>A member of a structure that is given as its bytes.\<close>

definition member :: "cty \<Rightarrow> string \<Rightarrow> u8 list \<Rightarrow> u64" where
  "member t f bs = take_bit (bit_size t f) (drop_bit (bit_offset t f mod 8) (un_le (take 8 (drop (field_off f t) bs))))"

text \<open>A bit-field of a 64-bit type: the bits of the word of memory it lies in.\<close>

definition bitfield64 :: "mem \<Rightarrow> u64 \<Rightarrow> cty \<Rightarrow> string \<Rightarrow> nat \<Rightarrow> u64" where
  "bitfield64 m p t f w =
     (let b = bit_offset t f in take_bit w (drop_bit (b mod 64) (read64 m (p + of_nat (8 * (b div 64))))))"

definition put_field32 :: "u64 \<Rightarrow> cty \<Rightarrow> string \<Rightarrow> u32 \<Rightarrow> mem \<Rightarrow> mem" where
  "put_field32 p t f v m =
     (let a = p + of_nat (field_off f t)
      in m(a := ucast v, a + 1 := ucast (drop_bit 8 v), a + 2 := ucast (drop_bit 16 v), a + 3 := ucast (drop_bit 24 v)))"

section \<open>Enumerations\<close>

text \<open>
  The constant expressions that give the value of an enumerator, over the enumerators before it. An
  enumerator without an expression is one more than the one before it, and the first is zero.
\<close>

datatype cexp = Num int | Ref string | Or cexp cexp | Shl cexp cexp

fun cvalue :: "(string \<times> int) list \<Rightarrow> cexp \<Rightarrow> int" where
  "cvalue env (Num n) = n"
| "cvalue env (Ref x) = the (map_of env x)"
| "cvalue env (Or a b) = cvalue env a OR cvalue env b"
| "cvalue env (Shl a b) = push_bit (nat (cvalue env b)) (cvalue env a)"

fun enum_from :: "(string \<times> int) list \<Rightarrow> int \<Rightarrow> (string \<times> cexp option) list \<Rightarrow> (string \<times> int) list" where
  "enum_from env n [] = env"
| "enum_from env n ((x, e) # es) =
     (let v = (case e of None \<Rightarrow> n | Some e \<Rightarrow> cvalue env e) in enum_from (env @ [(x, v)]) (v + 1) es)"

definition enum_values :: "(string \<times> cexp option) list \<Rightarrow> (string \<times> int) list" where
  "enum_values es = enum_from [] 0 es"

definition enumerator :: "(string \<times> cexp option) list \<Rightarrow> string \<Rightarrow> int" where
  "enumerator es x = the (map_of (enum_values es) x)"

section \<open>The rules are sound\<close>

text \<open>Sizes of scalars and of the units of bit-fields are those of the processor.\<close>

definition unit_sizes :: "nat set" where
  "unit_sizes = {1, 2, 4, 8}"

primrec wf_cty :: "cty \<Rightarrow> bool" where
  "wf_cty (Scalar n) \<longleftrightarrow> n \<in> unit_sizes"
| "wf_cty (Bits n w) \<longleftrightarrow> n \<in> unit_sizes \<and> 0 < w \<and> w \<le> 8 * n"
| "wf_cty (Array n t) \<longleftrightarrow> wf_cty t"
| "wf_cty (Struct packed ms) \<longleftrightarrow> list_all snd (map (map_prod id wf_cty) ms)"
| "wf_cty (CUnion ms) \<longleftrightarrow> list_all snd (map (map_prod id wf_cty) ms)"

fun wf_shape :: "shape \<Rightarrow> bool" where
  "wf_shape (Plain n a) \<longleftrightarrow> a \<in> unit_sizes"
| "wf_shape (Bitfield n w) \<longleftrightarrow> n \<in> unit_sizes \<and> 0 < w \<and> w \<le> 8 * n"

lemma round_up_ge: "0 < a \<Longrightarrow> n \<le> round_up a n"
proof -
  assume a: "0 < a"
  have "n + a - 1 < round_up a n + a"
    using a dividend_less_times_div [of a "n + a - 1"] by (simp add: round_up_def ac_simps)
  then show ?thesis using a by simp
qed

lemma round_up_dvd [simp]: "a dvd round_up a n"
  by (simp add: round_up_def)

lemma unit_sizes_pos: "a \<in> unit_sizes \<Longrightarrow> 0 < a"
  by (auto simp: unit_sizes_def)

lemma unit_sizes_dvd: "a \<in> unit_sizes \<Longrightarrow> b \<in> unit_sizes \<Longrightarrow> a \<le> b \<Longrightarrow> a dvd b"
  by (auto simp: unit_sizes_def)

lemma place_ge: "wf_shape s \<Longrightarrow> pos \<le> place_member packed pos s"
  by (cases s) (auto intro!: round_up_ge simp: unit_sizes_pos)

lemma length_place_all [simp]: "length (place_all packed pos ss) = length ss"
  by (induction ss arbitrary: pos) auto

lemma end_of_ge: "list_all wf_shape ss \<Longrightarrow> pos \<le> end_of packed pos ss"
proof (induction ss arbitrary: pos)
  case (Cons s ss)
  then have "pos \<le> place_member packed pos s + bits s" using place_ge [of s pos packed] by simp
  also have "\<dots> \<le> end_of packed \<dots> ss" using Cons by simp
  finally show ?case by simp
qed simp

lemma place_all_ge: "list_all wf_shape ss \<Longrightarrow> i < length ss \<Longrightarrow> pos \<le> place_all packed pos ss ! i"
proof (induction ss arbitrary: pos i)
  case (Cons s ss)
  have here: "pos \<le> place_member packed pos s" using Cons.prems by (simp add: place_ge)
  show ?case
  proof (cases i)
    case (Suc k)
    then have "place_member packed pos s + bits s \<le> place_all packed (place_member packed pos s + bits s) ss ! k"
      using Cons by simp
    then show ?thesis using here Suc by simp
  qed (use here in simp)
qed simp

lemma place_all_end:
  "list_all wf_shape ss \<Longrightarrow> i < length ss \<Longrightarrow> place_all packed pos ss ! i + bits (ss ! i) \<le> end_of packed pos ss"
proof (induction ss arbitrary: pos i)
  case (Cons s ss)
  then show ?case by (cases i) (simp_all add: end_of_ge)
qed simp

lemma place_all_apart:
  "list_all wf_shape ss \<Longrightarrow> i < j \<Longrightarrow> j < length ss
   \<Longrightarrow> place_all packed pos ss ! i + bits (ss ! i) \<le> place_all packed pos ss ! j"
proof (induction ss arbitrary: pos i j)
  case (Cons s ss)
  then obtain k where "j = Suc k" by (cases j) auto
  then show ?case using Cons by (cases i) (simp_all add: place_all_ge)
qed simp

fun well_placed :: "shape \<Rightarrow> nat \<Rightarrow> bool" where
  "well_placed (Plain n a) pos \<longleftrightarrow> 8 * a dvd pos"
| "well_placed (Bitfield n w) pos \<longleftrightarrow> pos mod (8 * n) + w \<le> 8 * n"

lemma place_well_placed: "wf_shape s \<Longrightarrow> well_placed s (place_member False pos s)"
  by (cases s) (auto simp: mod_eq_0_iff_dvd [THEN iffD2])

lemma place_all_well_placed:
  "list_all wf_shape ss \<Longrightarrow> i < length ss \<Longrightarrow> well_placed (ss ! i) (place_all False pos ss ! i)"
proof (induction ss arbitrary: pos i)
  case (Cons s ss)
  then show ?case by (cases i) (simp_all add: place_well_placed)
qed simp

lemma alignment_unit: "wf_shape s \<Longrightarrow> alignment s \<in> unit_sizes"
  by (cases s) auto

lemma fold_max_unit:
  "list_all wf_shape ss \<Longrightarrow> a \<in> unit_sizes
   \<Longrightarrow> fold max (map alignment ss) a \<in> unit_sizes \<and> a \<le> fold max (map alignment ss) a
       \<and> (\<forall>s \<in> set ss. alignment s \<le> fold max (map alignment ss) a)"
proof (induction ss arbitrary: a)
  case (Cons s ss)
  have m: "max (alignment s) a \<in> unit_sizes" using Cons.prems by (simp add: max_def alignment_unit)
  show ?case using Cons.IH [OF _ m] Cons.prems by (auto intro: order_trans)
qed simp

lemma struct_alignment_unit:
  assumes "list_all wf_shape ss"
  shows "struct_alignment packed ss \<in> unit_sizes"
    and "s \<in> set ss \<Longrightarrow> \<not> packed \<Longrightarrow> alignment s dvd struct_alignment packed ss"
proof -
  have one: "(1::nat) \<in> unit_sizes" by (simp add: unit_sizes_def)
  note f = fold_max_unit [OF assms one]
  show "struct_alignment packed ss \<in> unit_sizes" using f one by (simp add: struct_alignment_def)
  assume s: "s \<in> set ss" "\<not> packed"
  then have "wf_shape s" using assms by (simp add: list_all_iff)
  then show "alignment s dvd struct_alignment packed ss"
    using f s by (simp add: struct_alignment_def unit_sizes_dvd alignment_unit)
qed

lemma eight_dvd_round_up [simp]: "8 * (round_up (8 * a) n div 8) = round_up (8 * a) n"
  by (simp add: round_up_def)

lemma struct_shape_covers:
  assumes "list_all wf_shape ss"
  shows "end_of packed 0 ss \<le> bits (struct_shape packed ss)"
    and "8 * alignment (struct_shape packed ss) dvd bits (struct_shape packed ss)"
  using unit_sizes_pos [OF struct_alignment_unit(1) [OF assms, of packed]]
  by (simp_all add: struct_shape_def Let_def round_up_ge)

lemma layout_wf: "wf_cty t \<Longrightarrow> wf_shape (fst (layout t))"
proof (induction t)
  case (Array n t)
  then show ?case by (auto simp: case_prod_unfold alignment_unit)
next
  case (Struct packed ms)
  then have "list_all wf_shape (map (fst \<circ> snd) (map (map_prod id layout) ms))"
    by (auto simp: list_all_iff snds.simps)
  then show ?case by (simp add: Let_def struct_shape_def struct_alignment_unit)
next
  case (CUnion ms)
  then have "list_all wf_shape (map (fst \<circ> snd) (map (map_prod id layout) ms))"
    by (auto simp: list_all_iff snds.simps)
  then show ?case by (simp add: Let_def union_shape_def struct_alignment_unit)
qed simp_all

definition member_shapes :: "(string \<times> cty) list \<Rightarrow> shape list" where
  "member_shapes ms = map (\<lambda>m. fst (layout (snd m))) ms"

lemma member_shapes_wf: "wf_cty (Struct packed ms) \<Longrightarrow> list_all wf_shape (member_shapes ms)"
  by (auto simp: member_shapes_def list_all_iff layout_wf)

text \<open>
  Every member lies inside its structure, members do not overlap and keep the order of their
  declarations, and the size is a multiple of the alignment. If the structure is not packed, members
  are aligned, bit-fields do not cross a boundary of their type, and the alignment of every member
  divides the alignment of the structure.
\<close>

theorem struct_layout_sound:
  assumes "wf_cty (Struct packed ms)"
  defines "ss \<equiv> member_shapes ms" and "ps \<equiv> place_all packed 0 (member_shapes ms)"
    and "whole \<equiv> fst (layout (Struct packed ms))"
  shows "(\<forall>i < length ss. ps ! i + bits (ss ! i) \<le> bits whole
             \<and> (\<not> packed \<longrightarrow> well_placed (ss ! i) (ps ! i) \<and> alignment (ss ! i) dvd alignment whole))
    \<and> (\<forall>i j. i < j \<and> j < length ss \<longrightarrow> ps ! i + bits (ss ! i) \<le> ps ! j)
    \<and> 8 * alignment whole dvd bits whole"
proof -
  have wf: "list_all wf_shape ss" using member_shapes_wf assms(1) by (simp add: ss_def)
  have "map (fst \<circ> snd) (map (map_prod id layout) ms) = ss" by (auto simp: ss_def member_shapes_def)
  then have whole: "whole = struct_shape packed ss" by (simp add: whole_def Let_def)
  have inside: "ps ! i + bits (ss ! i) \<le> bits whole" if "i < length ss" for i
    using place_all_end [OF wf that, of packed 0] struct_shape_covers(1) [OF wf, of packed] whole
    by (simp add: ps_def ss_def)
  have placed: "well_placed (ss ! i) (ps ! i) \<and> alignment (ss ! i) dvd alignment whole" if "i < length ss" "\<not> packed" for i
    using place_all_well_placed [OF wf that(1), of 0] struct_alignment_unit(2) [OF wf, of "ss ! i" packed] that whole
    by (simp add: ps_def ss_def struct_shape_def Let_def)
  have apart: "ps ! i + bits (ss ! i) \<le> ps ! j" if "i < j" "j < length ss" for i j
    using place_all_apart [OF wf that] by (simp add: ps_def ss_def)
  show ?thesis using inside placed apart struct_shape_covers(2) [OF wf, of packed] whole by blast
qed

text \<open>A structure with a bit-field that would cross a boundary of its type.\<close>

definition demo_struct :: "(string \<times> cty) list" where
  "demo_struct = [(''signature'', uint32_t), (''version'', uint16_t), (''vendor'', Bits 8 32), (''memory'', uint16_t)]"

theorem struct_layout_sound_witness:
  "wf_cty (Struct False demo_struct) \<and> place_all False 0 (member_shapes demo_struct) = [0, 32, 64, 96]
   \<and> 96 + bits (member_shapes demo_struct ! 3) \<le> bits (fst (layout (Struct False demo_struct)))"
proof -
  have wf: "wf_cty (Struct False demo_struct)" by (simp add: demo_struct_def unit_sizes_def)
  have ps: "place_all False 0 (member_shapes demo_struct) = [0, 32, 64, 96]"
    by (simp add: demo_struct_def member_shapes_def round_up_def)
  have "length (member_shapes demo_struct) = 4" by (simp add: demo_struct_def member_shapes_def)
  then show ?thesis using struct_layout_sound [OF wf] wf ps by (auto dest: spec [of _ 3])
qed

section \<open>Loads are little-endian numbers\<close>

lemma un_le_eq_iff: "length bs = n \<Longrightarrow> n \<le> 8 \<Longrightarrow> un_le bs = v \<longleftrightarrow> bs = le n v \<and> take_bit (8 * n) v = v"
  by (metis le_un_le un_le_le)

lemma take_un_le: "take_bit (8 * length bs) (un_le bs) = un_le bs"
  by (rule bit_word_eqI) (auto simp: bit_simps dest: un_le_bit)

lemma bit_u8: "bit (b :: u8) n \<Longrightarrow> n < 8"
  using bit_imp_le_length [of b n] by simp

lemma take_bit_un_le: "take_bit (8 * n) (un_le bs) = un_le (take n bs)"
proof (induction bs arbitrary: n)
  case (Cons b bs)
  show ?case
  proof (cases n)
    case (Suc k)
    have "take_bit (8 + 8 * k) (ucast b :: u64) = ucast b"
      by (rule bit_word_eqI) (auto simp: bit_simps dest: bit_u8)
    then show ?thesis using Cons [of k] Suc by (simp add: take_bit_push_bit)
  qed simp
qed simp

lemma drop_un_le: "length bs \<le> 7 \<Longrightarrow> drop_bit 8 (un_le (b # bs)) = un_le bs"
  by (rule bit_word_eqI) (auto simp: bit_simps dest: un_le_bit)

lemma un_le_append: "un_le (xs @ ys) = un_le xs OR push_bit (8 * length xs) (un_le ys)"
  by (induction xs) (simp_all add: push_bit_or push_bit_push_bit or.assoc)

lemma ucast_read16: "ucast (read16 m a) = un_le [m a, m (a + 1)]"
  by (rule bit_word_eqI) (auto simp: read16_def bit_simps dest: bit_u8)

lemma ucast_read32: "ucast (read32 m a) = un_le [m a, m (a + 1), m (a + 2), m (a + 3)]"
  by (rule bit_word_eqI) (auto simp: read32_def le32_def bit_simps dest: bit_u8)

lemma read64_un_le:
  "read64 m a = un_le [m a, m (a + 1), m (a + 2), m (a + 3), m (a + 4), m (a + 5), m (a + 6), m (a + 7)]"
  unfolding read64_def ucast_read32
  using un_le_append [of "[m a, m (a + 1), m (a + 2), m (a + 3)]" "[m (a + 4), m (a + 5), m (a + 6), m (a + 7)]"]
  by (simp add: add.assoc del: un_le.simps)

lemma holds_map: "holds m a bs \<longleftrightarrow> map (\<lambda>i. m (a + of_nat i)) [0..<length bs] = bs"
proof -
  have "map (\<lambda>i. m (a + of_nat i)) [0..<length bs] = bs \<longleftrightarrow> (\<forall>i < length bs. map (\<lambda>i. m (a + of_nat i)) [0..<length bs] ! i = bs ! i)"
    using nth_equalityI [of "map (\<lambda>i. m (a + of_nat i)) [0..<length bs]" bs] by fastforce
  then show ?thesis by (simp add: holds_def)
qed

lemma ucast_u64_back: "ucast (ucast (x :: u16) :: u64) = x" "ucast (ucast (z :: u32) :: u64) = z"
  by (rule bit_word_eqI, auto simp: bit_simps)+

lemma ucast_u64_eq:
  "(ucast (x :: u16) :: u64) = ucast y \<longleftrightarrow> x = y" "(ucast (z :: u32) :: u64) = ucast w \<longleftrightarrow> z = w"
  by (metis ucast_u64_back(1)) (metis ucast_u64_back(2))

lemma take_ucast_u64: "take_bit 16 (ucast (x :: u16) :: u64) = ucast x" "take_bit 32 (ucast (z :: u32) :: u64) = ucast z"
  by (rule bit_word_eqI, auto simp: bit_simps dest: bit_imp_le_length)+

lemma read16_eq_iff: "read16 m a = w \<longleftrightarrow> holds m a (le 2 (ucast w))"
  unfolding ucast_u64_eq [symmetric] ucast_read16
  by (simp add: un_le_eq_iff [where n = 2] take_ucast_u64 holds_map upt_rec del: un_le.simps)

lemma read32_eq_iff: "read32 m a = w \<longleftrightarrow> holds m a (le 4 (ucast w))"
  unfolding ucast_u64_eq [symmetric] ucast_read32
  by (simp add: un_le_eq_iff [where n = 4] take_ucast_u64 holds_map upt_rec del: un_le.simps)

lemma member_fld:
  assumes "bit_offset t f = 8 * k" and "bit_size t f = 8 * n" and "n \<le> 8"
  shows "member t f bs = fld k n bs"
  using assms by (simp add: member_def field_off_def fld_def take_bit_un_le min_def)

lemma member_high_nibble:
  assumes "bit_offset t f = 8 * k + 4" and "bit_size t f = 4"
  shows "member t f bs = drop_bit 4 (fld k 1 bs)"
proof -
  have "(8 * k + 4) div 8 = k" "(8 * k + 4) mod 8 = 4" by auto
  moreover have "take_bit 4 (drop_bit 4 w) = drop_bit 4 (take_bit (8 * 1) w)" for w :: u64
    by (rule bit_word_eqI) (auto simp: bit_simps)
  ultimately show ?thesis using assms by (simp only: member_def field_off_def fld_def take_bit_un_le take_take) simp
qed

section \<open>Evaluating layouts\<close>

lemma dotted_simps: "dotted [] y = y" "dotted (c # x) y = c # x @ CHR ''.'' # y"
  by (simp_all add: dotted_def)

lemmas layout_simps =
  offsets_def field_off_def bit_offset_def bit_size_def sizeof_def struct_shape_def union_shape_def struct_alignment_def round_up_def
  member_places_def dotted_simps Let_def

end
