(* ===== verification/Elfdefs.thy ===== *)
theory Elfdefs
  imports Readelf Layout
begin

text \<open>
  \<^verbatim>\<open>src/readelf/readelf_internal.hpp\<close>: the structures and enumerations of ELF files as the sources declare
  them, laid out by the rules of the compiler. The theorem shows that the records with which the model
  of the loader reads and writes an image are these structures.
\<close>

section \<open>Enumerations\<close>

definition CLASS_enum :: "(string \<times> cexp option) list" where
  "CLASS_enum =
     [(''EC_NONE'', Some (Num 0)), (''EC_32'', Some (Num 1)), (''EC_64'', Some (Num 2))]"

definition DATA_enum :: "(string \<times> cexp option) list" where
  "DATA_enum =
     [(''ED_NONE'', Some (Num 0)), (''ED_2LSB'', Some (Num 1)), (''ED_2MSB'', Some (Num 2))]"

definition FILE_VERSION_enum :: "(string \<times> cexp option) list" where
  "FILE_VERSION_enum =
     [(''EVF_NONE'', Some (Num 0)), (''EVF_CURRENT'', Some (Num 1))]"

definition TYPE_enum :: "(string \<times> cexp option) list" where
  "TYPE_enum =
     [(''ET_NONE'', Some (Num 0)), (''ET_REL'', Some (Num 1)), (''ET_EXEC'', Some (Num 2)),
      (''ET_DYN'', Some (Num 3)), (''ET_CORE'', Some (Num 4))]"

definition MACHINE_enum :: "(string \<times> cexp option) list" where
  "MACHINE_enum =
     [(''EM_NONE'', Some (Num 0)), (''EM_386'', Some (Num 3)), (''EM_AMD64'', Some (Num 62))]"

definition VERSION_enum :: "(string \<times> cexp option) list" where
  "VERSION_enum =
     [(''EV_NONE'', Some (Num 0)), (''EV_CURRENT'', Some (Num 1))]"

definition PROG_TYPE_enum :: "(string \<times> cexp option) list" where
  "PROG_TYPE_enum =
     [(''PT_NULL'', None), (''PT_LOAD'', None), (''PT_DYNAMIC'', None), (''PT_INTERP'', None),
      (''PT_NOTE'', None), (''PT_SHLIB'', None), (''PT_PHDR'', None), (''PT_TLS'', None),
      (''PT_LOOS'', Some (Num 0x60000000)), (''PT_HIOS'', Some (Num 0x6FFFFFFF)),
      (''PT_LOPROC'', Some (Num 0x70000000)), (''PT_HIPROC'', Some (Num 0x7FFFFFFF))]"

definition PROG_FLAGS_enum :: "(string \<times> cexp option) list" where
  "PROG_FLAGS_enum =
     [(''PF_X'', Some (Num 1)), (''PF_W'', Some (Num 2)), (''PF_R'', Some (Num 4))]"

definition SECT_TYPE_enum :: "(string \<times> cexp option) list" where
  "SECT_TYPE_enum =
     [(''SHT_NULL'', None), (''SHT_PROGBITS'', None), (''SHT_SYMTAB'', None), (''SHT_STRTAB'', None),
      (''SHT_RELA'', None), (''SHT_HASH'', None), (''SHT_DYNAMIC'', None), (''SHT_NOTE'', None),
      (''SHT_NOBITS'', None), (''SHT_REL'', None), (''SHT_SHLIB'', None), (''SHT_DYNSYM'', None)]"

definition SECT_FLAGS_enum :: "(string \<times> cexp option) list" where
  "SECT_FLAGS_enum =
     [(''SHF_WRITE'', Some (Num 1)), (''SHF_ALLOC'', Some (Num 2)), (''SHF_EXECINSTR'', Some (Num 4))]"

definition DYN_TAG_enum :: "(string \<times> cexp option) list" where
  "DYN_TAG_enum =
     [(''DT_NULL'', None), (''DT_NEEDED'', None), (''DT_PLTRELSZ'', None), (''DT_PLTGOT'', None),
      (''DT_HASH'', None), (''DT_STRTAB'', None), (''DT_SYMTAB'', None), (''DT_RELA'', None),
      (''DT_RELASZ'', None), (''DT_RELAENT'', None), (''DT_STRSZ'', None), (''DT_SYMENT'', None),
      (''DT_INIT'', None), (''DT_FINI'', None), (''DT_SONAME'', None), (''DT_RPATH'', None),
      (''DT_SYMBOLIC'', None), (''DT_REL'', None), (''DT_RELSZ'', None), (''DT_RELENT'', None),
      (''DT_PLTREL'', None), (''DT_DEBUG'', None), (''DT_TEXTREL'', None), (''DT_JMPREL'', None),
      (''DT_BIND_NOW'', None), (''DT_INIT_ARRAY'', None), (''DT_FINI_ARRAY'', None),
      (''DT_INIT_ARRAYSZ'', None), (''DT_FINI_ARRAYSZ'', None), (''DT_RUNPATH'', None),
      (''DT_FLAGS'', None), (''DT_ENCODING'', None), (''DT_PREINIT_ARRAY'', None),
      (''DT_PREINIT_ARRAYSZ'', None), (''DT_MAXPOSTAGS'', None), (''DT_LOOS'', Some (Num 0x60000000)),
      (''DT_GNU_HASH'', Some (Num 0x6FFFFEF5)), (''DT_HIOS'', Some (Num 0x6FFFFFFF)),
      (''DT_LOPROC'', Some (Num 0x70000000)), (''DT_HIPROC'', Some (Num 0x7FFFFFFF))]"

definition SYM_BIND_enum :: "(string \<times> cexp option) list" where
  "SYM_BIND_enum =
     [(''STB_LOCAL'', Some (Num 0)), (''STB_GLOBAL'', Some (Num 1)), (''STB_WEAK'', Some (Num 2)),
      (''STB_LOOS'', Some (Num 10)), (''STB_HIOS'', Some (Num 12)), (''STB_LOPROC'', Some (Num 13)),
      (''STB_HIPROC'', Some (Num 15))]"

definition SYM_TYPE_enum :: "(string \<times> cexp option) list" where
  "SYM_TYPE_enum =
     [(''STT_NOTYPE'', Some (Num 0)), (''STT_OBJECT'', Some (Num 1)), (''STT_FUNC'', Some (Num 2)),
      (''STT_SECTION'', Some (Num 3)), (''STT_FILE'', Some (Num 4)), (''STT_COMMON'', Some (Num 5)),
      (''STT_TLS'', Some (Num 6)), (''STT_LOOS'', Some (Num 10)), (''STT_HIOS'', Some (Num 12)),
      (''STT_LOPROC'', Some (Num 13)), (''STT_SPARC_REGISTER'', Some (Num 13)),
      (''STT_HIPROC'', Some (Num 15))]"

definition RELOC_TYPE_enum :: "(string \<times> cexp option) list" where
  "RELOC_TYPE_enum =
     [(''R_X86_64_NONE'', None), (''R_X86_64_64'', None), (''R_X86_64_PC32'', None),
      (''R_X86_64_GOT32'', None), (''R_X86_64_PLT32'', None), (''R_X86_64_COPY'', None),
      (''R_X86_64_GLOB_DAT'', None), (''R_X86_64_JUMP_SLOT'', None), (''R_X86_64_RELATIVE'', None),
      (''R_X86_64_GOTPCREL'', None), (''R_X86_64_32'', None), (''R_X86_64_32S'', None),
      (''R_X86_64_16'', None), (''R_X86_64_PC16'', None), (''R_X86_64_8'', None),
      (''R_X86_64_PC8'', None)]"

section \<open>Structures\<close>

text \<open>A base class comes first.\<close>

definition IDENT :: cty where
  "IDENT = Struct True
     [(''magic'', uint32_t), (''eclass'', uint8_t), (''data'', uint8_t), (''version'', uint8_t),
      (''osabi'', uint8_t), (''abiversion'', uint8_t), (''pad'', Array 7 uint8_t)]"

definition HDR :: cty where
  "HDR = Struct True
     [(''ident'', IDENT), (''type'', uint16_t), (''machine'', uint16_t), (''version'', uint32_t),
      (''entry'', uint64_t), (''phoff'', uint64_t), (''shoff'', uint64_t), (''flags'', uint32_t),
      (''ehsize'', uint16_t), (''phentsize'', uint16_t), (''phnum'', uint16_t),
      (''shentsize'', uint16_t), (''shnum'', uint16_t), (''shstrndx'', uint16_t)]"

definition PROG :: cty where
  "PROG = Struct True
     [(''type'', uint32_t), (''flags'', uint32_t), (''offset'', uint64_t), (''vaddr'', uint64_t),
      (''paddr'', uint64_t), (''filesz'', uint64_t), (''memsz'', uint64_t), (''align'', uint64_t)]"

definition SECT :: cty where
  "SECT = Struct True
     [(''name'', uint32_t), (''type'', uint32_t), (''flags'', uint64_t), (''addr'', uint64_t),
      (''offset'', uint64_t), (''size'', uint64_t), (''link'', uint32_t), (''info'', uint32_t),
      (''addralign'', uint64_t), (''entsize'', uint64_t)]"

definition DYN :: cty where
  "DYN = Struct True
     [(''tag'', uint64_t), (''val'', uint64_t)]"

definition SYM :: cty where
  "SYM = Struct True
     [(''name'', uint32_t), (''type'', Bits 1 4), (''bind'', Bits 1 4), (''other'', uint8_t),
      (''shndx'', uint16_t), (''value'', uint64_t), (''size'', uint64_t)]"

definition REL :: cty where
  "REL = Struct True
     [(''addr'', uint64_t), (''type'', uint32_t), (''sym'', uint32_t)]"

definition RELA :: cty where
  "RELA = Struct True
     [([], REL), (''add'', uint64_t)]"

section \<open>The records of the loader are these structures\<close>

lemmas elf_structures = IDENT_def HDR_def PROG_def SECT_def DYN_def SYM_def REL_def RELA_def

lemma hdr_members:
  "member HDR ''ident.magic'' bs = fld 0 4 bs" "member HDR ''ident.eclass'' bs = fld 4 1 bs"
  "member HDR ''ident.data'' bs = fld 5 1 bs" "member HDR ''ident.version'' bs = fld 6 1 bs"
  "member HDR ''ident.osabi'' bs = fld 7 1 bs" "member HDR ''ident.abiversion'' bs = fld 8 1 bs"
  "member HDR ''type'' bs = fld 16 2 bs" "member HDR ''machine'' bs = fld 18 2 bs"
  "member HDR ''version'' bs = fld 20 4 bs" "member HDR ''entry'' bs = fld 24 8 bs"
  "member HDR ''phoff'' bs = fld 32 8 bs" "member HDR ''shoff'' bs = fld 40 8 bs"
  "member HDR ''flags'' bs = fld 48 4 bs" "member HDR ''ehsize'' bs = fld 52 2 bs"
  "member HDR ''phentsize'' bs = fld 54 2 bs" "member HDR ''phnum'' bs = fld 56 2 bs"
  "member HDR ''shentsize'' bs = fld 58 2 bs" "member HDR ''shnum'' bs = fld 60 2 bs"
  "member HDR ''shstrndx'' bs = fld 62 2 bs"
  by (rule member_fld; simp add: layout_simps elf_structures)+

lemma prog_members:
  "member PROG ''type'' bs = fld 0 4 bs" "member PROG ''flags'' bs = fld 4 4 bs"
  "member PROG ''offset'' bs = fld 8 8 bs" "member PROG ''vaddr'' bs = fld 16 8 bs"
  "member PROG ''paddr'' bs = fld 24 8 bs" "member PROG ''filesz'' bs = fld 32 8 bs"
  "member PROG ''memsz'' bs = fld 40 8 bs" "member PROG ''align'' bs = fld 48 8 bs"
  by (rule member_fld; simp add: layout_simps elf_structures)+

lemma dyn_members:
  "member DYN ''tag'' bs = fld 0 8 bs" "member DYN ''val'' bs = fld 8 8 bs"
  by (rule member_fld; simp add: layout_simps elf_structures)+

lemma sym_members:
  "member SYM ''name'' bs = fld 0 4 bs" "member SYM ''value'' bs = fld 8 8 bs"
  by (rule member_fld; simp add: layout_simps elf_structures)+

lemma rela_members:
  "member RELA ''addr'' bs = fld 0 8 bs" "member RELA ''type'' bs = fld 8 4 bs"
  "member RELA ''sym'' bs = fld 12 4 bs" "member RELA ''add'' bs = fld 16 8 bs"
  by (rule member_fld; simp add: layout_simps elf_structures)+

lemma sym_bind_member: "(ucast (member SYM ''bind'' bs) :: u8) = drop_bit 4 (ucast (fld 4 1 bs))"
proof -
  have "member SYM ''bind'' bs = drop_bit 4 (fld 4 1 bs)"
    by (rule member_high_nibble; simp add: layout_simps SYM_def)
  moreover have "(ucast (drop_bit 4 w) :: u8) = drop_bit 4 (ucast w)" if "take_bit 8 w = w" for w :: u64
  proof (rule bit_word_eqI)
    fix n assume "n < LENGTH(8)"
    then show "bit (ucast (drop_bit 4 w) :: u8) n = bit (drop_bit 4 (ucast w :: u8)) n"
      by (subst that [symmetric]) (auto simp: bit_simps)
  qed
  moreover have "take_bit 8 (fld 4 1 bs) = fld 4 1 bs"
    using take_bit_un_le [of 1 "take 1 (drop 4 bs)"] by (simp add: fld_def)
  ultimately show ?thesis by simp
qed

lemma elf_sizes: "map sizeof [HDR, PROG, SECT, DYN, SYM, REL, RELA] = [64, 56, 64, 16, 24, 16, 24]"
  by (simp add: layout_simps elf_structures)

lemma elf_pad: "field_off ''ident.pad'' HDR = 9"
  by (simp add: layout_simps elf_structures)

text \<open>The tags and types of the model are the enumerators of the sources.\<close>

lemma elf_constants:
  "map (\<lambda>x. of_int (enumerator PROG_TYPE_enum x)) [''PT_NULL'', ''PT_LOAD'', ''PT_DYNAMIC'', ''PT_PHDR'']
     = [PT_NULL, PT_LOAD, PT_DYNAMIC, PT_PHDR]"
  "map (\<lambda>x. of_int (enumerator DYN_TAG_enum x))
     [''DT_PLTRELSZ'', ''DT_PLTGOT'', ''DT_HASH'', ''DT_STRTAB'', ''DT_SYMTAB'', ''DT_RELA'', ''DT_RELASZ'', ''DT_RELAENT'', ''DT_SYMENT'',
      ''DT_INIT'', ''DT_FINI'', ''DT_REL'', ''DT_RELSZ'', ''DT_RELENT'', ''DT_PLTREL'', ''DT_DEBUG'', ''DT_JMPREL'', ''DT_INIT_ARRAY'',
      ''DT_FINI_ARRAY'']
     = [DT_PLTRELSZ, DT_PLTGOT, DT_HASH, DT_STRTAB, DT_SYMTAB, DT_RELA, DT_RELASZ, DT_RELAENT, DT_SYMENT, DT_INIT, DT_FINI,
        DT_REL, DT_RELSZ, DT_RELENT, DT_PLTREL, DT_DEBUG, DT_JMPREL, DT_INIT_ARRAY, DT_FINI_ARRAY]"
  "map (enumerator RELOC_TYPE_enum)
     [''R_X86_64_64'', ''R_X86_64_PC32'', ''R_X86_64_GLOB_DAT'', ''R_X86_64_JUMP_SLOT'', ''R_X86_64_RELATIVE'', ''R_X86_64_32'', ''R_X86_64_PC8'']
     = [1, 2, 6, 7, 8, 10, 15]"
  by code_simp+


end
