(* ===== verification/Acpidrv.thy ===== *)
theory Acpidrv
  imports Prelude "HOL-Library.Monad_Syntax"
begin

text \<open>
  The ACPI driver module (\<^verbatim>\<open>src/modules/driver.acpi/main.cpp\<close>): from the root pointer that the kernel
  links as \<^verbatim>\<open>kptr_acpi_rsdp\<close> to the tables, each of which is announced with \<^verbatim>\<open>ioprovide\<close> under its
  signature. The memory that \<^verbatim>\<open>kread\<close> reads is an argument; structures are the lists of their bytes.
  Memory the driver reads without having written it is \<open>junk\<close>, another argument; where it leaves a
  buffer the result is \<open>None\<close>.
\<close>

section \<open>Reading kernel memory\<close>

definition bytes_at :: "mem \<Rightarrow> u64 \<Rightarrow> nat \<Rightarrow> u8 list" where
  "bytes_at m a n = map (\<lambda>i. m (a + of_nat i)) [0..<n]"

text \<open>\<^verbatim>\<open>kread\<close> into a fresh buffer of \<open>n\<close> bytes; for a null address the kernel does nothing.\<close>

definition kread_fresh :: "mem \<Rightarrow> (nat \<Rightarrow> u8) \<Rightarrow> u64 \<Rightarrow> nat \<Rightarrow> u8 list" where
  "kread_fresh m junk a n = (if a = 0 then map junk [0..<n] else bytes_at m a n)"

section \<open>Root pointer\<close>

definition RSDP_SIG :: u64 where
  "RSDP_SIG = 0x2052545020445352"

definition RSDP_isValid0' :: "u8 list \<Rightarrow> bool" where
  "RSDP_isValid0' d \<longleftrightarrow> fld 0 8 d = RSDP_SIG \<and> sum_list (take 20 d) = 0"

definition isValid0 :: "u8 list \<Rightarrow> bool" where
  "isValid0 d \<longleftrightarrow> fld 15 1 d = 0 \<and> RSDP_isValid0' d"

definition isValid2 :: "u8 list \<Rightarrow> bool" where
  "isValid2 d \<longleftrightarrow> RSDP_isValid0' d \<and> fld 15 1 d \<noteq> 0 \<and> sum_list (take 36 d) = 0"

section \<open>Tables\<close>

definition XSDT_SIG :: u64 where
  "XSDT_SIG = 0x54445358"

definition RSDT_SIG :: u64 where
  "RSDT_SIG = 0x54445352"

text \<open>\<^verbatim>\<open>SDT::isValid\<close>, the sum of as many bytes as the table says it has.\<close>

definition SDT_isValid :: "u8 list \<Rightarrow> bool option" where
  "SDT_isValid t =
     (let size = unat (fld 4 4 t)
      in if length t < 8 \<or> length t < size then None else Some (sum_list (take size t) = 0))"

text \<open>\<^verbatim>\<open>size_t\<close> arithmetic: a table shorter than its header has a data size near \<open>2 ^ 64\<close>.\<close>

definition data_size :: "u8 list \<Rightarrow> u64" where
  "data_size t = fld 4 4 t - 36"

definition XSDT_count :: "u8 list \<Rightarrow> u64" where
  "XSDT_count t = data_size t div 8"

definition RSDT_count :: "u8 list \<Rightarrow> u64" where
  "RSDT_count t = data_size t div 4"

definition c_text :: "u8 list \<Rightarrow> string" where
  "c_text bs = map (\<lambda>b. char_of (unat b)) (takeWhile (\<lambda>b. b \<noteq> 0) bs)"

text \<open>The call of \<^verbatim>\<open>ioprovide\<close> for one table: the path with the four characters of the signature.\<close>

definition parseDT :: "mem \<Rightarrow> (nat \<Rightarrow> u8) \<Rightarrow> u64 \<Rightarrow> string \<times> u64" where
  "parseDT m junk addr =
     (let sig = fld 0 4 (kread_fresh m junk addr 36)
      in (''acpi/table.'' @ c_text
            [ucast (sig AND 0xFF), ucast (drop_bit 8 sig AND 0xFF), ucast (drop_bit 16 sig AND 0xFF),
             ucast (drop_bit 24 sig AND 0xFF)], addr))"

text \<open>The loop over \<^verbatim>\<open>ptrs\<close>, entries of \<open>w\<close> bytes behind the header.\<close>

fun ptrs_loop :: "mem \<Rightarrow> (nat \<Rightarrow> u8) \<Rightarrow> nat \<Rightarrow> u8 list \<Rightarrow> nat \<Rightarrow> nat \<Rightarrow> (string \<times> u64) list option" where
  "ptrs_loop m junk w t i 0 = Some []"
| "ptrs_loop m junk w t i (Suc n) =
     (if length t < 36 + w * Suc i then None
      else map_option (Cons (parseDT m junk (fld (36 + w * i) w t))) (ptrs_loop m junk w t (Suc i) n))"

definition parseXSDT :: "mem \<Rightarrow> (nat \<Rightarrow> u8) \<Rightarrow> u64 \<Rightarrow> (string \<times> u64) list option" where
  "parseXSDT m junk addr =
     (let desc = kread_fresh m junk addr 36
      in if fld 0 4 desc \<noteq> XSDT_SIG then Some []
      else do {
        let xsdt = kread_fresh m junk addr (unat (fld 4 4 desc));
        valid \<leftarrow> SDT_isValid xsdt;
        if \<not> valid then Some [] else ptrs_loop m junk 8 xsdt 0 (unat (XSDT_count xsdt))
      })"

definition parseRSDT :: "mem \<Rightarrow> (nat \<Rightarrow> u8) \<Rightarrow> u64 \<Rightarrow> (string \<times> u64) list option" where
  "parseRSDT m junk addr =
     (let desc = kread_fresh m junk addr 36
      in if fld 0 4 desc \<noteq> RSDT_SIG then Some []
      else do {
        let rsdt = kread_fresh m junk addr (unat (fld 4 4 desc));
        valid \<leftarrow> SDT_isValid rsdt;
        if \<not> valid then Some [] else ptrs_loop m junk 4 rsdt 0 (unat (RSDT_count rsdt))
      })"

definition parseRSDP :: "mem \<Rightarrow> (nat \<Rightarrow> u8) \<Rightarrow> u64 \<Rightarrow> (string \<times> u64) list option" where
  "parseRSDP m junk addr =
     (let desc = kread_fresh m junk addr 36
      in if isValid2 desc then parseXSDT m junk (fld 24 8 desc)
         else if isValid0 desc then parseRSDT m junk (fld 16 4 desc)
         else Some [])"

text \<open>\<^verbatim>\<open>module()\<close>, up to its \<^verbatim>\<open>exit(0)\<close>: what it prints and the calls of \<^verbatim>\<open>ioprovide\<close>.\<close>

definition acpi_module :: "mem \<Rightarrow> (nat \<Rightarrow> u8) \<Rightarrow> u64 \<Rightarrow> (string list \<times> (string \<times> u64) list) option" where
  "acpi_module m junk kptr_acpi_rsdp =
     (if kptr_acpi_rsdp = 0 then Some ([''No ACPI RSDP'' @ [CHR 0x0A]], [])
      else map_option (Pair []) (parseRSDP m junk kptr_acpi_rsdp))"

section \<open>Every table is announced\<close>

lemma length_bytes_at [simp]: "length (bytes_at m a n) = n"
  by (simp add: bytes_at_def)

lemma take_bytes_at: "k \<le> n \<Longrightarrow> take k (bytes_at m a n) = bytes_at m a k"
  by (simp add: bytes_at_def take_map)

lemma fld_bytes_at: "k + w \<le> n \<Longrightarrow> fld k w (bytes_at m a n) = un_le (bytes_at m (a + of_nat k) w)"
proof -
  assume "k + w \<le> n"
  then have "take w (drop k (bytes_at m a n)) = bytes_at m (a + of_nat k) w"
    by (intro nth_equalityI) (auto simp: bytes_at_def add.assoc)
  then show ?thesis by (simp add: fld_def)
qed

text \<open>The fields of a table in memory.\<close>

definition field_at :: "mem \<Rightarrow> u64 \<Rightarrow> nat \<Rightarrow> nat \<Rightarrow> u64" where
  "field_at m a k w = un_le (bytes_at m (a + of_nat k) w)"

definition entries_at :: "mem \<Rightarrow> nat \<Rightarrow> u64 \<Rightarrow> nat \<Rightarrow> u64 list" where
  "entries_at m w a n = map (\<lambda>i. field_at m a (36 + w * i) w) [0..<n]"

lemma ptrs_loop_entries:
  "length t = 36 + w * (i + n) + r \<Longrightarrow> t = bytes_at m a (length t) \<Longrightarrow>
   ptrs_loop m junk w t i n = Some (map (parseDT m junk) (map (\<lambda>i. field_at m a (36 + w * i) w) [i..<i + n]))"
proof (induction n arbitrary: i)
  case (Suc n)
  have "ptrs_loop m junk w t (Suc i) n = Some (map (parseDT m junk) (map (\<lambda>i. field_at m a (36 + w * i) w) [Suc i..<Suc i + n]))"
    using Suc.IH [of "Suc i"] Suc.prems by (simp add: algebra_simps)
  moreover have "fld (36 + w * i) w t = field_at m a (36 + w * i) w"
    using Suc.prems fld_bytes_at [of "36 + w * i" w "length t" m a] by (simp add: field_at_def algebra_simps)
  moreover have "[i..<i + Suc n] = i # [Suc i..<Suc i + n]" by (simp add: upt_conv_Cons)
  ultimately show ?case using Suc.prems(1) by (simp add: algebra_simps)
qed simp

definition table_ok :: "mem \<Rightarrow> u64 \<Rightarrow> nat \<Rightarrow> u64 \<Rightarrow> nat \<Rightarrow> bool" where
  "table_ok m sig w a n \<longleftrightarrow>
     a \<noteq> 0 \<and> field_at m a 0 4 = sig \<and> field_at m a 4 4 = of_nat (36 + w * n)
     \<and> 36 + w * n < 2 ^ 32 \<and> sum_list (bytes_at m a (36 + w * n)) = 0"

lemma fld_kread: "a \<noteq> 0 \<Longrightarrow> k + w \<le> n \<Longrightarrow> fld k w (kread_fresh m junk a n) = field_at m a k w"
  by (simp add: kread_fresh_def fld_bytes_at field_at_def)

text \<open>What the two parsers have in common: a table that is valid is read as a whole, with its entries.\<close>

lemma table_ok_parse:
  fixes junk :: "nat \<Rightarrow> u8"
  assumes "table_ok m sig w a n" and "0 < w" and "w \<le> 8"
  defines "t \<equiv> kread_fresh m junk a (unat (fld 4 4 (kread_fresh m junk a 36)))"
  shows "fld 0 4 (kread_fresh m junk a 36) = sig" and "SDT_isValid t = Some True"
    and "unat (data_size t div of_nat w) = n"
    and "ptrs_loop m junk w t 0 n = Some (map (parseDT m junk) (entries_at m w a n))"
proof -
  let ?k = "36 + w * n"
  have a: "a \<noteq> 0" and sz: "field_at m a 4 4 = of_nat ?k" and k: "?k < 2 ^ 32"
    and sum: "sum_list (bytes_at m a ?k) = 0" and sig: "field_at m a 0 4 = sig"
    using assms(1) by (auto simp: table_ok_def)
  show "fld 0 4 (kread_fresh m junk a 36) = sig" using a sig by (simp add: fld_kread)
  have u: "unat (of_nat ?k :: u64) = ?k" using k by (intro unat_of_nat_u64) simp
  have d4: "fld 4 4 (kread_fresh m junk a 36) = of_nat ?k" using fld_kread [OF a, of 4 4 36 m junk] by (simp add: sz)
  have t: "t = bytes_at m a ?k" unfolding t_def d4 u using a by (simp add: kread_fresh_def)
  have f: "fld 4 4 t = of_nat ?k" using sz fld_bytes_at [of 4 4 ?k m a] by (simp add: t field_at_def)
  show "SDT_isValid t = Some True"
    unfolding SDT_isValid_def Let_def f u by (simp add: t take_bytes_at sum)
  have "data_size t = of_nat (w * n)" unfolding data_size_def f by simp
  moreover have "unat (of_nat (w * n) :: u64) = w * n" using k by (intro unat_of_nat_u64) simp
  moreover have "unat (of_nat w :: u64) = w" using assms(3) by (intro unat_of_nat_u64) simp
  ultimately show "unat (data_size t div of_nat w) = n" using assms(2) by (simp only: unat_div) simp
  show "ptrs_loop m junk w t 0 n = Some (map (parseDT m junk) (entries_at m w a n))"
    using ptrs_loop_entries [of t w 0 n 0 m a junk] by (simp add: t entries_at_def)
qed

lemma parseXSDT_entries:
  "table_ok m XSDT_SIG 8 a n \<Longrightarrow> parseXSDT m junk a = Some (map (parseDT m junk) (entries_at m 8 a n))"
  using table_ok_parse [of m XSDT_SIG 8 a n junk] by (simp add: parseXSDT_def XSDT_count_def Let_def)

lemma parseRSDT_entries:
  "table_ok m RSDT_SIG 4 a n \<Longrightarrow> parseRSDT m junk a = Some (map (parseDT m junk) (entries_at m 4 a n))"
  using table_ok_parse [of m RSDT_SIG 4 a n junk] by (simp add: parseRSDT_def RSDT_count_def Let_def)

lemma parseDT_text: "a \<noteq> 0 \<Longrightarrow> parseDT m junk a = (''acpi/table.'' @ c_text (bytes_at m a 4), a)"
proof -
  assume "a \<noteq> 0"
  let ?b = "bytes_at m a 4"
  have "le 4 (un_le ?b) = ?b" by simp
  moreover have "le 4 v = [ucast (v AND 0xFF), ucast (drop_bit 8 v AND 0xFF), ucast (drop_bit 16 v AND 0xFF),
      ucast (drop_bit 24 v AND 0xFF)]" for v
    by (simp add: le_def upt_rec)
  ultimately show ?thesis using \<open>a \<noteq> 0\<close> by (simp add: parseDT_def fld_kread field_at_def Let_def)
qed

definition root_ok :: "mem \<Rightarrow> u64 \<Rightarrow> bool" where
  "root_ok m p \<longleftrightarrow> p \<noteq> 0 \<and> field_at m p 0 8 = RSDP_SIG \<and> sum_list (bytes_at m p 20) = 0"

text \<open>
  C37: From a root pointer with a valid checksum the driver follows the XSDT for revision 2
  and the RSDT for revision 0, and announces every table listed there, in order, under its
  four-character signature and with its address.
\<close>

theorem acpi_tables_announced:
  assumes "root_ok m p"
    and "if field_at m p 15 1 = 0 then w = 4 \<and> root = field_at m p 16 4 \<and> table_ok m RSDT_SIG w root n
      else w = 8 \<and> root = field_at m p 24 8 \<and> sum_list (bytes_at m p 36) = 0 \<and> table_ok m XSDT_SIG w root n"
    and "0 \<notin> set (entries_at m w root n)"
  shows "acpi_module m junk p
    = Some ([], map (\<lambda>a. (''acpi/table.'' @ c_text (bytes_at m a 4), a)) (entries_at m w root n))"
proof -
  have p: "p \<noteq> 0" using assms(1) by (simp add: root_ok_def)
  have d: "kread_fresh m junk p 36 = bytes_at m p 36" using p by (simp add: kread_fresh_def)
  have "parseRSDP m junk p = Some (map (parseDT m junk) (entries_at m w root n))"
  proof (cases "field_at m p 15 1 = 0")
    case True
    then have c: "w = 4" "root = field_at m p 16 4" "table_ok m RSDT_SIG 4 root n" using assms(2) by auto
    have "isValid0 (bytes_at m p 36)" "\<not> isValid2 (bytes_at m p 36)"
      using True assms(1) fld_bytes_at [of 0 8 36 m p] fld_bytes_at [of 15 1 36 m p]
      by (simp_all add: isValid0_def isValid2_def RSDP_isValid0'_def root_ok_def take_bytes_at field_at_def)
    moreover have "fld 16 4 (bytes_at m p 36) = root"
      using c(2) fld_bytes_at [of 16 4 36 m p] by (simp add: field_at_def)
    ultimately show ?thesis
      using parseRSDT_entries [OF c(3), of junk] c(1) by (simp add: parseRSDP_def d)
  next
    case False
    then have c: "w = 8" "root = field_at m p 24 8" "table_ok m XSDT_SIG 8 root n" using assms(2) by auto
    have "isValid2 (bytes_at m p 36)"
      using False assms(1,2) fld_bytes_at [of 0 8 36 m p] fld_bytes_at [of 15 1 36 m p]
      by (simp add: isValid2_def RSDP_isValid0'_def root_ok_def take_bytes_at field_at_def)
    moreover have "fld 24 8 (bytes_at m p 36) = root"
      using c(2) fld_bytes_at [of 24 8 36 m p] by (simp add: field_at_def)
    ultimately show ?thesis
      using parseXSDT_entries [OF c(3), of junk] c(1) by (simp add: parseRSDP_def d)
  qed
  moreover have "map (parseDT m junk) (entries_at m w root n)
      = map (\<lambda>a. (''acpi/table.'' @ c_text (bytes_at m a 4), a)) (entries_at m w root n)"
    using assms(3) by (intro map_cong [OF refl] parseDT_text) metis
  ultimately show ?thesis using p by (simp add: acpi_module_def)
qed

definition demo_rsdp :: "u8 list" where
  "demo_rsdp = map of_char ''RSD PTR '' @ [0xC1, 0, 0, 0, 0, 0, 0, 0] @ le 4 0x2000"

definition demo_rsdt :: "u8 list" where
  "demo_rsdt = map of_char ''RSDT'' @ le 4 40 @ [1, 0x6A] @ [0, 0, 0, 0, 0, 0, 0, 0, 0, 0, 0, 0, 0, 0, 0, 0, 0, 0, 0, 0, 0, 0, 0, 0, 0, 0] @ le 4 0x3000"

definition demo_tables :: mem where
  "demo_tables a =
     (if a - 0x1000 < 20 then demo_rsdp ! unat (a - 0x1000)
      else if a - 0x2000 < 40 then demo_rsdt ! unat (a - 0x2000)
      else if a - 0x3000 < 4 then map of_char ''FACP'' ! unat (a - 0x3000) else 0)"

lemma demo_tables_bytes:
  "bytes_at demo_tables 0x1000 20 = demo_rsdp" "bytes_at demo_tables 0x2000 40 = demo_rsdt"
  "bytes_at demo_tables 0x3000 4 = map of_char ''FACP''"
  by (simp_all add: bytes_at_def demo_tables_def demo_rsdp_def demo_rsdt_def upt_rec le_def)

lemma demo_tables_valid: "sum_list demo_rsdp = 0" "sum_list demo_rsdt = 0"
  by (simp_all add: demo_rsdp_def demo_rsdt_def upt_rec le_def)

theorem acpi_tables_announced_witness:
  "acpi_module demo_tables (\<lambda>_. 0xCC) 0x1000 = Some ([], [(''acpi/table.FACP'', 0x3000)])"
proof -
  have f: "field_at demo_tables 0x1000 k w = fld k w demo_rsdp" if "k + w \<le> 20" for k w
    using fld_bytes_at [OF that, of demo_tables "0x1000"] by (simp add: field_at_def demo_tables_bytes)
  have g: "field_at demo_tables 0x2000 k w = fld k w demo_rsdt" if "k + w \<le> 40" for k w
    using fld_bytes_at [OF that, of demo_tables "0x2000"] by (simp add: field_at_def demo_tables_bytes)
  have root: "root_ok demo_tables 0x1000" "field_at demo_tables 0x1000 15 1 = 0" "field_at demo_tables 0x1000 16 4 = 0x2000"
    by (simp_all add: root_ok_def f demo_tables_bytes demo_tables_valid) (simp_all add: fld_def demo_rsdp_def RSDP_SIG_def le_def upt_rec)
  have e: "entries_at demo_tables 4 0x2000 1 = [0x3000]"
    by (simp add: entries_at_def g) (simp add: fld_def demo_rsdt_def le_def upt_rec)
  have "table_ok demo_tables RSDT_SIG 4 0x2000 1"
    by (simp add: table_ok_def g demo_tables_bytes demo_tables_valid) (simp add: fld_def demo_rsdt_def RSDT_SIG_def le_def upt_rec)
  then have "acpi_module demo_tables (\<lambda>_. 0xCC) 0x1000
      = Some ([], [(''acpi/table.'' @ map (\<lambda>b. char_of (unat b)) (map of_char ''FACP'' :: u8 list), 0x3000)])"
    using acpi_tables_announced [OF root(1), of 4 "0x2000" 1 "\<lambda>_. 0xCC"] root(2,3)
    by (simp add: e demo_tables_bytes c_text_def del: One_nat_def)
  then show ?thesis by (simp add: char_of_def bit_0)
qed

text \<open>A table that claims to be shorter than its header: the number of entries wraps around.\<close>

text \<open>
  An XSDT that claims to be shorter than its header and has a zero sum makes the driver read
  behind the buffer it allocated.
\<close>

theorem acpi_short_table:
  assumes "a \<noteq> 0" and "field_at m a 0 4 = XSDT_SIG" and "field_at m a 4 4 = of_nat s" and "s < 36"
    and "sum_list (bytes_at m a s) = 0"
  shows "parseXSDT m junk a = None"
proof -
  have u: "unat (of_nat s :: u64) = s" using assms(4) by (intro unat_of_nat_u64) simp
  have desc: "fld 0 4 (kread_fresh m junk a 36) = XSDT_SIG" "fld 4 4 (kread_fresh m junk a 36) = of_nat s"
    using assms(1-3) by (simp_all add: fld_kread)
  have t: "kread_fresh m junk a s = bytes_at m a s" using assms(1) by (simp add: kread_fresh_def)
  show ?thesis
  proof (cases "s < 8")
    case True
    then show ?thesis by (simp add: parseXSDT_def desc u t SDT_isValid_def Let_def)
  next
    case False
    have f: "fld 4 4 (bytes_at m a s) = of_nat s" using False assms(3) fld_bytes_at [of 4 4 s m a] by (simp add: field_at_def)
    have "unat (of_nat s - 36 :: u64) = s + 18446744073709551580"
      using assms(4) unat_diff_wrap_u64 [of "of_nat s" 36] by (simp add: u)
    then have "unat (XSDT_count (bytes_at m a s)) = (s + 18446744073709551580) div 8"
      by (simp add: XSDT_count_def data_size_def f unat_div)
    moreover have "0 < (s + 18446744073709551580) div 8" by simp
    ultimately obtain c where "unat (XSDT_count (bytes_at m a s)) = Suc c" by (metis gr0_implies_Suc)
    then show ?thesis
      using False assms(4,5) by (simp add: parseXSDT_def desc u t SDT_isValid_def Let_def f take_bytes_at)
  qed
qed

theorem acpi_short_table_witness:
  "parseXSDT (\<lambda>a. (map of_char ''XSDT'' @ [9, 0, 0, 0, 0xB4]) ! (unat a - 0x1000)) (\<lambda>_. 0xCC) 0x1000 = None"
  by (rule acpi_short_table [where s = 9])
    (simp_all add: field_at_def bytes_at_def upt_rec XSDT_SIG_def)

end
