(* ===== verification/Acpidefs.thy ===== *)
theory Acpidefs
  imports Acpi Acpidrv Layout
begin

text \<open>
  The declarations of \<^verbatim>\<open>src/acpi/acpi.cpp\<close>, \<^verbatim>\<open>src/acpi/include/acpi.hpp\<close> and of the ACPI driver module: the
  registers of the interrupt controllers and the structures of the firmware tables, laid out by the
  rules of the compiler. The theorems show that the parsers and the drivers of the model read the
  members of these structures and write these registers.
\<close>

section \<open>Registers\<close>

definition LAPIC_FIELDS :: "(string \<times> cexp option) list" where
  "LAPIC_FIELDS =
     [(''LAPIC_APICID'', Some (Num 0x20)), (''LAPIC_APICVER'', Some (Num 0x30)), (''LAPIC_TASKPRIOR'', Some (Num 0x80)),
      (''LAPIC_EOI'', Some (Num 0xB0)), (''LAPIC_LDR'', Some (Num 0xD0)), (''LAPIC_DFR'', Some (Num 0xE0)),
      (''LAPIC_SPURIOUS'', Some (Num 0xF0)), (''LAPIC_ESR'', Some (Num 0x280)), (''LAPIC_ICRL'', Some (Num 0x300)),
      (''LAPIC_ICRH'', Some (Num 0x310)), (''LAPIC_LVT_TMR'', Some (Num 0x320)), (''LAPIC_LVT_PERF'', Some (Num 0x340)),
      (''LAPIC_LVT_LINT0'', Some (Num 0x350)), (''LAPIC_LVT_LINT1'', Some (Num 0x360)), (''LAPIC_LVT_ERR'', Some (Num 0x370)),
      (''LAPIC_TMRINITCNT'', Some (Num 0x380)), (''LAPIC_TMRCURRCNT'', Some (Num 0x390)), (''LAPIC_TMRDIV'', Some (Num 0x3E0)),
      (''LAPIC_LAST'', Some (Num 0x38F))]"

definition LAPIC_VALUES :: "(string \<times> cexp option) list" where
  "LAPIC_VALUES =
     [(''LAPIC_DISABLE'', Some (Num 0x10000)), (''LAPIC_SW_ENABLE'', Some (Num 0x100)), (''LAPIC_CPUFOCUS'', Some (Num 0x200)),
      (''LAPIC_NMI'', Some (Shl (Num 4) (Num 8))), (''TMR_PERIODIC'', Some (Num 0x20000)),
      (''TMR_BASEDIV'', Some (Shl (Num 1) (Num 20)))]"

definition IOAPIC_FIELDS :: "(string \<times> cexp option) list" where
  "IOAPIC_FIELDS = [(''IOAPIC_REGSEL'', Some (Num 0x0)), (''IOAPIC_REGWIN'', Some (Num 0x10))]"

definition IOAPIC_REGS :: "(string \<times> cexp option) list" where
  "IOAPIC_REGS = [(''IOAPIC_ID'', Some (Num 0x0)), (''IOAPIC_VER'', Some (Num 0x1)), (''IOAPIC_REDTBL'', Some (Num 0x10))]"

section \<open>Tables of the kernel\<close>

definition Header :: cty where
  "Header = Struct False
     [(''signature'', uint32_t), (''length'', uint32_t), (''revision'', uint8_t), (''checksum'', uint8_t),
      (''oem'', Array 6 uint8_t), (''oemTableId'', Array 8 uint8_t), (''oemRevision'', uint32_t), (''creatorId'', uint32_t),
      (''creatorRevision'', uint32_t)]"

definition Madt :: cty where
  "Madt = Struct False [([], Header), (''localApicAddr'', uint32_t), (''flags'', uint32_t)]"

definition ApicHeader :: cty where
  "ApicHeader = Struct False [(''type'', uint8_t), (''length'', uint8_t)]"

definition ApicLocalApic :: cty where
  "ApicLocalApic = Struct False
     [([], ApicHeader), (''acpiProcessorId'', uint8_t), (''apicId'', uint8_t), (''flags'', uint32_t)]"

definition ApicIoApic :: cty where
  "ApicIoApic = Struct False
     [([], ApicHeader), (''ioApicId'', uint8_t), (''reserved'', uint8_t), (''ioApicAddress'', uint32_t),
      (''globalSystemInterruptBase'', uint32_t)]"

definition ApicInterruptOverride :: cty where
  "ApicInterruptOverride = Struct False
     [([], ApicHeader), (''bus'', uint8_t), (''source'', uint8_t), (''interrupt'', uint32_t), (''flags'', uint16_t)]"

definition IOApicRedir :: cty where
  "IOApicRedir = CUnion
     [([], Struct False
        [(''vector'', Bits 1 8), (''deliveryMode'', Bits 1 3), (''destinationMode'', Bits 1 1), (''deliveryStatus'', Bits 1 1),
         (''pinPolarity'', Bits 1 1), (''remoteIRR'', Bits 1 1), (''triggerMode'', Bits 1 1), (''mask'', Bits 1 1),
         (''reserved'', Bits 8 39), (''destination'', Bits 1 8)]),
      (''raw'', Array 2 uint32_t)]"

text \<open>The members of the controller object.\<close>

definition ACPI_object :: cty where
  "ACPI_object = Struct False
     [(''localApicAddr'', pointer), (''ioApicAddr'', pointer), (''rsdpAddr'', pointer), (''ioApicMaxCount'', uint8_t),
      (''acpiCpuLapicIds'', Array 256 uint8_t), (''acpiLapicCpuIds'', Array 256 uint8_t), (''acpiCpuCount'', uint8_t),
      (''activeCpuCount'', uint8_t), (''busfreq'', uint64_t)]"

section \<open>Tables of the driver\<close>

definition RSDP :: cty where
  "RSDP = Struct True
     [(''sig'', uint64_t), (''crc'', uint8_t), (''oem'', Array 6 uint8_t), (''rev'', uint8_t), (''rsdt'', Bits 8 32)]"

definition RSDPv20 :: cty where
  "RSDPv20 = Struct True
     [([], RSDP), (''size'', Bits 8 32), (''xsdt'', pointer), (''extcrc'', uint8_t), (''rsvd'', Array 3 uint8_t)]"

definition SDT :: cty where
  "SDT = Struct True
     [(''sig'', uint32_t), (''size'', uint32_t), (''rev'', uint8_t), (''crc'', uint8_t), (''oemid'', Array 6 uint8_t),
      (''oemtblid'', Array 8 uint8_t), (''oemrev'', uint32_t), (''crid'', uint32_t), (''crrev'', uint32_t)]"

definition RSDT :: cty where
  "RSDT = Struct True [([], SDT), (''ptrs'', Array 0 uint32_t)]"

definition XSDT :: cty where
  "XSDT = Struct True [([], SDT), (''ptrs'', Array 0 uint64_t)]"

section \<open>The model reads these structures\<close>

lemmas acpi_structures =
  Header_def Madt_def ApicHeader_def ApicLocalApic_def ApicIoApic_def ApicInterruptOverride_def IOApicRedir_def
  ACPI_object_def RSDP_def RSDPv20_def SDT_def RSDT_def XSDT_def

lemma acpi_sizes:
  "map sizeof [Header, Madt, ApicHeader, ApicLocalApic, ApicIoApic, ApicInterruptOverride, IOApicRedir, RSDP, RSDPv20, SDT, RSDT, XSDT]
     = [36, 44, 2, 8, 12, 12, 8, 20, 36, 36, 36, 36]"
  by (simp add: layout_simps acpi_structures)

lemma acpi_offsets:
  "field_off ''signature'' Header = 0" "field_off ''length'' Header = 4" "field_off ''length'' Madt = 4"
  "field_off ''localApicAddr'' Madt = 36" "field_off ''type'' ApicHeader = 0" "field_off ''length'' ApicHeader = 1"
  "field_off ''apicId'' ApicLocalApic = 3" "field_off ''ioApicAddress'' ApicIoApic = 4"
  by (simp_all add: layout_simps acpi_structures)

lemma acpi_size_values: "sizeof Header = 36" "sizeof Madt = 44" "sizeof ApicHeader = 2"
  using acpi_sizes by simp_all

text \<open>
  The parsers of the firmware tables read the members of the structures that the sources
  declare: the entries of a MADT, its local APIC address and length, the signature of a table
  and the entries behind the header of a root table.
\<close>

theorem acpi_parsers_layout:
  "madt_entry m p s =
     (if m (p + of_nat (field_off ''type'' ApicHeader)) = 0 then
        (let apicId = m (p + of_nat (field_off ''apicId'' ApicLocalApic))
         in s\<lparr>acpiLapicCpuIds := (acpiLapicCpuIds s)[unat apicId := acpiCpuCount s],
              acpiCpuLapicIds := (acpiCpuLapicIds s)[unat (acpiCpuCount s) := apicId], acpiCpuCount := acpiCpuCount s + 1\<rparr>)
      else if m (p + of_nat (field_off ''type'' ApicHeader)) = 1 then
        (let a = ucast (field32 m p ApicIoApic ''ioApicAddress'') in map_rw a (a + 0x1000) (s\<lparr>ioApicAddr := a\<rparr>))
      else s)
   \<and> ParseApic m madt s =
     (let a = ucast (field32 m madt Madt ''localApicAddr'');
          s = map_rw a (a + 0x1000) (map_ro madt (madt + 0x1000) s\<lparr>localApicAddr := a\<rparr>);
          p = madt + struct_size Madt
      in madt_loop m p (p + (ucast (field32 m madt Madt ''length'') - struct_size Madt)) s)
   \<and> ParseDT m header s =
     (let s = map_ro header (header + 0x1000) s
      in if field32 m header Header ''signature'' = 0x43495041 then ParseApic m header s else Some s)
   \<and> ParseRsdt m header s =
     (let p = header + struct_size Header
      in rsdt_loop m p (p + 4 * ((ucast (field32 m header Header ''length'') - struct_size Header) div 4))
           (map_ro header (header + 0x1000) s))"
  by (intro conjI)
     (simp_all add: madt_entry_def ParseApic_def ParseDT_def ParseRsdt_def field32_def struct_size_def acpi_offsets
        acpi_size_values Let_def map_ro_def map_rw_def)

text \<open>The registers the model writes are those of the sources.\<close>

theorem lapic_registers:
  "map (enumerator LAPIC_FIELDS)
     [''LAPIC_APICID'', ''LAPIC_TASKPRIOR'', ''LAPIC_EOI'', ''LAPIC_LDR'', ''LAPIC_DFR'', ''LAPIC_SPURIOUS'', ''LAPIC_ICRL'', ''LAPIC_ICRH'',
      ''LAPIC_LVT_TMR'', ''LAPIC_LVT_PERF'', ''LAPIC_LVT_LINT0'', ''LAPIC_LVT_LINT1'', ''LAPIC_TMRINITCNT'', ''LAPIC_TMRCURRCNT'', ''LAPIC_TMRDIV'']
     = [0x20, 0x80, 0xB0, 0xD0, 0xE0, 0xF0, 0x300, 0x310, 0x320, 0x340, 0x350, 0x360, 0x380, 0x390, 0x3E0]
   \<and> map snd (enum_values LAPIC_VALUES) = [0x10000, 0x100, 0x200, 0x400, 0x20000, 0x100000]
   \<and> map snd (enum_values IOAPIC_FIELDS) = [0, 0x10] \<and> map snd (enum_values IOAPIC_REGS) = [0, 1, 0x10]"
  by code_simp

text \<open>
  The fields of a redirection entry lie in its two raw words without a gap, as the hardware has them:
  the destination is the highest byte of the second word.
\<close>

theorem redirection_layout:
  "map (\<lambda>f. (bit_offset IOApicRedir f, bit_size IOApicRedir f))
     [''vector'', ''deliveryMode'', ''destinationMode'', ''deliveryStatus'', ''pinPolarity'', ''remoteIRR'', ''triggerMode'', ''mask'',
      ''reserved'', ''destination'', ''raw'']
   = [(0, 8), (8, 3), (11, 1), (12, 1), (13, 1), (14, 1), (15, 1), (16, 1), (17, 39), (56, 8), (0, 64)]"
  by (simp add: layout_simps acpi_structures)

text \<open>
  The count of active processors is one byte that is incremented as eight: the increment covers the
  padding behind the byte and the two lowest bytes of the bus frequency.
\<close>

theorem active_count_increment:
  "field_off ''activeCpuCount'' ACPI_object = 538 \<and> field_off ''busfreq'' ACPI_object = 544
   \<and> field_off ''activeCpuCount'' ACPI_object + 8 = field_off ''busfreq'' ACPI_object + 2"
  by (simp add: layout_simps acpi_structures)

text \<open>
  The ACPI driver reads the root pointer and the tables at the members of its packed structures, which
  are those of the ACPI specification.
\<close>

lemma rsdp_members:
  "member RSDPv20 ''sig'' d = fld 0 8 d" "member RSDPv20 ''rev'' d = fld 15 1 d"
  "member RSDPv20 ''rsdt'' d = fld 16 4 d" "member RSDPv20 ''xsdt'' d = fld 24 8 d"
  by (rule member_fld; simp add: layout_simps acpi_structures)+

lemma sdt_members: "member SDT ''sig'' d = fld 0 4 d" "member SDT ''size'' d = fld 4 4 d"
  by (rule member_fld; simp add: layout_simps acpi_structures)+

theorem driver_parsers_layout:
  "parseRSDP m junk addr =
     (let desc = kread_fresh m junk addr (sizeof RSDPv20)
      in if isValid2 desc then parseXSDT m junk (member RSDPv20 ''xsdt'' desc)
         else if isValid0 desc then parseRSDT m junk (member RSDPv20 ''rsdt'' desc)
         else Some [])
   \<and> isValid0 d = (member RSDPv20 ''rev'' d = 0 \<and> member RSDPv20 ''sig'' d = RSDP_SIG \<and> sum_list (take (sizeof RSDP) d) = 0)
   \<and> data_size d = member SDT ''size'' d - struct_size SDT
   \<and> field_off ''ptrs'' RSDT = sizeof SDT \<and> field_off ''ptrs'' XSDT = sizeof SDT"
proof -
  have sizes: "sizeof RSDPv20 = 36" "sizeof RSDP = 20" "sizeof SDT = 36" using acpi_sizes by simp_all
  have ptrs: "field_off ''ptrs'' RSDT = 36" "field_off ''ptrs'' XSDT = 36" by (simp_all add: layout_simps acpi_structures)
  show ?thesis
    by (simp only: parseRSDP_def isValid0_def RSDP_isValid0'_def data_size_def struct_size_def sizes ptrs
      rsdp_members sdt_members) simp
qed

end
