(* ===== verification/Efi.thy ===== *)
theory Efi
  imports Layout
begin

text \<open>
  \<^verbatim>\<open>src/bootinfo/include/efi.hpp\<close> and \<^verbatim>\<open>efiboot.cpp\<close>: the structures and enumerations through which the
  kernel talks to EFI firmware, and \<^verbatim>\<open>EFI::load\<close>, which takes the addresses of the ACPI tables and the
  frame buffer from them. The structures are laid out by the rules of the compiler; the theorems
  compare them with the tables of the UEFI specification and show which tables \<^verbatim>\<open>load\<close> finds.
\<close>

section \<open>Enumerations\<close>

definition Status_enum :: "(string \<times> cexp option) list" where
  "Status_enum =
     [(''SUCCESS'', Some (Num 0)), (''ERROR'', Some (Num 0x8000000000000000)),
      (''LOAD_ERROR'', Some (Or (Ref ''ERROR'') (Num 1))),
      (''INVALID_PARAMETER'', Some (Or (Ref ''ERROR'') (Num 2))),
      (''UNSUPPORTED'', Some (Or (Ref ''ERROR'') (Num 3))),
      (''BAD_BUFFER_SIZE'', Some (Or (Ref ''ERROR'') (Num 4))),
      (''BUFFER_TOO_SMALL'', Some (Or (Ref ''ERROR'') (Num 5))),
      (''NOT_READY'', Some (Or (Ref ''ERROR'') (Num 6))),
      (''DEVICE_ERROR'', Some (Or (Ref ''ERROR'') (Num 7))),
      (''WRITE_PROTECTED'', Some (Or (Ref ''ERROR'') (Num 8))),
      (''OUT_OF_RESOURCES'', Some (Or (Ref ''ERROR'') (Num 9))),
      (''VOLUME_CORRUPTED'', Some (Or (Ref ''ERROR'') (Num 10))),
      (''VOLUME_FULL'', Some (Or (Ref ''ERROR'') (Num 11))),
      (''NO_MEDIA'', Some (Or (Ref ''ERROR'') (Num 12))),
      (''MEDIA_CHANGED'', Some (Or (Ref ''ERROR'') (Num 13))),
      (''NOT_FOUND'', Some (Or (Ref ''ERROR'') (Num 14))),
      (''ACCESS_DENIED'', Some (Or (Ref ''ERROR'') (Num 15))),
      (''NO_RESPONSE'', Some (Or (Ref ''ERROR'') (Num 16))),
      (''NO_MAPPING'', Some (Or (Ref ''ERROR'') (Num 17))),
      (''TIMEOUT'', Some (Or (Ref ''ERROR'') (Num 18))),
      (''NOT_STARTED'', Some (Or (Ref ''ERROR'') (Num 19))),
      (''ALREADY_STARTED'', Some (Or (Ref ''ERROR'') (Num 20))),
      (''ABORTED'', Some (Or (Ref ''ERROR'') (Num 21))),
      (''ICMP_ERROR'', Some (Or (Ref ''ERROR'') (Num 22))),
      (''TFTP_ERROR'', Some (Or (Ref ''ERROR'') (Num 23))),
      (''PROTOCOL_ERROR'', Some (Or (Ref ''ERROR'') (Num 24)))]"

definition Color_enum :: "(string \<times> cexp option) list" where
  "Color_enum =
     [(''COLOR_BLACK'', Some (Num 0x0)), (''COLOR_BLUE'', Some (Num 0x1)), (''COLOR_GREEN'', Some (Num 0x2)),
      (''COLOR_CYAN'', Some (Or (Ref ''COLOR_BLUE'') (Ref ''COLOR_GREEN''))),
      (''COLOR_RED'', Some (Num 0x4)),
      (''COLOR_MAGENTA'', Some (Or (Ref ''COLOR_RED'') (Ref ''COLOR_BLUE''))),
      (''COLOR_BROWN'', Some (Or (Ref ''COLOR_RED'') (Ref ''COLOR_GREEN''))),
      (''COLOR_LIGHTGRAY'', Some (Or (Or (Ref ''COLOR_RED'') (Ref ''COLOR_GREEN'')) (Ref ''COLOR_BLUE''))),
      (''COLOR_BRIGHT'', Some (Num 0x8)), (''COLOR_DARKGRAY'', Some (Ref ''COLOR_BRIGHT'')),
      (''COLOR_LIGHTBLUE'', Some (Or (Ref ''COLOR_BLUE'') (Ref ''COLOR_BRIGHT''))),
      (''COLOR_LIGHTGREEN'', Some (Or (Ref ''COLOR_GREEN'') (Ref ''COLOR_BRIGHT''))),
      (''COLOR_LIGHTCYAN'', Some (Or (Ref ''COLOR_CYAN'') (Ref ''COLOR_BRIGHT''))),
      (''COLOR_LIGHTRED'', Some (Or (Ref ''COLOR_RED'') (Ref ''COLOR_BRIGHT''))),
      (''COLOR_LIGHTMAGENTA'', Some (Or (Ref ''COLOR_MAGENTA'') (Ref ''COLOR_BRIGHT''))),
      (''COLOR_YELLOW'', Some (Or (Ref ''COLOR_BROWN'') (Ref ''COLOR_BRIGHT''))),
      (''COLOR_WHITE'', Some (Or (Ref ''COLOR_LIGHTGRAY'') (Ref ''COLOR_BRIGHT'')))]"

definition ResetType_enum :: "(string \<times> cexp option) list" where
  "ResetType_enum =
     [(''RESET_COLD'', None), (''RESET_WARM'', None), (''RESET_SHUTDOWN'', None)]"

definition TPL_enum :: "(string \<times> cexp option) list" where
  "TPL_enum =
     [(''TPL_APPLICATION'', Some (Num 4)), (''TPL_CALLBACK'', Some (Num 8)), (''TPL_NOTIFY'', Some (Num 16)),
      (''TPL_HIGH_LEVEL'', Some (Num 31))]"

definition MemoryType_enum :: "(string \<times> cexp option) list" where
  "MemoryType_enum =
     [(''MEMORY_TYPE_RESERVED'', None), (''MEMORY_TYPE_LOADER'', None), (''MEMORY_TYPE_DATA'', None),
      (''MEMORY_TYPE_BS_CODE'', None), (''MEMORY_TYPE_BS_DATA'', None), (''MEMORY_TYPE_RS_CODE'', None),
      (''MEMORY_TYPE_RS_DATA'', None), (''MEMORY_TYPE_CONVENTIONAL'', None),
      (''MEMORY_TYPE_UNUSABLE'', None), (''MEMORY_TYPE_ACPI_RECLAIM'', None),
      (''MEMORY_TYPE_ACPI_NVS'', None), (''MEMORY_TYPE_MAPPED_IO'', None),
      (''MEMORY_TYPE_MAPPED_IO_PORTSPACE'', None), (''MEMORY_TYPE_PAL_CODE'', None)]"

definition MemoryAttr_enum :: "(string \<times> cexp option) list" where
  "MemoryAttr_enum =
     [(''MEMORY_UC'', Some (Num 0x01)), (''MEMORY_WC'', Some (Num 0x02)), (''MEMORY_WT'', Some (Num 0x04)),
      (''MEMORY_WB'', Some (Num 0x08)), (''MEMORY_UCE'', Some (Num 0x10)),
      (''MEMORY_WP'', Some (Num 0x1000)), (''MEMORY_RP'', Some (Num 0x2000)),
      (''MEMORY_XP'', Some (Num 0x4000)), (''MEMORY_RUNTIME'', Some (Num 0x8000000000000000))]"

definition AllocateType_enum :: "(string \<times> cexp option) list" where
  "AllocateType_enum =
     [(''ALLOCATE_TYPE_ANY'', None), (''ALLOCATE_TYPE_MAX'', None), (''ALLOCATE_TYPE_ADDR'', None)]"

definition GraphicsPixelFormat_enum :: "(string \<times> cexp option) list" where
  "GraphicsPixelFormat_enum =
     [(''GRAPHICS_PIXEL_FORMAT_RGBX_8BPP'', None), (''GRAPHICS_PIXEL_FORMAT_BGRX_8BPP'', None),
      (''GRAPHICS_PIXEL_FORMAT_BITMASK'', None), (''GRAPHICS_PIXEL_FORMAT_BLTONLY'', None)]"

section \<open>Structures\<close>

text \<open>
  All of these are pointers to functions or data, integers, and enumerations of a fixed size;
  \<^verbatim>\<open>wchar_t\<close> has two bytes by the option \<^verbatim>\<open>-fshort-wchar\<close> of the build.
\<close>

definition GUID_t :: cty where
  "GUID_t = Struct False
     [(''Data1'', uint32_t), (''Data2'', uint16_t), (''Data3'', uint16_t), (''Data4'', uint16_t), (''Data5'', Bits 8 48)]"

definition TableHeader :: cty where
  "TableHeader = Struct False
     [(''Signature'', uint64_t), (''Revision'', uint32_t), (''HeaderSize'', uint32_t), (''CRC32'', uint32_t),
      (''Reserved'', uint32_t)]"

definition MemoryDescriptor :: cty where
  "MemoryDescriptor = Struct False
     [(''Type'', uint32_t), (''Pad'', uint32_t), (''PhysicalStart'', uint64_t), (''VirtualStart'', uint64_t),
      (''NumberOfPages'', uint64_t), (''Attribute'', uint64_t)]"

text \<open>
  \<^verbatim>\<open>PACKED\<close> is not a macro of the sources: behind the closing brace it is the name of a member, of the
  union the first time and of the class around it the second time, and packs nothing. The type of a
  bit-field of an enumeration without a fixed type is an unsigned integer of four bytes.
\<close>

definition TextAttr :: cty where
  "TextAttr = CUnion [(''PACKED'', Struct False [(''foreground'', Bits 4 4), (''background'', Bits 4 4)]), (''raw'', uint8_t)]"

definition SimpleTextOutputMode :: cty where
  "SimpleTextOutputMode = Struct False
     [(''MaxMode'', uint32_t), (''Mode'', uint32_t), (''Attribute'', uint32_t), (''CursorColumn'', uint32_t),
      (''CursorRow'', uint32_t), (''CursorVisible'', uint8_t)]"

definition Time :: cty where
  "Time = Struct False
     [(''Year'', uint16_t), (''month'', uint8_t), (''day'', uint8_t), (''hour'', uint8_t),
      (''minute'', uint8_t), (''second'', uint8_t), (''pad1'', uint8_t), (''nanosecond'', uint32_t),
      (''timezone'', uint16_t), (''daylight'', uint8_t), (''pad2'', uint8_t)]"

definition TimeCapabilities :: cty where
  "TimeCapabilities = Struct False
     [(''Resolution'', uint32_t), (''Accuracy'', uint32_t), (''SetsToZero'', uint8_t)]"

definition InputKey :: cty where
  "InputKey = Struct False
     [(''Scancode'', uint16_t), (''UnicodeChar'', uint16_t)]"

definition SimpleTextOutputInterface :: cty where
  "SimpleTextOutputInterface = Struct False
     [(''Reset'', pointer), (''OutputString'', pointer), (''TestString'', pointer), (''QueryMode'', pointer),
      (''SetMode'', pointer), (''SetAttribute'', pointer), (''ClearScreen'', pointer), (''SetCursorPosition'', pointer),
      (''EnableCursor'', pointer), (''Mode'', pointer)]"

definition SimpleInputInterface :: cty where
  "SimpleInputInterface = Struct False
     [(''Reset'', pointer), (''ReadKeyStroke'', pointer), (''WaitForKey'', pointer)]"

definition BootServicesTable :: cty where
  "BootServicesTable = Struct False
     [(''Hdr'', TableHeader), (''RaisePriority'', pointer), (''RestorePriority'', pointer), (''AllocatePages'', pointer),
      (''FreePages'', pointer), (''GetMemoryMap'', pointer), (''AllocatePool'', pointer), (''FreePool'', pointer),
      (''CreateEvent'', pointer), (''SetTimer'', pointer), (''WaitForEvent'', pointer), (''SignalEvent'', pointer),
      (''CloseEvent'', pointer), (''CheckEvent'', pointer), (''InstallProtocolInterface'', pointer),
      (''ReInstallProtocolInterface'', pointer), (''UnInstallProtocolInterface'', pointer),
      (''HandleProtocol'', pointer), (''PCHandleProtocol'', pointer), (''RegisterProtocolNotify'', pointer),
      (''LocateHandle'', pointer), (''LocateDevicePath'', pointer), (''InstallConfigurationTable'', pointer),
      (''ImageLoad'', pointer), (''ImageStart'', pointer), (''Exit'', pointer), (''ImageUnLoad'', pointer),
      (''ExitBootServices'', pointer), (''GetNextMonotonicCount'', pointer), (''Stall'', pointer),
      (''SetWatchdogTimer'', pointer), (''ConnectController'', pointer), (''DisConnectController'', pointer),
      (''OpenProtocol'', pointer), (''CloseProtocol'', pointer), (''OpenProtocolInformation'', pointer),
      (''ProtocolsPerHandle'', pointer), (''LocateHandleBuffer'', pointer), (''LocateProtocol'', pointer),
      (''InstallMultipleProtocolInterfaces'', pointer), (''UnInstallMultipleProtocolInterfaces'', pointer),
      (''CalculateCrc32'', pointer), (''CopyMem'', pointer), (''SetMem'', pointer), (''CreateEventEx'', pointer)]"

definition RuntimeServicesTable :: cty where
  "RuntimeServicesTable = Struct False
     [(''Hdr'', TableHeader), (''GetTime'', pointer), (''SetTime'', pointer), (''GetWakeUpTime'', pointer),
      (''SetWakeUpTime'', pointer), (''SetVirtualAddressMap'', pointer), (''ConvertPointer'', pointer),
      (''GetVariable'', pointer), (''GetNextVariableName'', pointer), (''SetVariable'', pointer),
      (''GetNextHighMonoCount'', pointer), (''ResetSystem'', pointer)]"

definition ConfigurationTable_t :: cty where
  "ConfigurationTable_t = Struct False
     [(''VendorGuid'', GUID_t), (''VendorTable'', pointer)]"

definition SystemTable_t :: cty where
  "SystemTable_t = Struct False
     [(''Hdr'', TableHeader), (''FirmwareVendor'', pointer), (''FirmwareRevision'', uint32_t),
      (''ConsoleInHandle'', pointer), (''ConIn'', pointer), (''ConsoleOutHandle'', pointer), (''ConOut'', pointer),
      (''StandardErrorHandle'', pointer), (''StdErr'', pointer), (''RuntimeServices'', pointer),
      (''BootServices'', pointer), (''NumberOfTableEntries'', uint64_t), (''ConfigurationTable'', pointer)]"

definition LoadedImage :: cty where
  "LoadedImage = Struct False
     [(''Revision'', uint32_t), (''ParentHandle'', pointer), (''SystemTable'', pointer), (''DeviceHandle'', pointer),
      (''FilePath'', pointer), (''Reserved'', pointer), (''LoadOptionsSize'', uint32_t), (''LoadOptions'', pointer),
      (''ImageBase'', pointer), (''ImageSize'', uint64_t), (''ImageCodeType'', uint32_t),
      (''ImageDataType'', uint32_t), (''Unload'', pointer)]"

definition PixelBitmask :: cty where
  "PixelBitmask = Struct False
     [(''RedMask'', uint32_t), (''GreenMask'', uint32_t), (''BlueMask'', uint32_t),
      (''ReservedMask'', uint32_t)]"

definition GraphicsOutputModeInformation :: cty where
  "GraphicsOutputModeInformation = Struct False
     [(''Version'', uint32_t), (''HorizontalResolution'', uint32_t), (''VerticalResolution'', uint32_t),
      (''PixelFormat'', uint32_t), (''PixelInformation'', PixelBitmask),
      (''PixelsPerScanLine'', uint32_t)]"

definition GraphicsOutputProtocolMode :: cty where
  "GraphicsOutputProtocolMode = Struct False
     [(''MaxMode'', uint32_t), (''Mode'', uint32_t), (''Info'', pointer), (''SizeOfInfo'', uint64_t),
      (''FrameBufferBase'', pointer), (''FrameBufferSize'', uint64_t)]"

definition GraphicsOutput :: cty where
  "GraphicsOutput = Struct False
     [(''QueryMode'', pointer), (''SetMode'', pointer), (''Blt'', pointer), (''Mode'', pointer)]"

definition Framebuffer :: cty where
  "Framebuffer = Struct False
     [(''base'', pointer), (''width'', uint64_t), (''height'', uint64_t), (''pixelFormat'', uint32_t)]"

section \<open>What the firmware says\<close>

record GUID =
  Data1 :: u32
  Data2 :: u16
  Data3 :: u16
  Data4 :: u16
  Data5 :: u64

definition GUID_eq :: "GUID \<Rightarrow> GUID \<Rightarrow> bool" where
  "GUID_eq a b \<longleftrightarrow> Data1 a = Data1 b \<and> Data2 a = Data2 b \<and> Data3 a = Data3 b \<and> Data4 a = Data4 b \<and> Data5 a = Data5 b"

definition GUID_ConfigTableACPI1 :: GUID where
  "GUID_ConfigTableACPI1 = \<lparr>Data1 = 0xEB9D2D30, Data2 = 0x2D88, Data3 = 0x11D3, Data4 = 0x169A, Data5 = 0x4DC13F279000\<rparr>"

definition GUID_ConfigTableACPI2 :: GUID where
  "GUID_ConfigTableACPI2 = \<lparr>Data1 = 0x8868E871, Data2 = 0xE4F1, Data3 = 0x11D3, Data4 = 0x22BC, Data5 = 0x81883CC78000\<rparr>"

definition GUID_LoadedImageProtocol :: GUID where
  "GUID_LoadedImageProtocol = \<lparr>Data1 = 0x5B1B31A1, Data2 = 0x9562, Data3 = 0x11D2, Data4 = 0x3F8E, Data5 = 0x3B7269C9A000\<rparr>"

definition GUID_GraphicsOutputProtocol :: GUID where
  "GUID_GraphicsOutputProtocol = \<lparr>Data1 = 0x9042A9DE, Data2 = 0x23DC, Data3 = 0x4A38, Data4 = 0xFB96, Data5 = 0x6A5180D0DE7A\<rparr>"

text \<open>An identifier in memory.\<close>

definition guid_at :: "mem \<Rightarrow> u64 \<Rightarrow> GUID" where
  "guid_at m p =
     \<lparr>Data1 = field32 m p GUID_t ''Data1'', Data2 = field16 m p GUID_t ''Data2'', Data3 = field16 m p GUID_t ''Data3'',
      Data4 = field16 m p GUID_t ''Data4'', Data5 = bitfield64 m p GUID_t ''Data5'' 48\<rparr>"

text \<open>The static fields of \<^verbatim>\<open>EFI\<close> that \<^verbatim>\<open>EFI::load\<close> sets; \<open>0\<close> is the null pointer.\<close>

record efi_info =
  efi_acpi1 :: u64
  efi_acpi2 :: u64
  fb_base :: u64
  fb_width :: u64
  fb_height :: u64
  fb_format :: u32

definition load_table :: "mem \<Rightarrow> u64 \<Rightarrow> efi_info \<Rightarrow> efi_info" where
  "load_table m tbl i =
     (let guid = guid_at m (tbl + of_nat (field_off ''VendorGuid'' ConfigurationTable_t));
          table = field64 m tbl ConfigurationTable_t ''VendorTable'';
          i = (if GUID_eq guid GUID_ConfigTableACPI1 then i\<lparr>efi_acpi1 := table\<rparr> else i)
      in if GUID_eq guid GUID_ConfigTableACPI2 then i\<lparr>efi_acpi2 := table\<rparr> else i)"

text \<open>
  \<open>st\<close>: the system table, or null. \<open>locate\<close> is what \<^verbatim>\<open>LocateProtocol\<close> of the firmware does: the interface
  it stores for an identifier, null when it stores none, and the memory it leaves.
\<close>

definition load_tables :: "mem \<Rightarrow> u64 \<Rightarrow> u64 \<Rightarrow> efi_info \<Rightarrow> efi_info" where
  "load_tables m tables n i =
     fold (\<lambda>k. load_table m (tables + of_nat k * struct_size ConfigurationTable_t)) [0..<unat n] i"

definition load_graphics :: "mem \<Rightarrow> u64 \<Rightarrow> efi_info \<Rightarrow> efi_info" where
  "load_graphics m output i =
     (let mode = field64 m output GraphicsOutput ''Mode'';
          info = field64 m mode GraphicsOutputProtocolMode ''Info''
      in i\<lparr>fb_base := field64 m mode GraphicsOutputProtocolMode ''FrameBufferBase'',
           fb_width := ucast (field32 m info GraphicsOutputModeInformation ''HorizontalResolution''),
           fb_height := ucast (field32 m info GraphicsOutputModeInformation ''VerticalResolution''),
           fb_format := field32 m info GraphicsOutputModeInformation ''PixelFormat''\<rparr>)"

definition efi_load :: "(GUID \<Rightarrow> mem \<Rightarrow> u64 \<times> mem) \<Rightarrow> mem \<Rightarrow> u64 \<Rightarrow> efi_info \<Rightarrow> efi_info" where
  "efi_load locate m st i =
     (if st = 0 then i
      else let tables = field64 m st SystemTable_t ''ConfigurationTable'';
               i = (if tables \<noteq> 0 then load_tables m tables (field64 m st SystemTable_t ''NumberOfTableEntries'') i else i);
               (output, m) = locate GUID_GraphicsOutputProtocol m
           in if output \<noteq> 0 then load_graphics m output i else i)"

definition getFramebuffer :: "efi_info \<Rightarrow> (u64 \<times> u64 \<times> u64) option" where
  "getFramebuffer i = (if fb_base i \<noteq> 0 then Some (fb_base i, fb_width i, fb_height i) else None)"

section \<open>Identifiers are their bytes\<close>

lemma guid_offsets [simp]:
  "field_off ''Data1'' GUID_t = 0" "field_off ''Data2'' GUID_t = 4" "field_off ''Data3'' GUID_t = 6"
  "field_off ''Data4'' GUID_t = 8" "bit_offset GUID_t ''Data5'' = 80"
  "field_off ''VendorGuid'' ConfigurationTable_t = 0" "field_off ''VendorTable'' ConfigurationTable_t = 16"
  "sizeof ConfigurationTable_t = 24"
  "field_off ''ConfigurationTable'' SystemTable_t = 112" "field_off ''NumberOfTableEntries'' SystemTable_t = 104"
  "field_off ''Mode'' GraphicsOutput = 24" "field_off ''Info'' GraphicsOutputProtocolMode = 8"
  "field_off ''FrameBufferBase'' GraphicsOutputProtocolMode = 24"
  "field_off ''HorizontalResolution'' GraphicsOutputModeInformation = 4"
  "field_off ''VerticalResolution'' GraphicsOutputModeInformation = 8"
  "field_off ''PixelFormat'' GraphicsOutputModeInformation = 12"
  by code_simp+

definition guid_bytes :: "GUID \<Rightarrow> u8 list" where
  "guid_bytes g =
     le 4 (ucast (Data1 g)) @ le 2 (ucast (Data2 g)) @ le 2 (ucast (Data3 g)) @ le 2 (ucast (Data4 g)) @ le 6 (Data5 g)"

lemma guid_tail: "bitfield64 m p GUID_t ''Data5'' 48 = un_le (map (\<lambda>i. m (p + 10 + of_nat i)) [0..<6])"
proof -
  let ?bs = "[m (p + 10), m (p + 11), m (p + 12), m (p + 13), m (p + 14), m (p + 15)]"
  have "drop_bit 8 (drop_bit 8 (un_le (m (p + 8) # m (p + 9) # ?bs))) = un_le ?bs"
    by (simp add: drop_un_le del: un_le.simps)
  then have "take_bit 48 (drop_bit 16 (un_le (m (p + 8) # m (p + 9) # ?bs))) = un_le ?bs"
    using take_un_le [of ?bs] by (simp del: un_le.simps)
  moreover have "map (\<lambda>i. m (p + 10 + of_nat i)) [0..<6] = ?bs" by (simp add: upt_rec add.assoc)
  ultimately show ?thesis by (simp add: bitfield64_def read64_un_le add.assoc del: un_le.simps)
qed

lemma guid_at_bytes:
  assumes "take_bit 48 (Data5 g) = Data5 g"
  shows "GUID_eq (guid_at m p) g \<longleftrightarrow> holds m p (guid_bytes g)"
proof -
  have "bitfield64 m p GUID_t ''Data5'' 48 = Data5 g \<longleftrightarrow> holds m (p + 10) (le 6 (Data5 g))"
    unfolding guid_tail using assms by (simp add: un_le_eq_iff [where n = 6] holds_map del: upt_Suc)
  then show ?thesis
    by (simp add: GUID_eq_def guid_at_def guid_bytes_def field16_def field32_def read16_eq_iff read32_eq_iff
      holds_append add.assoc)
qed

text \<open>The identifiers of the specification, as their sixteen bytes in memory.\<close>

definition acpi1_identifier :: "u8 list" where
  "acpi1_identifier = [0x30, 0x2D, 0x9D, 0xEB, 0x88, 0x2D, 0xD3, 0x11, 0x9A, 0x16, 0x00, 0x90, 0x27, 0x3F, 0xC1, 0x4D]"

definition acpi2_identifier :: "u8 list" where
  "acpi2_identifier = [0x71, 0xE8, 0x68, 0x88, 0xF1, 0xE4, 0xD3, 0x11, 0xBC, 0x22, 0x00, 0x80, 0xC7, 0x3C, 0x88, 0x81]"

definition loaded_image_identifier :: "u8 list" where
  "loaded_image_identifier =
     [0xA1, 0x31, 0x1B, 0x5B, 0x62, 0x95, 0xD2, 0x11, 0x8E, 0x3F, 0x00, 0xA0, 0xC9, 0x69, 0x72, 0x3B]"

definition graphics_output_identifier :: "u8 list" where
  "graphics_output_identifier =
     [0xDE, 0xA9, 0x42, 0x90, 0xDC, 0x23, 0x38, 0x4A, 0x96, 0xFB, 0x7A, 0xDE, 0xD0, 0x80, 0x51, 0x6A]"

lemma guid_bytes_values:
  "guid_bytes GUID_ConfigTableACPI1 = acpi1_identifier"
  "guid_bytes GUID_ConfigTableACPI2 = acpi2_identifier"
  "guid_bytes GUID_LoadedImageProtocol = loaded_image_identifier"
  "guid_bytes GUID_GraphicsOutputProtocol = graphics_output_identifier"
  by code_simp+

lemma guid_fits:
  "take_bit 48 (Data5 GUID_ConfigTableACPI1) = Data5 GUID_ConfigTableACPI1"
  "take_bit 48 (Data5 GUID_ConfigTableACPI2) = Data5 GUID_ConfigTableACPI2"
  by code_simp+

section \<open>Which tables are found\<close>

text \<open>The last of the entries with an identifier, or what was known before.\<close>

definition last_table :: "u8 list \<Rightarrow> mem \<Rightarrow> u64 \<Rightarrow> nat \<Rightarrow> u64 \<Rightarrow> u64" where
  "last_table guid m tables n old =
     (case filter (\<lambda>k. holds m (tables + of_nat k * 24) guid) [0..<n] of
        [] \<Rightarrow> old
      | ks \<Rightarrow> read64 m (tables + of_nat (last ks) * 24 + 16))"

lemma load_table_bytes:
  "load_table m t i = i\<lparr>efi_acpi1 := (if holds m t acpi1_identifier then read64 m (t + 16) else efi_acpi1 i),
     efi_acpi2 := (if holds m t acpi2_identifier then read64 m (t + 16) else efi_acpi2 i)\<rparr>"
  by (simp add: load_table_def Let_def guid_at_bytes guid_fits guid_bytes_values field64_def)

lemma last_table_Suc:
  "last_table guid m tables (Suc n) old =
     (if holds m (tables + of_nat n * 24) guid then read64 m (tables + of_nat n * 24 + 16)
      else last_table guid m tables n old)"
  by (cases "filter (\<lambda>k. holds m (tables + of_nat k * 24) guid) [0..<n]")
     (simp_all add: last_table_def)

lemma load_tables_last:
  "fold (\<lambda>k. load_table m (tables + of_nat k * 24)) [0..<n] i =
     i\<lparr>efi_acpi1 := last_table acpi1_identifier m tables n (efi_acpi1 i),
       efi_acpi2 := last_table acpi2_identifier m tables n (efi_acpi2 i)\<rparr>"
proof (induction n)
  case (Suc n)
  then show ?case by (simp add: load_table_bytes last_table_Suc)
qed (simp add: last_table_def)

text \<open>
  C34: EFI::load takes the addresses of the ACPI tables from the configuration table of the
  firmware: for each of the two identifiers the pointer of the last entry whose sixteen bytes
  are the identifier of the specification, and nothing when there is none; the frame buffer
  comes from the mode of the graphics output that the firmware locates, read at the offsets of
  the specification, and stays absent without one.
\<close>

theorem efi_load_finds:
  assumes "st \<noteq> 0" and "read64 m (st + 112) = tables" and "tables \<noteq> 0" and "read64 m (st + 104) = n"
    and "locate GUID_GraphicsOutputProtocol m = (output, m')"
    and "read64 m' (output + 24) = mode" and "read64 m' (mode + 8) = info"
  shows "efi_load locate m st i =
    (let i = i\<lparr>efi_acpi1 := last_table acpi1_identifier m tables (unat n) (efi_acpi1 i),
                efi_acpi2 := last_table acpi2_identifier m tables (unat n) (efi_acpi2 i)\<rparr>
     in if output = 0 then i
        else i\<lparr>fb_base := read64 m' (mode + 24), fb_width := ucast (read32 m' (info + 4)),
               fb_height := ucast (read32 m' (info + 8)), fb_format := read32 m' (info + 12)\<rparr>)"
  using assms by (simp add: efi_load_def Let_def load_graphics_def load_tables_def load_tables_last struct_size_def field64_def field32_def)

text \<open>
  A memory of the firmware: the system table at \<open>0x1000\<close> names two configuration tables at \<open>0x2000\<close>, of
  which the second is the ACPI 2.0 table at \<open>0xE0000\<close>; the graphics output at \<open>0x3000\<close> has its mode at
  \<open>0x4000\<close> and the description of the mode at \<open>0x5000\<close>.
\<close>

definition chunks_at :: "(u64 \<times> u8 list) list \<Rightarrow> mem" where
  "chunks_at chunks a =
     (case find (\<lambda>(b, bs). a - b < of_nat (length bs)) chunks of
        None \<Rightarrow> 0 | Some (b, bs) \<Rightarrow> bs ! unat (a - b))"

definition efi_demo :: mem where
  "efi_demo = chunks_at
     [(0x1068, le 8 2 @ le 8 0x2000), (0x2018, acpi2_identifier @ le 8 0xE0000), (0x3018, le 8 0x4000),
      (0x4008, le 8 0x5000), (0x4018, le 8 0x80000000), (0x5004, le 4 1024 @ le 4 768 @ le 4 1)]"

definition efi_nothing :: efi_info where
  "efi_nothing = \<lparr>efi_acpi1 = 0, efi_acpi2 = 0, fb_base = 0, fb_width = 0, fb_height = 0, fb_format = 0\<rparr>"

lemma efi_demo_reads:
  "read64 efi_demo 0x1070 = 0x2000" "read64 efi_demo 0x1068 = 2" "read64 efi_demo 0x3018 = 0x4000"
  "read64 efi_demo 0x4008 = 0x5000" "read64 efi_demo 0x4018 = 0x80000000" "read64 efi_demo 0x2028 = 0xE0000"
  "read32 efi_demo 0x5004 = 1024" "read32 efi_demo 0x5008 = 768" "read32 efi_demo 0x500C = 1"
  "last_table acpi1_identifier efi_demo 0x2000 2 0 = 0" "last_table acpi2_identifier efi_demo 0x2000 2 0 = 0xE0000"
  by code_simp+

theorem efi_load_finds_witness:
  "efi_load (\<lambda>g m. (0x3000, m)) efi_demo 0x1000 efi_nothing =
     \<lparr>efi_acpi1 = 0, efi_acpi2 = 0xE0000, fb_base = 0x80000000, fb_width = 1024, fb_height = 768, fb_format = 1\<rparr>"
  using efi_load_finds [of "0x1000" efi_demo "0x2000" 2 "\<lambda>g m. (0x3000, m)" "0x3000" efi_demo "0x4000" "0x5000" efi_nothing]
  by (simp add: efi_demo_reads efi_nothing_def)

section \<open>The tables of the specification\<close>

lemmas efi_structures =
  GUID_t_def TableHeader_def MemoryDescriptor_def Time_def InputKey_def SimpleTextOutputInterface_def
  BootServicesTable_def RuntimeServicesTable_def ConfigurationTable_t_def SystemTable_t_def LoadedImage_def
  PixelBitmask_def GraphicsOutputModeInformation_def GraphicsOutputProtocolMode_def GraphicsOutput_def

lemma efi_sizes:
  "map sizeof [GUID_t, TableHeader, MemoryDescriptor, Time, InputKey, SimpleTextOutputInterface, BootServicesTable,
     RuntimeServicesTable, ConfigurationTable_t, SystemTable_t, LoadedImage, GraphicsOutputModeInformation,
     GraphicsOutputProtocolMode, GraphicsOutput] = [16, 24, 40, 16, 4, 80, 376, 112, 24, 120, 96, 36, 40, 32]"
  by (simp add: layout_simps efi_structures)

lemma service_entries:
  "map snd (drop 6 (offsets BootServicesTable)) = map (\<lambda>k. 24 + 8 * k) [0..<44]"
  "map snd (drop 6 (offsets RuntimeServicesTable)) = map (\<lambda>k. 24 + 8 * k) [0..<11]"
  by (simp_all add: layout_simps BootServicesTable_def RuntimeServicesTable_def TableHeader_def upt_rec)

lemma service_offsets:
  "map (\<lambda>f. field_off f BootServicesTable)
     [''AllocatePages'', ''GetMemoryMap'', ''AllocatePool'', ''FreePool'', ''HandleProtocol'', ''ExitBootServices'', ''LocateProtocol'']
   = [40, 56, 64, 72, 152, 232, 320]"
  by (simp add: layout_simps BootServicesTable_def TableHeader_def)


text \<open>
  The two packed attributes of the union for text attributes do not pack: it has four bytes and a
  member called \<^verbatim>\<open>PACKED\<close>, where the firmware takes one byte of colours.
\<close>

theorem text_attr_not_packed:
  "sizeof TextAttr = 4 \<and> bit_offset TextAttr ''PACKED.background'' = 4
   \<and> sizeof (CUnion [(''colors'', Struct True [(''foreground'', Bits 4 4), (''background'', Bits 4 4)]), (''raw'', uint8_t)]) = 1"
  by code_simp

text \<open>
  The enumerations have the values of the specification: all error codes have the highest bit and
  count from one behind it, the other enumerations count from zero or are the bits listed here.
\<close>

theorem efi_enumerations:
  "enum_values Status_enum = zip (map fst Status_enum) (0 # map (\<lambda>k. 2 ^ 63 + k) [0..24])
   \<and> map snd (enum_values Color_enum) = [0, 1, 2, 3, 4, 5, 6, 7, 8, 8, 9, 10, 11, 12, 13, 14, 15]
   \<and> map snd (enum_values MemoryType_enum) = [0..13]
   \<and> map snd (enum_values MemoryAttr_enum) = [1, 2, 4, 8, 16, 2 ^ 12, 2 ^ 13, 2 ^ 14, 2 ^ 63]
   \<and> map snd (enum_values AllocateType_enum) = [0, 1, 2] \<and> map snd (enum_values ResetType_enum) = [0, 1, 2]
   \<and> map snd (enum_values GraphicsPixelFormat_enum) = [0, 1, 2, 3] \<and> map snd (enum_values TPL_enum) = [4, 8, 16, 31]"
  by code_simp

end
