(* ===== verification/Bootmem.thy ===== *)
theory Bootmem
  imports Pagetable Rand Efi "HOL-Library.Signed_Division"
begin

text \<open>
  The start of the memory system (\<^verbatim>\<open>src/pagetable/pagetable.cpp\<close>, \<^verbatim>\<open>Pagetable::init\<close> and what it calls):
  new page tables under a boot loader (\<^verbatim>\<open>initMB\<close>) or under EFI firmware (\<^verbatim>\<open>initEFI\<close>), the copy of the
  kernel to a random place with its pointer tables and return addresses relocated, and the memory map
  of the boot loader. Memory is the word-addressed \<open>cells\<close> of the page tables, so that the copy of the
  kernel, its pointer tables and the stack frames live in the same memory as the tables. The
  structures of the boot loader are bytes of a separate memory \<open>m\<close>. The firmware is a parameter.
\<close>

section \<open>Structures of the boot loader\<close>

definition Payload :: cty where
  "Payload = Struct True
     [(''flags'', uint32_t),
      (''mem'', Struct True [(''lower'', Bits 8 32), (''upper'', Bits 8 32)]),
      (''boot_device'', uint32_t),
      (''pcmdline'', Bits 8 32),
      (''mods'', Struct True [(''count'', uint32_t), (''paddr'', Bits 8 32)]),
      (''syms'', CUnion
        [(''aout'', Struct True [(''tabsize'', uint32_t), (''strsize'', uint32_t), (''addr'', uint32_t), (''rsvd'', uint32_t)]),
         (''elf'', Struct True [(''num'', uint32_t), (''size'', uint32_t), (''addr'', uint32_t), (''shndx'', uint32_t)])]),
      (''mmap'', Struct True [(''size'', Bits 8 32), (''paddr'', Bits 8 32)]),
      (''drives'', Struct True [(''size'', Bits 8 32), (''paddr'', Bits 8 32)]),
      (''pconfig_table'', Bits 8 32),
      (''pboot_loader_name'', Bits 8 32),
      (''papm_table'', Bits 8 32),
      (''vbe'', Struct True
        [(''pcontrol_info'', Bits 8 32), (''pmode_info'', Bits 8 32), (''mode'', uint16_t),
         (''interface_seg'', uint16_t), (''interface_off'', uint16_t), (''interface_len'', uint16_t)]),
      (''fb'', Struct True
        [(''paddr'', pointer), (''pitch'', uint32_t), (''width'', uint32_t), (''height'', uint32_t), (''bpp'', uint8_t),
         (''type'', uint8_t),
         ([], CUnion
           [(''palette'', Struct True [(''paddr'', uint32_t), (''num_colors'', uint16_t)]),
            (''rgb'', Struct True
              [(''red_field_position'', uint8_t), (''red_mask_size'', uint8_t), (''green_field_position'', uint8_t),
               (''green_mask_size'', uint8_t), (''blue_field_position'', uint8_t), (''blue_mask_size'', uint8_t)])])])]"

text \<open>The word \<^verbatim>\<open>PACKED\<close> behind this structure names a member of the class: it is not packed.\<close>

definition VBEInfo :: cty where
  "VBEInfo = Struct False
     [(''signature'', uint32_t), (''version'', uint16_t), (''vendor_string'', Bits 8 32), (''capabilities'', uint32_t),
      (''video_mode_ptr'', Bits 8 32), (''total_memory'', uint16_t), (''oem_software_rev'', uint16_t),
      (''oem_vendor_name_ptr'', Bits 8 32), (''oem_product_name_ptr'', Bits 8 32), (''oem_product_rev_ptr'', Bits 8 32),
      (''reserved'', Array 222 uint8_t), (''oem_data'', Array 256 uint8_t)]"

definition VBEModeInfo :: cty where
  "VBEModeInfo = Struct True
     [(''mode_attr'', uint16_t), (''win_attr'', Array 2 uint8_t), (''win_grain'', uint16_t), (''win_size'', uint16_t),
      (''win_seg'', Array 2 uint16_t), (''win_scheme'', Bits 8 32), (''logical_scan'', uint16_t), (''h_res'', uint16_t),
      (''v_res'', uint16_t), (''char_width'', uint8_t), (''char_height'', uint8_t), (''memory_planes'', uint8_t),
      (''bpp'', uint8_t), (''banks'', uint8_t), (''memory_layout'', uint8_t), (''bank_size'', uint8_t),
      (''image_pages'', uint8_t), (''page_function'', uint8_t), (''rmask'', uint8_t), (''rpos'', uint8_t),
      (''gmask'', uint8_t), (''gpos'', uint8_t), (''bmask'', uint8_t), (''bpos'', uint8_t), (''resv_mask'', uint8_t),
      (''resv_pos'', uint8_t), (''dcm_info'', uint8_t), (''lfb_ptr'', Bits 8 32), (''offscreen_ptr'', Bits 8 32),
      (''offscreen_size'', uint16_t), (''reserved'', Array 206 uint8_t)]"

definition MmapEnt :: cty where
  "MmapEnt = Struct True [(''size'', uint32_t), (''base'', pointer), (''length'', uint64_t), (''type'', uint32_t)]"

definition Module :: cty where
  "Module = Struct False [(''start'', uint32_t), (''end'', uint32_t)]"

definition Flags_enum :: "(string \<times> cexp option) list" where
  "Flags_enum =
     [(''FLAG_MEM'', Some (Shl (Num 1) (Num 0))), (''FLAG_BOOTDEV'', Some (Shl (Num 1) (Num 1))),
      (''FLAG_CMDLINE'', Some (Shl (Num 1) (Num 2))), (''FLAG_MODS'', Some (Shl (Num 1) (Num 3))),
      (''FLAG_SYMTAB'', Some (Shl (Num 1) (Num 4))), (''FLAG_ELFSYMTAB'', Some (Shl (Num 1) (Num 5))),
      (''FLAG_MEMMAP'', Some (Shl (Num 1) (Num 6))), (''FLAG_DRIVEMAP'', Some (Shl (Num 1) (Num 7))),
      (''FLAG_CONFTAB'', Some (Shl (Num 1) (Num 8))), (''FLAG_BLNAME'', Some (Shl (Num 1) (Num 9))),
      (''FLAG_APMTAB'', Some (Shl (Num 1) (Num 10))), (''FLAG_VBETAB'', Some (Shl (Num 1) (Num 11))),
      (''FLAG_FBTAB'', Some (Shl (Num 1) (Num 12)))]"

definition Multiboot_MemoryType_enum :: "(string \<times> cexp option) list" where
  "Multiboot_MemoryType_enum =
     [(''MEMORY_AVAILABLE'', Some (Num 1)), (''MEMORY_RESERVED'', Some (Num 2)), (''MEMORY_ACPI_RECLAIMABLE'', Some (Num 3)),
      (''MEMORY_NVS'', Some (Num 4)), (''MEMORY_BADRAM'', Some (Num 5))]"

definition FramebufferType_enum :: "(string \<times> cexp option) list" where
  "FramebufferType_enum =
     [(''FRAMEBUFFER_TYPE_INDEXED'', Some (Num 0)), (''FRAMEBUFFER_TYPE_RGB'', Some (Num 1)),
      (''FRAMEBUFFER_TYPE_EGA_TEXT'', Some (Num 2))]"

section \<open>Relocating the copy of the kernel\<close>

text \<open>
  Where the sections are: the symbols of the linker, which are constants of the program, also behind
  the jump to the copy of the kernel.
\<close>

record image =
  text_start :: u64
  text_end :: u64
  rodata_start :: u64
  rodata_end :: u64
  data_start :: u64
  bss_end :: u64
  vtable_start :: u64
  vtable_end :: u64

text \<open>\<^verbatim>\<open>kernreloc / 8\<close> is a signed division of a byte distance, used as a distance in words.\<close>

definition word_distance :: "u64 \<Rightarrow> u64" where
  "word_distance kernreloc = 8 * word_of_int (sint kernreloc sdiv 8)"

partial_function (option) vtable_loop :: "image \<Rightarrow> u64 \<Rightarrow> u64 \<Rightarrow> (u64 \<Rightarrow> u64) \<Rightarrow> (u64 \<Rightarrow> u64) option" where
  "vtable_loop k kernreloc p c =
     (if p < vtable_end k
      then vtable_loop k kernreloc (p + 8)
        (if c p < text_start k \<or> bss_end k < c p then c else c(p + word_distance kernreloc := c p + kernreloc))
      else Some c)"

definition newkern_reloc :: "image \<Rightarrow> u64 \<Rightarrow> (u64 \<Rightarrow> u64) \<Rightarrow> (u64 \<Rightarrow> u64) option" where
  "newkern_reloc k kernbase c = vtable_loop k (kernbase - text_start k) (vtable_start k) c"

text \<open>The saved frame pointers lead from frame to frame; the return address is the next word.\<close>

partial_function (option) newkern_relocstack :: "u64 \<Rightarrow> u64 \<Rightarrow> (u64 \<Rightarrow> u64) \<Rightarrow> (u64 \<Rightarrow> u64) option" where
  "newkern_relocstack kernreloc frame c =
     (if frame \<noteq> 0
      then let c = c(frame + 8 := c (frame + 8) + kernreloc)
           in newkern_relocstack kernreloc (c frame) c
      else Some c)"

fun copy_words :: "nat \<Rightarrow> u64 \<Rightarrow> u64 \<Rightarrow> (u64 \<Rightarrow> u64) \<Rightarrow> (u64 \<Rightarrow> u64)" where
  "copy_words 0 dst src c = c"
| "copy_words (Suc n) dst src c = copy_words n (dst + 8) (src + 8) (c(dst := c src))"

section \<open>Tables under a boot loader\<close>

definition pdpe_num :: nat where "pdpe_num = 64"

definition ptsz :: u64 where
  "ptsz = of_nat ((3 + pdpe_num + rsvd_num) * 0x1000)"

text \<open>The ring of reserved pages and the first three levels, for the first 128 megabytes.\<close>

definition mb_tables :: "u64 \<Rightarrow> ptstate \<Rightarrow> ptstate" where
  "mb_tables ptbase s =
     (let s = s\<lparr>rsvd_pages := map (\<lambda>i. ptbase + of_nat ((3 + pdpe_num + i) * 0x1000)) [0..<rsvd_num],
                 rsvd_w := rsvd_num - 1\<rparr>;
          s = zero_cells ptbase ptsz s;
          s = set_cell ptbase (Entry (ptbase + 0x1000) 0 TABLE) s;
          pde = getUintPtr (cells s ptbase);
          s = set_cell pde (Entry (ptbase + 0x2000) 0 TABLE) s;
          pdpe = getUintPtr (cells s pde)
      in fold (\<lambda>i. set_cell (slot pdpe (of_nat i)) (Entry (ptbase + of_nat ((3 + i) * 0x1000)) 0 TABLE)) [0..<pdpe_num] s)"

text \<open>The bounds of the random page number for the kernel.\<close>

definition mb_kernel_range :: "u64 \<Rightarrow> u64 \<Rightarrow> u64 \<times> u64" where
  "mb_kernel_range ptbase kernsz =
     (drop_bit 12 (ptbase + of_nat (3 + pdpe_num)), 0x8000 - (kernsz + 0x80000 + 0xFFF) div 0x1000)"

definition initMB ::
    "nat \<Rightarrow> image \<Rightarrow> u64 \<Rightarrow> u64 \<Rightarrow> u64 \<Rightarrow> ptstate \<Rightarrow> (u64 \<times> u64 \<times> u64 \<times> ptstate) option" where
  "initMB fuel k cr3 rsp seed s = do {
     let kernsz = bss_end k - text_start k;
     e \<leftarrow> find_entry (cells s) 0 cr3;
     let s = set_cell e (cells s e AND NOT 1) s;
     (r, seed) \<leftarrow> get_range 0x800 (0x8000 - of_nat (3 + pdpe_num + rsvd_num)) seed;
     let ptbase = push_bit 12 r;
     let s = mb_tables ptbase s;
     s \<leftarrow> map_range fuel ptbase (ptbase + ptsz) TABLE ptbase s;
     s \<leftarrow> map_range fuel 0x9F000 0x100000 DATA_RO ptbase s;
     s \<leftarrow> map_range fuel 0xF00000 0x1000000 DATA_RO ptbase s;
     let rsp = (rsp + 0xFFF) AND NOT 0xFFF;
     s \<leftarrow> map_range fuel (rsp - 0x1000) rsp DATA_RW ptbase s;
     (r, seed) \<leftarrow> get_range (fst (mb_kernel_range ptbase kernsz)) (snd (mb_kernel_range ptbase kernsz)) seed;
     let newbase = push_bit 12 r;
     Some (ptbase, newbase, seed,
           s\<lparr>cells := copy_words (unat (drop_bit 3 (kernsz + 0x80000))) newbase (text_start k) (cells s)\<rparr>)
   }"

section \<open>Tables under EFI firmware\<close>

text \<open>
  A descriptor of the memory map. The firmware is a record of functions on its own state: the memory
  map, the buffer for it taken from and given back to the pool, pages at a given address or anywhere,
  and the end of the boot services.
\<close>

record descriptor =
  d_type :: u32
  d_start :: u64
  d_pages :: u64

record 'f firmware =
  fw_map :: "'f \<Rightarrow> descriptor list"
  fw_pool :: "'f \<Rightarrow> 'f"
  fw_free_pool :: "'f \<Rightarrow> 'f"
  fw_pages :: "u64 option \<Rightarrow> nat \<Rightarrow> 'f \<Rightarrow> u64 \<times> 'f"
  fw_exit :: "'f \<Rightarrow> 'f"

definition MEMORY_TYPE_RESERVED :: u32 where "MEMORY_TYPE_RESERVED = 0"
definition MEMORY_TYPE_BS_CODE :: u32 where "MEMORY_TYPE_BS_CODE = 3"
definition MEMORY_TYPE_BS_DATA :: u32 where "MEMORY_TYPE_BS_DATA = 4"
definition MEMORY_TYPE_RS_CODE :: u32 where "MEMORY_TYPE_RS_CODE = 5"
definition MEMORY_TYPE_RS_DATA :: u32 where "MEMORY_TYPE_RS_DATA = 6"
definition MEMORY_TYPE_CONVENTIONAL :: u32 where "MEMORY_TYPE_CONVENTIONAL = 7"
definition MEMORY_TYPE_ACPI_RECLAIM :: u32 where "MEMORY_TYPE_ACPI_RECLAIM = 9"
definition MEMORY_TYPE_ACPI_NVS :: u32 where "MEMORY_TYPE_ACPI_NVS = 10"
definition MEMORY_TYPE_MAPPED_IO :: u32 where "MEMORY_TYPE_MAPPED_IO = 11"
definition MEMORY_TYPE_MAPPED_IO_PORTSPACE :: u32 where "MEMORY_TYPE_MAPPED_IO_PORTSPACE = 12"

text \<open>The memory map as it is between taking the buffer and giving it back.\<close>

definition get_map :: "'f firmware \<Rightarrow> 'f \<Rightarrow> descriptor list \<times> 'f" where
  "get_map fw f = (let f = fw_pool fw f in (fw_map fw f, fw_free_pool fw f))"

text \<open>The search of \<^verbatim>\<open>efiAllocatePages\<close>; \<open>0\<close> is the null pointer.\<close>

fun efi_candidate :: "u64 \<Rightarrow> u64 \<Rightarrow> descriptor list \<Rightarrow> u64" where
  "efi_candidate mn count [] = 0"
| "efi_candidate mn count (e # es) =
     (if d_type e \<noteq> MEMORY_TYPE_CONVENTIONAL then efi_candidate mn count es
      else let hi = d_start e + d_pages e * 0x1000
      in if hi \<le> mn then efi_candidate mn count es
      else let beg = (if d_start e < mn then mn else d_start e)
      in if hi - beg \<le> count * 0x1000 then efi_candidate mn count es
      else beg)"

definition efiAllocatePages ::
    "'f firmware \<Rightarrow> u64 \<Rightarrow> nat \<Rightarrow> 'f \<times> ptstate \<Rightarrow> u64 \<times> 'f \<times> ptstate" where
  "efiAllocatePages fw mn count st =
     (let (es, f) = get_map fw (fst st);
          ptr = efi_candidate mn (of_nat count) es;
          (ptr, f) = fw_pages fw (if ptr \<noteq> 0 then Some ptr else None) count f
      in (ptr, f, zero_cells ptr (of_nat count * 0x1000) (snd st)))"

text \<open>
  A missing table is allocated, entered, and mapped by the function itself; \<open>n\<close> bounds that recursion.
\<close>

fun efiMapPage :: "nat \<Rightarrow> 'f firmware \<Rightarrow> u64 \<Rightarrow> u64 \<Rightarrow> u8 \<Rightarrow> 'f \<times> ptstate \<Rightarrow> ('f \<times> ptstate) option" where
  "efiMapPage 0 fw pagetable page type st = None"
| "efiMapPage (Suc n) fw pagetable page type st = do {
     let need = (\<lambda>e st. if present (cells (snd st) e) then Some st
                  else let (t, f, s) = efiAllocatePages fw pagetable 1 st;
                           s = set_cell e (Entry t 0 TABLE) s
                       in efiMapPage n fw pagetable (getUintPtr (cells s e)) TABLE (f, s));
     let pte = slot pagetable (drop_bit (12 + 9 * 3) page AND 0x1FF);
     st \<leftarrow> need pte st;
     let pde = slot (getUintPtr (cells (snd st) pte)) (drop_bit (12 + 9 * 2) page AND 0x1FF);
     st \<leftarrow> need pde st;
     let pdpe = slot (getUintPtr (cells (snd st) pde)) (drop_bit (12 + 9) page AND 0x1FF);
     st \<leftarrow> need pdpe st;
     let pml4e = slot (getUintPtr (cells (snd st) pdpe)) (drop_bit 12 page AND 0x1FF);
     Some (fst st, set_cell pml4e (Entry page 0 type) (snd st))
   }"

partial_function (option) efi_fill_loop ::
    "nat \<Rightarrow> 'f firmware \<Rightarrow> u64 \<Rightarrow> u64 \<Rightarrow> u64 \<Rightarrow> u8 \<Rightarrow> 'f \<times> ptstate \<Rightarrow> ('f \<times> ptstate) option" where
  "efi_fill_loop n fw low hi pagetable type st =
     (if low < hi
      then Option.bind (efiMapPage n fw pagetable low type st) (efi_fill_loop n fw (low + 0x1000) hi pagetable type)
      else Some st)"

definition fillPagesEfi :: "nat \<Rightarrow> 'f firmware \<Rightarrow> u64 \<Rightarrow> u64 \<Rightarrow> u64 \<Rightarrow> u8 \<Rightarrow> 'f \<times> ptstate \<Rightarrow> ('f \<times> ptstate) option" where
  "fillPagesEfi n fw low hi pagetable type st =
     efi_fill_loop n fw (low AND NOT 0xFFF) ((hi + 0xFFF) AND NOT 0xFFF) pagetable type st"

text \<open>The highest page of the memory map, and how a region of a type is mapped.\<close>

definition efi_max_page :: "descriptor list \<Rightarrow> u64" where
  "efi_max_page es = fold (\<lambda>e mp. let enttop = drop_bit 12 (d_start e) + d_pages e in if mp < enttop then enttop else mp) es 0"

definition efi_region_type :: "u32 \<Rightarrow> u8 option" where
  "efi_region_type t =
     (if t = MEMORY_TYPE_BS_CODE \<or> t = MEMORY_TYPE_RS_CODE then Some CODE_RX
      else if t = MEMORY_TYPE_BS_DATA \<or> t = MEMORY_TYPE_RS_DATA
        \<or> t = MEMORY_TYPE_RESERVED \<or> t = MEMORY_TYPE_ACPI_RECLAIM \<or> t = MEMORY_TYPE_ACPI_NVS
        \<or> t = MEMORY_TYPE_MAPPED_IO \<or> t = MEMORY_TYPE_MAPPED_IO_PORTSPACE then Some DATA_RO
      else None)"

fun efi_regions :: "nat \<Rightarrow> 'f firmware \<Rightarrow> u64 \<Rightarrow> descriptor list \<Rightarrow> 'f \<times> ptstate \<Rightarrow> ('f \<times> ptstate) option" where
  "efi_regions n fw pagetable [] st = Some st"
| "efi_regions n fw pagetable (e # es) st = do {
     st \<leftarrow> (case efi_region_type (d_type e) of
             None \<Rightarrow> Some st
           | Some type \<Rightarrow> fillPagesEfi n fw (d_start e) (d_start e + push_bit 12 (d_pages e)) pagetable type st);
     efi_regions n fw pagetable es st
   }"

fun efi_map_all :: "nat \<Rightarrow> 'f firmware \<Rightarrow> u64 \<Rightarrow> (u64 \<times> u8) list \<Rightarrow> 'f \<times> ptstate \<Rightarrow> ('f \<times> ptstate) option" where
  "efi_map_all n fw pagetable [] st = Some st"
| "efi_map_all n fw pagetable ((page, type) # ps) st =
     Option.bind (efiMapPage n fw pagetable page type st) (efi_map_all n fw pagetable ps)"

text \<open>\<open>gdt\<close>: the address of the descriptor table; \<open>fb\<close>: base, width and height of the frame buffer.\<close>

definition initEFI ::
    "nat \<Rightarrow> 'f firmware \<Rightarrow> image \<Rightarrow> u64 \<Rightarrow> u64 \<Rightarrow> (u64 \<times> u64 \<times> u64) option \<Rightarrow> u64 \<Rightarrow> 'f \<times> ptstate
      \<Rightarrow> (u64 \<times> u64 \<times> u64 \<times> 'f \<times> ptstate) option" where
  "initEFI n fw k rsp gdt fb seed st = do {
     let kernsz = bss_end k - text_start k;
     let (es, f) = get_map fw (fst st);
     let s = (snd st)\<lparr>max_page := efi_max_page es\<rparr>;
     (r, seed) \<leftarrow> get_range 0x100 (max_page s) seed;
     let (newpt, f, s) = efiAllocatePages fw (push_bit 12 r) 1 (f, s);
     let f = fw_pool fw f;
     (f, s) \<leftarrow> efi_regions n fw newpt (fw_map fw f) (f, s);
     let f = fw_free_pool fw f;
     st \<leftarrow> efi_map_all n fw newpt
             [(0, NULLPAGE), (newpt, TABLE), (rsp, DATA_RW), (rsp - 0x1000, DATA_RW), (gdt, DATA_RO)] (f, s);
     let (page, f) = fw_pages fw None rsvd_num (fst st);
     let s = zero_cells page (of_nat rsvd_num * 0x1000) (snd st);
     let s = s\<lparr>rsvd_pages := map (\<lambda>i. page + of_nat i * 0x1000) [0..<rsvd_num]\<rparr>;
     (f, s) \<leftarrow> efi_map_all n fw newpt (map (\<lambda>p. (p, TABLE)) (rsvd_pages s)) (f, s);
     let s = s\<lparr>rsvd_w := rsvd_num - 1\<rparr>;
     (f, s) \<leftarrow> (case fb of
                  Some (base, width, height) \<Rightarrow>
                    if base \<noteq> 0 then fillPagesEfi n fw base (base + width * height * 4) newpt DATA_RW (f, s) else Some (f, s)
                | None \<Rightarrow> Some (f, s));
     (r, seed) \<leftarrow> get_range 0x100 (max_page s - (kernsz + 0xFFF) div 0x1000 - 1) seed;
     let (newbase, f, s) = efiAllocatePages fw (push_bit 12 r) (unat ((kernsz + 0xFFF) div 0x1000)) (f, s);
     let s = s\<lparr>cells := copy_words (unat (drop_bit 3 kernsz)) newbase (text_start k) (cells s)\<rparr>;
     Some (newpt, newbase, seed, fw_exit fw f, s)
   }"

section \<open>What the boot loader says\<close>

text \<open>
  Addresses below 0x80000 were valid before the kernel moved itself: the low memory is behind the end
  of the kernel now, and the field of the payload is changed accordingly.
\<close>

definition fix_low :: "image \<Rightarrow> u64 \<Rightarrow> string \<Rightarrow> mem \<Rightarrow> mem" where
  "fix_low k multiboot f m =
     (let v = field32 m multiboot Payload f
      in if v < 0x80000 then put_field32 multiboot Payload f (ucast (bss_end k + ucast v)) m else m)"

fun mods_loop :: "nat \<Rightarrow> mem \<Rightarrow> u64 \<Rightarrow> nat \<Rightarrow> u64 \<Rightarrow> ptstate \<Rightarrow> ptstate option" where
  "mods_loop fuel m newpt 0 p s = Some s"
| "mods_loop fuel m newpt (Suc n) p s = do {
     let low = ucast (field32 m p Module ''start'');
     let hi = ucast (field32 m p Module ''end'' + 0xFFF) AND NOT 0xFFF;
     s \<leftarrow> map_range fuel low hi DATA_RW newpt s;
     mods_loop fuel m newpt n (p + struct_size Module) s
   }"

text \<open>One entry of the memory map: what it describes is mapped, or counts as memory.\<close>

definition mmap_entry :: "nat \<Rightarrow> mem \<Rightarrow> u64 \<Rightarrow> u64 \<Rightarrow> ptstate \<Rightarrow> ptstate option" where
  "mmap_entry fuel m newpt ent s = do {
     s \<leftarrow> map_range fuel ent (ent + struct_size MmapEnt) DATA_RO newpt s;
     let low = field64 m ent MmapEnt ''base'' AND 0xFFFFFFFFFFFFF000;
     let hi = (field64 m ent MmapEnt ''base'' + field64 m ent MmapEnt ''length'' + 0xFFF) AND NOT 0xFFF;
     if field32 m ent MmapEnt ''type'' \<noteq> 1 then map_range fuel low hi DATA_RO newpt s
     else Some (if max_page s < drop_bit 12 hi then s\<lparr>max_page := drop_bit 12 hi\<rparr> else s)
   }"

partial_function (option) mmap_loop :: "nat \<Rightarrow> mem \<Rightarrow> u64 \<Rightarrow> u64 \<Rightarrow> u64 \<Rightarrow> ptstate \<Rightarrow> ptstate option" where
  "mmap_loop fuel m newpt mmap mmap_top s =
     (if mmap < mmap_top
      then Option.bind (mmap_entry fuel m newpt mmap s)
             (mmap_loop fuel m newpt (mmap + (ucast (field32 m mmap MmapEnt ''size'') + 4)) mmap_top)
      else Some s)"

definition FLAG_MEM :: u32 where "FLAG_MEM = 1"
definition FLAG_CMDLINE :: u32 where "FLAG_CMDLINE = 4"
definition FLAG_MODS :: u32 where "FLAG_MODS = 8"
definition FLAG_MEMMAP :: u32 where "FLAG_MEMMAP = 0x40"
definition FLAG_VBETAB :: u32 where "FLAG_VBETAB = 0x800"

definition mb_cmdline :: "nat \<Rightarrow> image \<Rightarrow> u64 \<Rightarrow> u64 \<Rightarrow> mem \<times> ptstate \<Rightarrow> (mem \<times> ptstate) option" where
  "mb_cmdline fuel k multiboot newpt st = do {
     let m = fix_low k multiboot ''pcmdline'' (fst st);
     let p = ucast (field32 m multiboot Payload ''pcmdline'');
     s \<leftarrow> map_range fuel p (p + 0x1000) DATA_RW newpt (snd st);
     Some (m, s)
   }"

definition mb_mods :: "nat \<Rightarrow> image \<Rightarrow> u64 \<Rightarrow> u64 \<Rightarrow> mem \<times> ptstate \<Rightarrow> (mem \<times> ptstate) option" where
  "mb_mods fuel k multiboot newpt st = do {
     let m = fix_low k multiboot ''mods.paddr'' (fst st);
     let paddr = (ucast (field32 m multiboot Payload ''mods.paddr'') :: u64);
     let n = field32 m multiboot Payload ''mods.count'';
     let low = paddr AND 0xFFFFFFFFFFFFF000;
     let hi = (paddr + ucast n * struct_size Module + 0xFFF) AND NOT 0xFFF;
     s \<leftarrow> map_range fuel low hi DATA_RW newpt (snd st);
     s \<leftarrow> mods_loop fuel m newpt (unat n) paddr s;
     Some (m, s)
   }"

definition mb_memmap :: "nat \<Rightarrow> image \<Rightarrow> u64 \<Rightarrow> u64 \<Rightarrow> mem \<times> ptstate \<Rightarrow> (mem \<times> ptstate) option" where
  "mb_memmap fuel k multiboot newpt st = do {
     let m = fix_low k multiboot ''mmap.paddr'' (fst st);
     let s = (snd st)\<lparr>max_page := 0\<rparr>;
     let mmap = ucast (field32 m multiboot Payload ''mmap.paddr'');
     s \<leftarrow> mmap_loop fuel m newpt mmap (mmap + ucast (field32 m multiboot Payload ''mmap.size'')) s;
     Some (m, s)
   }"

definition mb_vbe :: "nat \<Rightarrow> image \<Rightarrow> u64 \<Rightarrow> u64 \<Rightarrow> mem \<times> ptstate \<Rightarrow> (mem \<times> ptstate) option" where
  "mb_vbe fuel k multiboot newpt st = do {
     let m = fix_low k multiboot ''vbe.pcontrol_info'' (fst st);
     let m = fix_low k multiboot ''vbe.pmode_info'' m;
     let vbe = ucast (field32 m multiboot Payload ''vbe.pcontrol_info'');
     s \<leftarrow> map_range fuel vbe (vbe + struct_size VBEInfo) DATA_RO newpt (snd st);
     let vendor = ucast (field32 m vbe VBEInfo ''vendor_string'');
     s \<leftarrow> map_range fuel vendor (vendor + 1) DATA_RO newpt s;
     let mode = ucast (field32 m multiboot Payload ''vbe.pmode_info'');
     s \<leftarrow> map_range fuel mode (mode + struct_size VBEModeInfo) DATA_RO newpt s;
     Some (m, s)
   }"

definition init_multiboot :: "nat \<Rightarrow> image \<Rightarrow> u64 \<Rightarrow> u64 \<Rightarrow> mem \<times> ptstate \<Rightarrow> (mem \<times> ptstate) option" where
  "init_multiboot fuel k multiboot newpt st = do {
     let has = (\<lambda>m flag. field32 m multiboot Payload ''flags'' AND flag \<noteq> 0);
     s \<leftarrow> map_range fuel multiboot (multiboot + struct_size Payload) DATA_RW newpt (snd st);
     let s = (if has (fst st) FLAG_MEM
              then s\<lparr>max_page := drop_bit 12 (ucast (field32 (fst st) multiboot Payload ''mem.upper'') * 1024 + 0x100000)\<rparr> else s);
     st \<leftarrow> (if has (fst st) FLAG_CMDLINE then mb_cmdline fuel k multiboot newpt (fst st, s) else Some (fst st, s));
     st \<leftarrow> (if has (fst st) FLAG_MODS then mb_mods fuel k multiboot newpt st else Some st);
     st \<leftarrow> (if has (fst st) FLAG_MEMMAP then mb_memmap fuel k multiboot newpt st else Some st);
     if has (fst st) FLAG_VBETAB then mb_vbe fuel k multiboot newpt st else Some st
   }"

section \<open>Initialisation\<close>

text \<open>
  \<^verbatim>\<open>Pagetable::init\<close>. \<open>efi\<close> is the firmware with its state and frame buffer when there is one, \<open>multiboot\<close>
  the payload or 0; \<open>cr3\<close>, \<open>rsp\<close>, \<open>rbp\<close> and \<open>gdt\<close> are what the registers hold. The sections of the copy are
  mapped where they are now; the text is \<open>newbase - text_start\<close> away from where the linker put it.
\<close>

definition pagetable_init ::
    "nat \<Rightarrow> ('f firmware \<times> 'f \<times> (u64 \<times> u64 \<times> u64) option) option \<Rightarrow> u64 \<Rightarrow> image \<Rightarrow> u64 \<Rightarrow> u64 \<Rightarrow> u64 \<Rightarrow> u64 \<Rightarrow> u64
      \<Rightarrow> mem \<times> ptstate \<Rightarrow> (u64 \<times> u64 \<times> mem \<times> ptstate) option" where
  "pagetable_init fuel efi multiboot k cr3 rsp rbp gdt seed st = do {
     (newpt, newbase, s) \<leftarrow>
       (case efi of
          Some (fw, f, fb) \<Rightarrow> map_option (\<lambda>(newpt, newbase, _, _, s). (newpt, newbase, s))
            (initEFI fuel fw k rsp gdt fb seed (f, snd st))
        | None \<Rightarrow> map_option (\<lambda>(newpt, newbase, _, s). (newpt, newbase, s)) (initMB fuel k cr3 rsp seed (snd st)));
     c \<leftarrow> newkern_reloc k newbase (cells s);
     let s = s\<lparr>cells := c\<rparr>;
     let kernreloc = newbase - text_start k;
     s \<leftarrow> map_range fuel (text_start k + kernreloc) (text_end k + kernreloc) CODE_RX newpt s;
     s \<leftarrow> map_range fuel (rodata_start k + kernreloc) (rodata_end k + kernreloc) DATA_RO newpt s;
     s \<leftarrow> map_range fuel (data_start k + kernreloc) (bss_end k + 0x80000 + kernreloc) DATA_RW newpt s;
     c \<leftarrow> newkern_relocstack kernreloc rbp (cells s);
     let s = s\<lparr>cells := c\<rparr>;
     (m, s) \<leftarrow> (if multiboot \<noteq> 0 then init_multiboot fuel k multiboot newpt (fst st, s) else Some (fst st, s));
     let s = (if max_page s = 0 then s\<lparr>max_page := 0xFFFFFFFFF\<rparr> else s);
     s \<leftarrow> renewRsvd fuel newpt s;
     Some (newpt, newbase, m, s)
   }"

section \<open>Return addresses\<close>

text \<open>The frames of the stack, from the innermost to the one whose saved pointer is null.\<close>

fun frame_chain :: "(u64 \<Rightarrow> u64) \<Rightarrow> u64 \<Rightarrow> u64 list \<Rightarrow> bool" where
  "frame_chain c a [] \<longleftrightarrow> a = 0"
| "frame_chain c a (f # fs) \<longleftrightarrow> a = f \<and> f \<noteq> 0 \<and> frame_chain c (c f) fs"

lemma frame_chain_cong:
  "(\<And>f. f \<in> set fs \<Longrightarrow> c' f = c f) \<Longrightarrow> frame_chain c' a fs = frame_chain c a fs"
  by (induction fs arbitrary: a) auto



section \<open>Pointer tables\<close>

definition in_image :: "image \<Rightarrow> u64 \<Rightarrow> bool" where
  "in_image k v \<longleftrightarrow> text_start k \<le> v \<and> v \<le> bss_end k"

lemma vtable_loop_words:
  assumes "vtable_end k = p + 8 * of_nat n" and "unat p + 8 * n < 2 ^ 64"
    and "\<And>i j. i < n \<Longrightarrow> j < n \<Longrightarrow> p + 8 * of_nat i + d \<noteq> p + 8 * of_nat j"
    and "word_distance r = d"
  shows "vtable_loop k r p c = Some (\<lambda>a. if \<exists>i < n. a = p + 8 * of_nat i + d \<and> in_image k (c (a - d)) then c (a - d) + r else c a)"
  using assms
proof (induction n arbitrary: p c)
  case 0
  then show ?case by (subst vtable_loop.simps) (simp add: fun_eq_iff)
next
  case (Suc n)
  let ?c = "if in_image k (c p) then c(p + d := c p + r) else c"
  have w: "8 * of_nat i = (of_nat (8 * i) :: u64)" for i by simp
  have o: "unat (of_nat (8 * i) :: u64) = 8 * i" if "i \<le> Suc n" for i
    using Suc.prems(2) that by (intro unat_of_nat_u64) simp
  have u: "unat (p + 8 * of_nat (Suc n)) = unat p + 8 * Suc n"
    using Suc.prems(2) unat_add_u64 [of p "of_nat (8 * Suc n)"] o [of "Suc n"] by (simp only: w) simp
  have lt: "p < vtable_end k" unfolding Suc.prems(1) by (simp only: word_less_nat_alt u) simp
  have "unat (p + 8) = unat p + 8" using Suc.prems(2) by (simp add: unat_add_u64)
  then have IH: "vtable_loop k r (p + 8) ?c
    = Some (\<lambda>a. if \<exists>i < n. a = p + 8 + 8 * of_nat i + d \<and> in_image k (?c (a - d)) then ?c (a - d) + r else ?c a)"
  proof (intro Suc.IH)
    show "vtable_end k = p + 8 + 8 * of_nat n" using Suc.prems(1) by (simp add: algebra_simps)
    show "p + 8 + 8 * of_nat i + d \<noteq> p + 8 + 8 * of_nat j" if "i < n" "j < n" for i j
      using Suc.prems(3) [of "Suc i" "Suc j"] that by (simp add: algebra_simps)
  qed (use Suc.prems in simp_all)
  have other: "?c (p + 8 + 8 * of_nat i) = c (p + 8 + 8 * of_nat i)" if "i < n" for i
    using Suc.prems(3) [of 0 "Suc i"] that by (simp add: algebra_simps)
  have step: "vtable_loop k r p c = vtable_loop k r (p + 8) ?c"
    using lt Suc.prems(4) by (subst vtable_loop.simps) (auto simp: in_image_def not_less)
  have "(if \<exists>i < n. a = p + 8 + 8 * of_nat i + d \<and> in_image k (?c (a - d)) then ?c (a - d) + r else ?c a)
      = (if \<exists>i < Suc n. a = p + 8 * of_nat i + d \<and> in_image k (c (a - d)) then c (a - d) + r else c a)" for a
  proof (cases "\<exists>i < n. a = p + 8 + 8 * of_nat i + d")
    case True
    then obtain i where i: "i < n" "a = p + 8 + 8 * of_nat i + d" by blast
    have e: "?c (a - d) = c (a - d)" using other [OF i(1)] i(2) by simp
    have "a \<noteq> p + d"
    proof
      assume "a = p + d"
      then have "8 * of_nat (Suc i) = (0 :: u64)" using i(2) by (simp add: algebra_simps)
      then show False using o [of "Suc i"] i(1) by (simp only: w) simp
    qed
    then have f: "?c a = c a" by simp
    have "a = p + 8 * of_nat (Suc i) + d" using i(2) by (simp add: algebra_simps)
    then have "(\<exists>j < Suc n. a = p + 8 * of_nat j + d \<and> Q) \<longleftrightarrow> Q" for Q using i(1) by blast
    moreover have "(\<exists>j < n. a = p + 8 + 8 * of_nat j + d \<and> Q) \<longleftrightarrow> Q" for Q using i by blast
    ultimately show ?thesis unfolding e f by simp
  next
    case False
    have sh: "p + 8 * of_nat (Suc j) + d = p + 8 + 8 * of_nat j + d" for j by (simp add: algebra_simps)
    have "(\<exists>j < n. a = p + 8 + 8 * of_nat j + d \<and> Q) \<longleftrightarrow> False" for Q using False by blast
    then show ?thesis by (simp only: Ex_less_Suc2 sh) (auto simp: fun_upd_def)
  qed
  then show ?case using step IH by simp
qed

lemma sdiv_8_exact: "8 dvd i \<Longrightarrow> 8 * (i sdiv 8) = (i :: int)"
  by (auto simp: signed_divide_int_def sgn_if abs_if dvd_def)

lemma word_distance_aligned:
  assumes "r AND 7 = 0"
  shows "word_distance r = r"
proof -
  have "take_bit 3 (uint r) = uint (take_bit 3 r)" by (simp add: unsigned_take_bit_eq)
  also have "take_bit 3 r = 0" using assms by (simp add: and7_take_bit)
  finally have "take_bit 3 (sint r) = 0" by (simp add: sint_uint take_bit_signed_take_bit)
  then have "8 dvd sint r" by (simp add: take_bit_eq_mod dvd_eq_mod_eq_0)
  then have "word_of_int (8 * (sint r sdiv 8)) = r" by (simp only: sdiv_8_exact) simp
  then show ?thesis by (simp add: word_distance_def)
qed

text \<open>
  In the copy of the kernel every word of the pointer tables that points into the kernel is
  moved by the distance, the others keep what was copied, and no other word changes.
\<close>

theorem vtable_relocated:
  assumes "vtable_end k = vtable_start k + 8 * of_nat n" and "unat (vtable_start k) + 8 * n < 2 ^ 64"
    and "(kernbase - text_start k) AND 7 = 0"
    and "\<forall>i < n. \<forall>j < n. vtable_start k + 8 * of_nat i + (kernbase - text_start k) \<noteq> vtable_start k + 8 * of_nat j"
  shows "\<exists>c'. newkern_reloc k kernbase c = Some c'
    \<and> (\<forall>i < n. let p = vtable_start k + 8 * of_nat i; r = kernbase - text_start k
               in c' (p + r) = (if in_image k (c p) then c p + r else c (p + r)))
    \<and> (\<forall>a. (\<forall>i < n. a \<noteq> vtable_start k + 8 * of_nat i + (kernbase - text_start k)) \<longrightarrow> c' a = c a)"
proof -
  let ?r = "kernbase - text_start k"
  have "newkern_reloc k kernbase c = Some (\<lambda>a. if \<exists>i < n. a = vtable_start k + 8 * of_nat i + ?r \<and> in_image k (c (a - ?r))
      then c (a - ?r) + ?r else c a)"
    unfolding newkern_reloc_def
    by (rule vtable_loop_words [OF assms(1,2) _ word_distance_aligned [OF assms(3)]]) (use assms(4) in blast)
  then show ?thesis by (auto simp: Let_def)
qed

definition demo_image :: image where
  "demo_image = \<lparr>text_start = 0x100000, text_end = 0x140000, rodata_start = 0x140000, rodata_end = 0x180000,
     data_start = 0x180000, bss_end = 0x200000, vtable_start = 0x180000, vtable_end = 0x180010\<rparr>"

theorem vtable_relocated_witness:
  "\<exists>c'. newkern_reloc demo_image 0x800000 ((\<lambda>_. 0)(0x180000 := 0x100040, 0x180008 := 0x30)) = Some c'
     \<and> c' 0x880000 = 0x800040 \<and> c' 0x880008 = 0"
proof -
  let ?c = "(\<lambda>_. 0)(0x180000 := 0x100040, 0x180008 := 0x30) :: u64 \<Rightarrow> u64"
  have sep: "\<forall>i < 2. \<forall>j < 2. vtable_start demo_image + 8 * of_nat i + (0x800000 - text_start demo_image)
      \<noteq> vtable_start demo_image + 8 * of_nat j"
    by (auto simp: less_2_cases_iff demo_image_def)
  obtain c' where c': "newkern_reloc demo_image 0x800000 ?c = Some c'"
      "\<forall>i < 2. let p = vtable_start demo_image + 8 * of_nat i; r = 0x800000 - text_start demo_image
               in c' (p + r) = (if in_image demo_image (?c p) then ?c p + r else ?c (p + r))"
    using vtable_relocated [OF _ _ _ sep, of ?c] by (auto simp: demo_image_def)
  from c'(2) [rule_format, of 0] c'(2) [rule_format, of 1] c'(1) show ?thesis
    by (auto simp: demo_image_def in_image_def Let_def)
qed

section \<open>Memory from the firmware\<close>

text \<open>
  An address that efiAllocatePages asks the firmware for lies at or above the minimum, and the
  pages from it on lie inside one region of conventional memory.
\<close>

theorem efi_candidate_fits:
  assumes wf: "\<forall>e \<in> set es. unat (d_start e) + unat (d_pages e) * 0x1000 < 2 ^ 64"
    and cnt: "unat count * 0x1000 < 2 ^ 64" and "efi_candidate mn count es = p" and "p \<noteq> 0"
  shows "\<exists>e \<in> set es. d_type e = MEMORY_TYPE_CONVENTIONAL \<and> d_start e \<le> p \<and> mn \<le> p
    \<and> unat p + unat count * 0x1000 < unat (d_start e) + unat (d_pages e) * 0x1000"
  using assms(1,3,4)
proof (induction es)
  case (Cons e es)
  let ?hi = "d_start e + d_pages e * 0x1000" and ?beg = "if d_start e < mn then mn else d_start e"
  have wf: "unat (d_start e) + unat (d_pages e) * 0x1000 < 2 ^ 64" using Cons.prems(1) by simp
  have pages: "unat (d_pages e * 0x1000) = unat (d_pages e) * 0x1000" using wf by (simp add: unat_mult_lem [THEN iffD1])
  have hi: "unat ?hi = unat (d_start e) + unat (d_pages e) * 0x1000" using wf unat_add_u64 [of "d_start e"] by (simp add: pages)
  have c: "unat (count * 0x1000) = unat count * 0x1000" using cnt by (simp add: unat_mult_lem [THEN iffD1])
  show ?case
  proof (cases "d_type e = MEMORY_TYPE_CONVENTIONAL \<and> mn < ?hi \<and> count * 0x1000 < ?hi - ?beg")
    case True
    then have p: "p = ?beg" using Cons.prems(2) by (simp add: Let_def not_le [symmetric])
    have "?beg \<le> ?hi" using True wf by (auto simp: word_le_nat_alt word_less_nat_alt hi)
    then have "unat (?hi - ?beg) = unat ?hi - unat ?beg" by (rule unat_diff_u64)
    then have "unat p + unat count * 0x1000 < unat ?hi"
      using True unfolding p by (simp only: word_less_nat_alt c) linarith
    moreover have "d_start e \<le> p" "mn \<le> p" unfolding p by (auto simp: not_less)
    ultimately show ?thesis using True by (auto simp: hi)
  next
    case False
    then have "efi_candidate mn count es = p" using Cons.prems(2) by (auto simp: Let_def not_le split: if_splits)
    then show ?thesis using Cons.IH Cons.prems(1,3) by auto
  qed
qed simp

theorem efi_candidate_fits_witness:
  "efi_candidate 0x5000 2 [\<lparr>d_type = 7, d_start = 0x1000, d_pages = 16\<rparr>] = 0x5000
   \<and> (\<exists>e \<in> set [\<lparr>d_type = 7, d_start = 0x1000, d_pages = 16\<rparr>]. unat (0x5000 :: u64) + unat (2 :: u64) * 0x1000
        < unat (d_start e) + unat (d_pages e) * 0x1000)"
  using efi_candidate_fits [of "[\<lparr>d_type = 7, d_start = 0x1000, d_pages = 16\<rparr>]" 2 "0x5000" "0x5000"]
  by (simp add: MEMORY_TYPE_CONVENTIONAL_def Let_def)

section \<open>Where the kernel is copied to\<close>

text \<open>
  The smallest page number that initMB may choose for the kernel is that of the new page
  tables themselves.
\<close>

theorem kernel_range_at_tables:
  assumes "unat r < 2 ^ 51"
  shows "fst (mb_kernel_range (push_bit 12 r) kernsz) = r"
proof -
  have p: "push_bit 12 r = r * 4096" by (simp add: push_bit_eq_mult)
  have u: "unat (r * 4096) = unat r * 4096" using assms by (simp add: unat_mult_lem [THEN iffD1])
  have "unat (r * 4096 + 67) = unat r * 4096 + 67" using assms unat_add_u64 [of "r * 4096" 67] by (simp add: u)
  then have "unat (drop_bit 12 (r * 4096 + 67)) = unat r" by (simp add: drop_bit_eq_div unat_div)
  then show ?thesis by (simp add: mb_kernel_range_def pdpe_num_def p word_unat_eq_iff)
qed

theorem kernel_range_at_tables_witness:
  "fst (mb_kernel_range (push_bit 12 0x900) 0x40000) = 0x900"
  by (rule kernel_range_at_tables) simp

section \<open>A ring refilled without memory\<close>

lemma page_alloc_no_memory: "max_page s = 0 \<Longrightarrow> page_alloc (Suc n) low count type pt s = Some (0, s)"
  by (simp add: alloc_search.simps [of _ _ _ 0])

lemma renew_loop_no_memory:
  assumes "max_page s = 0" "rsvd_w s < rsvd_num" "length (rsvd_pages s) = rsvd_num" "target = (rsvd_w s + k) mod rsvd_num" "k < rsvd_num" "k < n"
  shows "renew_loop (Suc n) target pt s
    = Some (s\<lparr>rsvd_w := target,
        rsvd_pages := fold (\<lambda>j ps. ps[(rsvd_w s + j) mod rsvd_num := 0]) [1..<Suc k] (rsvd_pages s)\<rparr>)"
  using assms
proof (induction k arbitrary: n s)
  case 0
  then show ?case by simp
next
  case (Suc k)
  obtain m where n: "n = Suc m" using Suc.prems(6) by (cases n) auto
  let ?w = "(rsvd_w s + 1) mod rsvd_num"
  let ?s = "s\<lparr>rsvd_w := ?w, rsvd_pages := (rsvd_pages s)[?w := 0]\<rparr>"
  have ne: "rsvd_w s \<noteq> target"
    using Suc.prems(2,4,5) by (cases "rsvd_w s + Suc k < rsvd_num") (auto simp: mod_if)
  have tgt: "target = (?w + k) mod rsvd_num" using Suc.prems(4) by (simp add: mod_simps algebra_simps)
  have "renew_loop n target pt ?s = Some (?s\<lparr>rsvd_w := target,
        rsvd_pages := fold (\<lambda>j ps. ps[(rsvd_w ?s + j) mod rsvd_num := 0]) [1..<Suc k] (rsvd_pages ?s)\<rparr>)"
    unfolding n by (rule Suc.IH) (use Suc.prems tgt n in \<open>simp_all add: rsvd_num_def\<close>)
  also have "fold (\<lambda>j ps. ps[(rsvd_w ?s + j) mod rsvd_num := 0]) [1..<Suc k] (rsvd_pages ?s)
      = fold (\<lambda>j ps. ps[(rsvd_w s + j) mod rsvd_num := 0]) [1..<Suc (Suc k)] (rsvd_pages s)"
  proof -
    have l: "[1..<Suc (Suc k)] = 1 # map Suc [1..<Suc k]" by (simp add: map_Suc_upt upt_conv_Cons)
    show ?thesis unfolding l by (simp add: fold_map o_def mod_simps)
  qed
  finally have "renew_loop n target pt ?s = Some (?s\<lparr>rsvd_w := target,
        rsvd_pages := fold (\<lambda>j ps. ps[(rsvd_w s + j) mod rsvd_num := 0]) [1..<Suc (Suc k)] (rsvd_pages s)\<rparr>)" .
  moreover have "renew_loop (Suc n) target pt s = renew_loop n target pt ?s"
    unfolding n using ne Suc.prems(1) page_alloc_no_memory [of "s\<lparr>rsvd_w := ?w\<rparr>" m False 1 TABLE pt]
    by (subst renew_loop.simps) (simp del: page_alloc.simps renew_loop.simps)
  ultimately show ?case by (simp del: renew_loop.simps upt_Suc)
qed


lemma fold_zero:
  "length ps = rsvd_num \<Longrightarrow> i < rsvd_num \<Longrightarrow>
   fold (\<lambda>j ps. ps[(w + j) mod rsvd_num := 0]) js ps ! i = (if \<exists>j \<in> set js. (w + j) mod rsvd_num = i then 0 else ps ! i)"
  by (induction js arbitrary: ps) auto

text \<open>
  An empty ring of reserved pages that is refilled while max_page is zero is filled with null
  pages: 15 of its 16 entries are zero afterwards.
\<close>

theorem renew_null_pages:
  assumes "max_page s = 0" and "rsvd_r s = rsvd_w s" and "rsvd_w s < rsvd_num" and "length (rsvd_pages s) = rsvd_num"
  shows "\<exists>s'. renewRsvd 17 pt s = Some s' \<and> (\<forall>i < rsvd_num. i \<noteq> rsvd_r s \<longrightarrow> rsvd_pages s' ! i = 0)"
proof -
  let ?ps = "fold (\<lambda>j ps. ps[(rsvd_w s + j) mod rsvd_num := 0]) [1..<Suc 15] (rsvd_pages s)"
  let ?t = "(rsvd_r s + rsvd_num - 1) mod rsvd_num"
  have "renew_loop (Suc 16) ?t pt s = Some (s\<lparr>rsvd_w := ?t, rsvd_pages := ?ps\<rparr>)"
    by (rule renew_loop_no_memory) (use assms in \<open>simp_all add: rsvd_num_def add.commute\<close>)
  moreover have "?ps ! i = 0" if i: "i < rsvd_num" "i \<noteq> rsvd_r s" for i
  proof -
    let ?j = "if rsvd_w s < i then i - rsvd_w s else i + 16 - rsvd_w s"
    have "?j \<in> set [1..<Suc 15]" "(rsvd_w s + ?j) mod rsvd_num = i"
      using i assms(2,3) by (auto simp: rsvd_num_def)
    then have "\<exists>j \<in> set [1..<Suc 15]. (rsvd_w s + j) mod rsvd_num = i" by blast
    then show ?thesis using fold_zero [OF assms(4) i(1), of "rsvd_w s" "[1..<Suc 15]"] by (simp only: if_True)
  qed
  ultimately show ?thesis unfolding renewRsvd_def by (simp add: numeral_eq_Suc)
qed

theorem renew_null_pages_witness:
  "\<exists>s'. renewRsvd 17 0x1000 (demo_pt\<lparr>max_page := 0, rsvd_w := 0\<rparr>) = Some s' \<and> (\<forall>i < rsvd_num. i \<noteq> 0 \<longrightarrow> rsvd_pages s' ! i = 0)"
  using renew_null_pages [of "demo_pt\<lparr>max_page := 0, rsvd_w := 0\<rparr>" "0x1000"] by (simp add: demo_pt_def rsvd_num_def)

section \<open>The tables of the first 128 megabytes\<close>

lemma set_cell_same [simp]: "cells (set_cell a e s) a = e"
  by (simp add: set_cell_def)

lemma set_cell_other: "b \<noteq> a \<Longrightarrow> cells (set_cell a e s) b = cells s b"
  by (simp add: set_cell_def)

lemma fold_set_cell_ring [simp]:
  "rsvd_pages (fold (\<lambda>i. set_cell (g i) (e i)) is s) = rsvd_pages s" "rsvd_w (fold (\<lambda>i. set_cell (g i) (e i)) is s) = rsvd_w s"
  by (induction "is" arbitrary: s) (auto simp: set_cell_def)

lemma fold_set_cell_other:
  "(\<And>i. i \<in> set is \<Longrightarrow> a \<noteq> g i) \<Longrightarrow> cells (fold (\<lambda>i. set_cell (g i) (e i)) is s) a = cells s a"
  by (induction "is" arbitrary: s) (auto simp: set_cell_def)

lemma fold_set_cell_at:
  "i \<in> set is \<Longrightarrow> inj_on g (set is) \<Longrightarrow> distinct is \<Longrightarrow> cells (fold (\<lambda>i. set_cell (g i) (e i)) is s) (g i) = e i"
proof (induction "is" arbitrary: s)
  case (Cons j js)
  show ?case
  proof (cases "i = j")
    case True
    have "g j \<noteq> g l" if "l \<in> set js" for l using Cons.prems(2,3) that by (auto simp: inj_on_def)
    then show ?thesis using True fold_set_cell_other [of js "g j" g e] by simp
  next
    case False
    then show ?thesis using Cons by (simp add: inj_on_def)
  qed
qed simp

lemma offset_eq_iff:
  assumes "j < 2 ^ 64" and "k < 2 ^ 64"
  shows "(a :: u64) + of_nat j = a + of_nat k \<longleftrightarrow> j = k"
proof -
  have "unat (of_nat j :: u64) = j" "unat (of_nat k :: u64) = k" using assms by (simp_all add: unat_of_nat_u64)
  then show ?thesis by (metis add_left_cancel)
qed

lemma page_offset_aligned:
  fixes ptbase :: u64
  assumes "ptbase AND 0xFFF = 0" and "unat ptbase + 0x1000 * k < 2 ^ 63"
  shows "(ptbase + of_nat (0x1000 * k)) AND 0xFFF = 0" "unat (ptbase + of_nat (0x1000 * k)) < 2 ^ 63"
proof -
  have "unat (of_nat (0x1000 * k) :: u64) = 0x1000 * k" using assms(2) by (intro unat_of_nat_u64) simp
  then have u: "unat (ptbase + of_nat (0x1000 * k)) = unat ptbase + 0x1000 * k"
    using assms(2) unat_add_u64 [of ptbase "of_nat (0x1000 * k)"] by simp
  then show "unat (ptbase + of_nat (0x1000 * k)) < 2 ^ 63" using assms(2) by simp
  have "unat ptbase mod 4096 = 0" using assms(1) unat_and_fff [of ptbase] by simp
  then have "unat ((ptbase + of_nat (0x1000 * k)) AND 0xFFF) = 0" by (simp only: unat_and_fff u) simp
  then show "(ptbase + of_nat (0x1000 * k)) AND 0xFFF = 0" by (simp only: unat_eq_zero)
qed

lemma mb_tables_cells:
  assumes al: "ptbase AND 0xFFF = 0" and sz: "unat ptbase + 0x53000 < 2 ^ 63"
  shows "cells (mb_tables ptbase s) ptbase = Entry (ptbase + 0x1000) 0 TABLE"
    and "cells (mb_tables ptbase s) (ptbase + 0x1000) = Entry (ptbase + 0x2000) 0 TABLE"
    and "i < 64 \<Longrightarrow> cells (mb_tables ptbase s) (ptbase + of_nat (0x2000 + 8 * i)) = Entry (ptbase + of_nat ((3 + i) * 0x1000)) 0 TABLE"
    and "0x3000 \<le> k \<Longrightarrow> k < 0x53000 \<Longrightarrow> cells (mb_tables ptbase s) (ptbase + of_nat k) = 0"
proof -
  define s1 where "s1 = zero_cells ptbase ptsz (s\<lparr>rsvd_pages := map (\<lambda>i. ptbase + of_nat ((3 + pdpe_num + i) * 0x1000)) [0..<rsvd_num],
                 rsvd_w := rsvd_num - 1\<rparr>)"
  define s2 where "s2 = set_cell (ptbase + 0x1000) (Entry (ptbase + 0x2000) 0 TABLE) (set_cell ptbase (Entry (ptbase + 0x1000) 0 TABLE) s1)"
  let ?g = "\<lambda>i. ptbase + of_nat (0x2000 + 8 * i)" and ?e = "\<lambda>i. Entry (ptbase + of_nat ((3 + i) * 0x1000)) 0 TABLE"
  have g: "slot (ptbase + 0x2000) (of_nat i) = ?g i" for i by (simp add: slot_def)
  have p1: "getUintPtr (Entry (ptbase + 0x1000) 0 TABLE) = ptbase + 0x1000"
    using page_offset_aligned [OF al, of 1] sz by (intro getUintPtr_Entry) simp_all
  have p2: "getUintPtr (Entry (ptbase + 0x2000) 0 TABLE) = ptbase + 0x2000"
    using page_offset_aligned [OF al, of 2] sz by (intro getUintPtr_Entry) simp_all
  have ne: "ptbase \<noteq> ptbase + 0x1000" by simp
  have tables: "mb_tables ptbase s = fold (\<lambda>i. set_cell (?g i) (?e i)) [0..<64] s2"
    unfolding mb_tables_def Let_def s1_def [symmetric] by (simp add: p1 p2 s2_def g pdpe_num_def)
  have off: "ptbase + of_nat j = ?g i \<longleftrightarrow> j = 0x2000 + 8 * i" if "i < 64" "j < 0x53000" for i j
    using that by (intro offset_eq_iff) simp_all
  have "inj_on ?g (set [0..<64])"
  proof (rule inj_onI)
    fix i j assume "i \<in> set [0..<64]" "j \<in> set [0..<64]" "?g i = ?g j"
    then show "i = j" using off [of j "0x2000 + 8 * i"] by simp
  qed
  then show "i < 64 \<Longrightarrow> cells (mb_tables ptbase s) (?g i) = ?e i"
    unfolding tables using fold_set_cell_at [of i "[0..<64]" ?g ?e s2] by simp
  have keep: "cells (mb_tables ptbase s) (ptbase + of_nat j) = cells s2 (ptbase + of_nat j)"
    if "j < 0x53000" "j < 0x2000 \<or> 0x2200 \<le> j" for j
    unfolding tables using that off [of _ j] by (intro fold_set_cell_other) auto
  show "cells (mb_tables ptbase s) ptbase = Entry (ptbase + 0x1000) 0 TABLE"
    using keep [of 0] by (simp add: s2_def set_cell_other ne)
  show "cells (mb_tables ptbase s) (ptbase + 0x1000) = Entry (ptbase + 0x2000) 0 TABLE"
    using keep [of "0x1000"] by (simp add: s2_def)
  show "cells (mb_tables ptbase s) (ptbase + of_nat k) = 0" if k: "0x3000 \<le> k" "k < 0x53000"
  proof -
    have "ptbase + of_nat k \<noteq> ptbase + of_nat 0" "ptbase + of_nat k \<noteq> ptbase + of_nat 0x1000"
      using k offset_eq_iff [of k 0 ptbase] offset_eq_iff [of k "0x1000" ptbase] by simp_all
    moreover have "cells s1 (ptbase + of_nat k) = 0"
      using k unat_of_nat_u64 [of k]
      by (simp add: s1_def zero_cells_def in_range_def ptsz_def pdpe_num_def rsvd_num_def)
    ultimately show ?thesis using keep [of k] k by (simp add: s2_def set_cell_other)
  qed
qed


lemma table_index_of_nat: "table_index k p = of_nat (unat p div 2 ^ k mod 512)"
proof -
  have m: "(0x1FF :: u64) = mask 9" by (simp add: mask_eq_exp_minus_1)
  have "unat (table_index k p) = unat p div 2 ^ k mod 512"
    unfolding table_index_def m by (simp only: unat_and_mask unsigned_drop_bit_eq) (simp add: drop_bit_eq_div take_bit_nat_eq_self)
  then show ?thesis by (rule of_nat_unat_eq)
qed

text \<open>
  C29: The page tables that initMB builds have an entry for every address of the first 128
  megabytes, found by the walk at the expected place and not present yet, and the ring of
  reserved pages is the 16 pages behind them.
\<close>

theorem mb_tables_cover:
  assumes al: "ptbase AND 0xFFF = 0" and sz: "unat ptbase + 0x53000 < 2 ^ 63" and p: "unat p < 0x8000000"
  shows "find_entry (cells (mb_tables ptbase s)) p ptbase
      = Some (ptbase + of_nat ((3 + unat p div 0x200000) * 0x1000 + 8 * (unat p div 0x1000 mod 512)))
    \<and> \<not> mapped (cells (mb_tables ptbase s)) ptbase p
    \<and> rsvd_pages (mb_tables ptbase s) = map (\<lambda>i. ptbase + of_nat ((67 + i) * 0x1000)) [0..<16]
    \<and> rsvd_w (mb_tables ptbase s) = 15"
proof -
  let ?c = "cells (mb_tables ptbase s)" and ?i = "unat p div 0x200000" and ?j = "unat p div 0x1000 mod 512"
  note c = mb_tables_cells [OF al sz]
  have i: "?i < 64" using p by simp
  have idx: "table_index 39 p = 0" "table_index 30 p = 0" "table_index 21 p = of_nat ?i" "table_index 12 p = of_nat ?j"
    using p i by (simp_all add: table_index_of_nat)
  have p1: "getUintPtr (Entry (ptbase + 0x1000) 0 TABLE) = ptbase + 0x1000"
    using page_offset_aligned [OF al, of 1] sz by (intro getUintPtr_Entry) simp_all
  have p2: "getUintPtr (Entry (ptbase + 0x2000) 0 TABLE) = ptbase + 0x2000"
    using page_offset_aligned [OF al, of 2] sz by (intro getUintPtr_Entry) simp_all
  have p3: "getUintPtr (Entry (ptbase + of_nat ((3 + ?i) * 0x1000)) 0 TABLE) = ptbase + of_nat ((3 + ?i) * 0x1000)"
    using page_offset_aligned [OF al, of "3 + ?i"] sz i by (intro getUintPtr_Entry) (simp_all add: mult.commute)
  have "path_slots ?c p ptbase = (ptbase, ptbase + 0x1000, ptbase + of_nat (0x2000 + 8 * ?i),
      ptbase + of_nat ((3 + ?i) * 0x1000 + 8 * ?j))"
    unfolding path_slots_def Let_def idx
    using c(1,2) c(3) [OF i] p1 p2 p3 by (simp add: slot_def add.assoc)
  then have "find_entry ?c p ptbase = Some (ptbase + of_nat ((3 + ?i) * 0x1000 + 8 * ?j))"
    by (rule find_entry_path) (use c(1,2) c(3) [OF i] table_not_null in simp_all)
  moreover have "?c (ptbase + of_nat ((3 + ?i) * 0x1000 + 8 * ?j)) = 0" using i by (intro c(4)) simp_all
  moreover have "rsvd_pages (mb_tables ptbase s) = map (\<lambda>i. ptbase + of_nat ((67 + i) * 0x1000)) [0..<16]"
    "rsvd_w (mb_tables ptbase s) = 15"
    by (simp_all add: mb_tables_def Let_def) (simp_all add: set_cell_def zero_cells_def pdpe_num_def rsvd_num_def)
  ultimately show ?thesis by (simp add: mapped_def present_def)
qed

theorem mb_tables_cover_witness:
  "find_entry (cells (mb_tables 0x900000 demo_pt)) 0x400000 0x900000 = Some 0x905000"
  using mb_tables_cover [of "0x900000" "0x400000" demo_pt] by simp

section \<open>The memory map of the boot loader\<close>

lemma getRsvd_max_page: "getRsvd s = Some (p, s') \<Longrightarrow> max_page s' = max_page s"
  by (auto simp: getRsvd_def split: if_splits)

lemma need_table_max_page: "need_table a s = Some s' \<Longrightarrow> max_page s' = max_page s"
  by (auto simp: need_table_def set_cell_def split: if_splits bind_splits dest!: getRsvd_max_page)

lemma map_body_max_page: "map_body itop w s = Some (w', s') \<Longrightarrow> max_page s' = max_page s"
  by (auto simp: map_body_def set_cell_def Let_def split: if_splits bind_splits dest!: need_table_max_page)

lemma max_page_kept:
  "map_loop n itop pt w s = Some s' \<Longrightarrow> max_page s' = max_page s"
  "renew_loop n target pt s = Some s' \<Longrightarrow> max_page s' = max_page s"
  "page_alloc n low count type pt s = Some (p, s'') \<Longrightarrow> max_page s'' = max_page s"
proof (induction n itop pt w s and n target pt s and n low count type pt s arbitrary: s' and s' and p s''
    rule: map_loop_renew_loop_page_alloc.induct)
  case (2 n itop pt w s)
  show ?case
  proof (cases "pptr (newent w) < itop")
    case True
    then obtain w1 s1 s2 where 1: "map_body itop w s = Some (w1, s1)"
        "(if rsvd_r s1 = rsvd_w s1 then renew_loop n ((rsvd_r s1 + rsvd_num - 1) mod rsvd_num) pt s1 else Some s1) = Some s2"
        "map_loop n itop pt (map_advance w1) s2 = Some s'"
      using "2.prems" by (auto split: bind_splits)
    have "max_page s1 = max_page s" using 1(1) by (rule map_body_max_page)
    moreover have "max_page s2 = max_page s1"
      using 1(2) "2.IH"(1) [OF True 1(1) refl] by (auto split: if_splits)
    moreover have "max_page s' = max_page s2" by (rule "2.IH"(2) [OF True 1(1) refl 1(2,3)])
    ultimately show ?thesis by simp
  qed (use "2.prems" in simp)
next
  case (4 n target pt s)
  show ?case
  proof (cases "rsvd_w s = target")
    case False
    let ?s = "s\<lparr>rsvd_w := (rsvd_w s + 1) mod rsvd_num\<rparr>"
    obtain page s1 where 1: "page_alloc n False 1 TABLE pt ?s = Some (page, s1)"
        "renew_loop n target pt (s1\<lparr>rsvd_pages := (rsvd_pages s1)[rsvd_w s1 := page]\<rparr>) = Some s'"
      using "4.prems" False by (auto simp: Let_def split: bind_splits)
    have "max_page s1 = max_page ?s" using "4.IH"(1) [OF False refl 1(1)] .
    moreover have "max_page s' = max_page (s1\<lparr>rsvd_pages := (rsvd_pages s1)[rsvd_w s1 := page]\<rparr>)"
      using "4.IH"(2) [OF False refl 1(1) refl 1(2)] .
    ultimately show ?thesis by simp
  qed (use "4.prems" in simp)
next
  case (6 n low count type pt s)
  obtain r where r: "alloc_search 12 count (unat count) (max_page s) pt (cells s) (if low then 1 else last_page s) = Some r"
    using "6.prems" by (simp only: page_alloc.simps) (auto split: bind_splits)
  show ?case
  proof (cases r)
    case None
    then show ?thesis using "6.prems" r by simp
  next
    case (Some i)
    let ?s = "if low then s else s\<lparr>last_page := i\<rparr>"
    obtain s2 where s2: "map_loop n (drop_bit 12 (push_bit 12 i + push_bit 12 count + 0xFFF)) pt (walk_start (push_bit 12 i) type pt) ?s = Some s2"
        "s'' = zero_cells (push_bit 12 i) (count * 0x1000) s2"
      using "6.prems" r Some by (simp only: page_alloc.simps Let_def) (auto split: bind_splits)
    have "max_page s2 = max_page ?s" by (rule "6.IH" [OF r Some refl refl s2(1)])
    then show ?thesis by (simp add: s2(2) zero_cells_def)
  qed
qed simp_all

lemma map_range_max_page: "map_range n low high type pt s = Some s' \<Longrightarrow> max_page s' = max_page s"
  unfolding map_range_def by (rule max_page_kept(1))

text \<open>The entries of the map, and the end of the memory an entry describes, in pages.\<close>

fun mmap_chain :: "mem \<Rightarrow> u64 \<Rightarrow> u64 \<Rightarrow> u64 list \<Rightarrow> bool" where
  "mmap_chain m a hi [] \<longleftrightarrow> \<not> a < hi"
| "mmap_chain m a hi (e # es) \<longleftrightarrow>
     a = e \<and> a < hi \<and> mmap_chain m (a + (ucast (field32 m a MmapEnt ''size'') + 4)) hi es"

definition entry_top :: "mem \<Rightarrow> u64 \<Rightarrow> u64" where
  "entry_top m e = drop_bit 12 ((field64 m e MmapEnt ''base'' + field64 m e MmapEnt ''length'' + 0xFFF) AND NOT 0xFFF)"

definition available :: "mem \<Rightarrow> u64 \<Rightarrow> bool" where
  "available m e \<longleftrightarrow> field32 m e MmapEnt ''type'' = 1"

lemma mmap_entry_max_page:
  "mmap_entry fuel m pt e s = Some s' \<Longrightarrow> max_page s' = (if available m e then max (entry_top m e) (max_page s) else max_page s)"
  by (auto simp: mmap_entry_def available_def entry_top_def Let_def max_def split: bind_splits if_splits dest!: map_range_max_page)

text \<open>
  The loop over the memory map of the boot loader ends when the entries chain up to its end
  and each can be mapped, and leaves max_page at the highest page of the available regions.
\<close>

theorem mmap_max_page:
  assumes "mmap_chain m mmap hi es" and "P s"
    and "\<forall>e \<in> set es. \<forall>s. P s \<longrightarrow> (\<exists>s'. mmap_entry fuel m pt e s = Some s' \<and> P s')"
  shows "\<exists>s'. mmap_loop fuel m pt mmap hi s = Some s'
    \<and> max_page s' = fold max (map (entry_top m) (filter (available m) es)) (max_page s)"
  using assms
proof (induction es arbitrary: mmap s)
  case Nil
  then show ?case by (subst mmap_loop.simps) simp
next
  case (Cons e es)
  obtain s1 where s1: "mmap_entry fuel m pt e s = Some s1" "P s1" using Cons.prems(2,3) by auto
  have e: "mmap = e" "e < hi" "mmap_chain m (e + (ucast (field32 m e MmapEnt ''size'') + 4)) hi es"
    using Cons.prems(1) by auto
  have "\<exists>s'. mmap_loop fuel m pt (e + (ucast (field32 m e MmapEnt ''size'') + 4)) hi s1 = Some s'
      \<and> max_page s' = fold max (map (entry_top m) (filter (available m) es)) (max_page s1)"
    by (rule Cons.IH [OF e(3) s1(2)]) (use Cons.prems(3) in simp)
  then show ?case
    using s1(1) e(1,2) mmap_entry_max_page [OF s1(1)] by (subst mmap_loop.simps) auto
qed

definition demo_mmap :: mem where
  "demo_mmap a = (if a - 0x5000 < 24
     then (le 4 20 @ le 8 0x100000 @ le 8 0x7F00000 @ le 4 1) ! unat (a - 0x5000) else 0)"

definition demo_walk :: "ptstate \<Rightarrow> bool" where
  "demo_walk s \<longleftrightarrow> path_slots (cells s) 0x5000 0x1000 = (0x1000, 0x2000, 0x3000, 0x4028)
     \<and> present (cells s 0x1000) \<and> present (cells s 0x2000) \<and> present (cells s 0x3000) \<and> rsvd_r s \<noteq> rsvd_w s"

lemma demo_walk_map:
  assumes "demo_walk s"
  shows "map_range 2 0x5000 0x5018 t 0x1000 s = Some (set_cell 0x4028 (Entry 0x5000 0 t) s)"
    and "demo_walk (set_cell 0x4028 (Entry 0x5000 0 t) s)"
proof -
  have "map_range (Suc (Suc 0)) 0x5000 (0x5000 + 0x1000) t 0x1000 s = Some (set_cell 0x4028 (Entry 0x5000 0 t) s)"
    using assms by (intro map_one_page) (auto simp: demo_walk_def)
  moreover have "drop_bit 12 (0x5000 + 0x1000 + 0xFFF :: u64) = drop_bit 12 (0x5018 + 0xFFF)" by simp
  ultimately show "map_range 2 0x5000 0x5018 t 0x1000 s = Some (set_cell 0x4028 (Entry 0x5000 0 t) s)"
    unfolding map_range_def numeral_2_eq_2 by (simp only:)
  show "demo_walk (set_cell 0x4028 (Entry 0x5000 0 t) s)"
    using assms path_slots_upd [of "cells s" "0x5000" "0x1000" "0x1000" "0x2000" "0x3000" "0x4028" "0x4028" "Entry 0x5000 0 t"]
    by (simp add: demo_walk_def set_cell_def)
qed

theorem mmap_max_page_witness:
  "\<exists>s'. mmap_loop 2 demo_mmap 0x1000 0x5000 0x5018 demo_pt = Some s' \<and> max_page s' = 0x8000"
proof -
  have fields: "field32 demo_mmap 0x5000 MmapEnt ''size'' = 20" "field32 demo_mmap 0x5000 MmapEnt ''type'' = 1"
      "field64 demo_mmap 0x5000 MmapEnt ''base'' = 0x100000" "field64 demo_mmap 0x5000 MmapEnt ''length'' = 0x7F00000"
    by (simp_all add: field32_def field64_def layout_simps MmapEnt_def read32_def read64_def le32_def demo_mmap_def le_def upt_rec)
  have size: "struct_size MmapEnt = 24" by (simp add: struct_size_def layout_simps MmapEnt_def)
  have "demo_walk demo_pt"
    by (simp add: demo_walk_def demo_pt_def path_slots_def demo_ptr slot_def table_index_def table_not_null Let_def)
  moreover have "\<exists>s'. mmap_entry 2 demo_mmap 0x1000 0x5000 s = Some s' \<and> demo_walk s'" if "demo_walk s" for s
    using demo_walk_map [OF that, of DATA_RO]
    by (auto simp: mmap_entry_def fields size demo_walk_def Let_def)
  moreover have "mmap_chain demo_mmap 0x5000 0x5018 [0x5000]" by (simp add: fields)
  ultimately have "\<exists>s'. mmap_loop 2 demo_mmap 0x1000 0x5000 0x5018 demo_pt = Some s'
      \<and> max_page s' = fold max (map (entry_top demo_mmap) (filter (available demo_mmap) [0x5000])) (max_page demo_pt)"
    by (intro mmap_max_page [where P = demo_walk]) auto
  then show ?thesis by (simp add: available_def entry_top_def fields demo_pt_def)
qed

section \<open>The structures of the boot loader\<close>

text \<open>
  The members of the boot information are at the offsets of the Multiboot specification, and the
  constants of the model are the enumerators of the sources.
\<close>

theorem multiboot_layout:
  "map (\<lambda>f. field_off f Payload)
     [''flags'', ''mem.upper'', ''pcmdline'', ''mods.count'', ''mods.paddr'', ''mmap.size'', ''mmap.paddr'', ''vbe.pcontrol_info'',
      ''vbe.pmode_info'', ''fb.paddr'', ''fb.rgb.blue_mask_size''] = [0, 8, 16, 20, 24, 44, 48, 72, 76, 88, 115]
   \<and> map sizeof [Payload, VBEModeInfo, MmapEnt, Module] = [116, 256, 24, 8]"
  by (simp add: layout_simps Payload_def VBEModeInfo_def MmapEnt_def Module_def)

lemma model_constants:
  "map (\<lambda>x. of_int (enumerator Flags_enum x)) [''FLAG_MEM'', ''FLAG_CMDLINE'', ''FLAG_MODS'', ''FLAG_MEMMAP'', ''FLAG_VBETAB'']
     = [FLAG_MEM, FLAG_CMDLINE, FLAG_MODS, FLAG_MEMMAP, FLAG_VBETAB]"
  "map (\<lambda>x. of_int (enumerator MemoryType_enum x))
     [''MEMORY_TYPE_RESERVED'', ''MEMORY_TYPE_BS_CODE'', ''MEMORY_TYPE_BS_DATA'', ''MEMORY_TYPE_RS_CODE'', ''MEMORY_TYPE_RS_DATA'',
      ''MEMORY_TYPE_CONVENTIONAL'', ''MEMORY_TYPE_ACPI_RECLAIM'', ''MEMORY_TYPE_ACPI_NVS'', ''MEMORY_TYPE_MAPPED_IO'',
      ''MEMORY_TYPE_MAPPED_IO_PORTSPACE'']
     = [MEMORY_TYPE_RESERVED, MEMORY_TYPE_BS_CODE, MEMORY_TYPE_BS_DATA, MEMORY_TYPE_RS_CODE, MEMORY_TYPE_RS_DATA,
        MEMORY_TYPE_CONVENTIONAL, MEMORY_TYPE_ACPI_RECLAIM, MEMORY_TYPE_ACPI_NVS, MEMORY_TYPE_MAPPED_IO,
        MEMORY_TYPE_MAPPED_IO_PORTSPACE]"
  "enumerator Multiboot_MemoryType_enum ''MEMORY_AVAILABLE'' = 1"
  by code_simp+

text \<open>
  The VBE controller information of the boot loader is packed, its description in the sources is not:
  the pointer to the name of the vendor, which the kernel follows to map that name, is read two bytes
  behind the place where the VBE standard has it.
\<close>

theorem vbe_vendor_misplaced:
  "field32 m p VBEInfo ''vendor_string'' = read32 m (p + 8) \<and> sizeof VBEInfo = 520
   \<and> (case VBEInfo of Struct packed ms \<Rightarrow>
        field_off ''vendor_string'' (Struct True ms) = 6 \<and> sizeof (Struct True ms) = 512 | _ \<Rightarrow> False)"
  by (simp add: field32_def layout_simps VBEInfo_def)

end
