(* ===== verification/Serial.thy ===== *)
theory Serial
  imports Prelude
begin

text \<open>
  The serial console behind \<^verbatim>\<open>kprint\<close> (\<^verbatim>\<open>src/platform/puts.cpp\<close>, with the port accesses of
  \<^verbatim>\<open>src/portio\<close>). The writes to ports are recorded in order; the values that the line status register
  gives are an argument, \<open>status k\<close> for the \<open>k\<close>-th read. A writer holds the console's \<^verbatim>\<open>Mutex\<close> (theory
  \<open>Mutex\<close>) from the first character to the last, so the calls do not interleave.
\<close>

definition port :: u16 where "port = 0x3F8"
definition baud :: nat where "baud = 9600"
definition divisor :: u16 where "divisor = of_nat (115200 div baud)"

record console =
  reads :: nat
  out8 :: "(u16 \<times> u8) list"

definition out :: "u16 \<Rightarrow> u8 \<Rightarrow> console \<Rightarrow> console" where
  "out p v s = s\<lparr>out8 := out8 s @ [(p, v)]\<rparr>"

definition serial_setup :: "console \<Rightarrow> console" where
  "serial_setup s =
     (let s = out (port + 1) 0 s;
          s = out (port + 3) 0x80 s;
          s = out (port + 0) (ucast (divisor AND 0xFF)) s;
          s = out (port + 1) (ucast (drop_bit 16 divisor AND 0xFF)) s
      in out (port + 3) 0x03 s)"

text \<open>\<^verbatim>\<open>while ((in8() & (1 << 5)) == 0) ;\<close>\<close>

partial_function (option) wait_ready :: "(nat \<Rightarrow> u8) \<Rightarrow> console \<Rightarrow> console option" where
  "wait_ready status s =
     (let v = status (reads s); s = s\<lparr>reads := reads s + 1\<rparr>
      in if v AND 0x20 = 0 then wait_ready status s else Some s)"

text \<open>\<^verbatim>\<open>SerialConsole::write\<close>: the characters up to the NUL, which the string is the list of.\<close>

fun write_loop :: "(nat \<Rightarrow> u8) \<Rightarrow> u8 list \<Rightarrow> console \<Rightarrow> console option" where
  "write_loop status [] s = None"
| "write_loop status (c # cs) s =
     (if c = 0 then Some s
      else Option.bind (wait_ready status s) (\<lambda>s. write_loop status cs (out port c s)))"

definition kprint :: "(nat \<Rightarrow> u8) \<Rightarrow> u8 list \<Rightarrow> console \<Rightarrow> console option" where
  "kprint status str s = write_loop status str s"

section \<open>The line is programmed, and what is printed is sent\<close>

lemma serial_setup_line: "out8 (serial_setup s) = out8 s @ [(0x3F9, 0), (0x3FB, 0x80), (0x3F8, 12), (0x3F9, 0), (0x3FB, 3)]"
  by (simp add: serial_setup_def out_def port_def divisor_def baud_def Let_def)

lemma wait_ready_returns:
  assumes "status n AND 0x20 \<noteq> 0" and "reads s \<le> n"
  shows "\<exists>k. wait_ready status s = Some (s\<lparr>reads := k\<rparr>)"
  using assms(2)
proof (induction "n - reads s" arbitrary: s rule: less_induct)
  case less
  show ?case
  proof (cases "status (reads s) AND 0x20 = 0")
    case True
    then have "reads s < n" using less.prems assms(1) by (cases "reads s = n") auto
    then have "\<exists>k. wait_ready status (s\<lparr>reads := reads s + 1\<rparr>) = Some (s\<lparr>reads := reads s + 1\<rparr>\<lparr>reads := k\<rparr>)"
      by (intro less.hyps) simp_all
    then show ?thesis using True by (subst wait_ready.simps) (simp add: Let_def)
  next
    case False
    then show ?thesis by (subst wait_ready.simps) (auto simp: Let_def)
  qed
qed

lemma kprint_chars:
  assumes "\<forall>k. \<exists>n \<ge> k. status n AND 0x20 \<noteq> 0" and "0 \<notin> set cs"
  shows "\<exists>s'. kprint status (cs @ 0 # rest) s = Some s' \<and> out8 s' = out8 s @ map (Pair 0x3F8) cs"
  using assms(2) unfolding kprint_def
proof (induction cs arbitrary: s)
  case (Cons c cs)
  obtain n where n: "reads s \<le> n" "status n AND 0x20 \<noteq> 0" using assms(1) by blast
  obtain k where k: "wait_ready status s = Some (s\<lparr>reads := k\<rparr>)" using wait_ready_returns [of status n s] n by blast
  obtain s' where "write_loop status (cs @ 0 # rest) (out port c (s\<lparr>reads := k\<rparr>)) = Some s'"
      "out8 s' = out8 (out port c (s\<lparr>reads := k\<rparr>)) @ map (Pair 0x3F8) cs"
    using Cons by fastforce
  then show ?case using Cons.prems k by (auto simp: out_def port_def)
qed simp

text \<open>
  When the line gets ready again and again, kprint returns and has sent exactly the characters
  of the string, in order, to the data port.
\<close>

theorem kprint_sends:
  assumes "\<forall>k. \<exists>n \<ge> k. status n AND 0x20 \<noteq> 0" and "0 \<notin> set cs"
  shows "\<exists>s'. kprint status (cs @ 0 # rest) s = Some s' \<and> out8 s' = out8 s @ map (Pair 0x3F8) cs"
  using assms by (rule kprint_chars)

theorem kprint_sends_witness:
  "\<exists>s'. kprint (\<lambda>k. if even k then 0 else 0x60) [0x48, 0x69, 0] \<lparr>reads = 0, out8 = []\<rparr> = Some s'
     \<and> out8 s' = [(0x3F8, 0x48), (0x3F8, 0x69)]"
proof -
  have "\<exists>n \<ge> k. (if even n then 0 else 0x60 :: u8) AND 0x20 \<noteq> 0" for k :: nat
    by (rule exI [of _ "2 * k + 1"]) simp
  then show ?thesis
    using kprint_sends [of "\<lambda>k. if even k then 0 else 0x60" "[0x48, 0x69]" "[]" "\<lparr>reads = 0, out8 = []\<rparr>"] by simp
qed

end
