(* ===== verification/Smp.thy ===== *)
theory Smp
  imports Acpi Pagetable
begin

text \<open>
  \<^verbatim>\<open>src/smp/smp.cpp\<close>: starting the other processors. The boot processor copies the start code to a low
  page, gives every other processor a stack, and sends INIT and STARTUP interrupts until all of them
  are active. How many processors are active at the \<open>k\<close>-th test is an argument (they count themselves,
  \<open>activateCPU\<close> of theory \<open>Acpi\<close>); the loop does not end when the number is never reached.
\<close>

section \<open>Starting the processors\<close>

definition CODE_RW :: u8 where "CODE_RW = FLAG_X OR FLAG_W"

text \<open>What the start code finds behind itself, and the two arrays it points to.\<close>

record StartupInfo =
  pagetableptr :: u64
  lapicAddr :: u64
  cpuids :: u64
  stacks :: u64
  startup :: u64
  gdtptr :: "u16 \<times> u64"

text \<open>
  The first loop over the processors: their identifiers, the tops of their stacks (0 for the own
  processor, whose slot of the zeroed page is not written) and how often the own identifier occurs.
\<close>

fun cpus_loop :: "nat \<Rightarrow> u64 \<Rightarrow> acpi \<Rightarrow> u64 \<Rightarrow> u8 list \<Rightarrow> ptstate \<Rightarrow> ((u64 \<times> u64) list \<times> u32 \<times> ptstate) option" where
  "cpus_loop fuel cr3 a localId [] s = Some ([], 0, s)"
| "cpus_loop fuel cr3 a localId (i # is) s = do {
     let cpuid = ucast (getLapicIDOfCPU i a);
     (stk, s) \<leftarrow> (if cpuid \<noteq> localId
                   then map_option (\<lambda>(p, s). (p + 0x1000, s)) (pt_alloc fuel 1 DATA_RW cr3 s)
                   else Some (0, s));
     (cs, n, s) \<leftarrow> cpus_loop fuel cr3 a localId is s;
     Some ((cpuid, stk) # cs, (if cpuid \<noteq> localId then n else n + 1), s)
   }"

definition others :: "u64 \<Rightarrow> (u64 \<times> u64) list \<Rightarrow> u64 list" where
  "others localId cs = filter (\<lambda>c. c \<noteq> localId) (map fst cs)"

definition init_all :: "u64 list \<Rightarrow> acpi \<Rightarrow> acpi" where
  "init_all ids a = fold (\<lambda>c. sendCPUInit (ucast c)) ids a"

definition startup_all :: "u64 list \<Rightarrow> u8 \<Rightarrow> acpi \<Rightarrow> acpi" where
  "startup_all ids vec a = fold (\<lambda>c. sendCPUStartup (ucast c) vec) ids a"

partial_function (option) start_loop :: "(nat \<Rightarrow> u32) \<Rightarrow> nat \<Rightarrow> u32 \<Rightarrow> u64 list \<Rightarrow> u8 \<Rightarrow> acpi \<Rightarrow> acpi option" where
  "start_loop active k wanted ids vec a =
     (if wanted \<noteq> active k then start_loop active (k + 1) wanted ids vec (startup_all ids vec a) else Some a)"

text \<open>
  \<^verbatim>\<open>for (i = 0; i < sizeof(...); i += 0x1000)\<close>: the bound is the size of the type of the expression, 8.
\<close>

definition free_array :: "u64 \<Rightarrow> u64 \<Rightarrow> ptstate \<Rightarrow> ptstate" where
  "free_array arr cr3 s = fold (\<lambda>i. pt_free (arr + of_nat i) cr3) (filter (\<lambda>i. i mod 0x1000 = 0) [0..<8]) s"

text \<open>
  \<^verbatim>\<open>SMP::init\<close>; \<open>entry\<close> is the address of \<^verbatim>\<open>SMP::setup\<close>. The start code is copied as it is. The result
  has the start page, the structure, the arrays and the states of the page tables and of the APIC.
\<close>

definition smp_init ::
    "nat \<Rightarrow> (nat \<Rightarrow> u32) \<Rightarrow> (u32 \<Rightarrow> u32) \<Rightarrow> u64 \<Rightarrow> u16 \<times> u64 \<Rightarrow> u64 \<Rightarrow> acpi \<Rightarrow> ptstate
      \<Rightarrow> ((u64 \<times> StartupInfo \<times> (u64 \<times> u64) list) option \<times> acpi \<times> ptstate) option" where
  "smp_init fuel active reg cr3 gdt entry a s = do {
     let localId = ucast (getLapicID reg a);
     let cpuCount = getCPUCount a;
     if cpuCount < 2 then Some (None, a, s)
     else do {
       let sz = 8 * ucast cpuCount;
       (startupCode, s) \<leftarrow> pt_lowalloc fuel 1 CODE_RW cr3 s;
       let smp_init_vector = ucast (drop_bit 12 startupCode AND 0xFF);
       (ids, s) \<leftarrow> pt_alloc fuel (drop_bit 12 (sz + 0xFFF)) DATA_RW cr3 s;
       (stk, s) \<leftarrow> pt_alloc fuel (drop_bit 12 (sz + 0xFFF)) DATA_RW cr3 s;
       let info = \<lparr>pagetableptr = cr3, lapicAddr = localApicAddr a, cpuids = ids, stacks = stk, startup = entry, gdtptr = gdt\<rparr>;
       (cs, nullcpus, s) \<leftarrow> cpus_loop fuel cr3 a localId (map of_nat [0..<unat cpuCount]) s;
       (_, s) \<leftarrow> pt_map_page fuel startupCode CODE_RX cr3 s;
       let nullcpus = (if nullcpus > 0 then nullcpus - 1 else nullcpus);
       let a = init_all (others localId cs) a;
       a \<leftarrow> start_loop active 0 (cpuCount - nullcpus) (others localId cs) smp_init_vector a;
       let s = free_array ids cr3 s;
       let s = free_array stk cr3 s;
       Some (Some (startupCode, info, cs), a, pt_free startupCode cr3 s)
     }
   }"

section \<open>Every other processor is started\<close>

definition ipi :: "u64 \<Rightarrow> u32 \<Rightarrow> (u32 \<times> u32) list" where
  "ipi c cmd = [(0x310, push_bit 24 (ucast c)), (0x300, cmd)]"

lemma init_all_lapic:
  "localApicAddr a \<noteq> 0 \<Longrightarrow> init_all ids a = a\<lparr>lapic := lapic a @ concat (map (\<lambda>c. ipi c 0x4500) ids)\<rparr>"
  by (induction ids arbitrary: a) (simp_all add: init_all_def sendCPUInit_def LapicOut_def ipi_def)

lemma startup_all_lapic:
  "localApicAddr a \<noteq> 0 \<Longrightarrow>
   startup_all ids v a = a\<lparr>lapic := lapic a @ concat (map (\<lambda>c. ipi c (ucast v OR 0x4600)) ids)\<rparr>"
  by (induction ids arbitrary: a) (simp_all add: startup_all_def sendCPUStartup_def LapicOut_def ipi_def)

text \<open>
  When the wanted number of processors is active at the n-th test, the loop ends there, and
  the local APIC was told to send INIT once and STARTUP n times to each of the other
  processors, in order.
\<close>

theorem start_loop_rounds:
  assumes "localApicAddr a \<noteq> 0" and "active n = wanted" and "\<forall>k < n. active k \<noteq> wanted"
  shows "start_loop active 0 wanted ids vec (init_all ids a)
    = Some (a\<lparr>lapic := lapic a @ concat (map (\<lambda>c. ipi c 0x4500) ids)
        @ concat (replicate n (concat (map (\<lambda>c. ipi c (ucast vec OR 0x4600)) ids)))\<rparr>)"
proof -
  let ?r = "concat (map (\<lambda>c. ipi c (ucast vec OR 0x4600)) ids)"
  have rounds: "start_loop active k wanted ids vec b = Some (b\<lparr>lapic := lapic b @ concat (replicate m ?r)\<rparr>)"
    if "k + m = n" "localApicAddr b \<noteq> 0" for k m b
    using that
  proof (induction m arbitrary: k b)
    case 0
    then show ?case using assms(2) by (subst start_loop.simps) simp
  next
    case (Suc m)
    then have "active k \<noteq> wanted" using assms(3) by simp
    then have "start_loop active k wanted ids vec b = start_loop active (k + 1) wanted ids vec (startup_all ids vec b)"
      by (subst start_loop.simps) simp
    then show ?case using Suc.IH [of "k + 1" "startup_all ids vec b"] Suc.prems by (simp add: startup_all_lapic)
  qed
  show ?thesis
    using rounds [of 0 n "init_all ids a"] assms(1) by (simp add: init_all_lapic)
qed

theorem start_loop_rounds_witness:
  "map_option lapic (start_loop (\<lambda>k. if k < 1 then 1 else 2) 0 2 [1] 8 (init_all [1] (demo_acpi\<lparr>localApicAddr := 0xFEE00000\<rparr>)))
     = Some [(0x310, 0x01000000), (0x300, 0x4500), (0x310, 0x01000000), (0x300, 0x4608)]"
  using start_loop_rounds [of "demo_acpi\<lparr>localApicAddr := 0xFEE00000\<rparr>" "\<lambda>k. if k < 1 then 1 else 2" 1 2 "[1]" 8]
  by (simp add: demo_acpi_def ipi_def)

lemma cpus_loop_ids:
  "cpus_loop fuel cr3 a localId is s = Some (cs, n, s') \<Longrightarrow>
   map fst cs = map (\<lambda>i. ucast (getLapicIDOfCPU i a)) is
   \<and> n = of_nat (length (filter (\<lambda>i. ucast (getLapicIDOfCPU i a) = localId) is))
   \<and> (\<forall>(c, stk) \<in> set cs. c = localId \<longrightarrow> stk = 0)"
proof (induction "is" arbitrary: s cs n)
  case (Cons i js)
  obtain stk s1 cs' m where "cpus_loop fuel cr3 a localId js s1 = Some (cs', m, s')"
      "cs = (ucast (getLapicIDOfCPU i a), stk) # cs'"
      "n = (if ucast (getLapicIDOfCPU i a) \<noteq> localId then m else m + 1)"
      "ucast (getLapicIDOfCPU i a) = localId \<longrightarrow> stk = 0"
    using Cons.prems by (auto simp: Let_def split: bind_splits if_splits)
  then show ?case using Cons.IH [of s1 cs' m] by auto
qed simp

lemma free_array_once: "free_array arr cr3 s = pt_free arr cr3 s"
proof -
  have "filter (\<lambda>i. i mod 0x1000 = 0) [0..<8] = [0 :: nat]" by (simp add: upt_rec)
  then show ?thesis by (simp add: free_array_def)
qed

end
