(* ===== verification/Intinit.thy ===== *)
theory Intinit
  imports Interrupts Syscall Process Smp Layout
begin

text \<open>
  \<^verbatim>\<open>Interrupts::init\<close> and \<^verbatim>\<open>Interrupts::loadVector\<close> (\<^verbatim>\<open>src/interrupts/interrupts.cpp\<close>), \<^verbatim>\<open>Syscall::setup\<close> and the
  entry of the other processors, \<^verbatim>\<open>SMP::setup\<close>: the descriptor tables, task state segments, stacks, stubs
  and gates are written to the bytes of memory that the page allocator gives, and the registers of the
  processor are loaded with them.
\<close>

section \<open>State\<close>

text \<open>
  Page tables and memory, the controllers, the static members of \<^verbatim>\<open>Interrupts\<close>, and the registers of the
  running processor. \<open>taken\<close> lists what the allocator gave, address and number of bytes.
\<close>

record kmachine =
  pt :: ptstate
  imem :: mem
  taken :: "(u64 \<times> nat) list"
  acpis :: acpi
  ioa :: ioapic
  iports :: "(u16 \<times> u8) list"
  gdt :: u64
  idt :: u64
  glob :: u64
  handlers :: u64
  eoi_vector :: u64
  mcr3 :: u64
  gdtr :: "u16 \<times> u64"
  idtr :: "u16 \<times> u64"
  tr :: u16
  segments :: "u16 \<times> u16"
  msr :: "u32 \<Rightarrow> u64"
  int_flag :: bool

text \<open>Memory of the allocator is cleared; after a null result nothing is.\<close>

definition took :: "nat \<Rightarrow> u64 \<times> ptstate \<Rightarrow> kmachine \<Rightarrow> u64 \<times> kmachine" where
  "took n r s =
     (fst r, s\<lparr>pt := snd r, imem := if fst r = 0 then imem s else filled n 0 (fst r) (imem s), taken := taken s @ [(fst r, n)]\<rparr>)"

definition i_alloc :: "nat \<Rightarrow> u64 \<Rightarrow> u8 \<Rightarrow> kmachine \<Rightarrow> (u64 \<times> kmachine) option" where
  "i_alloc fuel n type s = map_option (\<lambda>r. took (unat n * 0x1000) r s) (pt_alloc fuel n type (mcr3 s) (pt s))"

definition i_lowalloc :: "nat \<Rightarrow> u64 \<Rightarrow> u8 \<Rightarrow> kmachine \<Rightarrow> (u64 \<times> kmachine) option" where
  "i_lowalloc fuel n type s = map_option (\<lambda>r. took (unat n * 0x1000) r s) (pt_lowalloc fuel n type (mcr3 s) (pt s))"

definition store :: "u64 \<Rightarrow> u8 list \<Rightarrow> kmachine \<Rightarrow> kmachine" where
  "store a bs s = s\<lparr>imem := put_chunk a bs (imem s)\<rparr>"

definition out_ports :: "(u16 \<times> u8) list \<Rightarrow> kmachine \<Rightarrow> kmachine" where
  "out_ports ps s = s\<lparr>iports := iports s @ ps\<rparr>"

definition wrmsr :: "u32 \<Rightarrow> u64 \<Rightarrow> kmachine \<Rightarrow> kmachine" where
  "wrmsr i v s = s\<lparr>msr := (msr s)(i := v)\<rparr>"

section \<open>Task state segments\<close>

text \<open>The words of \<^verbatim>\<open>GDT::SystemEntry\<close> and \<^verbatim>\<open>REC64\<close> are stored one behind the other.\<close>

definition two_words :: "u64 \<times> u64 \<Rightarrow> u8 list" where
  "two_words d = le 8 (fst d) @ le 8 (snd d)"

definition tss_step :: "nat \<Rightarrow> u64 \<Rightarrow> u64 \<Rightarrow> u64 \<Rightarrow> kmachine \<Rightarrow> kmachine option" where
  "tss_step fuel ncpu tssbuf idx s = do {
     let entbuf = tss_entbuf tssbuf idx;
     (p, s) \<leftarrow> i_alloc fuel 1 DATA_RW s;
     let s = store (entbuf + 36) (le 8 (p + 0x1000)) s;
     let s = store (entbuf + 102) (le 2 (ucast (tss_iomap_base tssbuf ncpu idx))) s;
     (p, s) \<leftarrow> i_alloc fuel 1 DATA_RW s;
     let s = store (glob s + 8 + 8 * idx) (le 8 (p + 0x1000)) s;
     Some (store (gdt s + 40 + 16 * idx) (two_words (tss_descriptor tssbuf ncpu idx)) s)
   }"

fun tss_loop :: "nat \<Rightarrow> u64 \<Rightarrow> u64 \<Rightarrow> nat list \<Rightarrow> kmachine \<Rightarrow> kmachine option" where
  "tss_loop fuel ncpu tssbuf [] s = Some s"
| "tss_loop fuel ncpu tssbuf (k # ks) s = do {
     s \<leftarrow> tss_step fuel ncpu tssbuf (of_nat k) s;
     tss_loop fuel ncpu tssbuf ks s
   }"

section \<open>Stubs and gates\<close>

definition gate_step :: "u64 \<Rightarrow> nat \<Rightarrow> kmachine \<Rightarrow> kmachine" where
  "gate_step wrapper_addr i s =
     store (idt s + 16 * of_nat i) (two_words (idt_entry (handlers s) i))
       (store (stub_addr (handlers s) i) (stub wrapper_addr (handlers s) i) s)"

section \<open>Loading the registers\<close>

text \<open>\<open>reg\<close> is what the registers of the local APIC of the running processor give.\<close>

definition loadVector :: "(u32 \<Rightarrow> u32) \<Rightarrow> kmachine \<Rightarrow> kmachine" where
  "loadVector reg s =
     (let cpuid = ucast (getCPUID reg (acpis s));
          s = wrmsr 0xC0000100 0 s;
          s = wrmsr 0xC0000101 (glob s) s;
          s = wrmsr 0xC0000102 (glob s) s
      in s\<lparr>idtr := (16 * 256 - 1, idt s), tr := task_selector cpuid, int_flag := True\<rparr>)"

text \<open>
  The whole of \<^verbatim>\<open>Interrupts::init\<close>. \<open>wrapper_addr\<close> is the address of the wrapper; \<open>junk\<close> is what the unset bits of
  the redirection entry hold. The code and stack segments are those the \<^verbatim>\<open>iretq\<close> loads.
\<close>

definition init_tables :: "nat \<Rightarrow> kmachine \<Rightarrow> kmachine option" where
  "init_tables fuel s = do {
     let ncpu = (ucast (getCPUCount (acpis s)) :: u64);
     (g, s) \<leftarrow> i_lowalloc fuel ((gdt_size ncpu + 0xFFF) div 0x1000) DATA_RW s;
     let s = s\<lparr>gdt := g\<rparr>;
     (i, s) \<leftarrow> i_alloc fuel ((16 * 256 + 0xFFF) div 0x1000) DATA_RW s;
     let s = s\<lparr>idt := i\<rparr>;
     let s = fold (\<lambda>k. store (g + 8 * of_nat k) (le 8 (gdt_ents ! k))) [0..<5] s;
     (l, s) \<leftarrow> i_alloc fuel ((8 + 8 * ncpu + 0xFFF) div 0x1000) DATA_RW s;
     let s = store l (le 8 (mcr3 s)) (s\<lparr>glob := l\<rparr>);
     (tssbuf, s) \<leftarrow> i_alloc fuel (2 + tss_size_pad ncpu div 0x1000) DATA_RW s;
     let s = store (tssbuf + tss_size_pad ncpu) (replicate 0x2000 0xFF) s;
     s \<leftarrow> tss_loop fuel ncpu tssbuf [0..<unat ncpu] s;
     Some (s\<lparr>gdtr := (ucast (gdt_size ncpu - 1), gdt s), segments := (8, 16),
             eoi_vector := (let lapic_eoi = getLapicAddr (acpis s) in if lapic_eoi = 0 then 0 else lapic_eoi + 0xB0)\<rparr>)
   }"

definition init_stubs :: "nat \<Rightarrow> u64 \<Rightarrow> kmachine \<Rightarrow> kmachine option" where
  "init_stubs fuel wrapper_addr s = do {
     (h, s) \<leftarrow> i_alloc fuel ((11 * 256 + 0xFFF) div 0x1000) CODE_RW s;
     let s = fold (gate_step wrapper_addr) [0..<256] (s\<lparr>handlers := h\<rparr>);
     (_, t) \<leftarrow> pt_map fuel h (h + 11 * 256) CODE_RX (mcr3 s) (pt s);
     Some (s\<lparr>pt := t\<rparr>)
   }"

definition int_init :: "nat \<Rightarrow> (u32 \<Rightarrow> u32) \<Rightarrow> u64 \<Rightarrow> u64 \<Rightarrow> kmachine \<Rightarrow> kmachine option" where
  "int_init fuel reg junk wrapper_addr s = do {
     s \<leftarrow> init_tables fuel s;
     s \<leftarrow> init_stubs fuel wrapper_addr s;
     let s = loadVector reg (out_ports pic_init s);
     let (apic, a, d) = initAPIC reg junk (acpis s) (ioa s);
     let s = s\<lparr>acpis := a, ioa := d\<rparr>;
     let s = (if apic then s else out_ports [(0x43, 0x34), (0x40, 0x0F), (0x40, 0x00)] s);
     Some (out_ports (maskIRQ 0) s)
   }"

section \<open>System calls and the other processors\<close>

text \<open>The processor gives the two halves of a register, which are put together again.\<close>

definition rdmsr :: "u32 \<Rightarrow> kmachine \<Rightarrow> u64" where
  "rdmsr i s = (let msr_hi = ucast (drop_bit 32 (msr s i)); msr_lo = ucast (msr s i) in push_bit 32 (ucast (msr_hi :: u32)) OR ucast (msr_lo :: u32))"

lemma rdmsr_value [simp]: "rdmsr i s = msr s i"
proof (rule bit_word_eqI)
  fix n
  show "bit (rdmsr i s) n = bit (msr s i) n"
    by (cases "n < 32"; cases "n < 64") (auto simp: rdmsr_def Let_def bit_simps)
qed

definition MSR_EFER :: u32 where "MSR_EFER = 0xC0000080"
definition MSR_STAR :: u32 where "MSR_STAR = 0xC0000081"
definition MSR_LSTAR :: u32 where "MSR_LSTAR = 0xC0000082"
definition MSR_SFMASK :: u32 where "MSR_SFMASK = 0xC0000084"
definition MSR_SFMASK_IE :: u64 where "MSR_SFMASK_IE = push_bit 9 1"
definition MSR_EFER_SCE :: u64 where "MSR_EFER_SCE = push_bit 0 1"

definition syscall_setup :: "u64 \<Rightarrow> kmachine \<Rightarrow> kmachine" where
  "syscall_setup wrapper_addr s =
     (let s = wrmsr MSR_STAR (push_bit 48 0x10 OR push_bit 32 0x8) s;
          s = wrmsr MSR_LSTAR wrapper_addr s;
          s = wrmsr MSR_SFMASK MSR_SFMASK_IE s
      in wrmsr MSR_EFER (rdmsr MSR_EFER s OR MSR_EFER_SCE) s)"

text \<open>What a processor that was started does before it enters the loop of the scheduler.\<close>

definition smp_setup :: "(u32 \<Rightarrow> u32) \<Rightarrow> u64 \<Rightarrow> kmachine \<Rightarrow> kmachine" where
  "smp_setup reg wrapper_addr s =
     (let s = loadVector reg s; s = s\<lparr>acpis := activateCPU reg (acpis s)\<rparr> in syscall_setup wrapper_addr s)"

section \<open>Writes to separate places\<close>

definition apart :: "u64 \<times> nat \<Rightarrow> u64 \<times> nat \<Rightarrow> bool" where
  "apart a b \<longleftrightarrow> (\<forall>x. \<not> (in_range (fst a) (snd a) x \<and> in_range (fst b) (snd b) x))"

definition within :: "u64 \<times> nat \<Rightarrow> u64 \<times> nat \<Rightarrow> bool" where
  "within a b \<longleftrightarrow> (\<forall>x. in_range (fst a) (snd a) x \<longrightarrow> in_range (fst b) (snd b) x)"

lemma apart_sym: "apart a b \<Longrightarrow> apart b a"
  by (auto simp: apart_def)

lemma within_refl [simp]: "within a a"
  by (simp add: within_def)

lemma apart_within: "apart a b \<Longrightarrow> within c a \<Longrightarrow> within d b \<Longrightarrow> apart c d"
  by (auto simp: apart_def within_def)

lemma within_part: "i + n \<le> k \<Longrightarrow> k < 2 ^ 64 \<Longrightarrow> within (b + of_nat i, n) (b, k)"
  using in_range_shift [of i n b] by (auto simp: within_def) (simp add: in_range_def)

lemma apart_parts: "i + n \<le> j \<Longrightarrow> j + k < 2 ^ 64 \<Longrightarrow> apart (b + of_nat i, n) (b + of_nat j, k)"
  by (auto simp: apart_def in_range_shift [of i n] in_range_shift [of j k])

type_synonym writes = "(u64 \<times> u8 list) list"

definition apply_writes :: "writes \<Rightarrow> mem \<Rightarrow> mem" where
  "apply_writes ws m = fold (\<lambda>(a, bs). put_chunk a bs) ws m"

definition place_of :: "u64 \<times> u8 list \<Rightarrow> u64 \<times> nat" where
  "place_of w = (fst w, length (snd w))"

lemma apply_writes_append [simp]: "apply_writes (ws @ vs) m = apply_writes vs (apply_writes ws m)"
  by (simp add: apply_writes_def)

lemma apply_writes_simps [simp]:
  "apply_writes [] m = m" "apply_writes ((a, bs) # ws) m = apply_writes ws (put_chunk a bs m)"
  by (simp_all add: apply_writes_def)

lemma filled_put: "filled n v a m = put_chunk a (replicate n v) m"
  by (auto simp: filled_def put_chunk_def in_range_def fun_eq_iff)

lemma in_range_nat: "i < n \<Longrightarrow> in_range a n (a + of_nat i)"
  by (simp add: in_range_def unsigned_of_nat) (meson le_less_trans take_bit_nat_less_eq_self)

lemma holds_put_same: "length bs < 2 ^ 64 \<Longrightarrow> holds (put_chunk a bs m) a bs"
  by (auto simp: holds_def put_chunk_def in_range_nat unat_of_nat_u64)

lemma holds_put_apart: "apart (b, length ys) (a, length bs) \<Longrightarrow> holds m a bs \<Longrightarrow> holds (put_chunk b ys m) a bs"
  by (auto simp: holds_def put_chunk_def apart_def dest: in_range_nat [of _ "length bs" a])

lemma holds_writes:
  "\<forall>w \<in> set ws. apart (place_of w) (a, length bs) \<Longrightarrow> holds m a bs \<Longrightarrow> holds (apply_writes ws m) a bs"
proof (induction ws arbitrary: m)
  case (Cons w ws)
  then show ?case by (cases w) (auto simp: place_of_def holds_put_apart)
qed simp

lemma holds_last_write:
  assumes "\<forall>w \<in> set vs. apart (place_of w) (a, length bs)" and "length bs < 2 ^ 64"
  shows "holds (apply_writes (ws @ (a, bs) # vs) m) a bs"
  using holds_writes [OF assms(1) holds_put_same [OF assms(2)]] by simp

section \<open>What is written\<close>

definition tss_writes :: "u64 \<Rightarrow> u64 \<Rightarrow> u64 \<Rightarrow> u64 \<Rightarrow> nat \<Rightarrow> u64 \<times> u64 \<Rightarrow> writes" where
  "tss_writes ncpu tssbuf g l k pq =
     [(fst pq, replicate 0x1000 0), (tssbuf + of_nat (104 * k + 36), le 8 (fst pq + 0x1000)),
      (tssbuf + of_nat (104 * k + 102), le 2 (ucast (tss_iomap_base tssbuf ncpu (of_nat k)))),
      (snd pq, replicate 0x1000 0), (l + of_nat (8 + 8 * k), le 8 (snd pq + 0x1000)),
      (g + of_nat (40 + 16 * k), two_words (tss_descriptor tssbuf ncpu (of_nat k)))]"

definition pages_of :: "u64 \<times> u64 \<Rightarrow> (u64 \<times> nat) list" where
  "pages_of pq = [(fst pq, 0x1000), (snd pq, 0x1000)]"

text \<open>The parts of the state that the loop over the processors leaves alone.\<close>

definition same_rest :: "kmachine \<Rightarrow> kmachine \<Rightarrow> bool" where
  "same_rest s t \<longleftrightarrow> t = s\<lparr>pt := pt t, imem := imem t, taken := taken t\<rparr>"

lemma same_rest_fields:
  "same_rest s t \<Longrightarrow> acpis t = acpis s \<and> ioa t = ioa s \<and> iports t = iports s \<and> gdt t = gdt s \<and> idt t = idt s
     \<and> glob t = glob s \<and> handlers t = handlers s \<and> mcr3 t = mcr3 s \<and> msr t = msr s"
  by (cases s, cases t) (simp add: same_rest_def)

lemma i_alloc_taken:
  assumes "i_alloc fuel n type s = Some (p, t)" and "p \<noteq> 0"
  shows "same_rest s t" and "taken t = taken s @ [(p, unat n * 0x1000)]"
    and "imem t = apply_writes [(p, replicate (unat n * 0x1000) 0)] (imem s)"
  using assms by (auto simp: i_alloc_def took_def same_rest_def filled_put)

lemma i_lowalloc_taken:
  assumes "i_lowalloc fuel n type s = Some (p, t)" and "p \<noteq> 0"
  shows "same_rest s t" and "taken t = taken s @ [(p, unat n * 0x1000)]"
    and "imem t = apply_writes [(p, replicate (unat n * 0x1000) 0)] (imem s)"
  using assms by (auto simp: i_lowalloc_def took_def same_rest_def filled_put)

lemma same_rest_trans: "same_rest s t \<Longrightarrow> same_rest t u \<Longrightarrow> same_rest s u"
  by (cases s, cases t, cases u) (simp add: same_rest_def)

lemma same_rest_store [simp]: "same_rest s (store a bs s)"
  by (cases s) (simp add: same_rest_def store_def)

lemma store_fields [simp]:
  "taken (store a bs s) = taken s" "imem (store a bs s) = put_chunk a bs (imem s)" "gdt (store a bs s) = gdt s"
  "glob (store a bs s) = glob s" "mcr3 (store a bs s) = mcr3 s" "pt (store a bs s) = pt s" "idt (store a bs s) = idt s"
  "handlers (store a bs s) = handlers s" "acpis (store a bs s) = acpis s" "ioa (store a bs s) = ioa s"
  "iports (store a bs s) = iports s" "msr (store a bs s) = msr s"
  by (simp_all add: store_def)

lemma tss_step_writes:
  assumes "tss_step fuel ncpu tssbuf (of_nat k) s = Some t" and "\<forall>b \<in> set (taken t). fst b \<noteq> 0"
  shows "\<exists>pq. same_rest s t \<and> taken t = taken s @ pages_of pq
    \<and> imem t = apply_writes (tss_writes ncpu tssbuf (gdt s) (glob s) k pq) (imem s)"
proof -
  let ?e = "tss_entbuf tssbuf (of_nat k)"
  from assms(1) obtain p s1 q s3 where step: "i_alloc fuel 1 DATA_RW s = Some (p, s1)"
      "i_alloc fuel 1 DATA_RW (store (?e + 102) (le 2 (ucast (tss_iomap_base tssbuf ncpu (of_nat k))))
         (store (?e + 36) (le 8 (p + 0x1000)) s1)) = Some (q, s3)"
      "t = store (gdt s3 + 40 + 16 * of_nat k) (two_words (tss_descriptor tssbuf ncpu (of_nat k)))
             (store (glob s3 + 8 + 8 * of_nat k) (le 8 (q + 0x1000)) s3)"
    by (auto simp: tss_step_def Let_def split: bind_splits)
  let ?s2 = "store (?e + 102) (le 2 (ucast (tss_iomap_base tssbuf ncpu (of_nat k)))) (store (?e + 36) (le 8 (p + 0x1000)) s1)"
  have tak: "set (taken s1) \<subseteq> set (taken t)" "(p, 0x1000) \<in> set (taken s1)" "(q, 0x1000) \<in> set (taken t)"
    using step by (auto simp: i_alloc_def took_def)
  then have nz: "p \<noteq> 0" "q \<noteq> 0" using assms(2) by (metis fst_conv subset_iff)+
  note a = i_alloc_taken [OF step(1) nz(1)] and b = i_alloc_taken [OF step(2) nz(2)]
  have rest: "same_rest s t"
    unfolding step(3) using a(1) b(1) by (meson same_rest_store same_rest_trans)
  have "gdt s3 = gdt s" "glob s3 = glob s" using same_rest_fields [OF a(1)] same_rest_fields [OF b(1)] by simp_all
  then have "imem t = apply_writes (tss_writes ncpu tssbuf (gdt s) (glob s) k (p, q)) (imem s)"
    by (simp add: step(3) a(3) b(3) tss_writes_def tss_entbuf_def ac_simps)
  then show ?thesis
    using rest step(3) a(2) b(2) by (intro exI [of _ "(p, q)"]) (simp add: pages_of_def)
qed

lemma tss_step_more: "tss_step fuel ncpu tssbuf idx s = Some t \<Longrightarrow> set (taken s) \<subseteq> set (taken t)"
  by (auto simp: tss_step_def i_alloc_def took_def Let_def split: bind_splits)

lemma tss_loop_more: "tss_loop fuel ncpu tssbuf ks s = Some t \<Longrightarrow> set (taken s) \<subseteq> set (taken t)"
  by (induction ks arbitrary: s) (auto split: bind_splits dest: tss_step_more)

lemma tss_loop_writes:
  "tss_loop fuel ncpu tssbuf ks s = Some t \<Longrightarrow> \<forall>b \<in> set (taken t). fst b \<noteq> 0
   \<Longrightarrow> \<exists>pqs. length pqs = length ks \<and> same_rest s t \<and> taken t = taken s @ concat (map pages_of pqs)
     \<and> imem t = apply_writes (concat (map2 (tss_writes ncpu tssbuf (gdt s) (glob s)) ks pqs)) (imem s)"
proof (induction ks arbitrary: s)
  case Nil
  then show ?case by (cases t) (simp add: same_rest_def)
next
  case (Cons k ks)
  from Cons.prems(1) obtain u where u: "tss_step fuel ncpu tssbuf (of_nat k) s = Some u" "tss_loop fuel ncpu tssbuf ks u = Some t"
    by (auto split: bind_splits)
  have "\<forall>b \<in> set (taken u). fst b \<noteq> 0" using tss_loop_more [OF u(2)] Cons.prems(2) by blast
  from tss_step_writes [OF u(1) this] obtain pq where pq: "same_rest s u" "taken u = taken s @ pages_of pq"
      "imem u = apply_writes (tss_writes ncpu tssbuf (gdt s) (glob s) k pq) (imem s)" by blast
  from Cons.IH [OF u(2) Cons.prems(2)] obtain pqs where pqs: "length pqs = length ks" "same_rest u t"
      "taken t = taken u @ concat (map pages_of pqs)"
      "imem t = apply_writes (concat (map2 (tss_writes ncpu tssbuf (gdt u) (glob u)) ks pqs)) (imem u)" by blast
  then show ?case
    using pq same_rest_fields [OF pq(1)] same_rest_trans [OF pq(1) pqs(2)]
    by (intro exI [of _ "pq # pqs"]) simp
qed

definition gate_writes :: "u64 \<Rightarrow> u64 \<Rightarrow> u64 \<Rightarrow> nat \<Rightarrow> writes" where
  "gate_writes wrapper_addr h i k =
     [(h + of_nat (11 * k), stub wrapper_addr h k), (i + of_nat (16 * k), two_words (idt_entry h k))]"

lemma gates_writes:
  "fold (gate_step wrapper_addr) ks s =
     s\<lparr>imem := apply_writes (concat (map (gate_writes wrapper_addr (handlers s) (idt s)) ks)) (imem s)\<rparr>"
proof (induction ks arbitrary: s)
  case (Cons k ks)
  then show ?case by (simp add: gate_step_def gate_writes_def stub_addr_def store_def)
qed simp

definition gdt_writes :: "u64 \<Rightarrow> writes" where
  "gdt_writes g = map (\<lambda>k. (g + of_nat (8 * k), le 8 (gdt_ents ! k))) [0..<5]"

lemma gdt_store_writes:
  "fold (\<lambda>k. store (g + 8 * of_nat k) (f k)) ks s = s\<lparr>imem := apply_writes (map (\<lambda>k. (g + of_nat (8 * k), f k)) ks) (imem s)\<rparr>"
  by (induction ks arbitrary: s) (simp_all add: store_def)

text \<open>The blocks that \<^verbatim>\<open>init\<close> takes: their sizes in bytes, for \<open>n\<close> processors.\<close>

definition gdt_bytes :: "u64 \<Rightarrow> nat" where
  "gdt_bytes ncpu = unat ((gdt_size ncpu + 0xFFF) div 0x1000) * 0x1000"

definition glob_bytes :: "u64 \<Rightarrow> nat" where
  "glob_bytes ncpu = unat ((8 + 8 * ncpu + 0xFFF) div 0x1000) * 0x1000"

definition tss_bytes :: "u64 \<Rightarrow> nat" where
  "tss_bytes ncpu = unat (2 + tss_size_pad ncpu div 0x1000) * 0x1000"

definition table_writes :: "u64 \<Rightarrow> u64 \<Rightarrow> u64 \<Rightarrow> u64 \<Rightarrow> u64 \<Rightarrow> u64 \<Rightarrow> (u64 \<times> u64) list \<Rightarrow> writes" where
  "table_writes ncpu pagetable g i l tssbuf pqs =
     [(g, replicate (gdt_bytes ncpu) 0), (i, replicate 0x1000 0)] @ gdt_writes g
     @ [(l, replicate (glob_bytes ncpu) 0), (l, le 8 pagetable), (tssbuf, replicate (tss_bytes ncpu) 0),
        (tssbuf + tss_size_pad ncpu, replicate 0x2000 0xFF)]
     @ concat (map2 (tss_writes ncpu tssbuf g l) [0..<unat ncpu] pqs)"

definition table_blocks :: "u64 \<Rightarrow> u64 \<Rightarrow> u64 \<Rightarrow> u64 \<Rightarrow> u64 \<Rightarrow> (u64 \<times> u64) list \<Rightarrow> (u64 \<times> nat) list" where
  "table_blocks ncpu g i l tssbuf pqs =
     [(g, gdt_bytes ncpu), (i, 0x1000), (l, glob_bytes ncpu), (tssbuf, tss_bytes ncpu)] @ concat (map pages_of pqs)"

lemma init_tables_writes:
  assumes "init_tables fuel s = Some t" and "\<forall>b \<in> set (taken t). fst b \<noteq> 0" and "ncpu = ucast (getCPUCount (acpis s))"
  shows "\<exists>g i l tssbuf pqs. length pqs = unat ncpu \<and> taken t = taken s @ table_blocks ncpu g i l tssbuf pqs
    \<and> imem t = apply_writes (table_writes ncpu (mcr3 s) g i l tssbuf pqs) (imem s)
    \<and> gdt t = g \<and> idt t = i \<and> glob t = l \<and> mcr3 t = mcr3 s \<and> acpis t = acpis s \<and> ioa t = ioa s \<and> iports t = iports s
    \<and> gdtr t = (ucast (gdt_size ncpu - 1), g) \<and> segments t = (8, 16)
    \<and> eoi_vector t = (if localApicAddr (acpis s) = 0 then 0 else localApicAddr (acpis s) + 0xB0)"
proof -
  define gents where "gents g = fold (\<lambda>k. store (g + 8 * of_nat k) (le 8 (gdt_ents ! k))) [0..<5]" for g
  from assms(1) obtain g s1 i s2 l s3 tb s4 s5 where
      step: "i_lowalloc fuel ((gdt_size ncpu + 0xFFF) div 0x1000) DATA_RW s = Some (g, s1)"
      "i_alloc fuel ((16 * 256 + 0xFFF) div 0x1000) DATA_RW (s1\<lparr>gdt := g\<rparr>) = Some (i, s2)"
      "i_alloc fuel ((8 + 8 * ncpu + 0xFFF) div 0x1000) DATA_RW (gents g (s2\<lparr>idt := i\<rparr>)) = Some (l, s3)"
      "i_alloc fuel (2 + tss_size_pad ncpu div 0x1000) DATA_RW (store l (le 8 (mcr3 s3)) (s3\<lparr>glob := l\<rparr>)) = Some (tb, s4)"
      "tss_loop fuel ncpu tb [0..<unat ncpu] (store (tb + tss_size_pad ncpu) (replicate 0x2000 0xFF) s4) = Some s5"
      "t = s5\<lparr>gdtr := (ucast (gdt_size ncpu - 1), gdt s5), segments := (8, 16),
             eoi_vector := (if localApicAddr (acpis s5) = 0 then 0 else localApicAddr (acpis s5) + 0xB0)\<rparr>"
    by (auto simp: init_tables_def getLapicAddr_def Let_def assms(3) gents_def split: bind_splits)
  have nz5: "\<forall>b \<in> set (taken s5). fst b \<noteq> 0" using assms(2) step(6) by simp
  obtain pqs where pqs: "length pqs = unat ncpu" "same_rest (store (tb + tss_size_pad ncpu) (replicate 0x2000 0xFF) s4) s5"
      "taken s5 = taken s4 @ concat (map pages_of pqs)"
      "imem s5 = apply_writes (concat (map2 (tss_writes ncpu tb (gdt s4) (glob s4)) [0..<unat ncpu] pqs))
         (put_chunk (tb + tss_size_pad ncpu) (replicate 0x2000 0xFF) (imem s4))"
    using tss_loop_writes [OF step(5) nz5] by auto
  have g5: "gents g u = u\<lparr>imem := apply_writes (gdt_writes g) (imem u)\<rparr>" for u
    by (simp add: gents_def gdt_store_writes gdt_writes_def)
  have mem: "(g, gdt_bytes ncpu) \<in> set (taken s5)" "(i, 0x1000) \<in> set (taken s5)" "(l, glob_bytes ncpu) \<in> set (taken s5)"
      "(tb, tss_bytes ncpu) \<in> set (taken s5)"
    using step(1-4) pqs(3) by (auto simp: i_alloc_def i_lowalloc_def took_def g5 gdt_bytes_def glob_bytes_def tss_bytes_def)
  then have nz: "g \<noteq> 0" "i \<noteq> 0" "l \<noteq> 0" "tb \<noteq> 0" using nz5 by fastforce+
  note a = i_lowalloc_taken [OF step(1) nz(1)] and b = i_alloc_taken [OF step(2) nz(2)]
    and c = i_alloc_taken [OF step(3) nz(3)] and d = i_alloc_taken [OF step(4) nz(4)]
  note f = same_rest_fields [OF a(1)] same_rest_fields [OF b(1)] same_rest_fields [OF c(1)] same_rest_fields [OF d(1)]
    same_rest_fields [OF pqs(2)]
  have tak: "taken t = taken s @ table_blocks ncpu g i l tb pqs"
    using step(6) pqs(3) a(2) b(2) c(2) d(2) by (simp add: g5 table_blocks_def gdt_bytes_def glob_bytes_def tss_bytes_def)
  have im: "imem t = apply_writes (table_writes ncpu (mcr3 s) g i l tb pqs) (imem s)"
    using step(6) pqs(4) a(3) b(3) c(3) d(3) f
    by (simp add: g5 table_writes_def gdt_bytes_def glob_bytes_def tss_bytes_def)
  show ?thesis
    by (rule exI [of _ g], rule exI [of _ i], rule exI [of _ l], rule exI [of _ tb], rule exI [of _ pqs])
       (use pqs(1) tak im f step(6) in \<open>simp add: g5\<close>)
qed

text \<open>What the last part of \<^verbatim>\<open>init\<close> leaves of the tables: it only writes stubs and gates.\<close>

definition init_writes ::
    "u64 \<Rightarrow> u64 \<Rightarrow> u64 \<Rightarrow> u64 \<Rightarrow> u64 \<Rightarrow> u64 \<Rightarrow> u64 \<Rightarrow> u64 \<Rightarrow> (u64 \<times> u64) list \<Rightarrow> writes" where
  "init_writes wrapper_addr ncpu pagetable g i l tssbuf h pqs =
     table_writes ncpu pagetable g i l tssbuf pqs
     @ (h, replicate 0x1000 0) # concat (map (gate_writes wrapper_addr h i) [0..<256])"

definition init_blocks :: "u64 \<Rightarrow> u64 \<Rightarrow> u64 \<Rightarrow> u64 \<Rightarrow> u64 \<Rightarrow> u64 \<Rightarrow> (u64 \<times> u64) list \<Rightarrow> (u64 \<times> nat) list" where
  "init_blocks ncpu g i l tssbuf h pqs = table_blocks ncpu g i l tssbuf pqs @ [(h, 0x1000)]"

lemma out_ports_fields [simp]:
  "taken (out_ports ps s) = taken s" "imem (out_ports ps s) = imem s" "gdt (out_ports ps s) = gdt s" "idt (out_ports ps s) = idt s"
  "glob (out_ports ps s) = glob s" "handlers (out_ports ps s) = handlers s" "acpis (out_ports ps s) = acpis s"
  "ioa (out_ports ps s) = ioa s" "gdtr (out_ports ps s) = gdtr s" "idtr (out_ports ps s) = idtr s" "tr (out_ports ps s) = tr s"
  "segments (out_ports ps s) = segments s" "msr (out_ports ps s) = msr s" "int_flag (out_ports ps s) = int_flag s"
  "iports (out_ports ps s) = iports s @ ps" "eoi_vector (out_ports ps s) = eoi_vector s"
  by (simp_all add: out_ports_def)

lemma loadVector_fields [simp]:
  "taken (loadVector reg s) = taken s" "imem (loadVector reg s) = imem s" "gdt (loadVector reg s) = gdt s"
  "idt (loadVector reg s) = idt s" "glob (loadVector reg s) = glob s" "handlers (loadVector reg s) = handlers s"
  "acpis (loadVector reg s) = acpis s" "ioa (loadVector reg s) = ioa s" "gdtr (loadVector reg s) = gdtr s"
  "idtr (loadVector reg s) = (4095, idt s)" "tr (loadVector reg s) = task_selector (ucast (getCPUID reg (acpis s)))"
  "segments (loadVector reg s) = segments s" "int_flag (loadVector reg s)" "iports (loadVector reg s) = iports s"
  "eoi_vector (loadVector reg s) = eoi_vector s"
  "msr (loadVector reg s) = (msr s)(0xC0000100 := 0, 0xC0000101 := glob s, 0xC0000102 := glob s)"
  by (simp_all add: loadVector_def wrmsr_def Let_def)

lemma int_init_writes:
  assumes "int_init fuel reg junk wrapper_addr s = Some t" and "\<forall>b \<in> set (taken t). fst b \<noteq> 0"
    and "ncpu = ucast (getCPUCount (acpis s))"
  shows "\<exists>g i l tssbuf h pqs. length pqs = unat ncpu \<and> taken t = taken s @ init_blocks ncpu g i l tssbuf h pqs
    \<and> imem t = apply_writes (init_writes wrapper_addr ncpu (mcr3 s) g i l tssbuf h pqs) (imem s)
    \<and> gdt t = g \<and> idt t = i \<and> glob t = l \<and> handlers t = h
    \<and> gdtr t = (ucast (gdt_size ncpu - 1), g) \<and> idtr t = (4095, i) \<and> segments t = (8, 16) \<and> int_flag t
    \<and> tr t = task_selector (ucast (getCPUID reg (acpis s))) \<and> msr t 0xC0000101 = l \<and> msr t 0xC0000102 = l
    \<and> iports t = iports s @ pic_init
        @ (if localApicAddr (acpis s) = 0 then [(0x43, 0x34), (0x40, 0x0F), (0x40, 0x00)] else []) @ maskIRQ 0"
proof -
  from assms(1) obtain u v where step: "init_tables fuel s = Some u" "init_stubs fuel wrapper_addr u = Some v"
      "t = (let s = loadVector reg (out_ports pic_init v); (apic, a, d) = initAPIC reg junk (acpis s) (ioa s);
                s = s\<lparr>acpis := a, ioa := d\<rparr>;
                s = (if apic then s else out_ports [(0x43, 0x34), (0x40, 0x0F), (0x40, 0x00)] s)
            in out_ports (maskIRQ 0) s)"
    by (auto simp: int_init_def Let_def split: bind_splits prod.splits)
  from step(2) obtain h w p q where stubs: "i_alloc fuel ((11 * 256 + 0xFFF) div 0x1000) CODE_RW u = Some (h, w)"
      "v = (fold (gate_step wrapper_addr) [0..<256] (w\<lparr>handlers := h\<rparr>))\<lparr>pt := q\<rparr>"
    by (auto simp: init_stubs_def Let_def split: bind_splits)
  have tv: "taken t = taken v" by (simp add: step(3) Let_def split: prod.split)
  have v: "v = w\<lparr>handlers := h, pt := q, imem := apply_writes (concat (map (gate_writes wrapper_addr h (idt w)) [0..<256])) (imem w)\<rparr>"
    by (simp add: stubs(2) gates_writes del: upt_Suc upt.simps)
  have tak: "taken v = taken w" "taken w = taken u @ [(h, 0x1000)]" using stubs(1) by (auto simp: v i_alloc_def took_def)
  have nz: "\<forall>b \<in> set (taken u). fst b \<noteq> 0" "h \<noteq> 0" using assms(2) tv tak by auto
  note a = i_alloc_taken [OF stubs(1) nz(2)] and f = same_rest_fields [OF i_alloc_taken(1) [OF stubs(1) nz(2)]]
  have w: "gdtr w = gdtr u" "segments w = segments u" using a(1) by (cases u, cases w, simp add: same_rest_def)+
  from init_tables_writes [OF step(1) nz(1) assms(3)] obtain g i l tb pqs where tb: "length pqs = unat ncpu"
      "taken u = taken s @ table_blocks ncpu g i l tb pqs"
      "imem u = apply_writes (table_writes ncpu (mcr3 s) g i l tb pqs) (imem s)"
      "gdt u = g" "idt u = i" "glob u = l" "mcr3 u = mcr3 s" "acpis u = acpis s" "ioa u = ioa s" "iports u = iports s"
      "gdtr u = (ucast (gdt_size ncpu - 1), g)" "segments u = (8, 16)" by blast
  have apic: "fst (initAPIC reg junk x d) \<longleftrightarrow> localApicAddr x \<noteq> 0" for x d
    by (simp add: initAPIC_def Let_def split: prod.split)
  have im: "imem v = apply_writes (init_writes wrapper_addr ncpu (mcr3 s) g i l tb h pqs) (imem s)"
    using f tb by (simp add: v a(3) init_writes_def del: upt_Suc upt.simps)
  have blocks: "taken t = taken s @ init_blocks ncpu g i l tb h pqs" using tv tak tb(2) by (simp add: init_blocks_def)
  have vf: "gdt v = g" "idt v = i" "glob v = l" "handlers v = h" "acpis v = acpis s" "ioa v = ioa s" "iports v = iports s"
      "gdtr v = (ucast (gdt_size ncpu - 1), g)" "segments v = (8, 16)"
    using f tb w by (simp_all add: v del: upt_Suc upt.simps)
  obtain b c d where api: "initAPIC reg junk (acpis s) (ioa s) = (b, c, d)" by (cases "initAPIC reg junk (acpis s) (ioa s)") auto
  then have b: "b \<longleftrightarrow> localApicAddr (acpis s) \<noteq> 0" using apic [of "acpis s" "ioa s"] by simp
  show ?thesis
    by (rule exI [of _ g], rule exI [of _ i], rule exI [of _ l], rule exI [of _ tb], rule exI [of _ h], rule exI [of _ pqs])
       (use tb(1) blocks im vf api b in \<open>simp add: step(3) Let_def\<close>)
qed

section \<open>The writes do not disturb each other\<close>

lemma pages_cover:
  assumes "k < 2 ^ 20"
  shows "k \<le> unat ((of_nat k + 0xFFF) div 0x1000 :: u64) * 0x1000" and "unat ((of_nat k + 0xFFF) div 0x1000 :: u64) * 0x1000 < 2 ^ 21"
proof -
  have "unat (of_nat k + 0xFFF :: u64) = k + 0xFFF"
    using assms by (subst unat_add_u64) (simp_all add: unat_of_nat_u64)
  then have "unat ((of_nat k + 0xFFF) div 0x1000 :: u64) = (k + 0xFFF) div 0x1000" by (simp add: unat_div)
  then show "k \<le> unat ((of_nat k + 0xFFF) div 0x1000 :: u64) * 0x1000" "unat ((of_nat k + 0xFFF) div 0x1000 :: u64) * 0x1000 < 2 ^ 21"
    using assms by simp_all
qed

definition pad_bytes :: "nat \<Rightarrow> nat" where
  "pad_bytes n = (104 * n + 0xFFF) div 0x1000 * 0x1000"

lemma tss_size_pad_nat:
  assumes "n < 2 ^ 10"
  shows "tss_size_pad (of_nat n) = of_nat (pad_bytes n)"
proof (rule word_unat_eq_iff [THEN iffD2])
  let ?w = "of_nat (104 * n + 0xFFF) :: u64"
  have w: "unat ?w = 104 * n + 0xFFF" using assms by (intro unat_of_nat_u64) simp
  have "tss_size_pad (of_nat n) = ?w - (?w AND 0xFFF)"
    using and_not_plus_and [of ?w "0xFFF"] by (simp add: tss_size_pad_def algebra_simps)
  moreover have "unat (?w - (?w AND 0xFFF)) = pad_bytes n"
    using w by (subst unat_diff_u64) (simp_all add: word_le_nat_alt unat_and_fff pad_bytes_def minus_mod_eq_div_mult del: of_nat_add)
  moreover have "unat (of_nat (pad_bytes n) :: u64) = pad_bytes n"
    using assms by (intro unat_of_nat_u64) (simp add: pad_bytes_def)
  ultimately show "unat (tss_size_pad (of_nat n)) = unat (of_nat (pad_bytes n) :: u64)" by (simp only:)
qed

text \<open>The sizes of the blocks are enough for what is written to them.\<close>

lemma block_sizes:
  assumes "n \<le> 255"
  shows "40 + 16 * n \<le> gdt_bytes (of_nat n)" "gdt_bytes (of_nat n) < 2 ^ 64" "8 + 8 * n \<le> glob_bytes (of_nat n)"
    "glob_bytes (of_nat n) < 2 ^ 64" "tss_bytes (of_nat n) = pad_bytes n + 0x2000" "104 * n \<le> pad_bytes n" "pad_bytes n < 2 ^ 20"
proof -
  have g: "gdt_size (of_nat n) = of_nat (40 + 16 * n)" and l: "8 + 8 * of_nat n = (of_nat (8 + 8 * n) :: u64)"
    by (simp_all add: gdt_size_def)
  show "40 + 16 * n \<le> gdt_bytes (of_nat n)" "gdt_bytes (of_nat n) < 2 ^ 64"
    using assms pages_cover [of "40 + 16 * n"] by (simp_all only: gdt_bytes_def g) simp_all
  show "8 + 8 * n \<le> glob_bytes (of_nat n)" "glob_bytes (of_nat n) < 2 ^ 64"
    using assms pages_cover [of "8 + 8 * n"] by (simp_all only: glob_bytes_def l) simp_all
  show p: "104 * n \<le> pad_bytes n" "pad_bytes n < 2 ^ 20" using assms by (simp_all add: pad_bytes_def)
  have "tss_size_pad (of_nat n) = of_nat (pad_bytes n)" using assms by (simp add: tss_size_pad_nat)
  then have "tss_size_pad (of_nat n) div 0x1000 = of_nat (pad_bytes n div 0x1000)"
    using p by (intro word_unat_eq_iff [THEN iffD2]) (simp add: unat_div unat_of_nat_u64)
  then have "2 + tss_size_pad (of_nat n) div 0x1000 = of_nat (2 + pad_bytes n div 0x1000)" by simp
  moreover have "unat (of_nat (2 + pad_bytes n div 0x1000) :: u64) = 2 + pad_bytes n div 0x1000"
    using p by (intro unat_of_nat_u64) simp
  ultimately have "unat (2 + tss_size_pad (of_nat n) div 0x1000) = 2 + pad_bytes n div 0x1000" by (simp only:)
  then show "tss_bytes (of_nat n) = pad_bytes n + 0x2000" by (simp add: tss_bytes_def pad_bytes_def)
qed

text \<open>The blocks of a run for \<open>n\<close> processors, none of which overlaps another.\<close>

definition separate :: "nat \<Rightarrow> u64 \<Rightarrow> u64 \<Rightarrow> u64 \<Rightarrow> u64 \<Rightarrow> u64 \<Rightarrow> (u64 \<times> u64) list \<Rightarrow> bool" where
  "separate n g i l tb h pqs \<longleftrightarrow> n \<le> 255 \<and> length pqs = n \<and> sorted_wrt apart (init_blocks (of_nat n) g i l tb h pqs)"

lemma separate_blocks:
  assumes "separate n g i l tb h pqs"
  shows "apart (g, gdt_bytes (of_nat n)) (i, 0x1000)" "apart (g, gdt_bytes (of_nat n)) (l, glob_bytes (of_nat n))"
    "apart (g, gdt_bytes (of_nat n)) (tb, tss_bytes (of_nat n))" "apart (g, gdt_bytes (of_nat n)) (h, 0x1000)"
    "apart (i, 0x1000) (l, glob_bytes (of_nat n))" "apart (i, 0x1000) (tb, tss_bytes (of_nat n))" "apart (i, 0x1000) (h, 0x1000)"
    "apart (l, glob_bytes (of_nat n)) (tb, tss_bytes (of_nat n))" "apart (l, glob_bytes (of_nat n)) (h, 0x1000)"
    "apart (tb, tss_bytes (of_nat n)) (h, 0x1000)"
  using assms by (simp_all add: separate_def init_blocks_def table_blocks_def sorted_wrt_append)

lemma separate_pages:
  assumes "separate n g i l tb h pqs" and "k < n" and "B \<in> {(fst (pqs ! k), 0x1000), (snd (pqs ! k), 0x1000)}"
  shows "apart (g, gdt_bytes (of_nat n)) B" "apart (l, glob_bytes (of_nat n)) B" "apart (tb, tss_bytes (of_nat n)) B"
    "apart B (h, 0x1000)"
proof -
  have "B \<in> set (concat (map pages_of pqs))"
    using assms by (auto simp: separate_def pages_of_def intro!: bexI [of _ "pqs ! k"])
  then show "apart (g, gdt_bytes (of_nat n)) B" "apart (l, glob_bytes (of_nat n)) B" "apart (tb, tss_bytes (of_nat n)) B"
    "apart B (h, 0x1000)"
    using assms(1) by (auto simp: separate_def init_blocks_def table_blocks_def sorted_wrt_append simp del: set_concat)
qed

text \<open>Where the writes go.\<close>

lemma tss_writes_homes:
  assumes "w \<in> set (tss_writes ncpu tb g l k pq)"
  shows "within (place_of w) (fst pq, 0x1000) \<or> within (place_of w) (snd pq, 0x1000)
    \<or> (\<exists>d. 104 * k + 36 \<le> d \<and> d + length (snd w) \<le> 104 * k + 104 \<and> fst w = tb + of_nat d)
    \<or> place_of w = (l + of_nat (8 + 8 * k), 8) \<or> place_of w = (g + of_nat (40 + 16 * k), 16)"
proof -
  consider "w = (fst pq, replicate 0x1000 0)" | "w = (snd pq, replicate 0x1000 0)"
    | "fst w = tb + of_nat (104 * k + 36)" "length (snd w) = 8" | "fst w = tb + of_nat (104 * k + 102)" "length (snd w) = 2"
    | "place_of w = (l + of_nat (8 + 8 * k), 8)" | "place_of w = (g + of_nat (40 + 16 * k), 16)"
    using assms unfolding tss_writes_def by (auto simp: place_of_def two_words_def simp del: of_nat_add of_nat_mult)
  then show ?thesis
  proof cases
    case 3
    then show ?thesis by (intro disjI2 disjI1 exI [of _ "104 * k + 36"]) (simp del: of_nat_add of_nat_mult)
  next
    case 4
    then show ?thesis by (intro disjI2 disjI1 exI [of _ "104 * k + 102"]) (simp del: of_nat_add of_nat_mult)
  qed (simp_all add: place_of_def)
qed

lemma gate_writes_homes:
  assumes "k < 256" and "w \<in> set (gate_writes wrapper_addr h i k)"
  shows "place_of w = (h + of_nat (11 * k), 11) \<or> place_of w = (i + of_nat (16 * k), 16)"
  using assms by (auto simp: gate_writes_def place_of_def two_words_def stub_def Handler_def Let_def)

lemma map2_upt: "length ys = n \<Longrightarrow> map2 f [0..<n] ys = map (\<lambda>k. f k (ys ! k)) [0..<n]"
  by (rule nth_equalityI) simp_all

lemma upt_split: "k < n \<Longrightarrow> [0..<n] = [0..<k] @ k # [Suc k..<n]"
  using upt_add_eq_append [of 0 k "n - k"] by (simp add: upt_conv_Cons)

text \<open>The writes from processor \<open>c\<close> on, and those of the stubs and gates.\<close>

definition cpu_tail :: "u64 \<Rightarrow> u64 \<Rightarrow> u64 \<Rightarrow> u64 \<Rightarrow> nat \<Rightarrow> nat \<Rightarrow> (u64 \<times> u64) list \<Rightarrow> writes" where
  "cpu_tail ncpu tb g l c n pqs = concat (map (\<lambda>j. tss_writes ncpu tb g l j (pqs ! j)) [c..<n])"

definition gate_tail :: "u64 \<Rightarrow> u64 \<Rightarrow> u64 \<Rightarrow> nat \<Rightarrow> writes" where
  "gate_tail wrapper_addr h i c = concat (map (gate_writes wrapper_addr h i) [c..<256])"

lemma gate_tail_homes:
  "w \<in> set (gate_tail wrapper_addr h i c) \<Longrightarrow>
   \<exists>j. c \<le> j \<and> j < 256 \<and> (place_of w = (h + of_nat (11 * j), 11) \<or> place_of w = (i + of_nat (16 * j), 16))"
proof -
  assume "w \<in> set (gate_tail wrapper_addr h i c)"
  then obtain j where "c \<le> j" "j < 256" "w \<in> set (gate_writes wrapper_addr h i j)"
    by (auto simp: gate_tail_def)
  then show ?thesis using gate_writes_homes [of j w] by blast
qed

lemma gate_tail_within:
  assumes "w \<in> set ((h, replicate 0x1000 0) # gate_tail wrapper_addr h i c)"
  shows "within (place_of w) (h, 0x1000) \<or> within (place_of w) (i, 0x1000)"
proof (cases "w = (h, replicate 0x1000 0)")
  case True
  then show ?thesis by (simp add: place_of_def)
next
  case False
  then obtain j where "j < 256" "place_of w = (h + of_nat (11 * j), 11) \<or> place_of w = (i + of_nat (16 * j), 16)"
    using assms gate_tail_homes [of w wrapper_addr h i c] by auto
  then show ?thesis using within_part [of "11 * j" 11 "0x1000" h] within_part [of "16 * j" 16 "0x1000" i] by fastforce
qed

lemma gate_tail_apart:
  assumes "apart B (h, 0x1000)" and "apart B (i, 0x1000)" and "within (a, m) B"
    and "w \<in> set ((h, replicate 0x1000 0) # gate_tail wrapper_addr h i c)"
  shows "apart (place_of w) (a, m)"
  using gate_tail_within [OF assms(4)] apart_within [OF assms(1) assms(3)] apart_within [OF assms(2) assms(3)] apart_sym by blast

lemma cpu_tail_homes:
  assumes "w \<in> set (cpu_tail ncpu tb g l c n pqs)"
  shows "\<exists>j. c \<le> j \<and> j < n \<and> (within (place_of w) (fst (pqs ! j), 0x1000) \<or> within (place_of w) (snd (pqs ! j), 0x1000)
    \<or> (\<exists>d. 104 * j + 36 \<le> d \<and> d + length (snd w) \<le> 104 * j + 104 \<and> fst w = tb + of_nat d)
    \<or> place_of w = (l + of_nat (8 + 8 * j), 8) \<or> place_of w = (g + of_nat (40 + 16 * j), 16))"
proof -
  obtain j where j: "c \<le> j" "j < n" "w \<in> set (tss_writes ncpu tb g l j (pqs ! j))"
    using assms by (auto simp: cpu_tail_def)
  from tss_writes_homes [OF j(3)] j(1,2) show ?thesis by blast
qed

lemma tail_apart:
  assumes "w \<in> set (cpu_tail ncpu tb g l c n pqs @ (h, replicate 0x1000 0) # gate_tail wrapper_addr h i 0)"
    and "\<And>j B. j < n \<Longrightarrow> B \<in> {(fst (pqs ! j), 0x1000), (snd (pqs ! j), 0x1000)} \<Longrightarrow> apart X B"
    and "\<And>j d k. c \<le> j \<Longrightarrow> j < n \<Longrightarrow> 104 * j + 36 \<le> d \<Longrightarrow> d + k \<le> 104 * j + 104 \<Longrightarrow> apart (tb + of_nat d, k) (a, m)"
    and "\<And>j. c \<le> j \<Longrightarrow> j < n \<Longrightarrow> apart (l + of_nat (8 + 8 * j), 8) (a, m)"
    and "\<And>j. c \<le> j \<Longrightarrow> j < n \<Longrightarrow> apart (g + of_nat (40 + 16 * j), 16) (a, m)"
    and "apart X (h, 0x1000)" and "apart X (i, 0x1000)" and X: "within (a, m) X"
  shows "apart (place_of w) (a, m)"
proof (cases "w \<in> set (cpu_tail ncpu tb g l c n pqs)")
  case True
  from cpu_tail_homes [OF this] obtain j where j: "c \<le> j" "j < n" and home: "within (place_of w) (fst (pqs ! j), 0x1000)
      \<or> within (place_of w) (snd (pqs ! j), 0x1000)
      \<or> (\<exists>d. 104 * j + 36 \<le> d \<and> d + length (snd w) \<le> 104 * j + 104 \<and> place_of w = (tb + of_nat d, length (snd w)))
      \<or> place_of w = (l + of_nat (8 + 8 * j), 8) \<or> place_of w = (g + of_nat (40 + 16 * j), 16)"
    by (auto simp: place_of_def)
  have page: "apart (place_of w) (a, m)"
    if "within (place_of w) B" "B \<in> {(fst (pqs ! j), 0x1000), (snd (pqs ! j), 0x1000)}" for B
    using apart_sym [OF apart_within [OF assms(2) [OF j(2) that(2)] X that(1)]] .
  show ?thesis using home page assms(3,4,5) [OF j] by (elim disjE exE) auto
next
  case False
  then show ?thesis using assms(1) gate_tail_apart [OF assms(6,7) X, of w wrapper_addr 0] by simp
qed

lemma tail_apart_gdt:
  assumes sep: "separate n g i l tb h pqs" and d: "d + m \<le> 40 + 16 * min c n"
    and w: "w \<in> set (cpu_tail ncpu tb g l c n pqs @ (h, replicate 0x1000 0) # gate_tail wrapper_addr h i 0)"
  shows "apart (place_of w) (g + of_nat d, m)"
proof -
  have n: "n \<le> 255" using sep by (simp add: separate_def)
  note size = block_sizes [OF n] and blocks = separate_blocks [OF sep]
  have G: "within (g + of_nat d, m) (g, gdt_bytes (of_nat n))" using size(1,2) d by (intro within_part) auto
  show ?thesis
  proof (rule tail_apart [OF w _ _ _ _ blocks(4,1) G])
    fix j e k assume j: "j < n" "e + k \<le> 104 * j + 104"
    then have "within (tb + of_nat e, k) (tb, tss_bytes (of_nat n))" using size n by (intro within_part) auto
    from apart_sym [OF apart_within [OF blocks(3) G this]] show "apart (tb + of_nat e, k) (g + of_nat d, m)" .
  next
    fix j assume "j < n"
    then have "within (l + of_nat (8 + 8 * j), 8) (l, glob_bytes (of_nat n))" using size n by (intro within_part) auto
    from apart_sym [OF apart_within [OF blocks(2) G this]] show "apart (l + of_nat (8 + 8 * j), 8) (g + of_nat d, m)" .
  next
    fix j assume "c \<le> j" "j < n"
    then show "apart (g + of_nat (40 + 16 * j), 16) (g + of_nat d, m)"
      using d n by (intro apart_sym [OF apart_parts]) auto
  qed (rule separate_pages(1) [OF sep])
qed

lemma tail_apart_glob:
  assumes sep: "separate n g i l tb h pqs" and d: "d + m \<le> 8 + 8 * min c n"
    and w: "w \<in> set (cpu_tail ncpu tb g l c n pqs @ (h, replicate 0x1000 0) # gate_tail wrapper_addr h i 0)"
  shows "apart (place_of w) (l + of_nat d, m)"
proof -
  have n: "n \<le> 255" using sep by (simp add: separate_def)
  note size = block_sizes [OF n] and blocks = separate_blocks [OF sep]
  have L: "within (l + of_nat d, m) (l, glob_bytes (of_nat n))" using size(3,4) d by (intro within_part) auto
  show ?thesis
  proof (rule tail_apart [OF w _ _ _ _ blocks(9) apart_sym [OF blocks(5)] L])
    fix j e k assume j: "j < n" "e + k \<le> 104 * j + 104"
    then have "within (tb + of_nat e, k) (tb, tss_bytes (of_nat n))" using size n by (intro within_part) auto
    from apart_sym [OF apart_within [OF blocks(8) L this]] show "apart (tb + of_nat e, k) (l + of_nat d, m)" .
  next
    fix j assume "j < n"
    then have "within (g + of_nat (40 + 16 * j), 16) (g, gdt_bytes (of_nat n))" using size n by (intro within_part) auto
    from apart_within [OF blocks(2) this L] show "apart (g + of_nat (40 + 16 * j), 16) (l + of_nat d, m)" .
  next
    fix j assume "c \<le> j" "j < n"
    then show "apart (l + of_nat (8 + 8 * j), 8) (l + of_nat d, m)"
      using d n by (intro apart_sym [OF apart_parts]) auto
  qed (rule separate_pages(2) [OF sep])
qed

lemma tail_apart_tss:
  assumes sep: "separate n g i l tb h pqs" and d: "d + m \<le> 104 * min c n + 36 \<or> 104 * n \<le> d" "d + m \<le> tss_bytes (of_nat n)"
    and w: "w \<in> set (cpu_tail ncpu tb g l c n pqs @ (h, replicate 0x1000 0) # gate_tail wrapper_addr h i 0)"
  shows "apart (place_of w) (tb + of_nat d, m)"
proof -
  have n: "n \<le> 255" using sep by (simp add: separate_def)
  note size = block_sizes [OF n] and blocks = separate_blocks [OF sep]
  have T: "within (tb + of_nat d, m) (tb, tss_bytes (of_nat n))" using size d(2) by (intro within_part) auto
  show ?thesis
  proof (rule tail_apart [OF w _ _ _ _ blocks(10) apart_sym [OF blocks(6)] T])
    fix j e k assume j: "c \<le> j" "j < n" "104 * j + 36 \<le> e" "e + k \<le> 104 * j + 104"
    have "d + m \<le> e \<or> e + k \<le> d" using d(1) j by auto
    then show "apart (tb + of_nat e, k) (tb + of_nat d, m)"
      using size n d(2) j by (elim disjE) (intro apart_sym [OF apart_parts] apart_parts; simp)+
  next
    fix j assume "j < n"
    then have "within (l + of_nat (8 + 8 * j), 8) (l, glob_bytes (of_nat n))" using size n by (intro within_part) auto
    from apart_within [OF blocks(8) this T] show "apart (l + of_nat (8 + 8 * j), 8) (tb + of_nat d, m)" .
  next
    fix j assume "j < n"
    then have "within (g + of_nat (40 + 16 * j), 16) (g, gdt_bytes (of_nat n))" using size n by (intro within_part) auto
    from apart_within [OF blocks(3) this T] show "apart (g + of_nat (40 + 16 * j), 16) (tb + of_nat d, m)" .
  qed (rule separate_pages(3) [OF sep])
qed

section \<open>The tables in memory\<close>

lemma init_writes_split:
  assumes "length pqs = n" and "n \<le> 255"
  shows "init_writes wrapper_addr (of_nat n) pagetable g i l tb h pqs =
    [(g, replicate (gdt_bytes (of_nat n)) 0), (i, replicate 0x1000 0)] @ gdt_writes g
    @ [(l, replicate (glob_bytes (of_nat n)) 0), (l, le 8 pagetable), (tb, replicate (tss_bytes (of_nat n)) 0),
       (tb + of_nat (pad_bytes n), replicate 0x2000 0xFF)]
    @ cpu_tail (of_nat n) tb g l 0 n pqs @ (h, replicate 0x1000 0) # gate_tail wrapper_addr h i 0"
proof -
  have "unat (of_nat n :: u64) = n" using assms(2) by (intro unat_of_nat_u64) simp
  then show ?thesis
    using assms by (simp add: init_writes_def table_writes_def cpu_tail_def gate_tail_def map2_upt tss_size_pad_nat del: upt_Suc upt.simps)
qed

lemma cpu_tail_split:
  assumes "k < n"
  shows "cpu_tail ncpu tb g l 0 n pqs
    = cpu_tail ncpu tb g l 0 k pqs @ tss_writes ncpu tb g l k (pqs ! k) @ cpu_tail ncpu tb g l (Suc k) n pqs"
  unfolding cpu_tail_def upt_split [OF assms] by simp

lemma gate_tail_split:
  assumes "k < 256"
  shows "\<exists>ws. gate_tail wrapper_addr h i 0 = ws @ gate_writes wrapper_addr h i k @ gate_tail wrapper_addr h i (Suc k)"
  unfolding gate_tail_def upt_split [OF assms] by simp

lemma holds_at:
  assumes "W = ws @ (a, bs) # us @ vs" and "length bs < 2 ^ 64"
    and "\<forall>w \<in> set us. apart (place_of w) (a, length bs)" and "\<And>w. w \<in> set vs \<Longrightarrow> apart (place_of w) (a, length bs)"
  shows "holds (apply_writes W m) a bs"
  unfolding assms(1) using assms(2-4) by (intro holds_last_write) auto

lemma init_gdt_entry:
  assumes sep: "separate n g i l tb h pqs" and k: "k < 5"
  shows "holds (apply_writes (init_writes wrapper_addr (of_nat n) pagetable g i l tb h pqs) m) (g + of_nat (8 * k)) (le 8 (gdt_ents ! k))"
proof -
  have n: "length pqs = n" "n \<le> 255" using sep by (simp_all add: separate_def)
  note size = block_sizes [OF n(2)] and blocks = separate_blocks [OF sep]
  let ?mid = "[(l, replicate (glob_bytes (of_nat n)) 0), (l, le 8 pagetable), (tb, replicate (tss_bytes (of_nat n)) 0),
    (tb + of_nat (pad_bytes n), replicate 0x2000 0xFF)]"
  have split: "gdt_writes g = take k (gdt_writes g) @ (g + of_nat (8 * k), le 8 (gdt_ents ! k)) # drop (Suc k) (gdt_writes g)"
    using k id_take_nth_drop [of k "gdt_writes g"] by (simp add: gdt_writes_def del: upt_Suc upt.simps)
  have G: "within (g + of_nat (8 * k), 8) (g, gdt_bytes (of_nat n))" using size(1,2) k by (intro within_part) auto
  show ?thesis
  proof (rule holds_at [where us = "drop (Suc k) (gdt_writes g) @ ?mid"])
    show "init_writes wrapper_addr (of_nat n) pagetable g i l tb h pqs =
      ([(g, replicate (gdt_bytes (of_nat n)) 0), (i, replicate 0x1000 0)] @ take k (gdt_writes g))
      @ (g + of_nat (8 * k), le 8 (gdt_ents ! k)) # (drop (Suc k) (gdt_writes g) @ ?mid)
      @ (cpu_tail (of_nat n) tb g l 0 n pqs @ (h, replicate 0x1000 0) # gate_tail wrapper_addr h i 0)"
      by (subst init_writes_split [OF n], subst split) simp
    have "apart (place_of w) (g + of_nat (8 * k), 8)" if w: "w \<in> set (drop (Suc k) (gdt_writes g))" for w
    proof -
      obtain j where "j \<in> set (drop (Suc k) [0..<5])" "place_of w = (g + of_nat (8 * j), 8)"
        using w unfolding gdt_writes_def drop_map set_map by (auto simp: place_of_def)
      moreover have "set (drop (Suc k) [0..<5]) = {Suc k..<5}" by (simp only: drop_upt set_upt add_0)
      ultimately have "Suc k \<le> j" "j < 5" "place_of w = (g + of_nat (8 * j), 8)" by auto
      then show ?thesis using apart_sym [OF apart_parts [of "8 * k" 8 "8 * j" 8 g]] by simp
    qed
    moreover have "within (l, 8) (l, glob_bytes (of_nat n))" using within_part [of 0 8 "glob_bytes (of_nat n)" l] size by simp
    moreover have "within (tb + of_nat (pad_bytes n), 0x2000) (tb, tss_bytes (of_nat n))" using size by (intro within_part) auto
    ultimately show "\<forall>w \<in> set (drop (Suc k) (gdt_writes g) @ ?mid). apart (place_of w) (g + of_nat (8 * k), length (le 8 (gdt_ents ! k)))"
      using apart_sym [OF apart_within [OF blocks(2) G]] apart_sym [OF apart_within [OF blocks(3) G]]
      by (auto simp: place_of_def)
    show "apart (place_of w) (g + of_nat (8 * k), length (le 8 (gdt_ents ! k)))"
      if "w \<in> set (cpu_tail (of_nat n) tb g l 0 n pqs @ (h, replicate 0x1000 0) # gate_tail wrapper_addr h i 0)" for w
      using tail_apart_gdt [OF sep _ that, of "8 * k" 8] k by simp
  qed simp
qed

lemma init_kernel_pt:
  assumes sep: "separate n g i l tb h pqs"
  shows "holds (apply_writes (init_writes wrapper_addr (of_nat n) pagetable g i l tb h pqs) m) l (le 8 pagetable)"
proof -
  have n: "length pqs = n" "n \<le> 255" using sep by (simp_all add: separate_def)
  note size = block_sizes [OF n(2)] and blocks = separate_blocks [OF sep]
  let ?mid = "[(tb, replicate (tss_bytes (of_nat n)) 0), (tb + of_nat (pad_bytes n), replicate 0x2000 0xFF)]"
  have L: "within (l, 8) (l, glob_bytes (of_nat n))" using within_part [of 0 8 "glob_bytes (of_nat n)" l] size by simp
  show ?thesis
  proof (rule holds_at [where us = ?mid])
    show "init_writes wrapper_addr (of_nat n) pagetable g i l tb h pqs =
      ([(g, replicate (gdt_bytes (of_nat n)) 0), (i, replicate 0x1000 0)] @ gdt_writes g @ [(l, replicate (glob_bytes (of_nat n)) 0)])
      @ (l, le 8 pagetable) # ?mid
      @ (cpu_tail (of_nat n) tb g l 0 n pqs @ (h, replicate 0x1000 0) # gate_tail wrapper_addr h i 0)"
      by (subst init_writes_split [OF n]) simp
    have "within (tb + of_nat (pad_bytes n), 0x2000) (tb, tss_bytes (of_nat n))" using size by (intro within_part) auto
    then show "\<forall>w \<in> set ?mid. apart (place_of w) (l, length (le 8 pagetable))"
      using apart_sym [OF apart_within [OF blocks(8) L]] by (auto simp: place_of_def)
    show "apart (place_of w) (l, length (le 8 pagetable))"
      if "w \<in> set (cpu_tail (of_nat n) tb g l 0 n pqs @ (h, replicate 0x1000 0) # gate_tail wrapper_addr h i 0)" for w
      using tail_apart_glob [OF sep _ that, of 0 8] by simp
  qed simp
qed

text \<open>The port map behind the segments stays filled with ones.\<close>

lemma init_port_map:
  assumes sep: "separate n g i l tb h pqs"
  shows "holds (apply_writes (init_writes wrapper_addr (of_nat n) pagetable g i l tb h pqs) m) (tb + of_nat (pad_bytes n))
    (replicate 0x2000 0xFF)"
proof -
  have n: "length pqs = n" "n \<le> 255" using sep by (simp_all add: separate_def)
  note size = block_sizes [OF n(2)]
  show ?thesis
  proof (rule holds_at [where us = "[]"])
    show "init_writes wrapper_addr (of_nat n) pagetable g i l tb h pqs =
      ([(g, replicate (gdt_bytes (of_nat n)) 0), (i, replicate 0x1000 0)] @ gdt_writes g
       @ [(l, replicate (glob_bytes (of_nat n)) 0), (l, le 8 pagetable), (tb, replicate (tss_bytes (of_nat n)) 0)])
      @ (tb + of_nat (pad_bytes n), replicate 0x2000 0xFF) # []
      @ (cpu_tail (of_nat n) tb g l 0 n pqs @ (h, replicate 0x1000 0) # gate_tail wrapper_addr h i 0)"
      by (subst init_writes_split [OF n]) simp
    show "apart (place_of w) (tb + of_nat (pad_bytes n), length (replicate 0x2000 (0xFF :: u8)))"
      if "w \<in> set (cpu_tail (of_nat n) tb g l 0 n pqs @ (h, replicate 0x1000 0) # gate_tail wrapper_addr h i 0)" for w
      using tail_apart_tss [OF sep _ _ that, of "pad_bytes n" "0x2000"] size by simp
  qed simp_all
qed

text \<open>The writes for one processor: what comes after each of them in the same step is somewhere else.\<close>

lemma init_cpu:
  assumes sep: "separate n g i l tb h pqs" and k: "k < n"
    and step: "tss_writes (of_nat n) tb g l k (pqs ! k) = us @ (a, bs) # vs" and "length bs < 2 ^ 64"
    and now: "\<forall>w \<in> set vs. apart (place_of w) (a, length bs)"
    and later: "\<And>w. w \<in> set (cpu_tail (of_nat n) tb g l (Suc k) n pqs @ (h, replicate 0x1000 0) # gate_tail wrapper_addr h i 0)
      \<Longrightarrow> apart (place_of w) (a, length bs)"
  shows "holds (apply_writes (init_writes wrapper_addr (of_nat n) pagetable g i l tb h pqs) m) a bs"
proof -
  have n: "length pqs = n" "n \<le> 255" using sep by (simp_all add: separate_def)
  have "\<exists>ws. init_writes wrapper_addr (of_nat n) pagetable g i l tb h pqs =
      ws @ (a, bs) # vs @ (cpu_tail (of_nat n) tb g l (Suc k) n pqs @ (h, replicate 0x1000 0) # gate_tail wrapper_addr h i 0)"
    unfolding init_writes_split [OF n] cpu_tail_split [OF k] step by (metis append.assoc append_Cons)
  then obtain ws where "init_writes wrapper_addr (of_nat n) pagetable g i l tb h pqs =
      ws @ (a, bs) # vs @ (cpu_tail (of_nat n) tb g l (Suc k) n pqs @ (h, replicate 0x1000 0) # gate_tail wrapper_addr h i 0)" ..
  from holds_at [OF this assms(4) now later] show ?thesis .
qed

lemma init_cpu_tables:
  assumes sep: "separate n g i l tb h pqs" and k: "k < n"
    and m'_def: "m' = apply_writes (init_writes wrapper_addr (of_nat n) pagetable g i l tb h pqs) m"
  shows "holds m' (tb + of_nat (104 * k + 36)) (le 8 (fst (pqs ! k) + 0x1000))"
    and "holds m' (tb + of_nat (104 * k + 102)) (le 2 (ucast (tss_iomap_base tb (of_nat n) (of_nat k))))"
    and "holds m' (l + of_nat (8 + 8 * k)) (le 8 (snd (pqs ! k) + 0x1000))"
    and "holds m' (g + of_nat (40 + 16 * k)) (two_words (tss_descriptor tb (of_nat n) (of_nat k)))"
proof -
  have n: "n \<le> 255" using sep by (simp add: separate_def)
  note size = block_sizes [OF n] and blocks = separate_blocks [OF sep] and pages = separate_pages [OF sep k]
  let ?p = "(fst (pqs ! k), replicate 0x1000 0 :: u8 list)" and ?q = "(snd (pqs ! k), replicate 0x1000 0 :: u8 list)"
  let ?ist = "(tb + of_nat (104 * k + 36), le 8 (fst (pqs ! k) + 0x1000))"
  let ?io = "(tb + of_nat (104 * k + 102), le 2 (ucast (tss_iomap_base tb (of_nat n) (of_nat k))))"
  let ?stk = "(l + of_nat (8 + 8 * k), le 8 (snd (pqs ! k) + 0x1000))"
  let ?desc = "(g + of_nat (40 + 16 * k), two_words (tss_descriptor tb (of_nat n) (of_nat k)))"
  have step: "tss_writes (of_nat n) tb g l k (pqs ! k) = [?p, ?ist, ?io, ?q, ?stk, ?desc]" by (simp add: tss_writes_def)
  have T: "within (tb + of_nat (104 * k + 36), 8) (tb, tss_bytes (of_nat n))" "within (tb + of_nat (104 * k + 102), 2) (tb, tss_bytes (of_nat n))"
    using k size n by (intro within_part; simp)+
  have L: "within (l + of_nat (8 + 8 * k), 8) (l, glob_bytes (of_nat n))" using k size n by (intro within_part) auto
  have G: "within (g + of_nat (40 + 16 * k), 16) (g, gdt_bytes (of_nat n))" using k size n by (intro within_part) auto
  have len: "length (two_words x) = 16" for x by (simp add: two_words_def)
  have Q: "apart (snd (pqs ! k), 0x1000) B" if "within B (tb, tss_bytes (of_nat n))" for B
    using apart_sym [OF apart_within [OF pages(3) that within_refl]] by simp
  note far = apart_within [OF blocks(8) L] apart_within [OF blocks(3) G]
  have next_to: "apart (tb + of_nat (104 * k + 102), 2) (tb + of_nat (104 * k + 36), 8)"
    using k n by (intro apart_sym [OF apart_parts]) auto
  show "holds m' (tb + of_nat (104 * k + 36)) (le 8 (fst (pqs ! k) + 0x1000))"
    unfolding m'_def
  proof (rule init_cpu [OF sep k, where us = "[?p]" and vs = "[?io, ?q, ?stk, ?desc]"])
    show "\<forall>w \<in> set [?io, ?q, ?stk, ?desc]. apart (place_of w) (tb + of_nat (104 * k + 36), length (le 8 (fst (pqs ! k) + 0x1000)))"
      using next_to Q [OF T(1)] far T(1) by (simp add: place_of_def len del: of_nat_add of_nat_mult)
  qed (use step tail_apart_tss [OF sep, of "104 * k + 36" 8 "Suc k"] k size n in \<open>simp_all del: of_nat_add of_nat_mult\<close>)
  show "holds m' (tb + of_nat (104 * k + 102)) (le 2 (ucast (tss_iomap_base tb (of_nat n) (of_nat k))))"
    unfolding m'_def
  proof (rule init_cpu [OF sep k, where us = "[?p, ?ist]" and vs = "[?q, ?stk, ?desc]"])
    show "\<forall>w \<in> set [?q, ?stk, ?desc]. apart (place_of w)
        (tb + of_nat (104 * k + 102), length (le 2 (ucast (tss_iomap_base tb (of_nat n) (of_nat k)))))"
      using Q [OF T(2)] far T(2) by (simp add: place_of_def len del: of_nat_add of_nat_mult)
  qed (use step tail_apart_tss [OF sep, of "104 * k + 102" 2 "Suc k"] k size n in \<open>simp_all del: of_nat_add of_nat_mult\<close>)
  show "holds m' (l + of_nat (8 + 8 * k)) (le 8 (snd (pqs ! k) + 0x1000))"
    unfolding m'_def
  proof (rule init_cpu [OF sep k, where us = "[?p, ?ist, ?io, ?q]" and vs = "[?desc]"])
    show "\<forall>w \<in> set [?desc]. apart (place_of w) (l + of_nat (8 + 8 * k), length (le 8 (snd (pqs ! k) + 0x1000)))"
      using apart_within [OF blocks(2) G L] by (simp add: place_of_def len del: of_nat_add of_nat_mult)
  qed (use step tail_apart_glob [OF sep, of "8 + 8 * k" 8 "Suc k"] k size n in \<open>simp_all del: of_nat_add of_nat_mult\<close>)
  show "holds m' (g + of_nat (40 + 16 * k)) (two_words (tss_descriptor tb (of_nat n) (of_nat k)))"
    unfolding m'_def
  proof (rule init_cpu [OF sep k, where us = "[?p, ?ist, ?io, ?q, ?stk]" and vs = "[]"])
  qed (use step tail_apart_gdt [OF sep, of "40 + 16 * k" 16 "Suc k"] k size n in \<open>simp_all add: len del: of_nat_add of_nat_mult\<close>)
qed

lemma init_gates:
  assumes sep: "separate n g i l tb h pqs" and k: "k < 256"
    and m'_def: "m' = apply_writes (init_writes wrapper_addr (of_nat n) pagetable g i l tb h pqs) m"
  shows "holds m' (h + of_nat (11 * k)) (stub wrapper_addr h k)" and "holds m' (i + of_nat (16 * k)) (two_words (idt_entry h k))"
proof -
  have n: "length pqs = n" "n \<le> 255" using sep by (simp_all add: separate_def)
  note blocks = separate_blocks [OF sep]
  let ?stub = "(h + of_nat (11 * k), stub wrapper_addr h k)" and ?gate = "(i + of_nat (16 * k), two_words (idt_entry h k))"
  obtain ws where W: "init_writes wrapper_addr (of_nat n) pagetable g i l tb h pqs = ws @ [?stub, ?gate] @ gate_tail wrapper_addr h i (Suc k)"
    using gate_tail_split [OF k, of wrapper_addr h i] unfolding init_writes_split [OF n] gate_writes_def
    by (metis append.assoc append_Cons)
  have len: "length (two_words x) = 16" "length (stub wrapper_addr h k) = 11" for x
    by (simp_all add: two_words_def stub_def Handler_def Let_def)
  have H: "within (h + of_nat (11 * j), 11) (h, 0x1000)" and I: "within (i + of_nat (16 * j), 16) (i, 0x1000)" if "j < 256" for j
    using that by (intro within_part; simp)+
  have later: "apart (place_of w) (h + of_nat (11 * k), 11)" "apart (place_of w) (i + of_nat (16 * k), 16)"
    if w: "w \<in> set (gate_tail wrapper_addr h i (Suc k))" for w
  proof -
    obtain j where j: "k < j" "j < 256" "place_of w = (h + of_nat (11 * j), 11) \<or> place_of w = (i + of_nat (16 * j), 16)"
      using gate_tail_homes [OF w] by (auto simp: Suc_le_eq)
    have "apart (h + of_nat (11 * j), 11) (h + of_nat (11 * k), 11)" "apart (i + of_nat (16 * j), 16) (i + of_nat (16 * k), 16)"
      using j by (intro apart_sym [OF apart_parts]; simp)+
    then show "apart (place_of w) (h + of_nat (11 * k), 11)" "apart (place_of w) (i + of_nat (16 * k), 16)"
      using j apart_within [OF blocks(7) I [OF j(2)] H [OF k]] apart_sym [OF apart_within [OF blocks(7) I [OF k] H [OF j(2)]]] by auto
  qed
  show "holds m' (h + of_nat (11 * k)) (stub wrapper_addr h k)"
    unfolding m'_def
  proof (rule holds_at [where us = "[?gate]"])
    show "init_writes wrapper_addr (of_nat n) pagetable g i l tb h pqs = ws @ ?stub # [?gate] @ gate_tail wrapper_addr h i (Suc k)"
      using W by simp
  qed (use later len apart_within [OF blocks(7) I [OF k] H [OF k]] in \<open>simp_all add: place_of_def del: of_nat_mult\<close>)
  show "holds m' (i + of_nat (16 * k)) (two_words (idt_entry h k))"
    unfolding m'_def
  proof (rule holds_at [where us = "[]"])
    show "init_writes wrapper_addr (of_nat n) pagetable g i l tb h pqs = (ws @ [?stub]) @ ?gate # [] @ gate_tail wrapper_addr h i (Suc k)"
      using W by simp
  qed (use later len in simp_all)
qed

lemma read64_holds: "holds m a (le 8 v) \<Longrightarrow> read64 m a = v"
  unfolding read64_un_le
  by (subst un_le_eq_iff [where n = 8]) (simp_all add: holds_map upt_rec del: un_le.simps)

lemma two_words_read: "holds m a (two_words d) \<Longrightarrow> read64 m a = fst d \<and> read64 m (a + 8) = snd d"
  by (simp add: two_words_def holds_append read64_holds)

lemma pages_distinct:
  "sorted_wrt apart (concat (map pages_of pqs)) \<Longrightarrow> distinct (concat (map (\<lambda>pq. [fst pq, snd pq]) pqs))"
proof (induction pqs)
  case (Cons pq pqs)
  have self: "\<not> apart (x, 0x1000) (x, 0x1000)" for x by (auto simp: apart_def in_range_def intro: exI [of _ x])
  have ap: "apart (x, 0x1000) (y, 0x1000)" if "x \<in> {fst pq, snd pq}" "y \<in> (\<Union>p \<in> set pqs. {fst p, snd p})" for x y
    using Cons.prems that by (auto simp: pages_of_def sorted_wrt_append)
  have other: "x \<noteq> y" if "x \<in> {fst pq, snd pq}" "y \<in> (\<Union>p \<in> set pqs. {fst p, snd p})" for x y
    using ap [OF that] self by auto
  have all: "set (concat (map (\<lambda>pq. [fst pq, snd pq]) pqs)) = (\<Union>p \<in> set pqs. {fst p, snd p})" by auto
  have "fst pq \<noteq> snd pq" using Cons.prems self by (auto simp: pages_of_def)
  moreover have "distinct (concat (map (\<lambda>pq. [fst pq, snd pq]) pqs))" using Cons by (simp add: sorted_wrt_append)
  moreover have "fst pq \<notin> set (concat (map (\<lambda>pq. [fst pq, snd pq]) pqs))" "snd pq \<notin> set (concat (map (\<lambda>pq. [fst pq, snd pq]) pqs))"
    unfolding all using other by blast+
  ultimately show ?case by simp
qed simp

lemma cpu_count_small: "unat (getCPUCount a) \<le> 255"
proof -
  have "unat (acpiCpuCount a) < 256" using unsigned_less [of "acpiCpuCount a"] by simp
  then have small: "unat (acpiCpuCount a) \<le> 255" by linarith
  then have "unat (ucast (acpiCpuCount a) :: u32) = unat (acpiCpuCount a)"
    by (simp add: unsigned_ucast_eq take_bit_nat_eq_self)
  then show ?thesis using small unfolding getCPUCount_def by (cases "localApicAddr a = 0") simp_all
qed

text \<open>The stack of a processor for interrupts, read as the hardware does, and the one for system calls.\<close>

definition interrupt_stack :: "kmachine \<Rightarrow> nat \<Rightarrow> u64" where
  "interrupt_stack t k =
     (let a = gdt t + ucast (task_selector (of_nat k))
      in read64 (imem t) (sys_getBase (read64 (imem t) a, read64 (imem t) (a + 8)) + 36))"

definition syscall_stack :: "kmachine \<Rightarrow> nat \<Rightarrow> u64" where
  "syscall_stack t k = read64 (imem t) (glob t + stack_slot (task_selector (of_nat k)))"

definition port_map :: "kmachine \<Rightarrow> nat \<Rightarrow> u64" where
  "port_map t k =
     (let a = gdt t + ucast (task_selector (of_nat k)); tss = sys_getBase (read64 (imem t) a, read64 (imem t) (a + 8))
      in tss + ucast (read16 (imem t) (tss + 102)))"

definition gate_target :: "kmachine \<Rightarrow> nat \<Rightarrow> u64" where
  "gate_target t i = Interrupts.rec_handler (read64 (imem t) (snd (idtr t) + 16 * of_nat i), read64 (imem t) (snd (idtr t) + 16 * of_nat i + 8))"

lemma task_selector_nat:
  assumes "k \<le> 255"
  shows "task_selector (of_nat k) = 40 + 16 * of_nat k" and "ucast (task_selector (of_nat k)) = (of_nat (40 + 16 * k) :: u64)"
proof -
  have "(ucast (of_nat k :: u32) :: u64) = of_nat k"
    using assms by (simp add: word_unat_eq_iff unsigned_of_nat take_bit_nat_eq_self)
  then have "task_selector (of_nat k) = ucast (of_nat (40 + 16 * k) :: u64)" by (simp add: task_selector_def mult.commute)
  moreover have "ucast (of_nat (40 + 16 * k) :: u64) = (of_nat (40 + 16 * k) :: u16)"
    using assms by (simp only: word_unat_eq_iff unsigned_ucast_eq unsigned_of_nat) (simp add: take_bit_nat_eq_self)
  ultimately have t: "task_selector (of_nat k) = of_nat (40 + 16 * k)" by simp
  have "unat (of_nat (40 + 16 * k) :: u16) = 40 + 16 * k" using assms by (simp only: unsigned_of_nat) (simp add: take_bit_nat_eq_self)
  then show "ucast (task_selector (of_nat k)) = (of_nat (40 + 16 * k) :: u64)" unfolding t by (metis of_nat_unat)
  show "task_selector (of_nat k) = 40 + 16 * of_nat k" unfolding t by simp
qed

lemma init_cpu_reads:
  assumes sep: "separate n (gdt t) i (glob t) tb h pqs" and k: "k < n"
    and m: "imem t = apply_writes (init_writes wrapper_addr (of_nat n) pagetable (gdt t) i (glob t) tb h pqs) m"
  shows "interrupt_stack t k = fst (pqs ! k) + 0x1000" and "syscall_stack t k = snd (pqs ! k) + 0x1000"
    and "port_map t k = tb + of_nat (pad_bytes n)"
proof -
  note w = init_cpu_tables [OF sep k m]
  have n: "n \<le> 255" using sep by (simp add: separate_def)
  have a: "gdt t + ucast (task_selector (of_nat k)) = gdt t + of_nat (40 + 16 * k)"
    using task_selector_nat(2) [of k] k n by simp
  have tss: "sys_getBase (read64 (imem t) (gdt t + of_nat (40 + 16 * k)), read64 (imem t) (gdt t + of_nat (40 + 16 * k) + 8))
      = tss_entbuf tb (of_nat k)"
    using two_words_read [OF w(4)] by (simp add: tss_descriptor_base)
  show "interrupt_stack t k = fst (pqs ! k) + 0x1000"
    using read64_holds [OF w(1)] unfolding interrupt_stack_def Let_def a tss by (simp add: tss_entbuf_def add.assoc)
  show "syscall_stack t k = snd (pqs ! k) + 0x1000"
    using read64_holds [OF w(3)] task_selector_nat(1) [of k] stack_slot_cpu [of k] k n by (simp add: syscall_stack_def)
  have nk: "unat (of_nat n :: u64) = n" "unat (of_nat k :: u64) = k" using k n by (simp_all add: unat_of_nat_u64)
  have "read16 (imem t) (tss_entbuf tb (of_nat k) + 102) = tss_iomap_base tb (of_nat n) (of_nat k)"
    using w(2) by (simp add: read16_eq_iff tss_entbuf_def add.assoc)
  then show "port_map t k = tb + of_nat (pad_bytes n)"
    using tss_iomap_shared [of "of_nat n" "of_nat k" tb] nk k n unfolding port_map_def Let_def a tss
    by (simp add: tss_size_pad_nat)
qed

lemma init_gate_target:
  assumes sep: "separate n g (snd (idtr t)) l tb h pqs" and k: "k < 256"
    and m: "imem t = apply_writes (init_writes wrapper_addr (of_nat n) pagetable g (snd (idtr t)) l tb h pqs) m"
  shows "gate_target t k = stub_addr h k"
  using two_words_read [OF init_gates(2) [OF sep k m]] by (simp add: gate_target_def idt_entry_def rec_handler_REC64)

text \<open>If the allocator gives separate blocks, the tables are complete.\<close>

lemma int_init_tables:
  assumes run: "int_init fuel reg junk wrapper_addr s = Some t" and start: "taken s = []"
    and given: "\<forall>b \<in> set (taken t). fst b \<noteq> 0" "sorted_wrt apart (taken t)"
    and n: "n = unat (getCPUCount (acpis s))"
  shows "(\<forall>k < 5. read64 (imem t) (snd (gdtr t) + of_nat (8 * k)) = gdt_ents ! k)
    \<and> (\<forall>k < n. (interrupt_stack t k - 0x1000, 0x1000) \<in> set (taken t) \<and> (syscall_stack t k - 0x1000, 0x1000) \<in> set (taken t)
          \<and> holds (imem t) (port_map t k) (replicate 0x2000 0xFF))
    \<and> distinct (concat (map (\<lambda>k. [interrupt_stack t k, syscall_stack t k]) [0..<n]))
    \<and> (\<forall>i < 256. gate_target t i = stub_addr (handlers t) i \<and> holds (imem t) (gate_target t i) (stub wrapper_addr (handlers t) i))
    \<and> read64 (imem t) (msr t 0xC0000102) = mcr3 s
    \<and> tr t = task_selector (ucast (getCPUID reg (acpis s))) \<and> segments t = (8, 16) \<and> fst (idtr t) = 4095 \<and> int_flag t"
proof -
  let ?n = "ucast (getCPUCount (acpis s)) :: u64"
  have un: "unat ?n = n" by (simp add: n)
  have small: "n \<le> 255" using cpu_count_small n by simp
  have "unat (of_nat n :: u64) = n" using small by (intro unat_of_nat_u64) simp
  then have n': "?n = of_nat n" using un by (simp only: word_unat_eq_iff)
  from int_init_writes [OF run given(1) refl] obtain g i l tb h pqs where w: "length pqs = n"
      "taken t = init_blocks (of_nat n) g i l tb h pqs"
      "imem t = apply_writes (init_writes wrapper_addr (of_nat n) (mcr3 s) g i l tb h pqs) (imem s)"
      "gdt t = g" "glob t = l" "handlers t = h" "snd (gdtr t) = g" "idtr t = (4095, i)" "segments t = (8, 16)" "int_flag t"
      "tr t = task_selector (ucast (getCPUID reg (acpis s)))" "msr t 0xC0000102 = l"
    using start n' un by auto
  have sep: "separate n g i l tb h pqs" using w(1,2) small given(2) by (simp add: separate_def)
  have idt: "snd (idtr t) = i" using w(8) by simp
  note reads = init_cpu_reads [OF sep [folded w(4,5)] _ w(3) [folded w(4,5)]]
  have gdts: "read64 (imem t) (snd (gdtr t) + of_nat (8 * k)) = gdt_ents ! k" if "k < 5" for k
    using read64_holds [OF init_gdt_entry [OF sep that]] w(3,7) by simp
  have page: "(fst (pqs ! k), 0x1000) \<in> set (taken t)" "(snd (pqs ! k), 0x1000) \<in> set (taken t)" if "k < n" for k
    using that w(1,2) by (auto simp: init_blocks_def table_blocks_def pages_of_def intro!: bexI [of _ "pqs ! k"])
  have ports: "holds (imem t) (port_map t k) (replicate 0x2000 0xFF)" if "k < n" for k
    using init_port_map [OF sep] reads(3) [OF that] w(3) by simp
  have "sorted_wrt apart (concat (map pages_of pqs))"
    using sep by (simp add: separate_def init_blocks_def table_blocks_def sorted_wrt_append)
  from pages_distinct [OF this] have "distinct (map (\<lambda>p. p + 0x1000) (concat (map (\<lambda>pq. [fst pq, snd pq]) pqs)))"
    by (simp add: distinct_map inj_on_def)
  moreover have "map (\<lambda>p. p + 0x1000) (concat (map (\<lambda>pq. [fst pq, snd pq]) pqs))
      = concat (map (\<lambda>k. [interrupt_stack t k, syscall_stack t k]) [0..<n])"
    using w(1) reads(1,2) by (subst map_nth [of pqs, symmetric]) (auto simp: map_concat comp_def intro!: arg_cong [of _ _ concat])
  ultimately have own: "distinct (concat (map (\<lambda>k. [interrupt_stack t k, syscall_stack t k]) [0..<n]))" by (simp only:)
  have gates: "gate_target t k = stub_addr (handlers t) k" "holds (imem t) (stub_addr (handlers t) k) (stub wrapper_addr (handlers t) k)"
    if "k < 256" for k
    using init_gates(1) [OF sep that w(3)] init_gate_target [OF sep [folded idt] that w(3) [folded idt]] w(6) by (simp_all add: stub_addr_def)
  have stacks: "(interrupt_stack t k - 0x1000, 0x1000) \<in> set (taken t)" "(syscall_stack t k - 0x1000, 0x1000) \<in> set (taken t)"
    if "k < n" for k
    using page [OF that] reads(1,2) [OF that] by simp_all
  have "read64 (imem t) (msr t 0xC0000102) = mcr3 s" using read64_holds [OF init_kernel_pt [OF sep]] w(3,12) by simp
  then show ?thesis using gdts stacks ports own gates w(8-11) by (intro conjI allI impI) simp_all
qed

end
