(* ===== verification/Intdefs.thy ===== *)
theory Intdefs
  imports Intinit
begin

text \<open>
  The structures of \<^verbatim>\<open>src/interrupts/include/interrupts.hpp\<close>, laid out by the rules of the compiler, against the
  offsets and bit positions that the models of the descriptors, of \<^verbatim>\<open>Interrupts::init\<close> and of the stubs use, and
  the selectors that \<^verbatim>\<open>Syscall::setup\<close> gives to the processor.
\<close>

section \<open>Structures\<close>

definition TSS64_ENT :: cty where
  "TSS64_ENT = Struct True
     [(''reserved1'', uint32_t), (''rsp'', Array 3 uint64_t), (''reserved2'', uint64_t), (''ist'', Array 7 uint64_t),
      (''reserved3'', uint64_t), (''reserved4'', uint16_t), (''iomap_base'', uint16_t)]"

definition GDT_Entry_t :: cty where
  "GDT_Entry_t = Struct True
     [(''seg_lim_low'', Bits 8 16), (''base_low'', Bits 8 24), (''type'', Bits 1 4), (''system'', Bits 1 1), (''dpl'', Bits 1 2),
      (''present'', Bits 1 1), (''seg_lim_high'', Bits 8 4), (''avl'', Bits 1 1), (''islong'', Bits 1 1), (''db'', Bits 1 1),
      (''granularity'', Bits 1 1), (''base_high'', Bits 8 8)]"

definition GDT_SystemEntry_t :: cty where
  "GDT_SystemEntry_t = Struct True [(''ent'', GDT_Entry_t), (''base_high'', Bits 8 32), (''rsvd'', uint32_t)]"

definition GDT_t :: cty where
  "GDT_t = Struct True [(''ents'', Array 5 GDT_Entry_t), (''sys_ents'', Array 0 GDT_SystemEntry_t)]"

definition FAULT_t :: cty where
  "FAULT_t = Struct True [(''code'', Array 5 uint8_t), (''has_error_code'', uint8_t)]"

definition CallbackInfo_t :: cty where
  "CallbackInfo_t = Struct True
     [(''cr3'', uint64_t), (''rip'', uint64_t), (''rflags'', uint64_t), (''rsp'', uint64_t), (''cs'', uint16_t), (''ss'', uint16_t),
      (''dpl'', uint8_t)]"

definition CallbackRegs_t :: cty where
  "CallbackRegs_t = Struct True
     [(''cpuid'', uint32_t), (''info'', pointer), (''general'', pointer), (''sse'', pointer)]"

definition REC32_t :: cty where
  "REC32_t = Struct True
     [(''offset_low'', uint16_t), (''selector'', uint16_t), (''zero'', uint8_t), (''type'', uint8_t), (''offset_middle'', uint16_t)]"

definition REC64_t :: cty where
  "REC64_t = Struct True
     [(''offset_low'', uint16_t), (''selector'', uint16_t), (''ist'', Bits 1 3), (''rsvd1'', Bits 1 5), (''type'', Bits 1 4),
      (''rsvd2'', Bits 1 1), (''dpl'', Bits 1 2), (''present'', Bits 1 1), (''offset_middle'', uint16_t), (''offset_high'', uint32_t),
      (''rsvd3'', uint32_t)]"

definition Handler_t :: cty where
  "Handler_t = Struct True
     [(''sub_rsp'', Array 3 uint8_t), (''subrsp'', uint8_t), (''push'', Array 1 uint8_t), (''int_num'', uint8_t),
      (''reljmp'', Array 1 uint8_t), (''diff'', uint32_t)]"

definition GlobalData_t :: cty where
  "GlobalData_t = Struct False [(''kernel_pt'', uint64_t), (''cpu'', Array 0 (Struct False [(''syscall_stk'', uint64_t)]))]"

definition DTREG_t :: cty where
  "DTREG_t = Struct True [(''limit'', uint16_t), (''addr'', pointer)]"

lemmas int_structures =
  TSS64_ENT_def GDT_Entry_t_def GDT_SystemEntry_t_def GDT_t_def FAULT_t_def CallbackInfo_t_def CallbackRegs_t_def REC32_t_def
  REC64_t_def Handler_t_def GlobalData_t_def DTREG_t_def

section \<open>The models use these places\<close>

lemma int_sizes:
  "map sizeof [TSS64_ENT, GDT_Entry_t, GDT_SystemEntry_t, GDT_t, FAULT_t, CallbackInfo_t, CallbackRegs_t, REC32_t, REC64_t, Handler_t, DTREG_t]
     = [104, 8, 16, 40, 6, 37, 28, 8, 16, 11, 10]"
  by (simp add: layout_simps int_structures)

lemma int_members:
  "field_off ''ist'' TSS64_ENT = 36" "field_off ''iomap_base'' TSS64_ENT = 102" "field_off ''sys_ents'' GDT_t = 40"
  "field_off ''kernel_pt'' GlobalData_t = 0" "field_off ''cpu'' GlobalData_t = 8" "field_off ''reljmp'' Handler_t = 6"
  "field_off ''has_error_code'' FAULT_t = 5"
  by (simp_all add: layout_simps int_structures)

text \<open>A member at its bit position.\<close>

definition in_member :: "cty \<Rightarrow> string \<Rightarrow> u64 \<Rightarrow> u64" where
  "in_member t f v = place (bit_offset t f mod 64) (bit_size t f) v"

lemma gdt_entry_members:
  "GDT_Entry base limit type dpl0 system present0 avl islong db granularity =
     in_member GDT_Entry_t ''seg_lim_low'' limit OR in_member GDT_Entry_t ''base_low'' base OR in_member GDT_Entry_t ''type'' type
     OR in_member GDT_Entry_t ''system'' (of_bool system) OR in_member GDT_Entry_t ''dpl'' dpl0
     OR in_member GDT_Entry_t ''present'' (of_bool present0) OR in_member GDT_Entry_t ''seg_lim_high'' (drop_bit 16 limit)
     OR in_member GDT_Entry_t ''avl'' (of_bool avl) OR in_member GDT_Entry_t ''islong'' (of_bool islong)
     OR in_member GDT_Entry_t ''db'' (of_bool db) OR in_member GDT_Entry_t ''granularity'' (of_bool granularity)
     OR in_member GDT_Entry_t ''base_high'' (drop_bit 24 base)"
  by (simp add: GDT_Entry_def in_member_def layout_simps int_structures)

lemma rec64_members:
  "REC64 offset selector ist type dpl0 present0 =
     (in_member REC64_t ''offset_low'' offset OR in_member REC64_t ''selector'' selector OR in_member REC64_t ''ist'' ist
      OR in_member REC64_t ''type'' type OR in_member REC64_t ''dpl'' dpl0 OR in_member REC64_t ''present'' (of_bool present0)
      OR in_member REC64_t ''offset_middle'' (drop_bit 16 offset),
      in_member REC64_t ''offset_high'' (drop_bit 32 offset))"
  by (simp add: REC64_def in_member_def layout_simps int_structures)

theorem int_records_layout:
  "SystemEntry base limit type dpl0 system present0 avl islong db granularity =
     (GDT_Entry base limit type dpl0 system present0 avl islong db granularity, in_member GDT_SystemEntry_t ''base_high'' (drop_bit 32 base))
   \<and> gdt_size n = 5 * struct_size GDT_Entry_t + struct_size GDT_SystemEntry_t * n
   \<and> task_selector cpu = ucast (5 * struct_size GDT_Entry_t + ucast cpu * struct_size GDT_SystemEntry_t)
   \<and> tss_entbuf tssbuf idx = tssbuf + struct_size TSS64_ENT * idx
   \<and> stub_addr handlers0 i = handlers0 + struct_size Handler_t * of_nat i
   \<and> interrupt_stack t k =
       (let a = gdt t + ucast (task_selector (of_nat k))
        in field64 (imem t) (sys_getBase (read64 (imem t) a, read64 (imem t) (a + 8))) TSS64_ENT ''ist'')
   \<and> port_map t k =
       (let a = gdt t + ucast (task_selector (of_nat k)); tss = sys_getBase (read64 (imem t) a, read64 (imem t) (a + 8))
        in tss + ucast (field16 (imem t) tss TSS64_ENT ''iomap_base''))
   \<and> length faults * sizeof FAULT_t = 192"
proof -
  have size: "struct_size GDT_Entry_t = 8" "struct_size GDT_SystemEntry_t = 16" "struct_size TSS64_ENT = 104" "struct_size Handler_t = 11"
    using int_sizes by (simp_all add: struct_size_def)
  have high: "in_member GDT_SystemEntry_t ''base_high'' v = place 0 32 v" for v
    by (simp add: in_member_def layout_simps int_structures)
  have f: "sizeof FAULT_t = 6" using int_sizes by simp
  show ?thesis
    unfolding size high f SystemEntry_def gdt_size_def task_selector_def tss_entbuf_def stub_addr_def interrupt_stack_def port_map_def
      field64_def field16_def int_members faults_def
    by (simp add: Let_def)
qed

section \<open>System calls\<close>

text \<open>
  The selectors that \<^verbatim>\<open>syscall\<close> and \<^verbatim>\<open>sysretq\<close> load: code and stack, from the \<^verbatim>\<open>STAR\<close> register.
\<close>

definition syscall_selectors :: "(u32 \<Rightarrow> u64) \<Rightarrow> u64 \<times> u64" where
  "syscall_selectors m = (let sel = field 32 16 (m MSR_STAR) in (sel, sel + 8))"

definition sysret_selectors :: "(u32 \<Rightarrow> u64) \<Rightarrow> u64 \<times> u64" where
  "sysret_selectors m = (let sel = field 48 16 (m MSR_STAR) in ((sel + 16) OR 3, (sel + 8) OR 3))"

text \<open>The descriptor a selector names, and whether it is a segment for code (in 64 bits) or data with a privilege.\<close>

definition descriptor :: "u64 \<Rightarrow> u64" where
  "descriptor sel = gdt_ents ! (unat sel div 8)"

definition code_segment :: "u64 \<Rightarrow> u64 \<Rightarrow> bool" where
  "code_segment dpl0 e \<longleftrightarrow> field 40 4 e = 0xA \<and> field 44 1 e = 1 \<and> field 45 2 e = dpl0 \<and> field 47 1 e = 1 \<and> field 53 1 e = 1 \<and> field 54 1 e = 0"

definition data_segment :: "u64 \<Rightarrow> u64 \<Rightarrow> bool" where
  "data_segment dpl0 e \<longleftrightarrow> field 40 4 e = 0x2 \<and> field 44 1 e = 1 \<and> field 45 2 e = dpl0 \<and> field 47 1 e = 1"

lemma gdt_segments:
  "code_segment 0 (gdt_ents ! 1)" "data_segment 0 (gdt_ents ! 2)" "data_segment 3 (gdt_ents ! 3)" "code_segment 3 (gdt_ents ! 4)"
  by (simp_all add: gdt_ents_def code_segment_def data_segment_def GDT_Entry_def field_def place_def)

text \<open>
  C33: After Syscall::setup, syscall enters the kernel with the selectors of its 64-bit code
  and of its data, and sysretq returns with those of 64-bit code and data of user mode, each
  present in the descriptor table that init wrote; the entry is the wrapper, interrupts are
  off in it, and no register but the four is changed.
\<close>

theorem syscall_setup_selectors:
  "let t = syscall_setup wrapper_addr s
   in syscall_selectors (msr t) = (8, 16) \<and> code_segment 0 (descriptor 8) \<and> data_segment 0 (descriptor 16)
      \<and> sysret_selectors (msr t) = (0x23, 0x1B) \<and> code_segment 3 (descriptor 0x23) \<and> data_segment 3 (descriptor 0x1B)
      \<and> msr t = (msr s)(MSR_STAR := msr t MSR_STAR, MSR_LSTAR := wrapper_addr, MSR_SFMASK := 0x200, MSR_EFER := msr s MSR_EFER OR 1)"
proof -
  have ids: "MSR_STAR = 0xC0000081" "MSR_LSTAR = 0xC0000082" "MSR_SFMASK = 0xC0000084" "MSR_EFER = 0xC0000080"
    by (simp_all add: MSR_STAR_def MSR_LSTAR_def MSR_SFMASK_def MSR_EFER_def)
  have seg: "code_segment 0 (descriptor 8)" "data_segment 0 (descriptor 16)" "code_segment 3 (descriptor 0x23)" "data_segment 3 (descriptor 0x1B)"
    using gdt_segments by (simp_all add: descriptor_def)
  show ?thesis
    using seg
    by (simp add: syscall_setup_def wrmsr_def Let_def ids syscall_selectors_def sysret_selectors_def field_def MSR_SFMASK_IE_def MSR_EFER_SCE_def)
qed

end
