(* ===== verification/Allocator.thy ===== *)
theory Allocator
  imports Pagetable
begin

text \<open>
  The page allocator on tables that exist. \<open>ready\<close> says of a page table that every page of a range can be
  mapped without a new table, that no two pages share an entry, and that no table lies in a free page.
  From such a state \<^verbatim>\<open>_map\<close>, \<^verbatim>\<open>alloc\<close>, \<^verbatim>\<open>lowalloc\<close> and \<^verbatim>\<open>map\<close> (\<^verbatim>\<open>src/memory/pagetable.cpp\<close>) end, give fresh
  pages, map exactly those, and keep the state ready.
\<close>

section \<open>The entries on the way to a page\<close>

definition page_at :: "nat \<Rightarrow> u64" where
  "page_at p = push_bit 12 (of_nat p)"

definition ent1 :: "u64 \<Rightarrow> nat \<Rightarrow> u64" where
  "ent1 root p = slot root (of_nat (p div 512 div 512 div 512 mod 512))"

definition ent2 :: "(u64 \<Rightarrow> pte) \<Rightarrow> u64 \<Rightarrow> nat \<Rightarrow> u64" where
  "ent2 c root p = slot (getUintPtr (c (ent1 root p))) (of_nat (p div 512 div 512 mod 512))"

definition ent3 :: "(u64 \<Rightarrow> pte) \<Rightarrow> u64 \<Rightarrow> nat \<Rightarrow> u64" where
  "ent3 c root p = slot (getUintPtr (c (ent2 c root p))) (of_nat (p div 512 mod 512))"

definition leaf :: "(u64 \<Rightarrow> pte) \<Rightarrow> u64 \<Rightarrow> nat \<Rightarrow> u64" where
  "leaf c root p = slot (getUintPtr (c (ent3 c root p))) (of_nat (p mod 512))"

lemma unat_page_at: "p < 2 ^ 52 \<Longrightarrow> unat (page_at p) = 4096 * p"
  by (simp add: page_at_def push_bit_eq_mult unat_word_ariths unsigned_of_nat take_bit_nat_eq_self)

lemma unat_table_index: "unat (table_index k x) = unat x div 2 ^ k mod 512"
proof -
  have m: "(0x1FF :: u64) = mask 9" by (simp add: mask_eq_exp_minus_1)
  show ?thesis unfolding table_index_def m unat_and_mask by (simp add: unat_drop_bit_eq) (simp add: drop_bit_eq_div)
qed

lemma table_index_page:
  assumes "p < 2 ^ 36"
  shows "table_index 12 (page_at p) = of_nat (p mod 512)" "table_index 21 (page_at p) = of_nat (p div 512 mod 512)"
    "table_index 30 (page_at p) = of_nat (p div 512 div 512 mod 512)"
    "table_index 39 (page_at p) = of_nat (p div 512 div 512 div 512 mod 512)"
  using assms
  by (simp_all add: word_unat_eq_iff unat_table_index unat_page_at unat_of_nat_u64 div_mult2_eq [symmetric]
      less_trans [OF mod_less_divisor])

lemma path_slots_page:
  "p < 2 ^ 36 \<Longrightarrow> path_slots c (page_at p) root = (ent1 root p, ent2 c root p, ent3 c root p, leaf c root p)"
  by (simp add: path_slots_def Let_def table_index_page ent1_def ent2_def ent3_def leaf_def)

section \<open>States in which every table exists\<close>

definition tables_at :: "(u64 \<Rightarrow> pte) \<Rightarrow> u64 \<Rightarrow> nat \<Rightarrow> bool" where
  "tables_at c root p \<longleftrightarrow> present (c (ent1 root p)) \<and> present (c (ent2 c root p)) \<and> present (c (ent3 c root p))
     \<and> \<not> hugesize (c (ent3 c root p))"

definition upper :: "(u64 \<Rightarrow> pte) \<Rightarrow> u64 \<Rightarrow> nat \<Rightarrow> u64 set" where
  "upper c root p = {ent1 root p, ent2 c root p, ent3 c root p}"

definition solid :: "(u64 \<Rightarrow> pte) \<Rightarrow> u64 \<Rightarrow> nat \<Rightarrow> nat \<Rightarrow> bool" where
  "solid c root lo hi \<longleftrightarrow> hi < 2 ^ 36
     \<and> (\<forall>p \<in> {lo..<hi}. tables_at c root p
         \<and> (\<forall>q \<in> {lo..<hi}. leaf c root p \<notin> upper c root q \<and> (p \<noteq> q \<longrightarrow> leaf c root p \<noteq> leaf c root q)))"

definition ready :: "(u64 \<Rightarrow> pte) \<Rightarrow> u64 \<Rightarrow> nat \<Rightarrow> nat \<Rightarrow> bool" where
  "ready c root lo hi \<longleftrightarrow> solid c root lo hi
     \<and> (\<forall>p \<in> {lo..<hi}. \<not> present (c (leaf c root p)) \<longrightarrow>
          (\<forall>q \<in> {lo..<hi}. \<forall>a \<in> insert (leaf c root q) (upper c root q). \<not> in_range (page_at p) 0x1000 a))"

lemma solidD:
  assumes "solid c root lo hi" and "p \<in> {lo..<hi}"
  shows "p < 2 ^ 36" and "tables_at c root p"
    and "q \<in> {lo..<hi} \<Longrightarrow> leaf c root p \<notin> upper c root q"
    and "q \<in> {lo..<hi} \<Longrightarrow> leaf c root p = leaf c root q \<longleftrightarrow> p = q"
proof -
  show "q \<in> {lo..<hi} \<Longrightarrow> leaf c root p = leaf c root q \<longleftrightarrow> p = q" using assms unfolding solid_def by blast
qed (use assms in \<open>auto simp: solid_def\<close>)

text \<open>Tables that agree on the upper entries have the same entries for every page.\<close>

definition same_upper :: "(u64 \<Rightarrow> pte) \<Rightarrow> (u64 \<Rightarrow> pte) \<Rightarrow> u64 \<Rightarrow> nat \<Rightarrow> bool" where
  "same_upper c c' root p \<longleftrightarrow> (\<forall>a \<in> upper c root p. c' a = c a)"

lemma same_upperD:
  assumes "same_upper c c' root p"
  shows "ent2 c' root p = ent2 c root p" "ent3 c' root p = ent3 c root p" "leaf c' root p = leaf c root p"
    "upper c' root p = upper c root p" "tables_at c' root p = tables_at c root p"
proof -
  have u: "c' (ent1 root p) = c (ent1 root p)" "c' (ent2 c root p) = c (ent2 c root p)" "c' (ent3 c root p) = c (ent3 c root p)"
    using assms by (simp_all add: same_upper_def upper_def)
  show e2: "ent2 c' root p = ent2 c root p" by (simp add: ent2_def u)
  show e3: "ent3 c' root p = ent3 c root p" by (simp add: ent3_def e2 u)
  show "leaf c' root p = leaf c root p" by (simp add: leaf_def e3 u)
  show "upper c' root p = upper c root p" by (simp add: upper_def e2 e3)
  show "tables_at c' root p = tables_at c root p" by (simp add: tables_at_def e2 e3 u)
qed

lemma mapped_leaf: "solid c root lo hi \<Longrightarrow> p \<in> {lo..<hi} \<Longrightarrow> mapped c root (page_at p) = present (c (leaf c root p))"
  using solidD(1,2) [of c root lo hi p]
  by (auto simp: mapped_def tables_at_def find_entry_path [OF path_slots_page])

lemma solid_same:
  assumes "solid c root lo hi" and same: "\<And>q. q \<in> {lo..<hi} \<Longrightarrow> same_upper c c' root q"
  shows "solid c' root lo hi"
  using assms(1) unfolding solid_def by (simp add: same_upperD [OF same])

lemma leaf_update:
  assumes "solid c root lo hi" and "p \<in> {lo..<hi}" and "q \<in> {lo..<hi}"
  shows "same_upper c (c(leaf c root p := e)) root q"
  using solidD(3) [OF assms] by (auto simp: same_upper_def)

section \<open>The walk of \<^verbatim>\<open>_map\<close>\<close>

text \<open>The walk stands at page \<open>p\<close>: a null pointer of the source is looked up again from the table above.\<close>

definition walk_at :: "(u64 \<Rightarrow> pte) \<Rightarrow> u64 \<Rightarrow> pte \<Rightarrow> nat \<Rightarrow> walk \<Rightarrow> bool" where
  "walk_at c root e p w \<longleftrightarrow> newent w = set_pptr (of_nat p) e
     \<and> pml4x w = of_nat (p mod 512) \<and> pdpx w = of_nat (p div 512 mod 512) \<and> pdx w = of_nat (p div 512 div 512 mod 512)
     \<and> w_pte w = ent1 root p \<and> w_pde w \<in> {0, ent2 c root p} \<and> w_pdpe w \<in> {0, ent3 c root p} \<and> w_pml4e w \<in> {0, leaf c root p}"

lemma walk_at_upper: "same_upper c c' root p \<Longrightarrow> walk_at c' root e p w = walk_at c root e p w"
  by (simp add: walk_at_def same_upperD)

lemma set_pptr_again: "set_pptr q (set_pptr p e) = set_pptr q e"
  by (rule bit_word_eqI) (auto simp: set_pptr_bits)

lemma pptr_set_nat: "p < 2 ^ 51 \<Longrightarrow> pptr (set_pptr (of_nat p) e) = of_nat p"
  by (simp add: set_pptr_get take51_id unat_of_nat_u64)

lemma Entry_page: "p < 2 ^ 51 \<Longrightarrow> set_pptr (of_nat p) (Entry low avl type) = Entry (page_at p) avl type"
  by (rule bit_word_eqI) (auto simp: set_pptr_bits Entry_bits page_at_def bit_push_bit_iff)

lemma walk_start_at:
  assumes "p < 2 ^ 36"
  shows "walk_at c root (Entry (page_at p) 0 type) p (walk_start (page_at p) type root)"
  using assms walk_index [of 27 "page_at p" 0 type] walk_index [of 18 "page_at p" 0 type] walk_index [of 9 "page_at p" 0 type]
    walk_index [of 0 "page_at p" 0 type]
  by (simp add: walk_at_def walk_start_def Let_def table_index_page ent1_def Entry_page)

lemma map_body_at:
  assumes at: "walk_at (cells s) root e p w" and tab: "tables_at (cells s) root p"
    and p: "p < 2 ^ 36" and small: "\<not> (p mod 512 = 0 \<and> 512 \<le> itop - p)" and top: "p < itop" "itop < 2 ^ 51"
  shows "\<exists>w'. map_body (of_nat itop) w s = Some (w', set_cell (leaf (cells s) root p) (set_pptr (of_nat p) e) s)
    \<and> walk_at (cells s) root e p w' \<and> w_pde w' = ent2 (cells s) root p \<and> w_pdpe w' = ent3 (cells s) root p
    \<and> w_pml4e w' = leaf (cells s) root p"
proof -
  have "unat (of_nat itop - of_nat p :: u64) = itop - p"
    using top p by (simp add: unat_diff_u64 word_le_nat_alt unat_of_nat_u64)
  moreover have "(of_nat (p mod 512) :: u64) = 0 \<longleftrightarrow> p mod 512 = 0"
    by (simp add: word_unat_eq_iff unat_of_nat_u64 less_trans [OF mod_less_divisor])
  ultimately have "\<not> (pml4x w = 0 \<and> 0x200 \<le> of_nat itop - pptr (newent w))"
    using at small p by (simp add: walk_at_def pptr_set_nat word_le_nat_alt)
  then show ?thesis
    using at tab ent2_def [of "cells s" root p, symmetric] ent3_def [of "cells s" root p, symmetric] leaf_def [of "cells s" root p, symmetric]
    unfolding map_body_def walk_at_def tables_at_def
    by (cases "w_pde w = 0"; cases "w_pdpe w = 0"; cases "w_pml4e w = 0") (simp_all add: need_table_present Let_def)
qed

lemma page_carry:
  "Suc p mod 512 = (if p mod 512 = 511 then 0 else Suc (p mod 512))"
  "Suc p div 512 = (if p mod 512 = 511 then Suc (p div 512) else p div 512)"
  by (simp_all add: mod_Suc div_Suc)

lemma next_index: "(of_nat (p mod 512) :: u64) + 1 = 0x200 \<longleftrightarrow> p mod 512 = 511"
proof -
  have "unat ((of_nat (p mod 512) :: u64) + 1) = p mod 512 + 1"
    using mod_less_divisor [of 512 p] by (simp add: unat_add_u64 unat_of_nat_u64 less_trans [OF mod_less_divisor])
  then show ?thesis by (simp add: word_unat_eq_iff)
qed

lemma last_index:
  fixes p :: nat
  assumes "p mod 512 = 511" "p div 512 mod 512 = 511" "p div 512 div 512 mod 512 = 511" "p div 512 div 512 div 512 mod 512 = 511"
  shows "68719476735 \<le> p"
proof -
  have sum: "x = 512 * q + 511" if "x mod 512 = 511" "q = x div 512" for x q :: nat
    using that mult_div_mod_eq [of 512 x] by simp
  obtain q r t :: nat where q: "q = p div 512" "r = q div 512" "t = r div 512" by blast
  have "511 \<le> t" using assms(4) q mod_less_eq_dividend [of t 512] by simp
  moreover have "p = 512 * q + 511" "q = 512 * r + 511" "r = 512 * t + 511" using assms(1-3) q by (auto intro!: sum)
  ultimately show ?thesis by linarith
qed

lemma slot_next: "slot t (of_nat n) + 8 = slot t (of_nat (Suc n))"
  by (simp add: slot_def algebra_simps)

lemma ent_next:
  "p mod 512 \<noteq> 511 \<Longrightarrow> ent1 root (Suc p) = ent1 root p \<and> ent2 c root (Suc p) = ent2 c root p \<and> ent3 c root (Suc p) = ent3 c root p
     \<and> leaf c root (Suc p) = leaf c root p + 8"
  "p mod 512 = 511 \<Longrightarrow> p div 512 mod 512 \<noteq> 511 \<Longrightarrow> ent1 root (Suc p) = ent1 root p \<and> ent2 c root (Suc p) = ent2 c root p
     \<and> ent3 c root (Suc p) = ent3 c root p + 8"
  "p mod 512 = 511 \<Longrightarrow> p div 512 mod 512 = 511 \<Longrightarrow> p div 512 div 512 mod 512 \<noteq> 511 \<Longrightarrow> ent1 root (Suc p) = ent1 root p
     \<and> ent2 c root (Suc p) = ent2 c root p + 8"
  "p mod 512 = 511 \<Longrightarrow> p div 512 mod 512 = 511 \<Longrightarrow> p div 512 div 512 mod 512 = 511 \<Longrightarrow> p div 512 div 512 div 512 mod 512 \<noteq> 511
     \<Longrightarrow> ent1 root (Suc p) = ent1 root p + 8"
  unfolding ent1_def ent2_def ent3_def leaf_def by (simp_all only: page_carry slot_next if_True if_False refl simp_thms)

lemma map_advance_at:
  assumes at: "walk_at c root e p w" and ptrs: "w_pde w = ent2 c root p" "w_pdpe w = ent3 c root p" "w_pml4e w = leaf c root p"
    and p: "Suc p < 2 ^ 36"
  shows "walk_at c root e (Suc p) (map_advance w)"
proof -
  have new: "set_pptr (pptr (set_pptr (of_nat p) e) + 1) (set_pptr (of_nat p) e) = set_pptr (of_nat (Suc p)) e"
    using p by (simp add: pptr_set_nat set_pptr_again add.commute)
  have last: "\<not> (p mod 512 = 511 \<and> p div 512 mod 512 = 511 \<and> p div 512 div 512 mod 512 = 511 \<and> p div 512 div 512 div 512 mod 512 = 511)"
    using p last_index [of p] by auto
  have suc: "of_nat n + (1 :: u64) = of_nat (Suc n)" for n by simp
  note w = at [unfolded walk_at_def] and idx = next_index [of p] next_index [of "p div 512"] next_index [of "p div 512 div 512"]
  note def = walk_at_def map_advance_def Let_def
  consider (a) "p mod 512 \<noteq> 511" | (b) "p mod 512 = 511" "p div 512 mod 512 \<noteq> 511"
    | (c) "p mod 512 = 511" "p div 512 mod 512 = 511" "p div 512 div 512 mod 512 \<noteq> 511"
    | (d) "p mod 512 = 511" "p div 512 mod 512 = 511" "p div 512 div 512 mod 512 = 511" by blast
  then show ?thesis
  proof cases
    case a
    show ?thesis using w ptrs new idx ent_next(1) [OF a, of root c] a page_carry [of p] unfolding def by (simp add: suc del: of_nat_Suc)
  next
    case b
    show ?thesis using w ptrs new idx ent_next(2) [OF b, of root c] b page_carry [of p] page_carry [of "p div 512"] unfolding def
      by (simp add: suc del: of_nat_Suc)
  next
    case c
    show ?thesis using w ptrs new idx ent_next(3) [OF c, of root c] c page_carry [of p] page_carry [of "p div 512"]
        page_carry [of "p div 512 div 512"] unfolding def by (simp add: suc del: of_nat_Suc)
  next
    case d
    have "p div 512 div 512 div 512 mod 512 \<noteq> 511" using last d by blast
    note e = ent_next(4) [OF d this, of root]
    have zero: "Suc p mod 512 = 0" "Suc p div 512 mod 512 = 0" "Suc p div 512 div 512 mod 512 = 0"
      using d by (simp_all only: page_carry if_True refl)
    have "pml4x w + 1 = 0x200" "pdpx w + 1 = 0x200" "pdx w + 1 = 0x200" using w idx d by metis+
    then have "map_advance w = w\<lparr>newent := set_pptr (pptr (newent w) + 1) (newent w), pml4x := 0, w_pml4e := 0, pdpx := 0, w_pdpe := 0,
        pdx := 0, w_pde := 0, ptx := ptx w + 1, w_pte := w_pte w + 8\<rparr>"
      by (simp add: map_advance_def Let_def)
    then show ?thesis using w new e unfolding walk_at_def zero by simp
  qed
qed

section \<open>Mapping a range\<close>

text \<open>The pages \<open>P\<close> have got the entries \<open>f\<close>, and nothing else has changed.\<close>

definition leaves_set :: "(u64 \<Rightarrow> pte) \<Rightarrow> u64 \<Rightarrow> nat set \<Rightarrow> (nat \<Rightarrow> pte) \<Rightarrow> (u64 \<Rightarrow> pte) \<Rightarrow> bool" where
  "leaves_set c root P f c' \<longleftrightarrow> (\<forall>q \<in> P. c' (leaf c root q) = f q) \<and> (\<forall>a. a \<notin> leaf c root ` P \<longrightarrow> c' a = c a)"

lemma leaves_set_upper:
  assumes "solid c root lo hi" and "leaves_set c root P f c'" and "P \<subseteq> {lo..<hi}" and "q \<in> {lo..<hi}"
  shows "same_upper c c' root q"
  unfolding same_upper_def
proof
  fix a
  assume a: "a \<in> upper c root q"
  have "a \<notin> leaf c root ` P" using solidD(3) [OF assms(1) _ assms(4)] assms(3) a by blast
  then show "c' a = c a" using assms(2) by (simp add: leaves_set_def)
qed

lemma leaves_set_insert:
  assumes "leaves_set (c(leaf c root p := f p)) root P f c'"
    and "\<And>q. q \<in> P \<Longrightarrow> leaf (c(leaf c root p := f p)) root q = leaf c root q" and "leaf c root p \<notin> leaf c root ` P"
  shows "leaves_set c root (insert p P) f c'"
  using assms by (auto simp: leaves_set_def)

lemma map_loop_leaves:
  assumes "solid (cells s) root lo hi" and "newent w = set_pptr (of_nat p) e" and "p < itop \<Longrightarrow> walk_at (cells s) root e p w"
    and "lo \<le> p" "p \<le> itop" "itop \<le> hi"
    and "itop - p < 512" and "itop - p < n" and "rsvd_r s \<noteq> rsvd_w s"
  shows "\<exists>c. map_loop n (of_nat itop) root w s = Some (s\<lparr>cells := c\<rparr>)
    \<and> leaves_set (cells s) root {p..<itop} (\<lambda>q. set_pptr (of_nat q) e) c"
  using assms
proof (induction n arbitrary: p w s)
  case (Suc n)
  have big: "itop < 2 ^ 36" "p < 2 ^ 36" using Suc.prems by (auto simp: solid_def)
  have here: "pptr (newent w) = of_nat p" using Suc.prems(2) big by (simp add: pptr_set_nat)
  have less: "(of_nat p :: u64) < of_nat itop \<longleftrightarrow> p < itop" using big by (simp add: word_less_nat_alt unat_of_nat_u64)
  show ?case
  proof (cases "p = itop")
    case True
    then show ?thesis using here by (intro exI [of _ "cells s"]) (simp add: leaves_set_def)
  next
    case False
    then have p: "p < itop" "p \<in> {lo..<hi}" using Suc.prems by auto
    let ?a = "leaf (cells s) root p"
    let ?s = "set_cell ?a (set_pptr (of_nat p) e) s"
    have small: "\<not> (p mod 512 = 0 \<and> 512 \<le> itop - p)" using Suc.prems(7) by simp
    have "itop < 2 ^ 51" using big by simp
    from map_body_at [OF Suc.prems(3) [OF p(1)] solidD(2) [OF Suc.prems(1) p(2)] big(2) small p(1) this] obtain w' where
        w': "map_body (of_nat itop) w s = Some (w', ?s)" "walk_at (cells s) root e p w'" "w_pde w' = ent2 (cells s) root p"
          "w_pdpe w' = ent3 (cells s) root p" "w_pml4e w' = leaf (cells s) root p" by blast
    note upd = leaf_update [OF Suc.prems(1) p(2)]
    have cs: "cells ?s = (cells s)(?a := set_pptr (of_nat p) e)" by (simp add: set_cell_def)
    have same: "q \<in> {lo..<hi} \<Longrightarrow> same_upper (cells s) (cells ?s) root q" for q unfolding cs by (rule upd)
    have sol: "solid (cells ?s) root lo hi" using solid_same [OF Suc.prems(1)] same by blast
    have sucp: "Suc p < 2 ^ 36" using p big by simp
    have at: "walk_at (cells s) root e (Suc p) (map_advance w')" by (rule map_advance_at [OF w'(2-5) sucp])
    have at': "walk_at (cells ?s) root e (Suc p) (map_advance w')" if "Suc p < itop"
      using at walk_at_upper [OF same, of "Suc p"] that p Suc.prems by auto
    have "newent (map_advance w') = set_pptr (of_nat (Suc p)) e" using at by (simp add: walk_at_def)
    moreover have "lo \<le> Suc p" "Suc p \<le> itop" "itop - Suc p < 512" "itop - Suc p < n" "rsvd_r ?s \<noteq> rsvd_w ?s"
      using Suc.prems p by (auto simp: set_cell_def)
    ultimately obtain c where c: "map_loop n (of_nat itop) root (map_advance w') ?s = Some (?s\<lparr>cells := c\<rparr>)"
        "leaves_set (cells ?s) root {Suc p..<itop} (\<lambda>q. set_pptr (of_nat q) e) c"
      using Suc.IH [OF sol _ at'] Suc.prems(6) by blast
    have run: "map_loop (Suc n) (of_nat itop) root w s = Some (s\<lparr>cells := c\<rparr>)"
      using here less p w'(1) c(1) Suc.prems(9) by (simp add: set_cell_def)
    have leaves: "leaf (cells ?s) root q = leaf (cells s) root q" if "q \<in> {p..<itop}" for q
      using same_upperD(3) [OF same, of q] that Suc.prems by simp
    have "leaf (cells s) root p \<noteq> leaf (cells s) root q" if "q \<in> {Suc p..<itop}" for q
      using solidD(4) [OF Suc.prems(1) p(2), of q] that Suc.prems by auto
    then have diff: "leaf (cells s) root p \<notin> leaf (cells s) root ` {Suc p..<itop}" by blast
    have "leaves_set (cells s) root (insert p {Suc p..<itop}) (\<lambda>q. set_pptr (of_nat q) e) c"
      by (rule leaves_set_insert [OF c(2) [unfolded cs] _ diff]) (use leaves in \<open>simp add: cs\<close>)
    moreover have "insert p {Suc p..<itop} = {p..<itop}" using p(1) by auto
    ultimately have "leaves_set (cells s) root {p..<itop} (\<lambda>q. set_pptr (of_nat q) e) c" by simp
    with run show ?thesis by blast
  qed
qed simp

section \<open>Giving out pages\<close>

text \<open>The entry that the hardware uses for a page.\<close>

definition entry_of :: "(u64 \<Rightarrow> pte) \<Rightarrow> u64 \<Rightarrow> nat \<Rightarrow> pte option" where
  "entry_of c root p = map_option c (find_entry c (page_at p) root)"

lemma entry_of_leaf: "solid c root lo hi \<Longrightarrow> p \<in> {lo..<hi} \<Longrightarrow> entry_of c root p = Some (c (leaf c root p))"
  using solidD(1,2) [of c root lo hi p] by (simp add: entry_of_def tables_at_def find_entry_path [OF path_slots_page])

text \<open>
  The table after \<open>n\<close> pages from \<open>i\<close> on were mapped to themselves: they have entries of the type asked for, every
  other page has the entry it had, and the table is as ready as before.
\<close>

definition maps_pages :: "(u64 \<Rightarrow> pte) \<Rightarrow> u64 \<Rightarrow> nat \<Rightarrow> nat \<Rightarrow> u8 \<Rightarrow> nat \<Rightarrow> nat \<Rightarrow> (u64 \<Rightarrow> pte) \<Rightarrow> bool" where
  "maps_pages c root lo hi type i n c' \<longleftrightarrow> ready c' root lo hi \<and> lo \<le> i \<and> i + n \<le> hi
     \<and> (\<forall>q \<in> {i..<i + n}. entry_of c' root q = Some (Entry (page_at q) 0 type))
     \<and> (\<forall>q \<in> {lo..<hi} - {i..<i + n}. entry_of c' root q = entry_of c root q)"

lemma maps_pagesI:
  assumes "ready c root lo hi" and same: "\<And>q. q \<in> {lo..<hi} \<Longrightarrow> same_upper c c' root q" and "lo \<le> i" "i + n \<le> hi"
    and new: "\<And>q. q \<in> {i..<i + n} \<Longrightarrow> c' (leaf c root q) = Entry (page_at q) 0 type"
    and old: "\<And>q. q \<in> {lo..<hi} - {i..<i + n} \<Longrightarrow> c' (leaf c root q) = c (leaf c root q)" and "\<not> type_has type NULLPAGE"
  shows "maps_pages c root lo hi type i n c'"
proof -
  have sol: "solid c root lo hi" using assms(1) by (simp add: ready_def)
  have sol': "solid c' root lo hi" by (rule solid_same [OF sol same])
  have block: "q \<in> {lo..<hi}" if "q \<in> {i..<i + n}" for q using that assms(3,4) by auto
  have entry: "entry_of c' root q = Some (c' (leaf c root q))" if "q \<in> {lo..<hi}" for q
    using entry_of_leaf [OF sol' that] same_upperD(3) [OF same [OF that]] by simp
  have pres: "present (c' (leaf c root q)) \<longleftrightarrow> q \<in> {i..<i + n} \<or> present (c (leaf c root q))" if "q \<in> {lo..<hi}" for q
    using new [of q] old [of q] that assms(7) by (cases "q \<in> {i..<i + n}") auto
  have "ready c' root lo hi"
    using assms(1) pres sol' unfolding ready_def by (simp add: same_upperD [OF same])
  then show ?thesis
    using entry entry_of_leaf [OF sol] new old block assms(3,4) by (auto simp: maps_pages_def)
qed

text \<open>\<^verbatim>\<open>_map\<close> of less than 512 pages.\<close>

lemma range_top:
  assumes "p < 2 ^ 36" and "n < 512"
  shows "drop_bit 12 (page_at p + push_bit 12 (of_nat n) + 0xFFF) = (of_nat (p + n) :: u64)"
proof -
  have e: "page_at p + push_bit 12 (of_nat n) + 0xFFF = (of_nat (4096 * (p + n) + 0xFFF) :: u64)"
    by (simp add: page_at_def push_bit_eq_mult algebra_simps)
  have "unat (drop_bit 12 (page_at p + push_bit 12 (of_nat n) + 0xFFF)) = (4096 * (p + n) + 0xFFF) div 4096"
    unfolding e unat_drop_bit_eq using assms by (subst unat_of_nat_u64) (simp_all add: drop_bit_eq_div)
  moreover have "(4096 * (p + n) + 0xFFF) div 4096 = p + n" by simp
  moreover have "unat (of_nat (p + n) :: u64) = p + n" using assms by (intro unat_of_nat_u64) simp
  ultimately show ?thesis unfolding word_unat_eq_iff by (simp only:)
qed

lemma map_pages:
  assumes "solid (cells s) root lo hi" and "lo \<le> p" "p + n \<le> hi" "n < 512" "n < fuel" and "rsvd_r s \<noteq> rsvd_w s"
  shows "\<exists>c. map_loop fuel (of_nat (p + n)) root (walk_start (page_at p) type root) s = Some (s\<lparr>cells := c\<rparr>)
    \<and> leaves_set (cells s) root {p..<p + n} (\<lambda>q. Entry (page_at q) 0 type) c"
proof -
  have p: "p < 2 ^ 36" "hi < 2 ^ 36" using assms by (auto simp: solid_def)
  have at: "walk_at (cells s) root (Entry (page_at p) 0 type) p (walk_start (page_at p) type root)" by (rule walk_start_at [OF p(1)])
  then have "newent (walk_start (page_at p) type root) = set_pptr (of_nat p) (Entry (page_at p) 0 type)" by (simp add: walk_at_def)
  from map_loop_leaves [OF assms(1) this at, of "p + n" fuel] assms obtain c where
      c: "map_loop fuel (of_nat (p + n)) root (walk_start (page_at p) type root) s = Some (s\<lparr>cells := c\<rparr>)"
      "leaves_set (cells s) root {p..<p + n} (\<lambda>q. set_pptr (of_nat q) (Entry (page_at p) 0 type)) c" by auto
  have "leaves_set (cells s) root {p..<p + n} (\<lambda>q. Entry (page_at q) 0 type) c"
    using c(2) p assms(3) by (auto simp: leaves_set_def Entry_page)
  with c(1) show ?thesis by blast
qed

lemma in_some_page:
  assumes "in_range (page_at i) (n * 0x1000) a" and "i + n < 2 ^ 36"
  shows "\<exists>q \<in> {i..<i + n}. in_range (page_at q) 0x1000 a"
proof -
  define d where "d = unat (a - page_at i)"
  have d: "d < n * 4096" using assms(1) by (simp add: d_def in_range_def)
  then have k: "d div 4096 < n" by (simp add: less_mult_imp_div_less)
  have e: "page_at (i + d div 4096) = page_at i + of_nat (4096 * (d div 4096))"
    by (simp add: page_at_def push_bit_eq_mult algebra_simps)
  have r: "4096 * (d div 4096) \<le> d" "d < 4096 * (d div 4096) + 4096"
    using mult_div_mod_eq [of 4096 d] mod_less_divisor [of 4096 d] by linarith+
  have "in_range (page_at i + of_nat (4096 * (d div 4096))) 0x1000 a
      \<longleftrightarrow> 4096 * (d div 4096) \<le> unat (a - page_at i) \<and> unat (a - page_at i) < 4096 * (d div 4096) + 0x1000"
    using assms(2) k by (intro in_range_shift) simp_all
  then have "in_range (page_at (i + d div 4096)) 0x1000 a"
    using r unfolding e d_def [symmetric] by simp
  then show ?thesis using k by (intro bexI [of _ "i + d div 4096"]) auto
qed

text \<open>A run of pages is mapped and cleared.\<close>

lemma give_pages:
  assumes rdy: "ready (cells s) root lo hi" and run: "lo \<le> i" "i + n \<le> hi" "n < 512" "n < fuel"
    and free: "\<And>q. q \<in> {i..<i + n} \<Longrightarrow> \<not> present (cells s (leaf (cells s) root q))"
    and ring: "rsvd_r s \<noteq> rsvd_w s" and type: "\<not> type_has type NULLPAGE"
  shows "\<exists>c. map_option (zero_cells (page_at i) (of_nat n * 0x1000))
      (map_loop fuel (of_nat (i + n)) root (walk_start (page_at i) type root) s) = Some (s\<lparr>cells := c\<rparr>)
    \<and> maps_pages (cells s) root lo hi type i n c"
proof -
  have sol: "solid (cells s) root lo hi" and hi: "hi < 2 ^ 36" using rdy by (auto simp: ready_def solid_def)
  obtain c where c: "map_loop fuel (of_nat (i + n)) root (walk_start (page_at i) type root) s = Some (s\<lparr>cells := c\<rparr>)"
      "leaves_set (cells s) root {i..<i + n} (\<lambda>q. Entry (page_at q) 0 type) c"
    using map_pages [OF sol run ring] by blast
  let ?z = "\<lambda>a. if in_range (page_at i) (n * 0x1000) a then 0 else c a"
  have block: "q \<in> {lo..<hi}" if "q \<in> {i..<i + n}" for q using that run by auto
  have out: "\<not> in_range (page_at i) (n * 0x1000) a" if "q \<in> {lo..<hi}" "a \<in> insert (leaf (cells s) root q) (upper (cells s) root q)" for a q
    using in_some_page [of i n a] free block rdy that run(2) hi unfolding ready_def by fastforce
  have sub: "{i..<i + n} \<subseteq> {lo..<hi}" using run by auto
  have up: "same_upper (cells s) c root q" if "q \<in> {lo..<hi}" for q by (rule leaves_set_upper [OF sol c(2) sub that])
  have "unat (of_nat n * 0x1000 :: u64) = n * 0x1000"
    using run(3) by (simp add: unat_word_ariths unat_of_nat_u64)
  then have zero: "zero_cells (page_at i) (of_nat n * 0x1000) (s\<lparr>cells := c\<rparr>) = s\<lparr>cells := ?z\<rparr>"
    by (simp add: zero_cells_def cong: if_cong)
  have "maps_pages (cells s) root lo hi type i n ?z"
  proof (rule maps_pagesI [OF rdy _ run(1,2) _ _ type])
    show "same_upper (cells s) ?z root q" if "q \<in> {lo..<hi}" for q
      using up [OF that] out [OF that] by (auto simp: same_upper_def)
    show "?z (leaf (cells s) root q) = Entry (page_at q) 0 type" if "q \<in> {i..<i + n}" for q
      using out [OF block [OF that]] c(2) that by (simp add: leaves_set_def)
    show "?z (leaf (cells s) root q) = cells s (leaf (cells s) root q)" if "q \<in> {lo..<hi} - {i..<i + n}" for q
    proof -
      have "leaf (cells s) root q \<notin> leaf (cells s) root ` {i..<i + n}"
      proof
        assume "leaf (cells s) root q \<in> leaf (cells s) root ` {i..<i + n}"
        then obtain x where "x \<in> {i..<i + n}" "leaf (cells s) root q = leaf (cells s) root x" by blast
        then show False using solidD(4) [OF sol, of q x] block [of x] that by blast
      qed
      then show ?thesis using out [of q] c(2) that by (simp add: leaves_set_def)
    qed
  qed
  then show ?thesis using c(1) zero by auto
qed

section \<open>The operations of the allocator\<close>

text \<open>The ring of reserved pages is full, and the search starts inside the range.\<close>

definition alloc_ready :: "u64 \<Rightarrow> nat \<Rightarrow> ptstate \<Rightarrow> bool" where
  "alloc_ready root lo s \<longleftrightarrow> ready (cells s) root lo (unat (max_page s)) \<and> 1 \<le> lo \<and> lo \<le> unat (last_page s)
     \<and> last_page s \<le> max_page s \<and> rsvd_r s < rsvd_num \<and> rsvd_w s = (rsvd_r s + rsvd_num - 1) mod rsvd_num"

lemma ring_not_empty: "alloc_ready root lo s \<Longrightarrow> rsvd_r s \<noteq> rsvd_w s"
  by (auto simp: alloc_ready_def rsvd_num_def) presburger

lemma renew_full: "alloc_ready root lo s \<Longrightarrow> 0 < fuel \<Longrightarrow> renewRsvd fuel root s = Some s"
  by (cases fuel) (simp_all add: renewRsvd_def alloc_ready_def)

lemma alloc_ready_pages:
  assumes "alloc_ready root lo s" and "maps_pages (cells s) root lo (unat (max_page s)) type i n c" and "l = last_page s \<or> l = of_nat i"
  shows "alloc_ready root lo (s\<lparr>last_page := l, cells := c\<rparr>)"
proof -
  have "i + n \<le> unat (max_page s)" using assms(2) by (simp add: maps_pages_def)
  then have "i < 18446744073709551616" using unat_lt_2p64 [of "max_page s"] by linarith
  then have "unat (of_nat i :: u64) = i" by (simp add: unat_of_nat_u64)
  then show ?thesis using assms by (auto simp: alloc_ready_def maps_pages_def word_le_nat_alt)
qed

lemma page_alloc_ready:
  assumes rdy: "alloc_ready root lo s" and n: "unat count < 512" "unat count + 1 < fuel" and type: "\<not> type_has type NULLPAGE"
    and start: "start = (if low then 1 else last_page s)" "low \<Longrightarrow> lo = 1"
  shows "(page_alloc fuel low count type root s = Some (0, s) \<and> first_fit (cells s) root (unat count) (max_page s) start None)
    \<or> (\<exists>i c. page_alloc fuel low count type root s =
          Some (page_at i, s\<lparr>last_page := if low then last_page s else of_nat i, cells := c\<rparr>)
        \<and> first_fit (cells s) root (unat count) (max_page s) start (Some (of_nat i)) \<and> i < 2 ^ 36
        \<and> maps_pages (cells s) root lo (unat (max_page s)) type i (unat count) c)"
proof -
  have r: "ready (cells s) root lo (unat (max_page s))" and hi: "unat (max_page s) < 2 ^ 36"
    using rdy by (auto simp: alloc_ready_def ready_def solid_def)
  have st: "lo \<le> unat start" "unat start \<le> unat (max_page s)" "1 \<le> lo"
    using rdy start by (auto simp: alloc_ready_def word_le_nat_alt)
  obtain k where k: "fuel = Suc k" "unat count < k" using n(2) by (cases fuel) auto
  have "unat (max_page s) + unat count < 2 ^ 64" "unat start + unat count < 2 ^ 64" using hi st n by simp_all
  from alloc_search_finds [OF this, of root "cells s"] obtain r where
      search: "alloc_search 12 count (unat count) (max_page s) root (cells s) start = Some r"
        "first_fit (cells s) root (unat count) (max_page s) start r" by blast
  show ?thesis
  proof (cases r)
    case None
    then show ?thesis using search start(1) k by simp
  next
    case (Some j)
    define i where "i = unat j"
    have j: "push_bit 12 j = page_at i" "j = of_nat i" by (simp_all add: i_def page_at_def)
    have fit: "lo \<le> i" "i + unat count \<le> unat (max_page s)" "free_run (cells s) root (unat count) j"
      using search(2) Some st by (simp_all add: first_fit_def i_def)
    let ?s = "s\<lparr>last_page := if low then last_page s else of_nat i\<rparr>"
    have free: "\<not> present (cells ?s (leaf (cells ?s) root q))" if q: "q \<in> {i..<i + unat count}" for q
    proof -
      have "\<not> mapped (cells s) root (page_at q)"
        using fit(3) q unfolding free_run_def page_at_def j(2) by (metis atLeastLessThan_iff le_Suc_ex less_diff_conv2 nat_add_left_cancel_less of_nat_add)
      then show ?thesis
        using mapped_leaf [of "cells s" root lo "unat (max_page s)" q] r q fit by (simp add: ready_def)
    qed
    have ring: "rsvd_r ?s \<noteq> rsvd_w ?s" using ring_not_empty [OF rdy] by simp
    have r': "ready (cells ?s) root lo (unat (max_page s))" using r by simp
    from give_pages [OF r' fit(1,2) n(1) k(2) free ring type] obtain c where
        c: "map_option (zero_cells (page_at i) (of_nat (unat count) * 0x1000))
            (map_loop k (of_nat (i + unat count)) root (walk_start (page_at i) type root) ?s) = Some (?s\<lparr>cells := c\<rparr>)"
          "maps_pages (cells s) root lo (unat (max_page s)) type i (unat count) c" by auto
    have small: "i < 2 ^ 36" using fit hi by simp
    have itop: "drop_bit 12 (page_at i + push_bit 12 count + 0xFFF) = of_nat (i + unat count)"
      using range_top [OF small n(1)] by simp
    have "page_alloc fuel low count type root s = Some (page_at i, ?s\<lparr>cells := c\<rparr>)"
      using search(1) start(1) Some c(1) itop j unfolding k(1)
      by (auto simp: Let_def bind_eq_Some_conv split: if_splits)
    then show ?thesis using search(2) Some j(2) c(2) small by auto
  qed
qed

text \<open>
  What a caller gets. Either there is no room, and nothing changes; or the first run of free pages at or behind
  \<open>start\<close>, which is now mapped to itself with the rights asked for.
\<close>

definition alloc_gives :: "u64 \<Rightarrow> nat \<Rightarrow> nat \<Rightarrow> u8 \<Rightarrow> u64 \<Rightarrow> ptstate \<Rightarrow> u64 \<Rightarrow> ptstate \<Rightarrow> bool" where
  "alloc_gives root lo n type start s addr s' \<longleftrightarrow> alloc_ready root lo s' \<and> max_page s' = max_page s
     \<and> (if addr = 0 then s' = s \<and> first_fit (cells s) root n (max_page s) start None
        else (\<exists>i. addr = page_at i \<and> i < 2 ^ 36 \<and> first_fit (cells s) root n (max_page s) start (Some (of_nat i))
                \<and> last_page s' \<in> {last_page s, of_nat i}
                \<and> maps_pages (cells s) root lo (unat (max_page s)) type i n (cells s')))"

lemma page_at_not_0: "0 < i \<Longrightarrow> i < 2 ^ 36 \<Longrightarrow> page_at i \<noteq> 0"
  using unat_page_at [of i] by (auto simp: unat_eq_zero [symmetric])

lemma page_alloc_gives:
  assumes rdy: "alloc_ready root lo s" and "unat count < 512" "unat count + 1 < fuel" "\<not> type_has type NULLPAGE" "low \<Longrightarrow> lo = 1"
  shows "\<exists>addr s'. do { (addr, s) \<leftarrow> page_alloc fuel low count type root s; s \<leftarrow> renewRsvd fuel root s; Some (addr, s) } = Some (addr, s')
    \<and> alloc_gives root lo (unat count) type (if low then 1 else last_page s) s addr s'"
proof -
  have pos: "0 < fuel" "1 \<le> lo" using assms(3) rdy by (auto simp: alloc_ready_def)
  from page_alloc_ready [OF rdy assms(2-4) refl assms(5)] consider
      (none) "page_alloc fuel low count type root s = Some (0, s)"
        "first_fit (cells s) root (unat count) (max_page s) (if low then 1 else last_page s) None"
    | (some) i c where "page_alloc fuel low count type root s =
          Some (page_at i, s\<lparr>last_page := if low then last_page s else of_nat i, cells := c\<rparr>)"
        "first_fit (cells s) root (unat count) (max_page s) (if low then 1 else last_page s) (Some (of_nat i))" "i < 2 ^ 36"
        "maps_pages (cells s) root lo (unat (max_page s)) type i (unat count) c" by blast
  then show ?thesis
  proof cases
    case none
    then show ?thesis using rdy renew_full [OF rdy pos(1)] by (simp add: alloc_gives_def)
  next
    case some
    let ?s = "s\<lparr>last_page := if low then last_page s else of_nat i, cells := c\<rparr>"
    have rdy': "alloc_ready root lo ?s" by (rule alloc_ready_pages [OF rdy some(4)]) simp
    have "page_at i \<noteq> 0" using some(3,4) pos by (intro page_at_not_0) (auto simp: maps_pages_def)
    then have "alloc_gives root lo (unat count) type (if low then 1 else last_page s) s (page_at i) ?s"
      using rdy' some(2-4) by (auto simp: alloc_gives_def)
    then show ?thesis using some(1) renew_full [OF rdy' pos(1)] by auto
  qed
qed

lemma pt_alloc_gives:
  assumes "alloc_ready root lo s" and "unat count < 512" "unat count + 1 < fuel" and "\<not> type_has type NULLPAGE"
  shows "\<exists>addr s'. pt_alloc fuel count type root s = Some (addr, s') \<and> alloc_gives root lo (unat count) type (last_page s) s addr s'"
proof -
  have "\<not> 0x200 \<le> count" using assms(2) by (simp add: word_le_nat_alt)
  then show ?thesis using page_alloc_gives [OF assms, of False] by (simp add: pt_alloc_def)
qed

lemma pt_lowalloc_gives:
  assumes "alloc_ready root 1 s" and "unat count < 512" "unat count + 1 < fuel" and "\<not> type_has type NULLPAGE"
  shows "\<exists>addr s'. pt_lowalloc fuel count type root s = Some (addr, s') \<and> alloc_gives root 1 (unat count) type 1 s addr s'"
  using page_alloc_gives [OF assms, of True] by (simp add: pt_lowalloc_def)

text \<open>
  C7: On a page table whose tables exist, with the reserve full, alloc of less than 512 pages
  ends. It gives null and changes nothing when no run of free pages is left; otherwise it
  gives the first run of free pages at or behind the last one given, maps exactly those pages
  to themselves with the rights asked for, leaves the entry of every other page as it was, and
  keeps the table in this condition.
\<close>

theorem alloc_fresh_pages:
  assumes "alloc_ready root lo s" and "unat count < 512" "unat count + 1 < fuel" and "\<not> type_has type NULLPAGE"
  shows "\<exists>addr s'. pt_alloc fuel count type root s = Some (addr, s') \<and> alloc_gives root lo (unat count) type (last_page s) s addr s'"
  using assms by (rule pt_alloc_gives)

text \<open>A machine with 256 pages, of which the first four behind page 0 hold the tables.\<close>

definition demo_alloc :: ptstate where
  "demo_alloc = \<lparr>cells = (\<lambda>a. if a = 0x1000 then Entry 0x2000 0 TABLE else if a = 0x2000 then Entry 0x3000 0 TABLE
       else if a = 0x3000 then Entry 0x4000 0 TABLE else if 0x4008 \<le> a \<and> a \<le> 0x4020 then Entry 0x1000 0 TABLE else 0),
     rsvd_pages = replicate 16 0, rsvd_r = 0, rsvd_w = 15, last_page = 1, max_page = 0x100\<rparr>"

lemma demo_alloc_entries:
  assumes "p < 256"
  shows "ent1 0x1000 p = 0x1000" "ent2 (cells demo_alloc) 0x1000 p = 0x2000" "ent3 (cells demo_alloc) 0x1000 p = 0x3000"
    "leaf (cells demo_alloc) 0x1000 p = of_nat (0x4000 + 8 * p)" "upper (cells demo_alloc) 0x1000 p = {0x1000, 0x2000, 0x3000}"
proof -
  show e1: "ent1 0x1000 p = 0x1000" using assms by (simp add: ent1_def slot_def)
  have "cells demo_alloc 0x1000 = Entry 0x2000 0 TABLE" by (simp add: demo_alloc_def)
  then show e2: "ent2 (cells demo_alloc) 0x1000 p = 0x2000" using assms by (simp add: ent2_def e1 slot_def demo_ptr)
  have "cells demo_alloc 0x2000 = Entry 0x3000 0 TABLE" by (simp add: demo_alloc_def)
  then show e3: "ent3 (cells demo_alloc) 0x1000 p = 0x3000" using assms by (simp add: ent3_def e2 slot_def demo_ptr)
  have "cells demo_alloc 0x3000 = Entry 0x4000 0 TABLE" by (simp add: demo_alloc_def)
  then show "leaf (cells demo_alloc) 0x1000 p = of_nat (0x4000 + 8 * p)" using assms by (simp add: leaf_def e3 slot_def demo_ptr)
  show "upper (cells demo_alloc) 0x1000 p = {0x1000, 0x2000, 0x3000}" by (simp add: upper_def e1 e2 e3)
qed

lemma present_0: "\<not> present 0"
  by (simp add: present_def)

lemma demo_alloc_free:
  assumes "p < 256"
  shows "present (cells demo_alloc (of_nat (0x4000 + 8 * p))) \<longleftrightarrow> 1 \<le> p \<and> p \<le> 4"
proof -
  have u: "unat (of_nat (0x4000 + 8 * p) :: u64) = 0x4000 + 8 * p" using assms by (intro unat_of_nat_u64) simp
  then have "(of_nat (0x4000 + 8 * p) :: u64) \<notin> {0x1000, 0x2000, 0x3000}" by (auto simp: word_unat_eq_iff simp del: of_nat_add of_nat_mult)
  then show ?thesis
    using u by (auto simp: demo_alloc_def table_not_null word_le_nat_alt present_0 simp del: of_nat_add of_nat_mult)
qed

lemma demo_alloc_ready: "alloc_ready 0x1000 1 demo_alloc"
proof -
  let ?c = "cells demo_alloc"
  have nat: "unat (of_nat (0x4000 + 8 * p) :: u64) = 0x4000 + 8 * p" if "p < 256" for p
    using that by (intro unat_of_nat_u64) simp
  have tables: "present (?c 0x1000)" "present (?c 0x2000)" "present (?c 0x3000)" "\<not> hugesize (?c 0x3000)"
    by (simp_all add: demo_alloc_def table_not_null)
  have low: "\<not> in_range (page_at p) 0x1000 a" if "5 \<le> p" "p < 256" "unat a < 0x5000" for p and a :: u64
    using that unat_page_at [of p] by (auto simp: in_range_def unat_diff_wrap_u64)
  have "solid ?c 0x1000 1 256"
    unfolding solid_def tables_at_def
    using tables nat by (auto simp: demo_alloc_entries word_unat_eq_iff simp del: of_nat_add of_nat_mult)
  moreover have "\<not> in_range (page_at p) 0x1000 a"
    if "p \<in> {1..<256}" "\<not> present (?c (leaf ?c 0x1000 p))" "q \<in> {1..<256}" "a \<in> insert (leaf ?c 0x1000 q) (upper ?c 0x1000 q)" for p q a
    using that nat [of q] by (intro low) (auto simp: demo_alloc_entries demo_alloc_free simp del: of_nat_add of_nat_mult)
  ultimately have "ready ?c 0x1000 1 256" unfolding ready_def by blast
  then show ?thesis by (simp add: alloc_ready_def demo_alloc_def rsvd_num_def)
qed

theorem alloc_fresh_pages_witness:
  "\<exists>addr s'. pt_alloc 10 3 DATA_RW 0x1000 demo_alloc = Some (addr, s')
     \<and> alloc_gives 0x1000 1 (unat (3 :: u64)) DATA_RW (last_page demo_alloc) demo_alloc addr s'"
  by (rule alloc_fresh_pages [OF demo_alloc_ready]) (simp_all add: DATA_RW_def type_has_def FLAG_W_def NULLPAGE_def)

text \<open>\<^verbatim>\<open>Pagetable::map\<close> on pages of the range: the rights of mapped pages change, nothing is cleared.\<close>

lemma pt_map_pages:
  assumes rdy: "alloc_ready root lo s" and run: "lo \<le> p" "p + n \<le> unat (max_page s)" "n < 512" "n < fuel"
    and high: "drop_bit 12 (high + 0xFFF) = of_nat (p + n)" and type: "\<not> type_has type NULLPAGE"
  shows "\<exists>c. pt_map fuel (page_at p) high type root s = Some (page_at p, s\<lparr>cells := c\<rparr>)
    \<and> maps_pages (cells s) root lo (unat (max_page s)) type p n c \<and> alloc_ready root lo (s\<lparr>cells := c\<rparr>)"
proof -
  have r: "ready (cells s) root lo (unat (max_page s))" "solid (cells s) root lo (unat (max_page s))"
    using rdy by (auto simp: alloc_ready_def ready_def)
  obtain c where c: "map_loop fuel (of_nat (p + n)) root (walk_start (page_at p) type root) s = Some (s\<lparr>cells := c\<rparr>)"
      "leaves_set (cells s) root {p..<p + n} (\<lambda>q. Entry (page_at q) 0 type) c"
    using map_pages [OF r(2) run ring_not_empty [OF rdy]] by blast
  have sub: "{p..<p + n} \<subseteq> {lo..<unat (max_page s)}" using run by auto
  have "leaf (cells s) root q \<notin> leaf (cells s) root ` {p..<p + n}" if "q \<in> {lo..<unat (max_page s)} - {p..<p + n}" for q
    using solidD(4) [OF r(2), of q] that sub by blast
  then have maps: "maps_pages (cells s) root lo (unat (max_page s)) type p n c"
    using c(2) leaves_set_upper [OF r(2) c(2) sub] by (intro maps_pagesI [OF r(1) _ run(1,2) _ _ type]) (auto simp: leaves_set_def)
  have rdy': "alloc_ready root lo (s\<lparr>cells := c\<rparr>)" using alloc_ready_pages [OF rdy maps, of "last_page s"] by simp
  have "pt_map fuel (page_at p) high type root s = Some (page_at p, s\<lparr>cells := c\<rparr>)"
    using c(1) renew_full [OF rdy', of fuel] run(4) unfolding pt_map_def map_range_def high by simp
  then show ?thesis using maps rdy' by blast
qed

section \<open>Room\<close>

text \<open>The pages from \<open>b\<close> on are free, so that the next allocations succeed.\<close>

definition room :: "u64 \<Rightarrow> nat \<Rightarrow> nat \<Rightarrow> ptstate \<Rightarrow> bool" where
  "room root lo b s \<longleftrightarrow> alloc_ready root lo s \<and> unat (last_page s) \<le> b
     \<and> (\<forall>p \<in> {b..<unat (max_page s)}. \<not> mapped (cells s) root (page_at p))"

lemma room_mono: "room root lo b s \<Longrightarrow> b \<le> b' \<Longrightarrow> room root lo b' s"
  by (auto simp: room_def)

lemma mapped_entry: "mapped c root (page_at p) = (case entry_of c root p of None \<Rightarrow> False | Some e \<Rightarrow> present e)"
  by (simp add: mapped_def entry_of_def split: option.split)

lemma maps_pages_mapped:
  assumes "maps_pages c root lo hi type i n c'" and "\<not> type_has type NULLPAGE" and "q \<in> {lo..<hi}"
  shows "mapped c' root (page_at q) \<longleftrightarrow> q \<in> {i..<i + n} \<or> mapped c root (page_at q)"
  using assms by (cases "q \<in> {i..<i + n}") (auto simp: maps_pages_def mapped_entry)

lemma free_run_nat:
  "free_run c root n (of_nat i) \<longleftrightarrow> (\<forall>q \<in> {i..<i + n}. \<not> mapped c root (page_at q))"
proof -
  have "(\<forall>k < n. P (i + k)) \<longleftrightarrow> (\<forall>q \<in> {i..<i + n}. P q)" for P
    by (metis atLeastLessThan_iff le_add1 le_add_diff_inverse nat_add_left_cancel_less)
  from this [of "\<lambda>q. \<not> mapped c root (page_at q)"] show ?thesis by (simp add: free_run_def page_at_def)
qed

lemma room_alloc:
  assumes rm: "room root lo b s" and gives: "alloc_gives root lo n type start s addr s'" and type: "\<not> type_has type NULLPAGE"
    and fits: "b + n < unat (max_page s)" and start: "lo \<le> unat start" "unat start \<le> b"
  shows "\<exists>i. addr = page_at i \<and> lo \<le> i \<and> i \<le> b \<and> addr \<noteq> 0 \<and> room root lo (b + n) s' \<and> max_page s' = max_page s
    \<and> (\<forall>q \<in> {i..<i + n}. \<not> mapped (cells s) root (page_at q))
    \<and> (\<forall>q \<in> {lo..<unat (max_page s)}. mapped (cells s') root (page_at q) \<longleftrightarrow> q \<in> {i..<i + n} \<or> mapped (cells s) root (page_at q))"
proof -
  have hi: "unat (max_page s) < 2 ^ 36" using rm by (auto simp: room_def alloc_ready_def ready_def solid_def)
  have ub: "unat (of_nat b :: u64) = b" using fits hi by (intro unat_of_nat_u64) simp
  have free_b: "free_run (cells s) root n (of_nat b)" using rm fits by (auto simp: room_def free_run_nat)
  then have "\<not> first_fit (cells s) root n (max_page s) start None"
    using start(2) fits ub by (auto simp: first_fit_def intro!: exI [of _ "of_nat b"])
  then obtain i where i: "addr = page_at i" "addr \<noteq> 0" "i < 2 ^ 36" "first_fit (cells s) root n (max_page s) start (Some (of_nat i))"
      "last_page s' \<in> {last_page s, of_nat i}" "maps_pages (cells s) root lo (unat (max_page s)) type i n (cells s')"
      "alloc_ready root lo s'" "max_page s' = max_page s"
    using gives by (auto simp: alloc_gives_def split: if_splits)
  have ui: "unat (of_nat i :: u64) = i" using i(3) by (intro unat_of_nat_u64) simp
  have ib: "i \<le> b" using i(4) free_b start(2) ub ui by (auto simp: first_fit_def intro: ccontr [of "i \<le> b"] dest!: spec [of _ "of_nat b"])
  have free: "\<forall>q \<in> {i..<i + n}. \<not> mapped (cells s) root (page_at q)" using i(4) by (simp add: first_fit_def free_run_nat)
  note mp = maps_pages_mapped [OF i(6) type]
  have "room root lo (b + n) s'"
    using i(5,7,8) rm mp ib ui start unfolding room_def by auto
  moreover have "lo \<le> i" using i(6) by (simp add: maps_pages_def)
  ultimately show ?thesis using i ib free mp by (intro exI [of _ i]) auto
qed

text \<open>The two facts together: what a caller with room gets.\<close>

lemma room_pt_alloc:
  assumes rm: "room root lo b s" and n: "unat count \<le> n" "n < 512" "n + 1 < fuel" and fits: "b + n < unat (max_page s)"
    and type: "\<not> type_has type NULLPAGE"
  shows "\<exists>i s'. pt_alloc fuel count type root s = Some (page_at i, s') \<and> lo \<le> i \<and> i \<le> b \<and> room root lo (b + n) s' \<and> max_page s' = max_page s
    \<and> (\<forall>q \<in> {i..<i + unat count}. \<not> mapped (cells s) root (page_at q))
    \<and> (\<forall>q \<in> {lo..<unat (max_page s)}. mapped (cells s') root (page_at q) \<longleftrightarrow> q \<in> {i..<i + unat count} \<or> mapped (cells s) root (page_at q))"
proof -
  have rdy: "alloc_ready root lo s" and start: "lo \<le> unat (last_page s)" "unat (last_page s) \<le> b"
    using rm by (auto simp: room_def alloc_ready_def)
  have "unat count < 512" "unat count + 1 < fuel" "b + unat count < unat (max_page s)" using n fits by auto
  with pt_alloc_gives [OF rdy _ _ type] obtain addr s' where
      s': "pt_alloc fuel count type root s = Some (addr, s')" "alloc_gives root lo (unat count) type (last_page s) s addr s'" by blast
  have "room root lo (b + unat count) s' \<Longrightarrow> room root lo (b + n) s'" using n(1) by (elim room_mono) simp
  with room_alloc [OF rm s'(2) type \<open>b + unat count < _\<close> start] s'(1) show ?thesis by blast
qed

lemma room_pt_lowalloc:
  assumes rm: "room root 1 b s" and n: "unat count \<le> n" "n < 512" "n + 1 < fuel" and fits: "b + n < unat (max_page s)"
    and type: "\<not> type_has type NULLPAGE"
  shows "\<exists>i s'. pt_lowalloc fuel count type root s = Some (page_at i, s') \<and> 1 \<le> i \<and> i \<le> b \<and> room root 1 (b + n) s' \<and> max_page s' = max_page s
    \<and> (\<forall>q \<in> {i..<i + unat count}. \<not> mapped (cells s) root (page_at q))
    \<and> (\<forall>q \<in> {1..<unat (max_page s)}. mapped (cells s') root (page_at q) \<longleftrightarrow> q \<in> {i..<i + unat count} \<or> mapped (cells s) root (page_at q))"
proof -
  have rdy: "alloc_ready root 1 s" and start: "1 \<le> unat (1 :: u64)" "unat (1 :: u64) \<le> b"
    using rm by (auto simp: room_def alloc_ready_def)
  have "unat count < 512" "unat count + 1 < fuel" "b + unat count < unat (max_page s)" using n fits by auto
  with pt_lowalloc_gives [OF rdy _ _ type] obtain addr s' where
      s': "pt_lowalloc fuel count type root s = Some (addr, s')" "alloc_gives root 1 (unat count) type 1 s addr s'" by blast
  have "room root 1 (b + unat count) s' \<Longrightarrow> room root 1 (b + n) s'" using n(1) by (elim room_mono) simp
  with room_alloc [OF rm s'(2) type \<open>b + unat count < _\<close> start] s'(1) show ?thesis by blast
qed

lemma demo_alloc_room: "room 0x1000 1 5 demo_alloc"
proof -
  have sol: "solid (cells demo_alloc) 0x1000 1 256" using demo_alloc_ready by (simp add: alloc_ready_def ready_def demo_alloc_def)
  have "\<not> mapped (cells demo_alloc) 0x1000 (page_at p)" if "p \<in> {5..<256}" for p
    using mapped_leaf [OF sol, of p] demo_alloc_free [of p] that by (simp add: demo_alloc_entries del: of_nat_add of_nat_mult)
  then show ?thesis using demo_alloc_ready by (simp add: room_def demo_alloc_def)
qed

end
