(* ===== verification/Intready.thy ===== *)
theory Intready
  imports Intinit Allocator
begin

text \<open>
  \<^verbatim>\<open>Interrupts::init\<close> on a machine whose page table is ready and has room: it ends, every block it asks for is
  given, and no two of them share a byte. With the tables that \<^verbatim>\<open>Intinit\<close> describes this is the whole of its
  contract.
\<close>

section \<open>Blocks of whole pages\<close>

definition owned :: "kmachine \<Rightarrow> u64 \<times> nat \<Rightarrow> bool" where
  "owned s b \<longleftrightarrow> (\<exists>i n. b = (page_at i, n * 0x1000) \<and> 1 \<le> i \<and> i + n \<le> unat (max_page (pt s))
     \<and> (\<forall>q \<in> {i..<i + n}. mapped (cells (pt s)) (mcr3 s) (page_at q)))"

text \<open>What holds while \<^verbatim>\<open>init\<close> runs: the pages from \<open>b\<close> on are free, and what was given is in use and apart.\<close>

definition going :: "nat \<Rightarrow> kmachine \<Rightarrow> bool" where
  "going b s \<longleftrightarrow> room (mcr3 s) 1 b (pt s) \<and> (\<forall>x \<in> set (taken s). owned s x \<and> fst x \<noteq> 0) \<and> sorted_wrt apart (taken s)"

lemma same_page:
  assumes "in_range (page_at p) 0x1000 a" "in_range (page_at q) 0x1000 a" and "p < 2 ^ 36" "q < 2 ^ 36"
  shows "p = q"
proof -
  have "unat a div 4096 = p" if "in_range (page_at p) 0x1000 a" "p < 2 ^ 36" for p
    using that unat_page_at [of p] unat_lt_2p64 [of a]
    by (auto simp: in_range_def unat_diff_wrap_u64 split: if_splits)
  then show ?thesis using assms by metis
qed

lemma pages_apart:
  assumes "{i..<i + n} \<inter> {j..<j + k} = {}" and "i + n < 2 ^ 36" "j + k < 2 ^ 36"
  shows "apart (page_at i, n * 0x1000) (page_at j, k * 0x1000)"
  unfolding apart_def fst_conv snd_conv
proof (intro allI notI)
  fix a
  assume a: "in_range (page_at i) (n * 0x1000) a \<and> in_range (page_at j) (k * 0x1000) a"
  obtain p q where "p \<in> {i..<i + n}" "in_range (page_at p) 0x1000 a" "q \<in> {j..<j + k}" "in_range (page_at q) 0x1000 a"
    using a in_some_page [of i n a] in_some_page [of j k a] assms by blast
  then show False using same_page [of p a q] assms by auto
qed

lemma going_top: "going b s \<Longrightarrow> unat (max_page (pt s)) < 2 ^ 36"
  by (auto simp: going_def room_def alloc_ready_def ready_def solid_def)

text \<open>One block more.\<close>

lemma going_took:
  assumes go: "going b s" and gives: "alloc_gives (mcr3 s) 1 n type start (pt s) addr ps" and "\<not> type_has type NULLPAGE"
    and fits: "b + n < unat (max_page (pt s))" and start: "1 \<le> unat start" "unat start \<le> b"
  shows "\<exists>i. addr = page_at i \<and> 1 \<le> i \<and> i \<le> b \<and> going (b + n) (snd (took (n * 0x1000) (addr, ps) s)) \<and> max_page ps = max_page (pt s)"
proof -
  have rm: "room (mcr3 s) 1 b (pt s)" using go by (simp add: going_def)
  from room_alloc [OF rm gives assms(3) fits start] obtain i where i: "addr = page_at i" "1 \<le> i" "i \<le> b" "addr \<noteq> 0"
      "room (mcr3 s) 1 (b + n) ps" "max_page ps = max_page (pt s)" "\<forall>q \<in> {i..<i + n}. \<not> mapped (cells (pt s)) (mcr3 s) (page_at q)"
      "\<forall>q \<in> {1..<unat (max_page (pt s))}. mapped (cells ps) (mcr3 s) (page_at q) \<longleftrightarrow> q \<in> {i..<i + n} \<or> mapped (cells (pt s)) (mcr3 s) (page_at q)"
    by blast
  let ?t = "snd (took (n * 0x1000) (addr, ps) s)"
  have t: "pt ?t = ps" "mcr3 ?t = mcr3 s" "taken ?t = taken s @ [(addr, n * 0x1000)]" by (simp_all add: took_def)
  have old: "owned ?t x" "apart x (addr, n * 0x1000)" if x: "x \<in> set (taken s)" for x
  proof -
    from go x obtain j k where j: "x = (page_at j, k * 0x1000)" "1 \<le> j" "j + k \<le> unat (max_page (pt s))"
        "\<forall>q \<in> {j..<j + k}. mapped (cells (pt s)) (mcr3 s) (page_at q)" by (auto simp: going_def owned_def)
    then show "owned ?t x" using i(6,8) unfolding owned_def t by (intro exI [of _ j] exI [of _ k]) auto
    have "{j..<j + k} \<inter> {i..<i + n} = {}" using i(7) j(4) by blast
    then show "apart x (addr, n * 0x1000)" using going_top [OF go] i(1,3) j(1,3) fits by (auto intro: pages_apart)
  qed
  have "owned ?t (addr, n * 0x1000)"
    using i(1-3,6,8) fits unfolding owned_def t by (intro exI [of _ i] exI [of _ n]) auto
  then have "going (b + n) ?t"
    using go old i(4,5) unfolding going_def t by (auto simp: sorted_wrt_append)
  then show ?thesis using i by blast
qed

lemma going_mono: "going b s \<Longrightarrow> b \<le> b' \<Longrightarrow> going b' s"
  by (auto simp: going_def intro: room_mono)

lemma going_fields [simp]:
  "going b (store a bs s) = going b s" "going b (s\<lparr>gdt := x\<rparr>) = going b s" "going b (s\<lparr>idt := x\<rparr>) = going b s"
  "going b (s\<lparr>glob := x\<rparr>) = going b s" "going b (s\<lparr>handlers := x\<rparr>) = going b s" "going b (s\<lparr>imem := m\<rparr>) = going b s"
  "going b (s\<lparr>gdtr := y, segments := z, eoi_vector := x\<rparr>) = going b s"
  by (simp_all add: going_def owned_def store_def)

section \<open>The allocations of \<^verbatim>\<open>init\<close>\<close>

lemma types_present: "\<not> type_has DATA_RW NULLPAGE" "\<not> type_has CODE_RW NULLPAGE" "\<not> type_has CODE_RX NULLPAGE"
  by (simp_all add: type_has_def DATA_RW_def CODE_RW_def CODE_RX_def FLAG_W_def FLAG_X_def NULLPAGE_def)

text \<open>What an allocation leaves besides the pages: the tables belong to the same root and machine.\<close>

definition goes_on :: "kmachine \<Rightarrow> nat \<Rightarrow> kmachine \<Rightarrow> bool" where
  "goes_on s b t \<longleftrightarrow> going b t \<and> max_page (pt t) = max_page (pt s) \<and> acpis t = acpis s"

lemma i_alloc_going:
  assumes go: "going b s" and n: "unat cnt \<le> n" "n < 512" "n + 1 < fuel" and fits: "b + n < unat (max_page (pt s))"
    and type: "\<not> type_has type NULLPAGE"
  shows "\<exists>i t. i_alloc fuel cnt type s = Some (page_at i, t) \<and> 1 \<le> i \<and> i \<le> b \<and> goes_on s (b + n) t"
proof -
  have rdy: "alloc_ready (mcr3 s) 1 (pt s)" and start: "1 \<le> unat (last_page (pt s))" "unat (last_page (pt s)) \<le> b"
    using go by (auto simp: going_def room_def alloc_ready_def)
  have "unat cnt < 512" "unat cnt + 1 < fuel" "b + unat cnt < unat (max_page (pt s))" using n fits by auto
  with pt_alloc_gives [OF rdy _ _ type] obtain addr ps where
      ps: "pt_alloc fuel cnt type (mcr3 s) (pt s) = Some (addr, ps)" "alloc_gives (mcr3 s) 1 (unat cnt) type (last_page (pt s)) (pt s) addr ps"
    by blast
  from going_took [OF go ps(2) type \<open>b + unat cnt < _\<close> start] obtain i where
      "addr = page_at i" "1 \<le> i" "i \<le> b" "going (b + unat cnt) (snd (took (unat cnt * 0x1000) (addr, ps) s))" "max_page ps = max_page (pt s)"
    by blast
  then show ?thesis
    using ps(1) going_mono [of "b + unat cnt" _ "b + n"] n(1) by (auto simp: i_alloc_def goes_on_def took_def)
qed

lemma i_lowalloc_going:
  assumes go: "going b s" and n: "unat cnt \<le> n" "n < 512" "n + 1 < fuel" and fits: "b + n < unat (max_page (pt s))"
    and type: "\<not> type_has type NULLPAGE"
  shows "\<exists>i t. i_lowalloc fuel cnt type s = Some (page_at i, t) \<and> goes_on s (b + n) t"
proof -
  have rdy: "alloc_ready (mcr3 s) 1 (pt s)" and start: "1 \<le> unat (1 :: u64)" "unat (1 :: u64) \<le> b"
    using go by (auto simp: going_def room_def alloc_ready_def)
  have "unat cnt < 512" "unat cnt + 1 < fuel" "b + unat cnt < unat (max_page (pt s))" using n fits by auto
  with pt_lowalloc_gives [OF rdy _ _ type] obtain addr ps where
      ps: "pt_lowalloc fuel cnt type (mcr3 s) (pt s) = Some (addr, ps)" "alloc_gives (mcr3 s) 1 (unat cnt) type 1 (pt s) addr ps"
    by blast
  from going_took [OF go ps(2) type \<open>b + unat cnt < _\<close> start] obtain i where
      "addr = page_at i" "going (b + unat cnt) (snd (took (unat cnt * 0x1000) (addr, ps) s))" "max_page ps = max_page (pt s)"
    by blast
  then show ?thesis
    using ps(1) going_mono [of "b + unat cnt" _ "b + n"] n(1) by (auto simp: i_lowalloc_def goes_on_def took_def)
qed

lemma goes_on_fields [simp]:
  "goes_on (store a bs s) b t = goes_on s b t" "goes_on s b (store a bs t) = goes_on s b t"
  "goes_on (s\<lparr>gdt := x\<rparr>) b t = goes_on s b t" "goes_on (s\<lparr>idt := x\<rparr>) b t = goes_on s b t" "goes_on (s\<lparr>glob := x\<rparr>) b t = goes_on s b t"
  "goes_on s b (t\<lparr>imem := m\<rparr>) = goes_on s b t"
  by (simp_all add: goes_on_def)

lemma goes_on_trans: "goes_on s b t \<Longrightarrow> goes_on t b' u \<Longrightarrow> goes_on s b' u"
  by (simp add: goes_on_def)

lemma tss_step_going:
  assumes "going b s" and "b + 2 < unat (max_page (pt s))" and "2 < fuel"
  shows "\<exists>t. tss_step fuel ncpu tssbuf idx s = Some t \<and> goes_on s (b + 2) t"
proof -
  obtain i u where u: "i_alloc fuel 1 DATA_RW s = Some (page_at i, u)" "goes_on s (b + 1) u"
    using i_alloc_going [OF assms(1), of 1 1 fuel DATA_RW] assms types_present by auto
  define e where "e = tss_entbuf tssbuf idx"
  define v where "v = store (e + 102) (le 2 (ucast (tss_iomap_base tssbuf ncpu idx))) (store (e + 36) (le 8 (page_at i + 0x1000)) u)"
  have "going (b + 1) v" "b + 1 + 1 < unat (max_page (pt v))" using u(2) assms by (simp_all add: v_def goes_on_def)
  from i_alloc_going [OF this(1) _ _ _ this(2), of 1 fuel DATA_RW] obtain j w where
      w: "i_alloc fuel 1 DATA_RW v = Some (page_at j, w)" "goes_on v (b + 2) w"
    using assms(3) types_present by auto
  have "goes_on s (b + 2) w" using goes_on_trans [OF u(2)] w(2) by (simp add: v_def)
  then show ?thesis using u(1) w(1) by (simp add: tss_step_def Let_def v_def e_def)
qed

lemma tss_loop_going:
  "going b s \<Longrightarrow> b + 2 * length ks < unat (max_page (pt s)) \<Longrightarrow> 2 < fuel
   \<Longrightarrow> \<exists>t. tss_loop fuel ncpu tssbuf ks s = Some t \<and> goes_on s (b + 2 * length ks) t"
proof (induction ks arbitrary: b s)
  case Nil
  then show ?case by (simp add: goes_on_def)
next
  case (Cons k ks)
  obtain u where u: "tss_step fuel ncpu tssbuf (of_nat k) s = Some u" "goes_on s (b + 2) u"
    using tss_step_going [OF Cons.prems(1) _ Cons.prems(3)] Cons.prems(2) by fastforce
  then have "going (b + 2) u" "b + 2 + 2 * length ks < unat (max_page (pt u))" using Cons.prems(2) by (simp_all add: goes_on_def)
  from Cons.IH [OF this Cons.prems(3)] obtain t where "tss_loop fuel ncpu tssbuf ks u = Some t" "goes_on u (b + 2 + 2 * length ks) t" by blast
  then show ?case using u goes_on_trans [OF u(2)] by (auto simp: ac_simps)
qed

text \<open>The tables of 255 processors take two, one, and nine pages.\<close>

lemma table_pages:
  assumes "n \<le> 255"
  shows "unat ((gdt_size (of_nat n) + 0xFFF) div 0x1000) \<le> 2" "unat ((8 + 8 * of_nat n + 0xFFF :: u64) div 0x1000) \<le> 1"
    "unat (2 + tss_size_pad (of_nat n) div 0x1000) \<le> 9"
proof -
  have cover: "unat ((of_nat x + 0xFFF :: u64) div 0x1000) = (x + 0xFFF) div 0x1000" if "x < 0x10000" for x
  proof -
    have "unat (of_nat x + 0xFFF :: u64) = x + 0xFFF" using that by (simp add: unat_add_u64 unat_of_nat_u64)
    then show ?thesis by (simp add: unat_div)
  qed
  have g: "gdt_size (of_nat n) = of_nat (40 + 16 * n)" and l: "8 + 8 * of_nat n = (of_nat (8 + 8 * n) :: u64)"
    by (simp_all add: gdt_size_def)
  show "unat ((gdt_size (of_nat n) + 0xFFF) div 0x1000) \<le> 2" "unat ((8 + 8 * of_nat n + 0xFFF :: u64) div 0x1000) \<le> 1"
    using assms cover [of "40 + 16 * n"] cover [of "8 + 8 * n"] unfolding g l by simp_all
  have "tss_bytes (of_nat n) \<le> 9 * 0x1000"
    using block_sizes(5) [OF assms] assms by (simp add: pad_bytes_def)
  then show "unat (2 + tss_size_pad (of_nat n) div 0x1000) \<le> 9" by (simp add: tss_bytes_def)
qed

lemma gdt_fold_going: "going b (fold (\<lambda>k. store (g + 8 * of_nat k) (f k)) ks s) = going b s"
    "goes_on (fold (\<lambda>k. store (g + 8 * of_nat k) (f k)) ks s) b t = goes_on s b t"
  by (simp_all add: gdt_store_writes goes_on_def)

lemma init_tables_going:
  assumes go: "going b s" and n: "ucast (getCPUCount (acpis s)) = (of_nat n :: u64)" "n \<le> 255"
    and fits: "b + 2 * n + 13 < unat (max_page (pt s))" and fuel: "10 < fuel"
  shows "\<exists>t. init_tables fuel s = Some t \<and> goes_on s (b + 2 * n + 13) t"
proof -
  note pages = table_pages [OF n(2)]
  define f where "f g = fold (\<lambda>k. store (g + 8 * of_nat k) (le 8 (gdt_ents ! k))) [0..<5]" for g
  have f: "going b (f g u) = going b u" "goes_on (f g u) b t = goes_on u b t" for g u t b
    unfolding f_def by (rule gdt_fold_going)+
  obtain g s1 where s1: "i_lowalloc fuel ((gdt_size (of_nat n) + 0xFFF) div 0x1000) DATA_RW s = Some (g, s1)" "goes_on s (b + 2) s1"
    using i_lowalloc_going [OF go pages(1), of fuel DATA_RW] fits fuel types_present by auto
  have g1: "going (b + 2) (s1\<lparr>gdt := g\<rparr>)" "max_page (pt (s1\<lparr>gdt := g\<rparr>)) = max_page (pt s)" using s1(2) by (simp_all add: goes_on_def)
  obtain i s2 where s2: "i_alloc fuel 1 DATA_RW (s1\<lparr>gdt := g\<rparr>) = Some (i, s2)" "goes_on s1 (b + 3) s2"
    using i_alloc_going [OF g1(1), of 1 1 fuel DATA_RW] g1(2) fits fuel types_present by (auto simp: eval_nat_numeral)
  define u2 where "u2 = f g (s2\<lparr>idt := i\<rparr>)"
  have g2: "going (b + 3) u2" "max_page (pt u2) = max_page (pt s)" using s1(2) s2(2) by (simp_all add: u2_def f goes_on_def f_def gdt_store_writes)
  obtain l s3 where s3: "i_alloc fuel ((8 + 8 * of_nat n + 0xFFF) div 0x1000) DATA_RW u2 = Some (l, s3)" "goes_on u2 (b + 4) s3"
    using i_alloc_going [OF g2(1) pages(2), of fuel DATA_RW] g2(2) fits fuel types_present by (auto simp: add.commute)
  define u3 where "u3 = store l (le 8 (mcr3 s3)) (s3\<lparr>glob := l\<rparr>)"
  have g3: "going (b + 4) u3" "max_page (pt u3) = max_page (pt s)" using s3(2) g2(2) by (simp_all add: u3_def goes_on_def)
  obtain tb s4 where s4: "i_alloc fuel (2 + tss_size_pad (of_nat n) div 0x1000) DATA_RW u3 = Some (tb, s4)" "goes_on u3 (b + 13) s4"
    using i_alloc_going [OF g3(1) pages(3), of fuel DATA_RW] g3(2) fits fuel types_present by (auto simp: add.commute)
  define u4 where "u4 = store (tb + tss_size_pad (of_nat n)) (replicate 0x2000 0xFF) s4"
  have g4: "going (b + 13) u4" "max_page (pt u4) = max_page (pt s)" using s4(2) g3(2) by (simp_all add: u4_def goes_on_def)
  have "unat (of_nat n :: u64) = n" using n(2) by (intro unat_of_nat_u64) simp
  then obtain s5 where s5: "tss_loop fuel (of_nat n) tb [0..<unat (of_nat n :: u64)] u4 = Some s5" "goes_on u4 (b + 13 + 2 * n) s5"
    using tss_loop_going [OF g4(1), of "[0..<n]" fuel "of_nat n" tb] g4(2) fits fuel by auto
  have ac: "acpis s5 = acpis s"
    using s1(2) s2(2) s3(2) s4(2) s5(2) by (simp add: goes_on_def u2_def u3_def u4_def f_def gdt_store_writes)
  let ?t = "s5\<lparr>gdtr := (ucast (gdt_size (of_nat n) - 1), gdt s5), segments := (8, 16),
      eoi_vector := (if localApicAddr (acpis s5) = 0 then 0 else localApicAddr (acpis s5) + 0xB0)\<rparr>"
  have "init_tables fuel s = Some ?t"
    using s1(1) s2(1) s3(1) s4(1) s5(1) n(1) by (simp add: init_tables_def getLapicAddr_def Let_def u2_def u3_def u4_def f_def)
  moreover have "goes_on s (b + 2 * n + 13) ?t"
    using s5(2) g4(2) ac by (simp add: goes_on_def ac_simps)
  ultimately show ?thesis by blast
qed

text \<open>The page of the stubs is taken writable and then made executable.\<close>

lemma going_map:
  assumes go: "going b s" and p: "1 \<le> p" "p < b" "b \<le> unat (max_page (pt s))" and "1 < fuel"
    and high: "drop_bit 12 (high + 0xFFF) = of_nat (p + 1)"
  shows "\<exists>ps. pt_map fuel (page_at p) high CODE_RX (mcr3 s) (pt s) = Some (page_at p, ps) \<and> going b (s\<lparr>pt := ps\<rparr>)"
proof -
  have rm: "room (mcr3 s) 1 b (pt s)" using go by (simp add: going_def)
  then have rdy: "alloc_ready (mcr3 s) 1 (pt s)" by (simp add: room_def)
  have "p + 1 \<le> unat (max_page (pt s))" using p by simp
  from pt_map_pages [OF rdy p(1) this _ assms(5) high types_present(3)] obtain c where
      c: "pt_map fuel (page_at p) high CODE_RX (mcr3 s) (pt s) = Some (page_at p, (pt s)\<lparr>cells := c\<rparr>)"
        "maps_pages (cells (pt s)) (mcr3 s) 1 (unat (max_page (pt s))) CODE_RX p 1 c" "alloc_ready (mcr3 s) 1 ((pt s)\<lparr>cells := c\<rparr>)" by auto
  note mp = maps_pages_mapped [OF c(2) types_present(3)]
  have "room (mcr3 s) 1 b ((pt s)\<lparr>cells := c\<rparr>)" using rm c(3) mp p unfolding room_def by auto
  moreover have "owned (s\<lparr>pt := (pt s)\<lparr>cells := c\<rparr>\<rparr>) x" if x: "owned s x" for x
  proof -
    obtain i n where i: "x = (page_at i, n * 0x1000)" "1 \<le> i" "i + n \<le> unat (max_page (pt s))"
        "\<forall>q \<in> {i..<i + n}. mapped (cells (pt s)) (mcr3 s) (page_at q)" using x by (auto simp: owned_def)
    then show ?thesis using mp unfolding owned_def by (intro exI [of _ i] exI [of _ n]) simp
  qed
  ultimately have "going b (s\<lparr>pt := (pt s)\<lparr>cells := c\<rparr>\<rparr>)" using go by (simp add: going_def)
  then show ?thesis using c(1) by blast
qed

lemma stubs_top:
  assumes "i < 2 ^ 36"
  shows "drop_bit 12 (page_at i + 11 * 256 + 0xFFF) = (of_nat (i + 1) :: u64)"
proof -
  have e: "page_at i + 11 * 256 + 0xFFF = (of_nat (4096 * i + 6911) :: u64)"
    by (simp add: page_at_def push_bit_eq_mult algebra_simps)
  have "unat (drop_bit 12 (page_at i + 11 * 256 + 0xFFF)) = (4096 * i + 6911) div 4096"
    unfolding e unat_drop_bit_eq using assms by (subst unat_of_nat_u64) (simp_all add: drop_bit_eq_div)
  moreover have "(4096 * i + 6911) div 4096 = i + 1" by simp
  moreover have "unat (of_nat (i + 1) :: u64) = i + 1" using assms by (intro unat_of_nat_u64) simp
  ultimately show ?thesis unfolding word_unat_eq_iff by (simp only:)
qed

lemma init_stubs_going:
  assumes go: "going b s" and fits: "b + 1 < unat (max_page (pt s))" and fuel: "10 < fuel"
  shows "\<exists>t. init_stubs fuel wrapper_addr s = Some t \<and> going (b + 1) t"
proof -
  obtain i u where u: "i_alloc fuel 1 CODE_RW s = Some (page_at i, u)" "1 \<le> i" "i \<le> b" "goes_on s (b + 1) u"
    using i_alloc_going [OF go, of 1 1 fuel CODE_RW] fits fuel types_present by auto
  define v where "v = fold (gate_step wrapper_addr) [0..<256] (u\<lparr>handlers := page_at i\<rparr>)"
  have v: "v = u\<lparr>handlers := page_at i, imem := imem v\<rparr>"
    by (simp add: v_def gates_writes del: upt_Suc upt.simps)
  have gv: "going (b + 1) v" by (subst v) (use u(4) in \<open>simp add: goes_on_def\<close>)
  have mv: "pt v = pt u" "mcr3 v = mcr3 u" by (subst v, simp)+
  have top: "b + 1 \<le> unat (max_page (pt v))" using u(4) fits by (simp add: mv goes_on_def)
  have "i < 2 ^ 36" using u(3) fits going_top [OF go] by simp
  from going_map [OF gv u(2) _ top _ stubs_top [OF this], of fuel] obtain ps where
      "pt_map fuel (page_at i) (page_at i + 11 * 256) CODE_RX (mcr3 v) (pt v) = Some (page_at i, ps)" "going (b + 1) (v\<lparr>pt := ps\<rparr>)"
    using u(3) fuel by auto
  then show ?thesis using u(1) by (simp add: init_stubs_def Let_def v_def del: upt_Suc upt.simps)
qed

lemma going_tail [simp]:
  "going b (out_ports ps s) = going b s" "going b (loadVector reg s) = going b s" "going b (s\<lparr>acpis := a, ioa := d\<rparr>) = going b s"
  by (simp_all add: going_def owned_def out_ports_def loadVector_def wrmsr_def Let_def)

lemma int_init_going:
  assumes go: "going b s" and fits: "b + 2 * unat (getCPUCount (acpis s)) + 14 < unat (max_page (pt s))" and fuel: "10 < fuel"
  shows "\<exists>t b'. int_init fuel reg junk wrapper_addr s = Some t \<and> going b' t"
proof -
  define n where "n = unat (getCPUCount (acpis s))"
  have n: "n \<le> 255" "ucast (getCPUCount (acpis s)) = (of_nat n :: u64)" using cpu_count_small by (simp_all add: n_def word_unat_eq_iff unat_of_nat_u64)
  obtain u where u: "init_tables fuel s = Some u" "goes_on s (b + 2 * n + 13) u"
    using init_tables_going [OF go n(2,1) _ fuel] fits by (auto simp: n_def)
  have "going (b + 2 * n + 13) u" "b + 2 * n + 13 + 1 < unat (max_page (pt u))" using u(2) fits by (simp_all add: goes_on_def n_def)
  from init_stubs_going [OF this fuel, of wrapper_addr] obtain v where
      v: "init_stubs fuel wrapper_addr u = Some v" "going (b + 2 * n + 13 + 1) v" by blast
  show ?thesis
    using u(1) v by (auto simp: int_init_def Let_def split: prod.split intro!: exI [of _ "b + 2 * n + 13 + 1"])
qed

text \<open>
  C8: On a machine with room for it, Interrupts::init ends, and no two blocks it takes share a
  byte. The table at the loaded address holds the five segments; each processor has a task
  segment with its own interrupt stack, a system call stack of its own, and a port map that
  forbids every port; the stacks are all different. Each of the 256 gates leads to a stub with
  the bytes of that interrupt, the kernel's page table is found behind GS, and the task
  register, the segments, the table of gates and the interrupt flag are loaded.
\<close>

theorem int_init_correct:
  assumes "room (mcr3 s) 1 b (pt s)" and "b + 2 * n + 14 < unat (max_page (pt s))" and "10 < fuel" and "taken s = []"
    and "n = unat (getCPUCount (acpis s))"
  shows "\<exists>t. int_init fuel reg junk wrapper_addr s = Some t \<and> sorted_wrt apart (taken t)
    \<and> (\<forall>k < 5. read64 (imem t) (snd (gdtr t) + of_nat (8 * k)) = gdt_ents ! k)
    \<and> (\<forall>k < n. (interrupt_stack t k - 0x1000, 0x1000) \<in> set (taken t) \<and> (syscall_stack t k - 0x1000, 0x1000) \<in> set (taken t)
          \<and> holds (imem t) (port_map t k) (replicate 0x2000 0xFF))
    \<and> distinct (concat (map (\<lambda>k. [interrupt_stack t k, syscall_stack t k]) [0..<n]))
    \<and> (\<forall>i < 256. gate_target t i = stub_addr (handlers t) i \<and> holds (imem t) (gate_target t i) (stub wrapper_addr (handlers t) i))
    \<and> read64 (imem t) (msr t 0xC0000102) = mcr3 s
    \<and> tr t = task_selector (ucast (getCPUID reg (acpis s))) \<and> segments t = (8, 16) \<and> fst (idtr t) = 4095 \<and> int_flag t"
proof -
  have "going b s" using assms(1,4) by (simp add: going_def)
  from int_init_going [OF this _ assms(3)] assms(2,5) obtain t b' where t: "int_init fuel reg junk wrapper_addr s = Some t" "going b' t"
    by blast
  have "\<forall>x \<in> set (taken t). fst x \<noteq> 0" "sorted_wrt apart (taken t)" using t(2) by (auto simp: going_def)
  from int_init_tables [OF t(1) assms(4) this assms(5)] this(2) t(1) show ?thesis by blast
qed

text \<open>Two processors, and 256 pages of which the tables of pages use four.\<close>

definition demo_kernel :: kmachine where
  "demo_kernel = \<lparr>pt = demo_alloc, imem = (\<lambda>_. 0), taken = [], acpis = demo_acpi\<lparr>localApicAddr := 0xFEE00000, acpiCpuCount := 2\<rparr>,
     ioa = \<lparr>regsel = 0, ioregs = (\<lambda>_. 0)\<rparr>, iports = [], gdt = 0, idt = 0, glob = 0, handlers = 0, eoi_vector = 0, mcr3 = 0x1000,
     gdtr = (0, 0), idtr = (0, 0), tr = 0, segments = (0, 0), msr = (\<lambda>_. 0), int_flag = False\<rparr>"

theorem int_init_correct_witness:
  "\<exists>t. int_init 20 (\<lambda>_. 0) 0 0x5000 demo_kernel = Some t
     \<and> distinct (concat (map (\<lambda>k. [interrupt_stack t k, syscall_stack t k]) [0..<2]))
     \<and> (\<forall>i < 256. gate_target t i = stub_addr (handlers t) i) \<and> read64 (imem t) (msr t 0xC0000102) = 0x1000"
proof -
  have n: "2 = unat (getCPUCount (acpis demo_kernel))" by (simp add: demo_kernel_def getCPUCount_def)
  have k: "mcr3 demo_kernel = 0x1000" "pt demo_kernel = demo_alloc" "max_page demo_alloc = 0x100" "taken demo_kernel = []"
    by (simp_all add: demo_kernel_def demo_alloc_def)
  have fits: "5 + 2 * 2 + 14 < unat (max_page (pt demo_kernel))" by (simp add: k)
  have rm: "room (mcr3 demo_kernel) 1 5 (pt demo_kernel)" unfolding k by (rule demo_alloc_room)
  from int_init_correct [OF rm fits _ k(4) n, of 20 "\<lambda>_. 0" 0 "0x5000"] show ?thesis unfolding k by auto
qed

end
