(* ===== verification/Smpready.thy ===== *)
theory Smpready
  imports Smp Allocator
begin

text \<open>
  \<^verbatim>\<open>SMP::init\<close> (\<^verbatim>\<open>src/smp/smp.cpp\<close>) on a machine whose page table is ready and has room: every other processor gets a
  stack of its own, and the start page is one that a STARTUP interrupt can name.
\<close>

section \<open>The stacks\<close>

definition lapic_ids :: "acpi \<Rightarrow> u8 list \<Rightarrow> u64 list" where
  "lapic_ids a is = map (\<lambda>i. ucast (getLapicIDOfCPU i a)) is"

definition stack_pages :: "(u64 \<times> u64) list \<Rightarrow> u64 list" where
  "stack_pages cs = filter (\<lambda>k. k \<noteq> 0) (map snd cs)"

lemma stack_top_not_0: "i < 2 ^ 36 \<Longrightarrow> page_at i + 0x1000 \<noteq> 0"
proof
  assume i: "i < 2 ^ 36" and "page_at i + 0x1000 = 0"
  moreover have "unat (page_at i + 0x1000) = 4096 * i + 0x1000"
    using i by (subst unat_add_u64) (simp_all add: unat_page_at)
  ultimately show False by simp
qed

lemma page_at_inj:
  assumes "page_at i = page_at j" and "i < 2 ^ 36" "j < 2 ^ 36"
  shows "i = j"
proof -
  have u: "unat (page_at k) = 4096 * k" if "k < 2 ^ 36" for k using that by (intro unat_page_at) simp
  show ?thesis using u [OF assms(2)] u [OF assms(3)] unfolding assms(1) by linarith
qed

lemma cpus_loop_stacks:
  assumes "room cr3 lo b s" and "b + length is < unat (max_page s)" and "2 < fuel"
  shows "\<exists>cs m s'. cpus_loop fuel cr3 a localId is s = Some (cs, m, s') \<and> room cr3 lo (b + length is) s' \<and> max_page s' = max_page s
    \<and> map fst cs = lapic_ids a is \<and> (\<forall>c \<in> set cs. snd c = 0 \<longleftrightarrow> fst c = localId) \<and> distinct (stack_pages cs)
    \<and> m = of_nat (length (filter (\<lambda>c. c = localId) (lapic_ids a is)))
    \<and> (\<forall>k \<in> set (stack_pages cs). \<exists>i. lo \<le> i \<and> i < unat (max_page s) \<and> k = page_at i + 0x1000 \<and> \<not> mapped (cells s) cr3 (page_at i))
    \<and> (\<forall>q \<in> {lo..<unat (max_page s)}. mapped (cells s) cr3 (page_at q) \<longrightarrow> mapped (cells s') cr3 (page_at q))"
  using assms
proof (induction "is" arbitrary: b s)
  case Nil
  then show ?case by (simp add: lapic_ids_def stack_pages_def)
next
  case (Cons i "is")
  have top: "unat (max_page s) < 2 ^ 36" using Cons.prems(1) by (auto simp: room_def alloc_ready_def ready_def solid_def)
  let ?c = "ucast (getLapicIDOfCPU i a) :: u64"
  show ?case
  proof (cases "?c = localId")
    case True
    have next_b: "room cr3 lo (b + 1) s" "b + 1 + length is < unat (max_page s)"
      using Cons.prems(2) by (auto intro: room_mono [OF Cons.prems(1)])
    from Cons.IH [OF next_b Cons.prems(3)] obtain cs m s' where
        cs: "cpus_loop fuel cr3 a localId is s = Some (cs, m, s')" "room cr3 lo (b + 1 + length is) s'" "max_page s' = max_page s"
          "map fst cs = lapic_ids a is" "\<forall>c \<in> set cs. snd c = 0 \<longleftrightarrow> fst c = localId" "distinct (stack_pages cs)"
          "m = of_nat (length (filter (\<lambda>c. c = localId) (lapic_ids a is)))"
          "\<forall>k \<in> set (stack_pages cs). \<exists>i. lo \<le> i \<and> i < unat (max_page s) \<and> k = page_at i + 0x1000 \<and> \<not> mapped (cells s) cr3 (page_at i)"
          "\<forall>q \<in> {lo..<unat (max_page s)}. mapped (cells s) cr3 (page_at q) \<longrightarrow> mapped (cells s') cr3 (page_at q)"
      by blast
    have run: "cpus_loop fuel cr3 a localId (i # is) s = Some ((?c, 0) # cs, m + 1, s')" using cs(1) True by simp
    have "stack_pages ((?c, 0) # cs) = stack_pages cs" by (simp add: stack_pages_def)
    then show ?thesis
      unfolding run
      by (intro exI [of _ "(?c, 0) # cs"] exI [of _ "m + 1"] exI [of _ s']) (use cs(2-9) True in \<open>simp add: lapic_ids_def add.commute\<close>)
  next
    case False
    have "b + 1 < unat (max_page s)" using Cons.prems(2) by simp
    moreover have "\<not> type_has DATA_RW NULLPAGE" by (simp add: type_has_def DATA_RW_def FLAG_W_def NULLPAGE_def)
    ultimately obtain p u where u: "pt_alloc fuel 1 DATA_RW cr3 s = Some (page_at p, u)" "lo \<le> p" "p \<le> b" "room cr3 lo (b + 1) u"
        "max_page u = max_page s" "\<not> mapped (cells s) cr3 (page_at p)"
        "\<forall>q \<in> {lo..<unat (max_page s)}. mapped (cells u) cr3 (page_at q) \<longleftrightarrow> q = p \<or> mapped (cells s) cr3 (page_at q)"
      using room_pt_alloc [OF Cons.prems(1), of 1 1 fuel DATA_RW] Cons.prems(3) by (auto simp: le_less_Suc_eq)
    have p: "p < unat (max_page s)" "p < 2 ^ 36" using u(3) Cons.prems(2) top by auto
    have "b + 1 + length is < unat (max_page u)" using Cons.prems(2) u(5) by simp
    from Cons.IH [OF u(4) this Cons.prems(3)] obtain cs m s' where
        cs: "cpus_loop fuel cr3 a localId is u = Some (cs, m, s')" "room cr3 lo (b + 1 + length is) s'" "max_page s' = max_page s"
          "map fst cs = lapic_ids a is" "\<forall>c \<in> set cs. snd c = 0 \<longleftrightarrow> fst c = localId" "distinct (stack_pages cs)"
          "m = of_nat (length (filter (\<lambda>c. c = localId) (lapic_ids a is)))"
          "\<forall>k \<in> set (stack_pages cs). \<exists>i. lo \<le> i \<and> i < unat (max_page s) \<and> k = page_at i + 0x1000 \<and> \<not> mapped (cells u) cr3 (page_at i)"
          "\<forall>q \<in> {lo..<unat (max_page s)}. mapped (cells u) cr3 (page_at q) \<longrightarrow> mapped (cells s') cr3 (page_at q)"
      unfolding u(5) by blast
    have new: "page_at p + 0x1000 \<notin> set (stack_pages cs)"
    proof
      assume "page_at p + 0x1000 \<in> set (stack_pages cs)"
      then obtain i where i: "lo \<le> i" "i < unat (max_page s)" "page_at p = page_at i" "\<not> mapped (cells u) cr3 (page_at i)" using cs(8) by auto
      then have "i = p" using page_at_inj [of p i] p top by simp
      then show False using i u(7) by auto
    qed
    have run: "cpus_loop fuel cr3 a localId (i # is) s = Some ((?c, page_at p + 0x1000) # cs, m, s')"
      using u(1) cs(1) False by simp
    have pages: "stack_pages ((?c, page_at p + 0x1000) # cs) = (page_at p + 0x1000) # stack_pages cs"
      using stack_top_not_0 [OF p(2)] by (simp add: stack_pages_def)
    have fresh: "\<exists>i. lo \<le> i \<and> i < unat (max_page s) \<and> k = page_at i + 0x1000 \<and> \<not> mapped (cells s) cr3 (page_at i)"
      if "k \<in> set (stack_pages ((?c, page_at p + 0x1000) # cs))" for k
      using that cs(8) u(2,6,7) p(1) unfolding pages by fastforce
    show ?thesis
      unfolding run
      by (rule exI [of _ "(?c, page_at p + 0x1000) # cs"], rule exI [of _ m], rule exI [of _ s'])
        (use cs(2-7,9) u(7) new fresh pages False stack_top_not_0 [OF p(2)] in \<open>auto simp: lapic_ids_def\<close>)
  qed
qed

section \<open>The whole of \<^verbatim>\<open>init\<close>\<close>

lemma smp_types: "\<not> type_has DATA_RW NULLPAGE" "\<not> type_has CODE_RW NULLPAGE" "\<not> type_has CODE_RX NULLPAGE"
  by (simp_all add: type_has_def DATA_RW_def CODE_RW_def CODE_RX_def FLAG_W_def FLAG_X_def NULLPAGE_def)

lemma array_pages:
  assumes "unat (c :: u32) \<le> 255" "2 \<le> unat c"
  shows "drop_bit 12 (8 * ucast c + 0xFFF :: u64) = 1"
proof -
  have "(8 * ucast c + 0xFFF :: u64) = of_nat (8 * unat c + 0xFFF)" by (simp add: of_nat_unat)
  moreover have "unat (of_nat (8 * unat c + 0xFFF) :: u64) = 8 * unat c + 0xFFF" using assms by (intro unat_of_nat_u64) simp
  ultimately have "unat (drop_bit 12 (8 * ucast c + 0xFFF :: u64)) = (8 * unat c + 0xFFF) div 4096"
    by (simp add: drop_bit_eq_div unat_div)
  moreover have "(8 * unat c + 0xFFF) div 4096 = 1" using assms by simp
  ultimately show ?thesis by (simp add: word_unat_eq_iff)
qed

lemma lapic_present: "2 \<le> unat (getCPUCount a) \<Longrightarrow> localApicAddr a \<noteq> 0" "unat (getCPUCount a) \<le> 255"
proof -
  show "2 \<le> unat (getCPUCount a) \<Longrightarrow> localApicAddr a \<noteq> 0" by (auto simp: getCPUCount_def)
  have "unat (acpiCpuCount a) < 256" using unsigned_less [of "acpiCpuCount a"] by simp
  then have "unat (acpiCpuCount a) \<le> 255" by linarith
  moreover from this have "unat (ucast (acpiCpuCount a) :: u32) = unat (acpiCpuCount a)" by (simp add: unsigned_ucast_eq take_bit_nat_eq_self)
  ultimately show "unat (getCPUCount a) \<le> 255" unfolding getCPUCount_def by (cases "localApicAddr a = 0") simp_all
qed

text \<open>One page for the start code and one for each array: three different pages, all in use from then on.\<close>

lemma smp_pages:
  assumes rm: "room cr3 1 b s" and fits: "b + 3 < unat (max_page s)" and fuel: "3 < fuel"
  shows "\<exists>i j k s1 s2 s3. pt_lowalloc fuel 1 CODE_RW cr3 s = Some (page_at i, s1) \<and> pt_alloc fuel 1 DATA_RW cr3 s1 = Some (page_at j, s2)
    \<and> pt_alloc fuel 1 DATA_RW cr3 s2 = Some (page_at k, s3) \<and> room cr3 1 (b + 3) s3 \<and> max_page s3 = max_page s
    \<and> 1 \<le> i \<and> i \<le> b \<and> distinct [i, j, k] \<and> (\<forall>q \<in> {i, j, k}. q \<in> {1..<unat (max_page s)} \<and> mapped (cells s3) cr3 (page_at q))"
proof -
  have one: "unat (1 :: u64) \<le> 1" "(1 :: nat) < 512" "1 + 1 < fuel" using fuel by auto
  obtain i s1 where 1: "pt_lowalloc fuel 1 CODE_RW cr3 s = Some (page_at i, s1)" "1 \<le> i" "i \<le> b" "room cr3 1 (b + 1) s1" "max_page s1 = max_page s"
      "\<forall>q \<in> {1..<unat (max_page s)}. mapped (cells s1) cr3 (page_at q) \<longleftrightarrow> q = i \<or> mapped (cells s) cr3 (page_at q)"
    using room_pt_lowalloc [OF rm one _ smp_types(2)] fits by (auto simp: le_less_Suc_eq)
  obtain j s2 where 2: "pt_alloc fuel 1 DATA_RW cr3 s1 = Some (page_at j, s2)" "1 \<le> j" "j \<le> b + 1" "room cr3 1 (b + 2) s2" "max_page s2 = max_page s"
      "\<not> mapped (cells s1) cr3 (page_at j)"
      "\<forall>q \<in> {1..<unat (max_page s)}. mapped (cells s2) cr3 (page_at q) \<longleftrightarrow> q = j \<or> mapped (cells s1) cr3 (page_at q)"
    using room_pt_alloc [OF 1(4) one _ smp_types(1)] fits 1(5) by (auto simp: le_less_Suc_eq)
  obtain k s3 where 3: "pt_alloc fuel 1 DATA_RW cr3 s2 = Some (page_at k, s3)" "1 \<le> k" "k \<le> b + 2" "room cr3 1 (b + 3) s3" "max_page s3 = max_page s"
      "\<not> mapped (cells s2) cr3 (page_at k)"
      "\<forall>q \<in> {1..<unat (max_page s)}. mapped (cells s3) cr3 (page_at q) \<longleftrightarrow> q = k \<or> mapped (cells s2) cr3 (page_at q)"
    using room_pt_alloc [OF 2(4) one _ smp_types(1)] fits 2(5) by (auto simp: le_less_Suc_eq eval_nat_numeral)
  have r: "i \<in> {1..<unat (max_page s)}" "j \<in> {1..<unat (max_page s)}" "k \<in> {1..<unat (max_page s)}" using 1(2,3) 2(2,3) 3(2,3) fits by auto
  have "distinct [i, j, k]" using r 1(6) 2(6,7) 3(6) by auto
  moreover have "\<forall>q \<in> {i, j, k}. q \<in> {1..<unat (max_page s)} \<and> mapped (cells s3) cr3 (page_at q)" using r 1(6) 2(7) 3(7) by auto
  ultimately show ?thesis using 1(1-3) 2(1) 3(1,4,5) by blast
qed

text \<open>The vector of a STARTUP interrupt is the number of a page in the first megabyte.\<close>

lemma startup_vector:
  assumes "i < 256"
  shows "push_bit 12 (ucast (ucast (drop_bit 12 (page_at i) AND 0xFF) :: u8)) = page_at i"
proof -
  have "drop_bit 12 (page_at i) = of_nat i"
    using assms unat_page_at [of i] by (simp add: word_unat_eq_iff drop_bit_eq_div unat_div unat_of_nat_u64)
  moreover have "(ucast (ucast (of_nat i AND 0xFF :: u64) :: u8) :: u64) = of_nat i"
    using assms by (simp add: word_unat_eq_iff unsigned_ucast_eq unsigned_of_nat take_bit_nat_eq_self)
  ultimately show ?thesis by (simp add: page_at_def)
qed

lemma null_cpus:
  assumes "m \<le> 255"
  shows "(if (0 :: u32) < of_nat m then of_nat m - 1 else of_nat m) = (of_nat (m - 1) :: u32)"
proof (cases m)
  case (Suc k)
  have "unat (of_nat m :: u32) = m" using assms by (simp only: unsigned_of_nat) (simp add: take_bit_nat_eq_self)
  then have "(0 :: u32) < of_nat m" using Suc by (simp add: word_less_nat_alt)
  then show ?thesis using Suc by simp
qed simp

text \<open>
  The interrupts that the local APIC is told to send: INIT once and then STARTUP \<open>r\<close> times to each of the other processors.
\<close>

definition starts :: "u64 list \<Rightarrow> u8 \<Rightarrow> nat \<Rightarrow> acpi \<Rightarrow> acpi" where
  "starts ids vec r a = a\<lparr>lapic := lapic a @ concat (map (\<lambda>c. ipi c 0x4500) ids)
     @ concat (replicate r (concat (map (\<lambda>c. ipi c (ucast vec OR 0x4600)) ids)))\<rparr>"

text \<open>
  C32: On a machine with room for it and at least two processors, SMP::init ends in the round
  in which the processors it waits for have counted themselves. Every processor but the own
  one has a stack, no two have the same, and none is a page of the start code or of the
  arrays; the start code is on the page that the vector of the STARTUP interrupt names; and
  the local APIC was told to send INIT once and STARTUP once per round to each of the others.
\<close>

theorem smp_init_starts:
  assumes rm: "room cr3 1 b s" and fits: "b + n + 3 < unat (max_page s)" "b < 256" and fuel: "3 < fuel"
    and n: "n = unat (getCPUCount a)" "2 \<le> n" and ids: "ids = lapic_ids a (map of_nat [0..<n])" and loc: "localId = ucast (getLapicID reg a)"
    and up: "wanted = getCPUCount a - of_nat (length (filter (\<lambda>c. c = localId) ids) - 1)" "active r = wanted" "\<forall>k < r. active k \<noteq> wanted"
  shows "\<exists>code info cs s'. smp_init fuel active reg cr3 gdt0 entry a s
      = Some (Some (push_bit 12 (ucast code), info, cs), starts (filter (\<lambda>c. c \<noteq> localId) ids) code r a, s')
    \<and> map fst cs = ids \<and> (\<forall>c \<in> set cs. snd c = 0 \<longleftrightarrow> fst c = localId) \<and> distinct (stack_pages cs)
    \<and> (\<forall>k \<in> set (stack_pages cs). k - 0x1000 \<notin> {push_bit 12 (ucast code), cpuids info, stacks info})
    \<and> distinct [push_bit 12 (ucast code), cpuids info, stacks info]
    \<and> pagetableptr info = cr3 \<and> startup info = entry \<and> gdtptr info = gdt0"
proof -
  have small: "n \<le> 255" "localApicAddr a \<noteq> 0" using lapic_present n by auto
  have cnt: "\<not> getCPUCount a < 2" using n by (simp add: word_less_nat_alt)
  have arr: "drop_bit 12 (8 * ucast (getCPUCount a) + 0xFFF :: u64) = 1" using array_pages [of "getCPUCount a"] n small by simp
  from smp_pages [OF rm _ fuel] fits obtain i j k s1 s2 s3 where
      p: "pt_lowalloc fuel 1 CODE_RW cr3 s = Some (page_at i, s1)" "pt_alloc fuel 1 DATA_RW cr3 s1 = Some (page_at j, s2)"
        "pt_alloc fuel 1 DATA_RW cr3 s2 = Some (page_at k, s3)" "room cr3 1 (b + 3) s3" "max_page s3 = max_page s" "1 \<le> i" "i \<le> b"
        "distinct [i, j, k]" "\<forall>q \<in> {i, j, k}. q \<in> {1..<unat (max_page s)} \<and> mapped (cells s3) cr3 (page_at q)" by auto
  have top: "unat (max_page s) < 2 ^ 36" using rm by (auto simp: room_def alloc_ready_def ready_def solid_def)
  have len: "length (map of_nat [0..<n] :: u8 list) = n" by simp
  have "b + 3 + length (map of_nat [0..<n] :: u8 list) < unat (max_page s3)" "2 < fuel" using fits fuel p(5) by auto
  from cpus_loop_stacks [OF p(4) this, of a localId] obtain cs m s4 where
      cs: "cpus_loop fuel cr3 a localId (map of_nat [0..<n]) s3 = Some (cs, m, s4)" "room cr3 1 (b + 3 + n) s4" "max_page s4 = max_page s"
        "map fst cs = ids" "\<forall>c \<in> set cs. snd c = 0 \<longleftrightarrow> fst c = localId" "distinct (stack_pages cs)"
        "m = of_nat (length (filter (\<lambda>c. c = localId) ids))"
        "\<forall>k \<in> set (stack_pages cs). \<exists>i. 1 \<le> i \<and> i < unat (max_page s) \<and> k = page_at i + 0x1000 \<and> \<not> mapped (cells s3) cr3 (page_at i)"
    unfolding len ids p(5) by blast
  have rdy: "alloc_ready cr3 1 s4" using cs(2) by (simp add: room_def)
  have "drop_bit 12 (page_at i + 0x1000 + 0xFFF) = (of_nat (i + 1) :: u64)"
    using range_top [of i 1] p(7) fits(2) by (simp add: push_bit_eq_mult)
  from pt_map_pages [OF rdy p(6) _ _ _ this smp_types(3), of fuel] p(7) fits cs(3) fuel obtain c where
      "pt_map fuel (page_at i) (page_at i + 0x1000) CODE_RX cr3 s4 = Some (page_at i, s4\<lparr>cells := c\<rparr>)" by auto
  then have map: "pt_map_page fuel (page_at i) CODE_RX cr3 s4 = Some (page_at i, s4\<lparr>cells := c\<rparr>)" by (simp add: pt_map_page_def)
  define code where "code = (ucast (drop_bit 12 (page_at i) AND 0xFF) :: u8)"
  have code': "ucast (drop_bit 12 (page_at i)) = code" by (simp add: code_def)
  have code: "push_bit 12 (ucast code) = page_at i" unfolding code_def using startup_vector [of i] p(7) fits(2) by simp
  have "length (filter (\<lambda>c. c = localId) ids) \<le> 255"
    using length_filter_le [of "\<lambda>c. c = localId" ids] small(1) by (simp add: ids lapic_ids_def)
  then have want: "getCPUCount a - (if 0 < m then m - 1 else m) = wanted" unfolding up(1) cs(7) by (subst null_cpus) simp_all
  have oth: "others localId cs = filter (\<lambda>c. c \<noteq> localId) ids" by (simp add: others_def cs(4))
  have loop: "start_loop active 0 wanted (filter (\<lambda>c. c \<noteq> localId) ids) code (init_all (filter (\<lambda>c. c \<noteq> localId) ids) a)
      = Some (starts (filter (\<lambda>c. c \<noteq> localId) ids) code r a)"
    unfolding starts_def by (rule start_loop_rounds [OF small(2) up(2,3)])
  let ?info = "\<lparr>pagetableptr = cr3, lapicAddr = localApicAddr a, cpuids = page_at j, stacks = page_at k, startup = entry, gdtptr = gdt0\<rparr>"
  obtain s' where "smp_init fuel active reg cr3 gdt0 entry a s = Some (Some (page_at i, ?info, cs), starts (filter (\<lambda>c. c \<noteq> localId) ids) code r a, s')"
    using p(1-3) cs(1) map loop cnt
    by (simp add: smp_init_def Let_def arr n(1) [symmetric] loc [symmetric] oth want code')
  moreover have "x - 0x1000 \<notin> {page_at i, page_at j, page_at k}" if x: "x \<in> set (stack_pages cs)" for x
  proof -
    obtain q where q: "x = page_at q + 0x1000" "\<not> mapped (cells s3) cr3 (page_at q)" using cs(8) x by blast
    then show ?thesis using p(9) by auto
  qed
  moreover have "distinct [page_at i, page_at j, page_at k]"
    using p(8,9) page_at_inj [of i j] page_at_inj [of i k] page_at_inj [of j k] top by auto
  ultimately show ?thesis
    by (intro exI [of _ code] exI [of _ ?info] exI [of _ cs] exI [of _ s']) (use cs(4-6) code in simp)
qed

definition demo_smp :: acpi where
  "demo_smp = demo_acpi\<lparr>localApicAddr := 0xFEE00000, acpiCpuCount := 2, acpiCpuLapicIds := 0 # 1 # replicate 254 0\<rparr>"

theorem smp_init_starts_witness:
  "\<exists>code info cs s'. smp_init 10 (\<lambda>k. if k < 1 then 1 else 2) (\<lambda>_. 0) 0x1000 (0x27, 0x8000) 0x9000 demo_smp demo_alloc
      = Some (Some (push_bit 12 (ucast code), info, cs), starts [1] code 1 demo_smp, s')
    \<and> map fst cs = [0, 1] \<and> distinct [push_bit 12 (ucast code), cpuids info, stacks info]"
proof -
  have n: "2 = unat (getCPUCount demo_smp)" by (simp add: demo_smp_def getCPUCount_def)
  have ids: "[0, 1] = lapic_ids demo_smp (map of_nat [0..<2])"
    by (simp add: lapic_ids_def demo_smp_def getLapicIDOfCPU_def upt_rec)
  have loc: "0 = ucast (getLapicID (\<lambda>_. 0) demo_smp)" by (simp add: getLapicID_def LapicIn_def demo_smp_def)
  have up: "2 = getCPUCount demo_smp - of_nat (length (filter (\<lambda>c. c = 0) [0, 1 :: u64]) - 1)"
    by (simp add: demo_smp_def getCPUCount_def)
  have fits: "5 + 2 + 3 < unat (max_page demo_alloc)" by (simp add: demo_alloc_def)
  from smp_init_starts [OF demo_alloc_room fits _ _ n _ ids loc up, of 10 "\<lambda>k. if k < 1 then 1 else 2" 1 "(0x27, 0x8000)" "0x9000"]
  show ?thesis by auto
qed

end
