(* ===== verification/Klib.thy ===== *)
theory Klib
  imports Heap Process
begin

text \<open>
  What the kernel builds on its heap (\<^verbatim>\<open>src/heap/heap.cpp\<close> and \<^verbatim>\<open>heap.hpp\<close>): the allocation operators, which
  clear the memory they give, the copies of strings and the owning pointer \<^verbatim>\<open>ptr\<close>. The state is the heap's
  tables and the memory.
\<close>

record kheap =
  hp :: heap
  ram :: machine

section \<open>Operators\<close>

text \<open>\<^verbatim>\<open>Heap::alloc\<close> with the clearing of the block; a size of zero gives the null pointer.\<close>

definition heap_new :: "u64 list \<Rightarrow> u64 \<Rightarrow> u64 \<Rightarrow> kheap \<Rightarrow> (u64 \<times> kheap) option" where
  "heap_new avail len align k = do {
     (a, h) \<leftarrow> heap_alloc len align avail (hp k);
     Some (a, k\<lparr>hp := h, ram := (if len = 0 then ram k else Memop.zero a len (ram k))\<rparr>)
   }"

definition operator_new :: "u64 list \<Rightarrow> u64 \<Rightarrow> kheap \<Rightarrow> (u64 \<times> kheap) option" where
  "operator_new avail len k = heap_new avail len 16 k"

definition operator_delete :: "u64 \<Rightarrow> kheap \<Rightarrow> kheap option" where
  "operator_delete a k = map_option (\<lambda>h. k\<lparr>hp := h\<rparr>) (heap_free a (hp k))"

section \<open>Strings\<close>

text \<open>\<^verbatim>\<open>while (c != nullptr && c[len] != 0) len++\<close>\<close>

partial_function (option) strlen_loop :: "u64 \<Rightarrow> mem \<Rightarrow> u64 \<Rightarrow> u64 option" where
  "strlen_loop c m len = (if c \<noteq> 0 \<and> m (c + len) \<noteq> 0 then strlen_loop c m (len + 1) else Some len)"

definition strdup :: "u64 list \<Rightarrow> u64 \<Rightarrow> kheap \<Rightarrow> (u64 \<times> kheap) option" where
  "strdup avail c k = do {
     len \<leftarrow> strlen_loop c (memory (ram k)) 0;
     (r, k) \<leftarrow> operator_new avail (len + 1) k;
     Some (r, k\<lparr>ram := copy r c (len + 1) (ram k)\<rparr>)
   }"

definition strndup :: "u64 list \<Rightarrow> u64 \<Rightarrow> u64 \<Rightarrow> kheap \<Rightarrow> (u64 \<times> kheap) option" where
  "strndup avail c len k = do {
     (r, k) \<leftarrow> operator_new avail (len + 1) k;
     let \<sigma> = copy r c len (ram k);
     Some (r, k\<lparr>ram := \<sigma>\<lparr>memory := (memory \<sigma>)(r + len := 0)\<rparr>\<rparr>)
   }"

section \<open>The owning pointer\<close>

text \<open>\<^verbatim>\<open>ptr<T>\<close> for a type without destructor: \<open>v\<close> is \<^verbatim>\<open>value\<close>.\<close>

definition ptr_destroy :: "u64 \<Rightarrow> kheap \<Rightarrow> kheap option" where
  "ptr_destroy v k = operator_delete v k"

definition ptr_reset :: "u64 \<Rightarrow> u64 \<Rightarrow> kheap \<Rightarrow> (u64 \<times> kheap) option" where
  "ptr_reset newvalue v k = map_option (Pair newvalue) (operator_delete v k)"

definition ptr_release :: "u64 \<Rightarrow> u64 \<times> u64" where
  "ptr_release v = (v, 0)"

text \<open>\<^verbatim>\<open>Process::setName\<close> on the name's pointer.\<close>

definition set_name :: "u64 list \<Rightarrow> u64 \<Rightarrow> u64 \<Rightarrow> kheap \<Rightarrow> (u64 \<times> kheap) option" where
  "set_name avail newname v k = do {
     (new, k) \<leftarrow> (if newname \<noteq> 0 then strdup avail newname k else Some (0, k));
     ptr_reset new v k
   }"

section \<open>A copy of a string\<close>

lemma strlen_loop_string:
  assumes "c \<noteq> 0" and "\<forall>i < n. m (c + of_nat i) \<noteq> 0" and "m (c + of_nat n) = 0" and "j \<le> n"
  shows "strlen_loop c m (of_nat j) = Some (of_nat n)"
  using assms(4)
proof (induction j rule: inc_induct)
  case base
  then show ?case using assms(3) by (subst strlen_loop.simps) simp
next
  case (step j)
  then show ?case using assms(1,2) by (subst strlen_loop.simps) (simp add: add.commute)
qed

lemma zero_memory: "memory (Memop.zero a len \<sigma>) = filled (unat len) 0 a (memory \<sigma>)"
proof (cases "a AND 7 = 0 \<and> len AND 7 = 0")
  case True
  then have "Memop.zero a len \<sigma> = fill a 0 len \<sigma>" by (simp add: Memop.zero_def zero_aligned_fill fill_def)
  then show ?thesis by (simp add: fill_memory)
next
  case False
  show ?thesis unfolding Memop.zero_def if_not_P [OF False] by (rule fill_memory)
qed

lemma put_chunk_filled:
  "length bs = n \<Longrightarrow> put_chunk p bs (filled n v p m) = put_chunk p bs m"
  by (auto simp: put_chunk_def filled_def fun_eq_iff)

text \<open>Two blocks of the heap that do not overlap, as the allocator keeps them apart.\<close>

lemma blocks_disjoint:
  fixes c r :: u64
  assumes "c + of_nat m \<le> r \<or> r + of_nat n < c" and "unat c + m < 2 ^ 64" and "unat r + n < 2 ^ 64" and "i < m"
  shows "\<not> in_range r n (c + of_nat i)"
proof -
  have m: "unat (c + of_nat m) = unat c + m" using assms(2) by (subst unat_add_u64) (simp_all add: unat_of_nat_u64)
  have n: "unat (r + of_nat n) = unat r + n" using assms(3) by (subst unat_add_u64) (simp_all add: unat_of_nat_u64)
  have i: "unat (c + of_nat i) = unat c + i"
    using assms(2,4) by (subst unat_add_u64) (simp_all add: unat_of_nat_u64)
  show ?thesis
    using assms(1,3,4) m n i unfolding in_range_def unat_diff_wrap_u64 by (auto simp: word_le_nat_alt word_less_nat_alt)
qed

text \<open>
  strdup of a string in a live block of the heap allocates a new block for it, apart from
  every other, that holds the same characters and the NUL, and changes no other memory.
\<close>

theorem strdup_copies:
  assumes str: "c \<noteq> 0" "\<forall>i < n. memory (ram k) (c + of_nat i) \<noteq> 0" "memory (ram k) (c + of_nat n) = 0"
    and block: "(c, of_nat m) \<in># live (hp k)" "n < m" "unat c + m < 2 ^ 64"
    and room: "heap_alloc (of_nat n + 1) 16 avail (hp k) = Some (r, h')" "r \<noteq> 0" "unat r + n + 1 < 2 ^ 64"
  shows "\<exists>k'. strdup avail c k = Some (r, k') \<and> live (hp k') = add_mset (r, of_nat n + 1) (live (hp k))
    \<and> (\<forall>i \<le> n. memory (ram k') (r + of_nat i) = memory (ram k) (c + of_nat i))
    \<and> (\<forall>x. \<not> in_range r (n + 1) x \<longrightarrow> memory (ram k') x = memory (ram k) x)"
proof -
  let ?m = "memory (ram k)"
  have n1: "unat (of_nat n + 1 :: u64) = n + 1" "(of_nat n + 1 :: u64) = of_nat (n + 1)"
    using room(3) by (simp_all add: unat_add_u64 unat_of_nat_u64)
  then have "(of_nat n + 1 :: u64) \<noteq> 0" by (metis Suc_eq_plus1 nat.distinct(1) unat_0)
  from heap_alloc_apart [OF room(1) this room(2)] have apart: "live h' = add_mset (r, of_nat n + 1) (live (hp k))"
      "c + of_nat m \<le> r \<or> r + of_nat (n + 1) < c" using block(1) by (fastforce simp: n1(2))+
  define k1 where "k1 = k\<lparr>hp := h', ram := Memop.zero r (of_nat n + 1) (ram k)\<rparr>"
  have new: "operator_new avail (of_nat n + 1) k = Some (r, k1)"
    using room(1) \<open>of_nat n + 1 \<noteq> 0\<close> by (simp add: operator_new_def heap_new_def k1_def)
  have m1: "memory (ram k1) = filled (n + 1) 0 r ?m" by (simp add: k1_def zero_memory n1(1))
  have src: "chunk_bytes c (n + 1) (memory (ram k1)) = chunk_bytes c (n + 1) ?m"
  proof (rule chunk_bytes_kept, intro allI impI)
    fix i assume "i < n + 1"
    then have "\<not> in_range r (n + 1) (c + of_nat i)"
      using blocks_disjoint [OF apart(2) block(3)] block(2) room(3) by simp
    then show "memory (ram k1) (c + of_nat i) = ?m (c + of_nat i)" by (simp add: m1 filled_def)
  qed
  have mem: "memory (copy r c (of_nat n + 1) (ram k1)) = put_chunk r (chunk_bytes c (n + 1) ?m) ?m"
    using copy_piece [of r "n + 1" c "ram k1"] block(2,3) room(3) unfolding src unfolding m1 n1(2) by (simp add: put_chunk_filled)
  have at: "unat (of_nat i :: u64) = i" if "i \<le> n" for i using that room(3) by (simp add: unat_of_nat_u64)
  let ?k = "k1\<lparr>ram := copy r c (of_nat n + 1) (ram k1)\<rparr>"
  show ?thesis
  proof (intro exI conjI)
    show "strdup avail c k = Some (r, ?k)"
      using strlen_loop_string [OF str, of 0] new by (simp add: strdup_def)
    show "live (hp ?k) = add_mset (r, of_nat n + 1) (live (hp k))" by (simp add: k1_def apart(1))
    show "\<forall>i \<le> n. memory (ram ?k) (r + of_nat i) = ?m (c + of_nat i)"
      using at by (auto simp: mem put_chunk_def in_range_def chunk_bytes_def nth_append simp del: upt_Suc)
    show "\<forall>x. \<not> in_range r (n + 1) x \<longrightarrow> memory (ram ?k) x = ?m x" by (simp add: mem put_chunk_def)
  qed
qed

text \<open>A null pointer has the length 0, and the copy reads the byte at address 0.\<close>

lemma strdup_null:
  "strdup avail 0 k = map_option (\<lambda>(r, k). (r, k\<lparr>ram := copy r 0 1 (ram k)\<rparr>)) (operator_new avail 1 k)"
  by (simp add: strdup_def strlen_loop.simps [of 0]) (simp add: map_option_case Option.bind_def split: option.splits)

section \<open>A concrete run\<close>

text \<open>A heap of one huge page whose first block, of 24 bytes, holds the string.\<close>

definition demo_heap :: heap where
  "demo_heap = \<lparr>heap_pages = [0x400000 # replicate 510 0], allocs = [(0x400000, 24) # replicate 254 (0, 0)]\<rparr>"

definition demo_ram :: kheap where
  "demo_ram = \<lparr>hp = demo_heap, ram = \<lparr>memory = (\<lambda>a. if a = 0x400003 then 0 else 65), DF = False\<rparr>\<rparr>"

lemma demo_live_block: "live demo_heap = {#(0x400000, 24)#}"
  by (simp add: live_def demo_heap_def)

lemma demo_room: "heap_alloc 4 16 [] demo_heap = Some (0x400020, demo_heap\<lparr>allocs := [(0x400000, 24) # (0x400020, 4) # replicate 253 (0, 0)]\<rparr>)"
proof -
  have al: "replicate 254 (0 :: u64, 0 :: u64) = (0, 0) # replicate 253 (0, 0)"
    using replicate_Suc [of 253 "(0 :: u64, 0 :: u64)"] by simp
  have span: "span_ok (0x400000 # replicate 510 0) t 0x400000 = Some True" if "0x400000 < t" "\<not> 0x600000 < t" for t
    using that by (subst span_ok.simps, simp) (subst span_ok.simps, simp)
  have locate: "locate [] [0x400000 # replicate 510 0] = Some (0x400000, [0x400000 # replicate 510 0], [])"
    by (simp add: locate.simps)
  have "check_ptr ((0x400000, 24) # replicate 254 (0, 0)) 4 16 0x400000 0x400018 [0x400000 # replicate 510 0] []
      = Some (0x400020, [0x400000 # replicate 510 0], [])"
    by (subst check_ptr.simps) (simp add: align_up_def span first_overlap_empty)
  then have "check_ptr ((0x400000, 24) # replicate 254 (0, 0)) 4 16 0x400000 0 [0x400000 # replicate 510 0] []
      = Some (0x400020, [0x400000 # replicate 510 0], [])"
    by (subst check_ptr.simps) (simp add: align_up_def span first_overlap_empty)
  then show ?thesis
    by (simp add: heap_alloc_def demo_heap_def locate al)
qed

theorem strdup_copies_witness:
  "\<exists>k'. strdup [] 0x400000 demo_ram = Some (0x400020, k')
     \<and> map (\<lambda>i. memory (ram k') (0x400020 + of_nat i)) [0, 1, 2, 3] = [65, 65, 65, 0]"
proof -
  have mem: "memory (ram demo_ram) = (\<lambda>a. if a = 0x400003 then 0 else 65)" "hp demo_ram = demo_heap" by (simp_all add: demo_ram_def)
  have "\<exists>k'. strdup [] 0x400000 demo_ram = Some (0x400020, k') \<and> live (hp k') = add_mset (0x400020, of_nat 3 + 1) (live (hp demo_ram))
    \<and> (\<forall>i \<le> 3. memory (ram k') (0x400020 + of_nat i) = memory (ram demo_ram) (0x400000 + of_nat i))
    \<and> (\<forall>x. \<not> in_range 0x400020 (3 + 1) x \<longrightarrow> memory (ram k') x = memory (ram demo_ram) x)"
    by (rule strdup_copies [where m = 24]) (simp_all add: mem demo_live_block demo_room less_Suc_eq numeral_3_eq_3)
  then obtain k' where k': "strdup [] 0x400000 demo_ram = Some (0x400020, k')"
    "\<forall>i \<le> 3. memory (ram k') (0x400020 + of_nat i) = memory (ram demo_ram) (0x400000 + of_nat i)" by blast
  have "memory (ram k') (0x400020 + of_nat i) = memory (ram demo_ram) (0x400000 + of_nat i)" if "i \<in> set [0, 1, 2, 3]" for i
  proof -
    have "i \<le> 3" using that by auto
    then show ?thesis using k'(2) by blast
  qed
  then have "map (\<lambda>i. memory (ram k') (0x400020 + of_nat i)) [0, 1, 2, 3]
      = map (\<lambda>i. memory (ram demo_ram) (0x400000 + of_nat i)) [0, 1, 2, 3]"
    by (intro map_cong) auto
  then show ?thesis using k'(1) by (auto simp: mem)
qed

end
