(* ===== verification/Handlers.thy ===== *)
theory Handlers
  imports Process Usermem Printbuf Syscall Scheduler Serial
begin

text \<open>
  The system calls (\<^verbatim>\<open>src/syscall/syscall.cpp\<close>, the functions behind \<^verbatim>\<open>syscall_map\<close>), as the wrapper calls
  them: on the kernel's page table, with the arguments of the user in registers. The state is the scheduler's,
  the address space and the name of the process that runs, the console, and the console's lock as the CPU that
  runs the call sees it: an operation that finds it taken waits for it.
\<close>

section \<open>State\<close>

record kernel =
  ksched :: scheduler
  kspace :: space
  kname :: "string option"
  kconsole :: console
  klocked :: bool

text \<open>
  How kernel code ends: it returns, it faults, it waits for a lock that it holds itself, or it reads behind the end
  of a character array. A result \<open>None\<close> is a loop that does not end.
\<close>

datatype kend = Returns kernel | Faults kernel | Hangs kernel | Overreads kernel

definition getName :: "kernel \<Rightarrow> string option" where
  "getName k = kname k"

definition setName :: "string option \<Rightarrow> kernel \<Rightarrow> kernel" where
  "setName newname k = k\<lparr>kname := newname\<rparr>"

section \<open>The console\<close>

text \<open>
  \<^verbatim>\<open>SerialConsole::write\<close> takes the lock, then reads the first character. The null pointer is \<open>None\<close>; page 0 is
  read when the kernel's table maps it.
\<close>

definition null_string :: "space \<Rightarrow> u8 list option" where
  "null_string s =
     (if mapped (cells (pts s)) (kcr3 s) 0
      then Some (chunk_bytes (getPhysicalAddress (s\<lparr>utable := kcr3 s\<rparr>) 0) 0x1000 (kmem s))
      else None)"

definition console_write :: "(nat \<Rightarrow> u8) \<Rightarrow> u8 list option \<Rightarrow> kernel \<Rightarrow> kend option" where
  "console_write status str k =
     (if klocked k then Some (Hangs k)
      else case (case str of Some bs \<Rightarrow> Some bs | None \<Rightarrow> null_string (kspace k)) of
        None \<Rightarrow> Some (Faults (k\<lparr>klocked := True\<rparr>))
      | Some bs \<Rightarrow>
          if 0 \<notin> set bs then Some (Overreads k)
          else map_option (\<lambda>c. Returns (k\<lparr>kconsole := c\<rparr>)) (kprint status bs (kconsole k)))"

section \<open>The handlers\<close>

definition syscall_puts :: "(nat \<Rightarrow> u8) \<Rightarrow> u64 \<Rightarrow> kernel \<Rightarrow> kend option" where
  "syscall_puts status strptr k = do {
     str \<leftarrow> readString (kspace k) strptr;
     console_write status str k
   }"

definition syscall_exit :: "nat \<Rightarrow> u64 \<Rightarrow> kernel \<Rightarrow> kend option" where
  "syscall_exit cpu code k = do {
     process \<leftarrow> currentProcess cpu (ksched k);
     s \<leftarrow> exitProcess process (ksched k);
     Some (Returns (k\<lparr>ksched := s\<rparr>))
   }"

text \<open>The loop that maps the pages of the kernel range, \<^verbatim>\<open>for (size_t p = 0; p < size; p += 0x1000)\<close>.\<close>

partial_function (option) kread_map :: "nat \<Rightarrow> u64 \<Rightarrow> u64 \<Rightarrow> u64 \<Rightarrow> space \<Rightarrow> space option" where
  "kread_map fuel kaddr len p s =
     (if p < len then do {
        (_, ps) \<leftarrow> pt_map_page fuel (kaddr + p) DATA_RO (kcr3 s) (pts s);
        kread_map fuel kaddr len (p + 0x1000) (s\<lparr>pts := ps\<rparr>)
      } else Some s)"

text \<open>\<^verbatim>\<open>writeData\<close> into the process: a page that is not mapped there has the physical address null.\<close>

definition kread_write :: "u64 \<Rightarrow> u64 \<Rightarrow> u64 \<Rightarrow> space \<Rightarrow> bool \<times> space" where
  "kread_write outp kaddr len s =
     (let n = length (takeWhile (\<lambda>i. getPhysicalAddress s (outp + of_nat i) \<noteq> 0) [0..<unat len])
      in (n = unat len, s\<lparr>kmem := memory (writeData s outp kaddr n \<lparr>memory = kmem s, DF = False\<rparr>)\<rparr>))"

definition syscall_kread :: "nat \<Rightarrow> u64 \<Rightarrow> u64 \<Rightarrow> u64 \<Rightarrow> kernel \<Rightarrow> kend option" where
  "syscall_kread fuel outp kaddr len k =
     (if kaddr = 0 then Some (Returns k)
      else do {
        s \<leftarrow> kread_map fuel kaddr len 0 (kspace k);
        let (ok, s) = kread_write outp kaddr len s;
        Some (if ok then Returns (k\<lparr>kspace := s\<rparr>) else Faults (k\<lparr>kspace := s\<rparr>))
      })"

text \<open>
  The strings of a formatted message: the first is at address 1, the second at address 2; null pointers are 0.
\<close>

definition str_arg :: "u64 \<Rightarrow> 'a option \<Rightarrow> u64" where
  "str_arg a t = (case t of None \<Rightarrow> 0 | Some _ \<Rightarrow> a)"

definition two_strs :: "string option \<Rightarrow> string option \<Rightarrow> u64 \<Rightarrow> string" where
  "two_strs t u a = (case (if a = 1 then t else u) of None \<Rightarrow> [] | Some v \<Rightarrow> v)"

definition string_of :: "u8 list \<Rightarrow> string" where
  "string_of bs = map (\<lambda>b. char_of (unat b)) (takeWhile (\<lambda>b. b \<noteq> 0) bs)"

definition ioprovide_fmt :: string where
  "ioprovide_fmt = ''ioprovide [%s(%#lx) / %p] [%s]'' @ [CHR 0x0A]"

definition syscall_ioprovide :: "(nat \<Rightarrow> u8) \<Rightarrow> nat \<Rightarrow> u64 \<Rightarrow> u64 \<Rightarrow> kernel \<Rightarrow> kend option" where
  "syscall_ioprovide status cpu path modptr k = do {
     process \<leftarrow> currentProcess cpu (ksched k);
     p \<leftarrow> pheap (ksched k) process;
     str \<leftarrow> readString (kspace k) path;
     if (case str of None \<Rightarrow> False | Some bs \<Rightarrow> 0 \<notin> set bs) then Some (Overreads k)
     else do {
       (_, printbuf) \<leftarrow> snprintf_at (two_strs (getName k) (map_option string_of str)) 0 128 ioprovide_fmt
          [str_arg 1 (getName k), p_id p, modptr, str_arg 2 str] Map.empty;
       case buf_string 130 printbuf of
         None \<Rightarrow> Some (if klocked k then Hangs k else Overreads k)
       | Some bs \<Rightarrow> console_write status (Some bs) k
     }
   }"

text \<open>The wrapper with a handler behind each entry: the call through the null entry and \<^verbatim>\<open>ud2\<close> are faults.\<close>

definition call_handler ::
    "nat \<Rightarrow> (nat \<Rightarrow> u8) \<Rightarrow> nat \<Rightarrow> handler \<Rightarrow> gregs \<Rightarrow> kernel \<Rightarrow> kend option" where
  "call_handler fuel status cpu h g k =
     (case h of
        Puts \<Rightarrow> syscall_puts status (rdi g) k
      | Exit \<Rightarrow> syscall_exit cpu (rdi g) k
      | Kread \<Rightarrow> syscall_kread fuel (rdi g) (rsi g) (rdx g) k
      | Ioprovide \<Rightarrow> syscall_ioprovide status cpu (rdi g) (rsi g) k)"

definition system_call ::
    "nat \<Rightarrow> (nat \<Rightarrow> u8) \<Rightarrow> nat \<Rightarrow> gregs \<Rightarrow> kernel \<Rightarrow> kend option" where
  "system_call fuel status cpu g k = do {
     r \<leftarrow> dispatch (rax g);
     case r of
       Call h \<Rightarrow> call_handler fuel status cpu h g k
     | CallNull \<Rightarrow> Some (Faults k)
     | Ud2 \<Rightarrow> Some (Faults k)
   }"

section \<open>Printing a string of the user\<close>

text \<open>The line gets ready again and again.\<close>

definition line_live :: "(nat \<Rightarrow> u8) \<Rightarrow> bool" where
  "line_live status \<longleftrightarrow> (\<forall>k. \<exists>n \<ge> k. status n AND 0x20 \<noteq> 0)"

lemma console_write_prints:
  assumes "line_live status" and "\<not> klocked k" and "0 \<notin> set bs"
  shows "\<exists>c. console_write status (Some (bs @ 0 # rest)) k = Some (Returns (k\<lparr>kconsole := c\<rparr>))
    \<and> out8 c = out8 (kconsole k) @ map (Pair 0x3F8) bs"
  using kprint_chars [OF assms(1) [unfolded line_live_def] assms(3), of rest "kconsole k"] assms(2)
  by (auto simp: console_write_def)

lemma chunk_bytes_nonzero:
  "\<forall>i < l. m (p + of_nat i) \<noteq> 0 \<Longrightarrow> 0 \<notin> set (chunk_bytes p l m)"
  by (auto simp: chunk_bytes_def)

text \<open>
  puts of a string that lies in one page sends exactly its characters to the console.
\<close>

theorem puts_prints:
  assumes live: "line_live status" and free: "\<not> klocked k"
    and p: "getPhysicalAddress (kspace k) a \<noteq> 0" and l: "0 < l" "l < page_limit (getPhysicalAddress (kspace k) a)"
    and str: "\<forall>i < l. kmem (kspace k) (getPhysicalAddress (kspace k) a + of_nat i) \<noteq> 0"
      "kmem (kspace k) (getPhysicalAddress (kspace k) a + of_nat l) = 0"
  shows "\<exists>c. syscall_puts status a k = Some (Returns (k\<lparr>kconsole := c\<rparr>))
    \<and> out8 c = out8 (kconsole k)
        @ map (Pair 0x3F8) (chunk_bytes (getPhysicalAddress (kspace k) a) l (kmem (kspace k)))"
  using readString_in_page [OF p l(2) str] l(1)
    console_write_prints [OF live free chunk_bytes_nonzero [OF str(1)], of "[]"]
  by (simp add: syscall_puts_def)

lemma puts_null:
  assumes free: "\<not> klocked k" and null: "\<not> mapped (cells (pts (kspace k))) (kcr3 (kspace k)) 0"
    and arg: "getPhysicalAddress (kspace k) a = 0 \<or> kmem (kspace k) (getPhysicalAddress (kspace k) a) = 0"
  shows "syscall_puts status a k = Some (Faults (k\<lparr>klocked := True\<rparr>))"
proof -
  have "readString (kspace k) a = Some None"
  proof (cases "getPhysicalAddress (kspace k) a = 0")
    case False
    then show ?thesis using readString_in_page [of "kspace k" a 0] arg by simp
  qed (simp add: readString_def)
  then show ?thesis
    using free null by (simp add: syscall_puts_def console_write_def null_string_def)
qed

lemma dispatch_puts: "dispatch (callByName ''puts'') = Some (Call Puts)"
  by (simp add: callByName_def syscall_index_def dispatch_def syscall_map_def hashes Let_def)

section \<open>Copying kernel memory to the user\<close>

text \<open>The slots of a page: the three directory entries, and the entry of the page itself.\<close>

definition dirs :: "(u64 \<Rightarrow> pte) \<Rightarrow> u64 \<Rightarrow> u64 \<Rightarrow> u64 set" where
  "dirs c pt q = (case path_slots c q pt of (a1, a2, a3, a4) \<Rightarrow> {a1, a2, a3})"

definition leaf :: "(u64 \<Rightarrow> pte) \<Rightarrow> u64 \<Rightarrow> u64 \<Rightarrow> u64" where
  "leaf c pt q = (case path_slots c q pt of (a1, a2, a3, a4) \<Rightarrow> a4)"

text \<open>The tables for the pages \<open>Q\<close> exist, and mapping one of the pages changes neither a table nor another page.\<close>

definition tables_reach :: "(u64 \<Rightarrow> pte) \<Rightarrow> u64 \<Rightarrow> u64 set \<Rightarrow> bool" where
  "tables_reach c pt Q \<longleftrightarrow>
     (\<forall>q \<in> Q. (\<forall>a \<in> dirs c pt q. present (c a) \<and> \<not> hugesize (c a))
       \<and> (\<forall>r \<in> Q. leaf c pt r \<notin> dirs c pt q \<and> (leaf c pt r = leaf c pt q \<longrightarrow> r = q)))"

definition ring_full :: "ptstate \<Rightarrow> bool" where
  "ring_full s \<longleftrightarrow> rsvd_r s < rsvd_num \<and> rsvd_w s = (rsvd_r s + rsvd_num - 1) mod rsvd_num"

lemma ring_full_ne: "ring_full s \<Longrightarrow> rsvd_r s \<noteq> rsvd_w s"
  by (auto simp: ring_full_def rsvd_num_def mod_if split: if_splits)

lemma ring_full_set_cell [simp]: "ring_full (set_cell a e s) = ring_full s"
  by (simp add: ring_full_def set_cell_def)

lemma slots_cong:
  assumes "\<forall>a \<in> dirs c pt q. c' a = c a"
  shows "path_slots c' q pt = path_slots c q pt" "dirs c' pt q = dirs c pt q" "leaf c' pt q = leaf c pt q"
    "find_entry c' q pt = find_entry c q pt"
proof -
  show p: "path_slots c' q pt = path_slots c q pt"
    using assms by (simp add: dirs_def path_slots_def Let_def)
  show "dirs c' pt q = dirs c pt q" "leaf c' pt q = leaf c pt q"
    by (simp_all add: dirs_def leaf_def p)
  show "find_entry c' q pt = find_entry c q pt"
    using assms by (simp add: dirs_def path_slots_def find_entry_def Let_def)
qed

lemma tables_reach_upd:
  assumes "tables_reach c pt Q" and "q \<in> Q"
  shows "tables_reach (c(leaf c pt q := e)) pt Q"
proof -
  have out: "leaf c pt q \<notin> dirs c pt r" if "r \<in> Q" for r using assms that by (auto simp: tables_reach_def)
  then have "dirs (c(leaf c pt q := e)) pt r = dirs c pt r" "leaf (c(leaf c pt q := e)) pt r = leaf c pt r" if "r \<in> Q" for r
    using slots_cong(2,3) [of c pt r "c(leaf c pt q := e)"] that by auto
  then show ?thesis using assms(1) out by (auto simp: tables_reach_def)
qed

lemma map_page_full:
  assumes "tables_reach (cells s) pt Q" and "q \<in> Q" and ring: "ring_full s"
    and q: "q AND 0xFFF = 0" "unat q + 0x1000 < 2 ^ 63"
  shows "pt_map_page (Suc (Suc n)) q type pt s = Some (q, set_cell (leaf (cells s) pt q) (Entry q 0 type) s)"
proof -
  obtain a1 a2 a3 a4 where a: "path_slots (cells s) q pt = (a1, a2, a3, a4)" by (metis prod_cases4)
  have "present (cells s a1)" "present (cells s a2)" "present (cells s a3)"
    using assms(1,2) by (auto simp: tables_reach_def dirs_def a)
  then have "map_range (Suc (Suc n)) q (q + 0x1000) type pt s = Some (set_cell a4 (Entry q 0 type) s)"
    using map_one_page [OF a _ _ _ ring_full_ne [OF ring] q] by blast
  moreover have "renewRsvd (Suc (Suc n)) pt (set_cell a4 (Entry q 0 type) s) = Some (set_cell a4 (Entry q 0 type) s)"
    using ring by (simp add: renewRsvd_def ring_full_def set_cell_def)
  ultimately show ?thesis by (simp add: pt_map_page_def pt_map_def leaf_def a)
qed

text \<open>The pages that the loop maps.\<close>

definition kpage :: "u64 \<Rightarrow> nat \<Rightarrow> u64" where
  "kpage kaddr j = kaddr + of_nat (0x1000 * j)"

lemma kpage_bounds:
  assumes "kaddr AND 0xFFF = 0" and "unat kaddr + 0x1000 * N + 0x1000 < 2 ^ 63" and "j < N"
  shows "kpage kaddr j AND 0xFFF = 0" "unat (kpage kaddr j) + 0x1000 < 2 ^ 63"
proof -
  have u: "unat (kpage kaddr j) = unat kaddr + 0x1000 * j"
    using assms(2,3) unfolding kpage_def by (subst unat_add_u64) (simp_all add: unat_of_nat_u64 del: of_nat_mult)
  have "unat kaddr mod 4096 = 0" using unat_and_fff [of kaddr] assms(1) by simp
  then have "unat (kpage kaddr j AND 0xFFF) = 0" unfolding unat_and_fff u by (simp add: mod_add_eq)
  then show "kpage kaddr j AND 0xFFF = 0" by (simp add: unat_eq_0)
  show "unat (kpage kaddr j) + 0x1000 < 2 ^ 63" using assms(2,3) unfolding u by simp
qed

lemma kread_map_run:
  assumes addr: "kaddr AND 0xFFF = 0" "unat kaddr + 0x1000 * N + 0x1000 < 2 ^ 63"
    and N: "unat len \<le> 0x1000 * N" "0x1000 * N < unat len + 0x1000" and "m \<le> N"
    and "tables_reach (cells (pts s)) (kcr3 s) (kpage kaddr ` {m..<N})" and "ring_full (pts s)"
  shows "\<exists>c'. kread_map (Suc (Suc n)) kaddr len (of_nat (0x1000 * m)) s = Some (s\<lparr>pts := (pts s)\<lparr>cells := c'\<rparr>\<rparr>)
    \<and> (\<forall>j \<in> {m..<N}. c' (leaf (cells (pts s)) (kcr3 s) (kpage kaddr j)) = Entry (kpage kaddr j) 0 DATA_RO)
    \<and> (\<forall>x. x \<notin> leaf (cells (pts s)) (kcr3 s) ` kpage kaddr ` {m..<N} \<longrightarrow> c' x = cells (pts s) x)"
  using assms(5-7)
proof (induction m arbitrary: s rule: inc_induct)
  case base
  have "\<not> of_nat (0x1000 * N) < len"
    using N addr(2) by (simp add: word_less_nat_alt unat_of_nat_u64 del: of_nat_mult)
  then show ?case by (subst kread_map.simps) (auto intro: exI [of _ "cells (pts s)"])
next
  case (step m)
  let ?c = "cells (pts s)" and ?q = "kpage kaddr m" and ?pt = "kcr3 s"
  let ?x = "leaf ?c ?pt ?q" and ?e = "Entry ?q 0 DATA_RO"
  let ?s = "s\<lparr>pts := set_cell ?x ?e (pts s)\<rparr>"
  have q: "?q \<in> kpage kaddr ` {m..<N}" using step(2) by simp
  have lt: "of_nat (0x1000 * m) < len"
    using N step(2) addr(2) by (simp add: word_less_nat_alt unat_of_nat_u64 del: of_nat_mult)
  have map: "pt_map_page (Suc (Suc n)) (kaddr + of_nat (0x1000 * m)) DATA_RO ?pt (pts s) = Some (?q, set_cell ?x ?e (pts s))"
    using map_page_full [OF step.prems(1) q step.prems(2)] kpage_bounds [OF addr step(2)]
    by (simp add: kpage_def)
  have reach: "tables_reach (cells (pts ?s)) (kcr3 ?s) (kpage kaddr ` {m..<N})"
    using tables_reach_upd [OF step.prems(1) q] by (simp add: set_cell_def)
  then have "tables_reach (cells (pts ?s)) (kcr3 ?s) (kpage kaddr ` {Suc m..<N})"
    by (auto simp: tables_reach_def)
  from step.IH [OF this] step.prems(2) obtain c' where
    run: "kread_map (Suc (Suc n)) kaddr len (of_nat (0x1000 * Suc m)) ?s = Some (?s\<lparr>pts := (pts ?s)\<lparr>cells := c'\<rparr>\<rparr>)"
    and new: "\<forall>j \<in> {Suc m..<N}. c' (leaf (cells (pts ?s)) ?pt (kpage kaddr j)) = Entry (kpage kaddr j) 0 DATA_RO"
    and old: "\<forall>x. x \<notin> leaf (cells (pts ?s)) ?pt ` kpage kaddr ` {Suc m..<N} \<longrightarrow> c' x = cells (pts ?s) x"
    by auto
  have leaf: "leaf (cells (pts ?s)) ?pt (kpage kaddr j) = leaf ?c ?pt (kpage kaddr j)" if "j \<in> {m..<N}" for j
    using step.prems(1) q that by (intro slots_cong(3)) (auto simp: tables_reach_def set_cell_def)
  have distinct: "leaf ?c ?pt (kpage kaddr j) \<noteq> ?x" if "j \<in> {Suc m..<N}" for j
  proof
    assume "leaf ?c ?pt (kpage kaddr j) = ?x"
    then have "kpage kaddr j = ?q" using step.prems(1) q that by (auto simp: tables_reach_def)
    then have "(of_nat (0x1000 * j) :: u64) = of_nat (0x1000 * m)" unfolding kpage_def by (simp only: add_left_cancel)
    moreover have "unat (of_nat (0x1000 * j) :: u64) = 0x1000 * j" "unat (of_nat (0x1000 * m) :: u64) = 0x1000 * m"
      using that step(2) addr(2) by (simp_all add: unat_of_nat_u64 del: of_nat_mult)
    ultimately have "0x1000 * j = 0x1000 * m" by metis
    then show False using that by simp
  qed
  have cell: "cells (pts ?s) = ?c(?x := ?e)" by (simp add: set_cell_def)
  have later: "leaf (cells (pts ?s)) ?pt ` kpage kaddr ` {Suc m..<N} = leaf ?c ?pt ` kpage kaddr ` {Suc m..<N}"
    using leaf unfolding image_image by (intro image_cong) auto
  have "?x \<notin> leaf ?c ?pt ` kpage kaddr ` {Suc m..<N}"
  proof
    assume "?x \<in> leaf ?c ?pt ` kpage kaddr ` {Suc m..<N}"
    then obtain j where "j \<in> {Suc m..<N}" "?x = leaf ?c ?pt (kpage kaddr j)" by blast
    then show False using distinct by metis
  qed
  then have keep: "c' ?x = ?e" using old unfolding later by (simp add: set_cell_def)
  have step_run: "kread_map (Suc (Suc n)) kaddr len (of_nat (0x1000 * m)) s
      = kread_map (Suc (Suc n)) kaddr len (of_nat (0x1000 * Suc m)) ?s"
    using lt map by (subst kread_map.simps) (simp add: add.commute)
  have ins: "{m..<N} = insert m {Suc m..<N}" using step(2) by auto
  show ?case
  proof (intro exI conjI)
    show "kread_map (Suc (Suc n)) kaddr len (of_nat (0x1000 * m)) s = Some (s\<lparr>pts := (pts s)\<lparr>cells := c'\<rparr>\<rparr>)"
      unfolding step_run run by (simp add: set_cell_def)
    show "\<forall>j \<in> {m..<N}. c' (leaf ?c ?pt (kpage kaddr j)) = Entry (kpage kaddr j) 0 DATA_RO"
      using new leaf keep by (auto simp: ins)
    show "\<forall>x. x \<notin> leaf ?c ?pt ` kpage kaddr ` {m..<N} \<longrightarrow> c' x = ?c x"
      using old unfolding later by (simp add: set_cell_def ins)
  qed
qed

text \<open>The user's view does not change when the entries on its path do not.\<close>

definition user_slots :: "space \<Rightarrow> u64 \<Rightarrow> u64 set" where
  "user_slots s a = insert (leaf (cells (pts s)) (utable s) a) (dirs (cells (pts s)) (utable s) a)"

lemma getPhysicalAddress_cong:
  assumes "\<forall>x \<in> user_slots s a. c' x = cells (pts s) x"
  shows "getPhysicalAddress (s\<lparr>pts := (pts s)\<lparr>cells := c'\<rparr>\<rparr>) a = getPhysicalAddress s a"
proof -
  let ?c = "cells (pts s)" and ?pt = "utable s"
  obtain a1 a2 a3 a4 where a: "path_slots ?c a ?pt = (a1, a2, a3, a4)" by (metis prod_cases4)
  have c: "c' a1 = ?c a1" "c' a2 = ?c a2" "c' a3 = ?c a3" "c' a4 = ?c a4"
    using assms by (auto simp: user_slots_def dirs_def leaf_def a)
  then have f: "find_entry c' a ?pt = find_entry ?c a ?pt"
    by (intro slots_cong(4)) (simp add: dirs_def a)
  then show ?thesis
    using find_entry_slots [OF a] c by (simp add: getPhysicalAddress_def ucell_def)
qed

definition kernel_pages :: "u64 \<Rightarrow> nat \<Rightarrow> u64 set" where
  "kernel_pages kaddr n = kpage kaddr ` {..<(n + 0xFFF) div 0x1000}"

lemma kread_write_all:
  assumes "all_mapped s a n" and "unat len = n"
  shows "kread_write a kaddr len s
    = (True, s\<lparr>kmem := memory (writeData s a kaddr n \<lparr>memory = kmem s, DF = False\<rparr>)\<rparr>)"
proof -
  have "takeWhile (\<lambda>i. getPhysicalAddress s (a + of_nat i) \<noteq> 0) [0..<n] = [0..<n]"
    using assms(1) by (auto simp: takeWhile_eq_all_conv all_mapped_def)
  then show ?thesis unfolding kread_write_def assms(2) Let_def by (simp only: length_upt) simp
qed

text \<open>
  C18: kread of a page-aligned kernel range, when the tables for it exist, returns, maps every
  page of the range read-only onto itself, copies the bytes of the range to the user's buffer,
  and changes no other memory.
\<close>

theorem kread_copies:
  assumes addr: "kaddr \<noteq> 0" "kaddr AND 0xFFF = 0" "unat kaddr + n + 0x2000 < 2 ^ 63"
    and reach: "tables_reach (cells (pts (kspace k))) (kcr3 (kspace k)) (kernel_pages kaddr n)" and ring: "ring_full (pts (kspace k))"
    and user: "all_mapped (kspace k) a n" "one_frame_each (kspace k) a n"
      "\<forall>i < n. \<not> in_range kaddr n (getPhysicalAddress (kspace k) (a + of_nat i))"
      "\<forall>i < n. \<forall>q \<in> kernel_pages kaddr n.
         leaf (cells (pts (kspace k))) (kcr3 (kspace k)) q \<notin> user_slots (kspace k) (a + of_nat i)"
  shows "\<exists>s. syscall_kread (m + 2) a kaddr (of_nat n) k = Some (Returns (k\<lparr>kspace := s\<rparr>))
    \<and> (\<forall>q \<in> kernel_pages kaddr n. \<exists>x. find_entry (cells (pts s)) q (kcr3 s) = Some x
          \<and> cells (pts s) x = Entry q 0 DATA_RO)
    \<and> (\<forall>i < n. kmem s (getPhysicalAddress s (a + of_nat i)) = kmem (kspace k) (kaddr + of_nat i))
    \<and> (\<forall>x. x \<notin> frames (kspace k) a n \<longrightarrow> kmem s x = kmem (kspace k) x)"
proof -
  let ?s = "kspace k"
  let ?c = "cells (pts ?s)" and ?pt = "kcr3 ?s"
  define N where "N = (n + 0xFFF) div 0x1000"
  have u: "unat (of_nat n :: u64) = n" using addr(3) by (simp add: unat_of_nat_u64)
  have N: "n \<le> 0x1000 * N" "0x1000 * N < n + 0x1000" by (simp_all add: N_def)
  have pages: "kernel_pages kaddr n = kpage kaddr ` {0..<N}" by (simp add: kernel_pages_def N_def atLeast0LessThan)
  obtain c' where run: "kread_map (Suc (Suc m)) kaddr (of_nat n) 0 ?s = Some (?s\<lparr>pts := (pts ?s)\<lparr>cells := c'\<rparr>\<rparr>)"
    and new: "\<forall>j \<in> {0..<N}. c' (leaf ?c ?pt (kpage kaddr j)) = Entry (kpage kaddr j) 0 DATA_RO"
    and old: "\<forall>x. x \<notin> leaf ?c ?pt ` kpage kaddr ` {0..<N} \<longrightarrow> c' x = ?c x"
    using kread_map_run [of kaddr N "of_nat n" 0 ?s m] addr N reach ring unfolding pages u by auto
  let ?t = "?s\<lparr>pts := (pts ?s)\<lparr>cells := c'\<rparr>\<rparr>"
  have view: "getPhysicalAddress ?t (a + of_nat i) = getPhysicalAddress ?s (a + of_nat i)" if "i < n" for i
  proof (intro getPhysicalAddress_cong ballI)
    fix x assume "x \<in> user_slots ?s (a + of_nat i)"
    then have "x \<notin> leaf ?c ?pt ` kernel_pages kaddr n" using user(4) that by auto
    then show "c' x = ?c x" using old unfolding pages by blast
  qed
  have t: "all_mapped ?t a n" "one_frame_each ?t a n"
    "\<forall>i < n. \<not> in_range kaddr n (getPhysicalAddress ?t (a + of_nat i))" "frames ?t a n = frames ?s a n"
    using user(1-3) view by (simp_all add: all_mapped_def one_frame_each_def frames_def inj_on_def)
  let ?m = "memory (writeData ?t a kaddr n \<lparr>memory = kmem ?t, DF = False\<rparr>)"
  have "unat kaddr + n < 18446744073709551616" using addr(3) by simp
  from writeData_frames [OF this t(1-3), of "\<lparr>memory = kmem ?t, DF = False\<rparr>"] view t(4)
  have mem: "\<forall>i < n. ?m (getPhysicalAddress ?s (a + of_nat i)) = kmem ?s (kaddr + of_nat i)"
      "\<forall>x. x \<notin> frames ?s a n \<longrightarrow> ?m x = kmem ?s x" by auto
  have wr: "kread_write a kaddr (of_nat n) ?t = (True, ?t\<lparr>kmem := ?m\<rparr>)"
    using kread_write_all [OF t(1), of "of_nat n" kaddr] u by simp
  have leafs: "find_entry c' q ?pt = Some (leaf ?c ?pt q) \<and> c' (leaf ?c ?pt q) = Entry q 0 DATA_RO"
    if q: "q \<in> kernel_pages kaddr n" for q
  proof -
    have same: "\<forall>a \<in> dirs ?c ?pt q. c' a = ?c a" using reach old q unfolding pages by (force simp: tables_reach_def)
    obtain a1 a2 a3 a4 where p: "path_slots ?c q ?pt = (a1, a2, a3, a4)" by (metis prod_cases4)
    have "find_entry ?c q ?pt = Some a4"
      using reach q find_entry_path [OF p] by (auto simp: tables_reach_def dirs_def p)
    moreover have "leaf ?c ?pt q = a4" by (simp add: leaf_def p)
    ultimately show ?thesis using slots_cong(4) [OF same] new q unfolding pages by auto
  qed
  let ?r = "?t\<lparr>kmem := ?m\<rparr>"
  have phys: "getPhysicalAddress ?r b = getPhysicalAddress ?t b" for b by simp
  show ?thesis
  proof (intro exI conjI)
    show "syscall_kread (m + 2) a kaddr (of_nat n) k = Some (Returns (k\<lparr>kspace := ?r\<rparr>))"
      using addr(1) run wr by (simp add: syscall_kread_def)
    show "\<forall>q \<in> kernel_pages kaddr n. \<exists>x. find_entry (cells (pts ?r)) q (kcr3 ?r) = Some x
        \<and> cells (pts ?r) x = Entry q 0 DATA_RO" using leafs by auto
    show "\<forall>i < n. kmem ?r (getPhysicalAddress ?r (a + of_nat i)) = kmem ?s (kaddr + of_nat i)"
      using mem(1) view phys by simp
    show "\<forall>x. x \<notin> frames ?s a n \<longrightarrow> kmem ?r x = kmem ?s x" using mem(2) by simp
  qed
qed


section \<open>Announcing a device\<close>

definition hex :: "u64 \<Rightarrow> string" where
  "hex v = ''0x'' @ numeral_in 16 (unat v)"

lemma convert_hex:
  "convert strs (CHR ''#'' # CHR ''l'' # CHR ''x'' # rest) (v # as) = Got (Emit (hex v), rest, as)"
  "convert strs (CHR ''p'' # rest) (v # as) = Got (Emit (hex v), rest, as)"
proof -
  have "longlong_to_string v 16 False False False = numeral_in 16 (unat v)"
    using digits_loop_Nil [of 16 False "unat v"] by (auto simp: longlong_to_string_def Let_def numeral_in_def)
  then show "convert strs (CHR ''#'' # CHR ''l'' # CHR ''x'' # rest) (v # as) = Got (Emit (hex v), rest, as)"
    "convert strs (CHR ''p'' # rest) (v # as) = Got (Emit (hex v), rest, as)"
    by (simp_all add: convert_def conv_def number_def is_digit_def raw_size_def no_flags_def unsigned_arg_def out_num_def
        out_str_def hex_def)
qed

lemma convert_str:
  "convert strs (CHR ''s'' # rest) (v # as) = Got (Emit (if v = 0 then ''<null>'' else strs v), rest, as)"
  by (simp add: convert_def conv_def is_digit_def raw_size_def no_flags_def out_str_def)

definition shown :: "string option \<Rightarrow> string" where
  "shown t = (case t of None \<Rightarrow> ''<null>'' | Some v \<Rightarrow> v)"

definition ioprovide_line :: "string option \<Rightarrow> u64 \<Rightarrow> u64 \<Rightarrow> string option \<Rightarrow> string" where
  "ioprovide_line name pid modptr path =
     ''ioprovide ['' @ shown name @ ''('' @ hex pid @ '') / '' @ hex modptr @ ''] ['' @ shown path @ [CHR '']'', CHR 0x0A]"

lemma ioprovide_format:
  "map_option text_of (format_actions (two_strs name path) ioprovide_fmt
       [str_arg 1 name, pid, modptr, str_arg 2 path]) = Some (ioprovide_line name pid modptr path)"
  by (simp add: ioprovide_fmt_def convert_hex convert_str str_arg_def two_strs_def ioprovide_line_def shown_def
      split: option.splits)

lemma hex_not_nul: "CHR 0x00 \<notin> set (hex v)"
  using digits_loop_not_nul [of 16 False "unat v"] by (auto simp: hex_def numeral_in_def)

lemma string_of_not_nul: "CHR 0x00 \<notin> set (string_of bs)"
proof
  assume "CHR 0x00 \<in> set (string_of bs)"
  then obtain b where b: "b \<in> set (takeWhile (\<lambda>b. b \<noteq> 0) bs)" "char_of (unat b) = CHR 0x00" by (auto simp: string_of_def)
  then have "of_char (char_of (unat b) :: char) = (0 :: nat)" by simp
  then have "unat b mod 256 = 0" by simp
  moreover have "unat b < 256" using unsigned_less [of b] by simp
  ultimately have "unat b = 0" by simp
  then show False using b(1) by (auto dest: set_takeWhileD simp: unat_eq_0)
qed

lemma c_string_unwritten:
  "(\<forall>i < m. buf (k + i) = Some (t i) \<and> t i \<noteq> CHR 0x00) \<Longrightarrow> buf (k + m) = None \<Longrightarrow> c_string n buf k = None"
proof (induction n arbitrary: k m t)
  case (Suc n)
  show ?case
  proof (cases m)
    case (Suc j)
    have "c_string n buf (Suc k) = None"
    proof (rule Suc.IH [of j "Suc k" "\<lambda>i. t (Suc i)"])
      show "\<forall>i < j. buf (Suc k + i) = Some (t (Suc i)) \<and> t (Suc i) \<noteq> CHR 0x00"
        using Suc.prems(1) \<open>m = Suc j\<close> by (metis Suc_less_eq add_Suc add_Suc_right)
      show "buf (Suc k + j) = None" using Suc.prems(2) \<open>m = Suc j\<close> by simp
    qed
    moreover have "buf k = Some (t 0)" "t 0 \<noteq> CHR 0x00" using Suc.prems(1) \<open>m = Suc j\<close> by (auto dest: spec [of _ 0])
    ultimately show ?thesis by simp
  qed (use Suc.prems in simp)
qed simp

lemma buf_string_cut:
  assumes "CHR 0x00 \<notin> set t" and "length t < n" and "n \<le> 18446744073709551616"
  shows "buf_string n (put_text 0 t Map.empty) = None"
proof -
  have u: "unat (of_nat i :: u64) = i" if "i \<le> length t" for i
    using that assms(2,3) by (simp add: unat_of_nat_u64)
  have "c_string n (\<lambda>i. put_text 0 t Map.empty (of_nat i)) 0 = None"
    using assms(1) by (intro c_string_unwritten [of "length t" _ 0 "(!) t"]) (auto simp: put_text_def u in_set_conv_nth)
  then show ?thesis by (simp add: buf_string_def)
qed

text \<open>
  ioprovide prints one line with the name and number of the process, the pointer and the path
  when the line has at most 128 characters; a longer line leaves the array without a NUL and
  the console reads behind it.
\<close>

theorem ioprovide_prints:
  assumes live: "line_live status" and free: "\<not> klocked k"
    and proc: "currentProcess cpu (ksched k) = Some pr" "pheap (ksched k) pr = Some p"
    and str: "readString (kspace k) path = Some str" "\<forall>bs. str = Some bs \<longrightarrow> 0 \<in> set bs"
    and name: "\<forall>v. kname k = Some v \<longrightarrow> CHR 0x00 \<notin> set v"
    and t: "t = ioprovide_line (kname k) (p_id p) modptr (map_option string_of str)"
  shows "if length t \<le> 128
    then \<exists>c. syscall_ioprovide status cpu path modptr k = Some (Returns (k\<lparr>kconsole := c\<rparr>))
       \<and> out8 c = out8 (kconsole k) @ map (\<lambda>c. (0x3F8, byte_of c)) t
    else syscall_ioprovide status cpu path modptr k = Some (Overreads k)"
proof -
  have arg: "str_arg 2 (map_option string_of str) = str_arg 2 str" by (simp add: str_arg_def split: option.splits)
  have nul: "CHR 0x00 \<notin> set t"
    using name string_of_not_nul hex_not_nul unfolding t ioprovide_line_def shown_def
    by (auto split: option.splits)
  have fmt: "snprintf_at (two_strs (getName k) (map_option string_of str)) 0 128 ioprovide_fmt
      [str_arg 1 (getName k), p_id p, modptr, str_arg 2 str] Map.empty
    = Some (if length t \<le> 128 then (of_nat (length t), put_text 0 (t @ [CHR 0x00]) Map.empty)
            else (- 1, put_text 0 (take 128 t) Map.empty))"
    using snprintf_at_text [OF ioprovide_format [of "kname k" "map_option string_of str" "p_id p" modptr],
        where off = 0 and len = 128 and buf = Map.empty]
    unfolding arg getName_def t [symmetric] by simp
  have "(case str of None \<Rightarrow> False | Some bs \<Rightarrow> 0 \<notin> set bs) = False"
    using str(2) by (simp split: option.splits)
  note run = syscall_ioprovide_def proc str(1) fmt this
  show ?thesis
  proof (cases "length t \<le> 128")
    case True
    then have "buf_string 130 (put_text 0 (t @ [CHR 0x00]) Map.empty) = Some (map byte_of t @ [0])"
      using buf_string_text [OF nul, of 130 "[]"] by simp
    then show ?thesis
      using True console_write_prints [OF live free bytes_not_nul [OF nul], of "[]"]
      by (simp add: run comp_def)
  next
    case False
    have "CHR 0x00 \<notin> set (take 128 t)" using nul by (meson in_set_takeD)
    then have "buf_string 130 (put_text 0 (take 128 t) Map.empty) = None"
      by (intro buf_string_cut) simp_all
    then show ?thesis using False free by (simp add: run)
  qed
qed

section \<open>Concrete runs\<close>

definition demo_kernel :: kernel where
  "demo_kernel = \<lparr>ksched = demo_sched, kspace = demo_space\<lparr>kcr3 := 0x1000\<rparr>, kname = Some ''mod'',
     kconsole = \<lparr>reads = 0, out8 = []\<rparr>, klocked = False\<rparr>"

lemma demo_live: "line_live (\<lambda>_. 0x20)"
  by (auto simp: line_live_def)

lemma phys_kcr3 [simp]: "getPhysicalAddress (s\<lparr>kcr3 := x\<rparr>) a = getPhysicalAddress s a"
  by (simp add: getPhysicalAddress_def ucell_def split: option.split)

lemma phys_demo_string: "getPhysicalAddress (kspace demo_kernel) 0x5000 = 0x9000" "getPhysicalAddress (kspace demo_kernel) 0x5003 = 0x9003"
  using demo_range(3) [of 0 0] demo_range(3) [of 0 3] by (simp_all add: demo_kernel_def)

lemma demo_free [simp]: "\<not> klocked demo_kernel"
  by (simp add: demo_kernel_def)

lemma demo_kmem: "kmem (kspace demo_kernel) = (\<lambda>a. if a = 0x9003 then 0 else 65)"
  by (simp add: demo_kernel_def demo_space_def)

lemma demo_string: "readString (kspace demo_kernel) 0x5000 = Some (Some [65, 65, 65, 0])"
  using readString_in_page [of "kspace demo_kernel" "0x5000" 3]
  by (simp add: phys_demo_string demo_kmem page_limit_def chunk_bytes_def less_Suc_eq numeral_3_eq_3)

theorem puts_prints_witness:
  "\<exists>c. syscall_puts (\<lambda>_. 0x20) 0x5000 demo_kernel = Some (Returns (demo_kernel\<lparr>kconsole := c\<rparr>))
     \<and> out8 c = [(0x3F8, 65), (0x3F8, 65), (0x3F8, 65)]"
  using puts_prints [OF demo_live, of demo_kernel "0x5000" 3]
  by (simp add: phys_demo_string demo_kmem page_limit_def chunk_bytes_def less_Suc_eq numeral_3_eq_3) (simp add: demo_kernel_def)

definition demo_kread :: kernel where
  "demo_kread = demo_kernel\<lparr>kspace := demo_space\<lparr>kcr3 := 0x1000, kmem := (\<lambda>a. ucast a)\<rparr>\<rparr>"

lemma demo_slots:
  "dirs (cells (pts demo_space)) 0x1000 0x6000 = {0x1000, 0x2000, 0x3000}" "leaf (cells (pts demo_space)) 0x1000 0x6000 = 0x4030"
  "user_slots demo_space 0x5000 = {0x1000, 0x2000, 0x3000, 0x4028}" "user_slots demo_space 0x5001 = {0x1000, 0x2000, 0x3000, 0x4028}"
  "user_slots demo_space 0x5002 = {0x1000, 0x2000, 0x3000, 0x4028}" "user_slots demo_space 0x5003 = {0x1000, 0x2000, 0x3000, 0x4028}"
  by (auto simp: dirs_def leaf_def user_slots_def path_slots_def demo_space_def set_cell_def demo_pt_def demo_ptr slot_def
      table_index_def Let_def)

lemma all_less_4: "(\<forall>i < 4 :: nat. P i) \<longleftrightarrow> P 0 \<and> P 1 \<and> P 2 \<and> P 3"
  by (auto simp: less_Suc_eq numeral_eq_Suc)

lemma demo_reach: "tables_reach (cells (pts demo_space)) 0x1000 {0x6000}"
  unfolding tables_reach_def using demo_slots(1,2) demo_cells by (simp add: ucell_def table_not_null)

theorem kread_copies_witness:
  "\<exists>s. syscall_kread (0 + 2) 0x5000 0x6000 (of_nat 4) demo_kread = Some (Returns (demo_kread\<lparr>kspace := s\<rparr>))
     \<and> kmem s (getPhysicalAddress s (0x5000 + of_nat 2)) = 2"
proof -
  let ?k = demo_kread
  have s: "cells (pts (kspace ?k)) = cells (pts demo_space)" "kcr3 (kspace ?k) = 0x1000" "pts (kspace ?k) = pts demo_space"
      "kmem (kspace ?k) = (\<lambda>a. ucast a)" "getPhysicalAddress (kspace ?k) = getPhysicalAddress demo_space"
      "user_slots (kspace ?k) = user_slots demo_space"
    by (auto simp: demo_kread_def user_slots_def fun_eq_iff)
  have pages: "kernel_pages 0x6000 4 = {0x6000}" by (auto simp: kernel_pages_def kpage_def)
  have "all_mapped (kspace ?k) 0x5000 4" "one_frame_each (kspace ?k) 0x5000 4"
    using demo_range(1,2) [of 4] by (simp_all add: all_mapped_def one_frame_each_def s)
  moreover have "\<forall>i < 4. \<not> in_range 0x6000 4 (getPhysicalAddress (kspace ?k) (0x5000 + of_nat i))"
    using demo_range(3) [of 0 0] demo_range(3) [of 0 1] demo_range(3) [of 0 2] demo_range(3) [of 0 3]
    by (simp add: all_less_4 s in_range_def)
  moreover have "\<forall>i < 4. \<forall>q \<in> kernel_pages 0x6000 4. leaf (cells (pts (kspace ?k))) (kcr3 (kspace ?k)) q
      \<notin> user_slots (kspace ?k) (0x5000 + of_nat i)"
    by (simp add: all_less_4 s pages demo_slots)
  moreover have "ring_full (pts demo_space)" by (simp add: ring_full_def demo_space_def demo_pt_def set_cell_def rsvd_num_def)
  ultimately have "\<exists>s. syscall_kread (0 + 2) 0x5000 0x6000 (of_nat 4) ?k = Some (Returns (?k\<lparr>kspace := s\<rparr>))
    \<and> (\<forall>q \<in> kernel_pages 0x6000 4. \<exists>x. find_entry (cells (pts s)) q (kcr3 s) = Some x
          \<and> cells (pts s) x = Entry q 0 DATA_RO)
    \<and> (\<forall>i < 4. kmem s (getPhysicalAddress s (0x5000 + of_nat i)) = kmem (kspace ?k) (0x6000 + of_nat i))
    \<and> (\<forall>x. x \<notin> frames (kspace ?k) 0x5000 4 \<longrightarrow> kmem s x = kmem (kspace ?k) x)"
    using demo_reach by (intro kread_copies) (simp_all add: s pages)
  then show ?thesis by (auto simp: s all_less_4)
qed

theorem ioprovide_prints_witness:
  "\<exists>c. syscall_ioprovide (\<lambda>_. 0x20) 0 0x5000 0x10 demo_kernel = Some (Returns (demo_kernel\<lparr>kconsole := c\<rparr>))
     \<and> out8 c = map (\<lambda>c. (0x3F8, byte_of c)) (''ioprovide [mod(0x3) / 0x10] [AAA]'' @ [CHR 0x0A])"
proof -
  have p: "currentProcess 0 (ksched demo_kernel) = Some 0x30"
    "pheap (ksched demo_kernel) 0x30 = Some (demo_process\<lparr>p_id := 3, p_threads := [[0x300]]\<rparr>)"
    by (simp_all add: currentProcess_def demo_kernel_def demo_sched_def)
  have t: "ioprovide_line (kname demo_kernel) 3 0x10 (map_option string_of (Some [65, 65, 65, 0]))
      = ''ioprovide [mod(0x3) / 0x10] [AAA]'' @ [CHR 0x0A]"
    by (simp add: ioprovide_line_def shown_def demo_kernel_def string_of_def hex_def numeral_in_def digits_loop.simps
        digit_char_def char_of_def bit_0)
  then have t': "ioprovide_line (kname demo_kernel) (p_id (demo_process\<lparr>p_id := 3, p_threads := [[0x300]]\<rparr>)) 0x10
      (map_option string_of (Some [65, 65, 65, 0])) = ''ioprovide [mod(0x3) / 0x10] [AAA]'' @ [CHR 0x0A]" by simp
  have console: "out8 (kconsole demo_kernel) = []" "kname demo_kernel = Some ''mod''" by (simp_all add: demo_kernel_def)
  show ?thesis
    using ioprovide_prints [OF demo_live demo_free p demo_string _ _ t' [symmetric]] console by simp
qed

end
