(* ===== verification/Faultrep.thy ===== *)
theory Faultrep
  imports Handlers Interrupts
begin

text \<open>
  What the kernel prints when code faults: \<^verbatim>\<open>Process::print_stacktrace\<close> (\<^verbatim>\<open>src/process/process.cpp\<close>) and
  \<^verbatim>\<open>Scheduler::PrintFault\<close> (\<^verbatim>\<open>src/scheduler/scheduler.cpp\<close>). The text is assembled in an array of 1024
  characters on the kernel stack; \<^verbatim>\<open>printbuf_ptr\<close> is the offset in it.
\<close>

section \<open>The stack trace\<close>

text \<open>A load of eight bytes by the kernel, through the page table in \<^verbatim>\<open>cr3\<close>; \<open>None\<close> is a page fault.\<close>

definition kload :: "space \<Rightarrow> u64 \<Rightarrow> u64 option" where
  "kload s a =
     (let as = map (\<lambda>i. a + of_nat i) [0..<8]
      in if list_all (mapped (cells (pts s)) (kcr3 s)) as
         then Some (un_le (map (\<lambda>b. kmem s (getPhysicalAddress (s\<lparr>utable := kcr3 s\<rparr>) b)) as)) else None)"

datatype stackframe = Frame u64 u64 | NoFrame | FrameFault

text \<open>The frame in the memory of the process, read with \<^verbatim>\<open>readData\<close>; its \<^verbatim>\<open>rbp\<close> is not null.\<close>

definition user_frame :: "space \<Rightarrow> u64 \<Rightarrow> (u64 \<times> u64) option" where
  "user_frame s frame = do {
     bs \<leftarrow> read_local s frame 8;
     if un_le bs = 0 then None
     else map_option (\<lambda>cs. (un_le bs, un_le cs)) (read_local s (frame + 8) 8)
   }"

definition read_frame :: "space \<Rightarrow> bool \<Rightarrow> u64 \<Rightarrow> stackframe" where
  "read_frame s process frame =
     (case (if process then user_frame s frame else None) of
        Some (bp, ip) \<Rightarrow> Frame bp ip
      | None \<Rightarrow>
          if mapped (cells (pts s)) (kcr3 s) frame \<and> mapped (cells (pts s)) (kcr3 s) (frame + 8)
          then (case kload s frame of None \<Rightarrow> FrameFault | Some bp \<Rightarrow>
                 (case kload s (frame + 8) of None \<Rightarrow> FrameFault | Some ip \<Rightarrow> Frame bp ip))
          else NoFrame)"

datatype trace = Traced u64 cbuf | TraceFault

text \<open>The loop \<^verbatim>\<open>while (frame != nullptr && bufsz > out)\<close>; the array is the one that \<^verbatim>\<open>outbuf\<close> points into.\<close>

partial_function (option) trace_loop :: "space \<Rightarrow> bool \<Rightarrow> u64 \<Rightarrow> u64 \<Rightarrow> u64 \<Rightarrow> u64 \<Rightarrow> cbuf \<Rightarrow> trace option" where
  "trace_loop s process outbuf bufsz frame pos buf =
     (if frame = 0 \<or> \<not> pos < bufsz then Some (Traced pos buf)
      else (case read_frame s process frame of
              NoFrame \<Rightarrow> Some (Traced pos buf)
            | FrameFault \<Rightarrow> Some TraceFault
            | Frame bp ip \<Rightarrow> do {
                (n, buf) \<leftarrow> snprintf_at (\<lambda>_. []) (outbuf + pos) (bufsz - pos) '' [%p]:%p'' [bp, ip] buf;
                trace_loop s process outbuf bufsz bp (pos + n) buf
              }))"

text \<open>\<open>rbp0\<close> is the register \<^verbatim>\<open>rbp\<close> in \<^verbatim>\<open>print_stacktrace\<close> itself.\<close>

definition print_stacktrace :: "space \<Rightarrow> bool \<Rightarrow> u64 \<Rightarrow> u64 \<Rightarrow> u64 \<Rightarrow> u64 \<Rightarrow> cbuf \<Rightarrow> trace option" where
  "print_stacktrace s process rbp0 outbuf bufsz base buf =
     trace_loop s process outbuf bufsz (if base \<noteq> 0 then base else rbp0) 0 buf"

section \<open>The report\<close>

definition rflags_buf :: "u64 \<Rightarrow> string" where
  "rflags_buf fl =
     map (\<lambda>(b, c). if bit fl b then c else CHR ''-'')
       [(11, CHR ''O''), (10, CHR ''D''), (9, CHR ''I''), (8, CHR ''T''), (7, CHR ''S''),
        (6, CHR ''Z''), (4, CHR ''A''), (2, CHR ''P''), (0, CHR ''C'')]"

definition fault_src :: "u8 \<Rightarrow> bool \<Rightarrow> string" where
  "fault_src d process = (if d \<noteq> 0 then ''Userspace'' else if process then ''Syscall'' else ''Kernel'')"

definition head_fmt :: "bool \<Rightarrow> string" where
  "head_fmt process = CHR 0x0A # (if process then ''%s (%s) '' else ''%s '')"

definition fault_fmt :: string where
  "fault_fmt =
     ''fault %s (cpu=%u, error=0x%x)'' @ [CHR 0x0A]
     @ ''BASE=%016lx CS=%04hx SS=%04hx DPL=%hhu'' @ [CHR 0x0A]
     @ ''IP=%016lx FL=%016lx [%s]'' @ [CHR 0x0A]
     @ ''SP=%016lx BP=%016lx CR2=%016lx'' @ [CHR 0x0A]"

definition regs_fmt :: string where
  "regs_fmt =
     ''SI=%016lx DI=%016lx CR3=%016lx'' @ [CHR 0x0A]
     @ ''A =%016lx C =%016lx D =%016lx B =%016lx'' @ [CHR 0x0A]
     @ ''8 =%016lx 9 =%016lx 10=%016lx 11=%016lx'' @ [CHR 0x0A]
     @ ''12=%016lx 13=%016lx 14=%016lx 15=%016lx'' @ [CHR 0x0A]
     @ CHR 0x0A # ''STACK TRACE: ''"

text \<open>The values that come from the hardware: \<^verbatim>\<open>cr2\<close>, the number of the CPU, the start of the kernel's text.\<close>

record fault_env =
  fe_cr2 :: u64
  fe_cpu :: u32
  fe_text :: u64
  fe_rbp :: u64

text \<open>The three \<^verbatim>\<open>snprintf\<close> calls and the trace: the position behind the text, and the array.\<close>

definition fault_buf :: "fault_env \<Rightarrow> u8 \<Rightarrow> callback_regs \<Rightarrow> u32 \<Rightarrow> bool \<Rightarrow> kernel \<Rightarrow> trace option" where
  "fault_buf e num regs code process k = do {
     let g = general regs;
     let base = (if process then aslrCode (kspace k) else fe_text e);
     let src = fault_src (dpl (info regs)) process;
     (n, buf) \<leftarrow> snprintf_at (two_strs (Some src) (getName k)) 0 1024 (head_fmt process)
        (1 # (if process then [str_arg 2 (getName k)] else [])) Map.empty;
     let ptr = n;
     (n, buf) \<leftarrow> snprintf_at (two_strs (Some (fst (faults ! unat num))) (Some (rflags_buf (rflags (info regs)))))
        ptr (1024 - ptr) fault_fmt
        [1, ucast (fe_cpu e), ucast code,
         base, ucast (cs (info regs)), ucast (ss (info regs)), ucast (dpl (info regs)),
         rip (info regs), rflags (info regs), 2,
         rsp (info regs), rbp g, fe_cr2 e] buf;
     let ptr = ptr + n;
     (n, buf) \<leftarrow> snprintf_at (\<lambda>_. []) ptr (1024 - ptr) regs_fmt
        [rsi g, rdi g, cr3 (info regs), rax g, rcx g, rdx g, rbx g,
         r8 g, r9 g, r10 g, r11 g, r12 g, r13 g, r14 g, r15 g] buf;
     let ptr = ptr + n;
     r \<leftarrow> print_stacktrace (kspace k) process (fe_rbp e) ptr (1024 - ptr - 3) (rbp g) buf;
     case r of
       TraceFault \<Rightarrow> Some TraceFault
     | Traced pos buf \<Rightarrow> Some (Traced (ptr + pos) buf)
   }"

definition PrintFault ::
    "(nat \<Rightarrow> u8) \<Rightarrow> fault_env \<Rightarrow> u8 \<Rightarrow> callback_regs \<Rightarrow> u32 \<Rightarrow> bool \<Rightarrow> kernel \<Rightarrow> kend option" where
  "PrintFault status e num regs code process k = do {
     r \<leftarrow> fault_buf e num regs code process k;
     case r of
       TraceFault \<Rightarrow> Some (Faults k)
     | Traced ptr buf \<Rightarrow> do {
         let buf = buf(ptr \<mapsto> CHR 0x0A, ptr + 1 \<mapsto> CHR 0x0A, ptr + 2 \<mapsto> CHR 0x00);
         case buf_string 2048 buf of
           None \<Rightarrow> Some (if klocked k then Hangs k else Overreads k)
         | Some bs \<Rightarrow> console_write status (Some bs) k
       }
   }"

section \<open>A chain of frames is printed in order\<close>

definition frame_text :: "u64 \<times> u64 \<Rightarrow> string" where
  "frame_text f = '' ['' @ hex (fst f) @ '']:'' @ hex (snd f)"

definition trace_text :: "(u64 \<times> u64) list \<Rightarrow> string" where
  "trace_text fs = concat (map frame_text fs)"

text \<open>The frames from \<open>f\<close> on: the last one has a null pointer or a pointer to memory that is not mapped.\<close>

fun chain :: "space \<Rightarrow> bool \<Rightarrow> u64 \<Rightarrow> (u64 \<times> u64) list \<Rightarrow> bool" where
  "chain s process f [] \<longleftrightarrow> f = 0 \<or> read_frame s process f = NoFrame"
| "chain s process f (x # xs) \<longleftrightarrow> f \<noteq> 0 \<and> read_frame s process f = Frame (fst x) (snd x) \<and> chain s process (fst x) xs"

lemma frame_format: "map_option text_of (format_actions strs '' [%p]:%p'' [bp, ip]) = Some (frame_text (bp, ip))"
  by (simp add: convert_hex frame_text_def)

lemma frame_snprintf:
  "snprintf_at strs off len '' [%p]:%p'' [bp, ip] buf =
     Some (if length (frame_text (bp, ip)) \<le> unat len
           then (of_nat (length (frame_text (bp, ip))), put_text off (frame_text (bp, ip) @ [CHR 0x00]) buf)
           else (- 1, put_text off (take (unat len) (frame_text (bp, ip))) buf))"
  by (rule snprintf_at_text) (rule frame_format)

lemma trace_loop_text:
  assumes "chain s process f fs" and "length t + length (trace_text fs) < unat bufsz"
  shows "trace_loop s process outbuf bufsz f (of_nat (length t)) (put_text outbuf (t @ [CHR 0x00]) buf)
    = Some (Traced (of_nat (length t + length (trace_text fs))) (put_text outbuf ((t @ trace_text fs) @ [CHR 0x00]) buf))"
  using assms
proof (induction fs arbitrary: f t)
  case Nil
  then show ?case by (subst trace_loop.simps) (auto simp: trace_text_def)
next
  case (Cons x fs)
  let ?x = "frame_text x"
  have bound: "length t + length ?x + length (trace_text fs) < unat bufsz" using Cons.prems(2) by (simp add: trace_text_def)
  have small: "length t + length ?x + length (trace_text fs) < 18446744073709551616"
    using bound unat_lt_2p64 [of bufsz] by (rule less_trans)
  have pos: "unat (of_nat (length t) :: u64) = length t" using small by (simp add: unat_of_nat_u64)
  have lt: "of_nat (length t) < bufsz" using bound pos by (simp add: word_less_nat_alt)
  then have room: "unat (bufsz - of_nat (length t)) = unat bufsz - length t" by (simp add: unat_diff_u64 pos)
  have put: "put_text (outbuf + of_nat (length t)) (?x @ [CHR 0x00]) (put_text outbuf (t @ [CHR 0x00]) buf)
      = put_text outbuf ((t @ ?x) @ [CHR 0x00]) buf"
    using put_text_append [of t "?x @ [CHR 0x00]" outbuf "CHR 0x00" buf] bound unat_lt_2p64 [of bufsz] by simp
  have "length (t @ ?x) + length (trace_text fs) < unat bufsz" using bound by simp
  from Cons.IH [OF _ this, of "fst x"] Cons.prems(1)
  have "trace_loop s process outbuf bufsz (fst x) (of_nat (length (t @ ?x))) (put_text outbuf ((t @ ?x) @ [CHR 0x00]) buf)
    = Some (Traced (of_nat (length (t @ ?x) + length (trace_text fs)))
        (put_text outbuf (((t @ ?x) @ trace_text fs) @ [CHR 0x00]) buf))" by simp
  moreover have "length ?x \<le> unat (bufsz - of_nat (length t))" using bound room by simp
  ultimately show ?case
    using Cons.prems(1) lt put by (subst trace_loop.simps) (simp add: frame_snprintf trace_text_def add.assoc)
qed

text \<open>
  For a chain of frames that ends, and a buffer that is large enough, the stack trace is the
  frames' addresses in order.
\<close>

theorem stacktrace_text:
  assumes "chain s process (if base \<noteq> 0 then base else rbp0) fs" and "length (trace_text fs) < unat bufsz"
  shows "print_stacktrace s process rbp0 outbuf bufsz base (put_text outbuf [CHR 0x00] buf)
    = Some (Traced (of_nat (length (trace_text fs))) (put_text outbuf (trace_text fs @ [CHR 0x00]) buf))"
  using trace_loop_text [OF assms(1), of "[]" bufsz outbuf buf] assms(2) by (simp add: print_stacktrace_def)

section \<open>A trace that does not end\<close>

text \<open>
  A frame that does not fit makes the position go back by one, and the loop ends only when the array is filled exactly.
\<close>

definition stuck_room :: "bool \<Rightarrow> nat \<Rightarrow> bool" where
  "stuck_room first d \<longleftrightarrow>
     (if first then d mod 44 = 22 \<or> even d \<and> 2 \<le> d \<and> d \<le> 22 else d mod 44 = 1 \<or> odd d \<and> d \<le> 21)"

lemma stuck_room_first:
  assumes "stuck_room True d"
  shows "0 < d \<and> stuck_room False (if 21 \<le> d then d - 21 else d + 1)"
proof (cases "d mod 44 = 22")
  case True
  then have d: "d = 44 * (d div 44) + 22" using div_mult_mod_eq [of d 44] by simp
  then have "d - 21 = 1 + 44 * (d div 44)" by linarith
  then have "(d - 21) mod 44 = 1" by (simp only: mod_mult_self2) simp
  then show ?thesis using d by (simp add: stuck_room_def)
next
  case False
  then have d: "even d" "2 \<le> d" "d \<le> 22" using assms by (auto simp: stuck_room_def)
  then have "d = 22 \<or> d \<le> 20" by presburger
  then show ?thesis using d False by (auto simp: stuck_room_def)
qed

lemma stuck_room_second:
  assumes "stuck_room False d"
  shows "0 < d \<and> stuck_room True (if 23 \<le> d then d - 23 else d + 1)"
proof (cases "23 \<le> d")
  case True
  then have "d mod 44 = 1" using assms by (auto simp: stuck_room_def)
  then have d: "d = 44 * (d div 44) + 1" using div_mult_mod_eq [of d 44] by simp
  then have "d div 44 \<noteq> 0" using True by auto
  then have "d - 23 = 22 + 44 * (d div 44 - 1)" using d by (cases "d div 44") simp_all
  then have "(d - 23) mod 44 = 22" by (simp only: mod_mult_self2) simp
  then show ?thesis using True by (simp add: stuck_room_def)
next
  case False
  then have "odd d \<and> d \<le> 21" using assms by (auto simp: stuck_room_def)
  then show ?thesis using False by (auto simp: stuck_room_def elim: oddE)
qed

text \<open>The position after a text of \<open>n\<close> characters.\<close>

definition next_pos :: "u64 \<Rightarrow> nat \<Rightarrow> u64 \<Rightarrow> u64" where
  "next_pos bufsz n pos = (if n \<le> unat (bufsz - pos) then pos + of_nat n else pos - 1)"

lemma next_pos_room:
  assumes "pos < bufsz" and "n < 2 ^ 32" and "n \<le> unat (bufsz - pos) \<or> 0 < pos"
  shows "unat (bufsz - next_pos bufsz n pos) = (if n \<le> unat (bufsz - pos) then unat (bufsz - pos) - n else unat (bufsz - pos) + 1)"
    and "next_pos bufsz n pos \<le> bufsz"
proof -
  have d: "unat (bufsz - pos) = unat bufsz - unat pos" "unat pos < unat bufsz"
    using assms(1) unat_diff_u64 [of pos bufsz] by (simp_all add: word_less_nat_alt word_le_nat_alt)
  have big: "unat bufsz < 18446744073709551616" by simp
  have p: "unat (next_pos bufsz n pos) = (if n \<le> unat (bufsz - pos) then unat pos + n else unat pos - 1)"
  proof (cases "n \<le> unat (bufsz - pos)")
    case True
    have "unat pos + n \<le> unat bufsz" using True d by simp
    then have "unat pos + n < 18446744073709551616" using big by (rule le_less_trans)
    then have "unat (pos + of_nat n) = unat pos + unat (of_nat n :: u64)"
      using assms(2) by (intro unat_add_u64) (simp add: unat_of_nat_u64)
    then show ?thesis using True assms(2) by (simp add: next_pos_def unat_of_nat_u64)
  next
    case False
    then have "1 \<le> pos" using assms(3) by (auto simp: word_le_nat_alt word_less_nat_alt Suc_le_eq)
    then show ?thesis using False by (simp add: next_pos_def unat_diff_u64)
  qed
  then show le: "next_pos bufsz n pos \<le> bufsz" using d by (simp add: word_le_nat_alt split: if_splits)
  have "0 < unat pos" if "\<not> n \<le> unat (bufsz - pos)" using that assms(3) by (simp add: word_less_nat_alt)
  then show "unat (bufsz - next_pos bufsz n pos) = (if n \<le> unat (bufsz - pos) then unat (bufsz - pos) - n else unat (bufsz - pos) + 1)"
    unfolding unat_diff_u64 [OF le] p using d by auto
qed

definition stuck_at :: "bool \<Rightarrow> u64 \<Rightarrow> u64 \<Rightarrow> bool" where
  "stuck_at first bufsz pos \<longleftrightarrow> 22 \<le> unat bufsz \<and> pos < bufsz \<and> stuck_room first (unat (bufsz - pos))"

lemma stuck_at_step:
  assumes "stuck_at first bufsz pos" and "n = (if first then 21 else 23)"
  shows "stuck_at (\<not> first) bufsz (next_pos bufsz n pos)"
proof -
  let ?d = "unat (bufsz - pos)"
  have p: "pos < bufsz" "22 \<le> unat bufsz" "stuck_room first ?d" using assms(1) by (simp_all add: stuck_at_def)
  have "0 < pos" if "\<not> n \<le> ?d"
  proof (rule ccontr)
    assume "\<not> 0 < pos"
    then have "pos = 0" by (simp add: word_gt_0)
    then have "?d = unat bufsz" by simp
    then show False using that p(2,3) assms(2) by (auto simp: stuck_room_def split: if_splits)
  qed
  then have ok: "n \<le> ?d \<or> 0 < pos" by blast
  have n: "n < 2 ^ 32" using assms(2) by simp
  have "stuck_room (\<not> first) (unat (bufsz - next_pos bufsz n pos))"
    using stuck_room_first [of ?d] stuck_room_second [of ?d] p(3) assms(2) unfolding next_pos_room(1) [OF p(1) n ok]
    by (cases first) auto
  moreover have "stuck_room b x \<Longrightarrow> x \<noteq> 0" for b x by (auto simp: stuck_room_def odd_pos split: if_splits)
  ultimately have "next_pos bufsz n pos \<noteq> bufsz" by force
  then show ?thesis
    using \<open>stuck_room (\<not> first) _\<close> p(2) next_pos_room(2) [OF p(1) n ok] by (simp add: stuck_at_def)
qed

text \<open>Two frames that point to each other, the texts of 21 and of 23 characters.\<close>

lemma trace_loop_stuck:
  assumes a: "read_frame s process a = Frame b ip" "a \<noteq> 0" "length (frame_text (b, ip)) = 21"
    and b: "read_frame s process b = Frame a jp" "b \<noteq> 0" "length (frame_text (a, jp)) = 23"
    and r: "trace_loop s process outbuf bufsz f pos buf = Some r"
  shows "\<not> (f = a \<and> stuck_at True bufsz pos) \<and> \<not> (f = b \<and> stuck_at False bufsz pos)"
proof -
  let ?P = "\<lambda>s' process' outbuf bufsz f pos buf r. s' = s \<and> process' = process \<longrightarrow>
      \<not> (f = a \<and> stuck_at True bufsz pos) \<and> \<not> (f = b \<and> stuck_at False bufsz pos)"
  have "?P s process outbuf bufsz f pos buf r"
  proof (rule trace_loop.raw_induct [of ?P, OF _ r])
    fix loop s' process' outbuf bufsz f pos buf r
    assume ih: "\<And>s' process' outbuf bufsz f pos buf r. loop s' process' outbuf bufsz f pos buf = Some r \<Longrightarrow>
        ?P s' process' outbuf bufsz f pos buf r"
      and body: "(if f = 0 \<or> \<not> pos < bufsz then Some (Traced pos buf)
        else case read_frame s' process' f of
          Frame bp ip \<Rightarrow> Option.bind (snprintf_at (\<lambda>_. []) (outbuf + pos) (bufsz - pos) '' [%p]:%p'' [bp, ip] buf)
            (\<lambda>(n, buf). loop s' process' outbuf bufsz bp (pos + n) buf)
        | NoFrame \<Rightarrow> Some (Traced pos buf) | FrameFault \<Rightarrow> Some TraceFault) = Some r"
    show "?P s' process' outbuf bufsz f pos buf r"
    proof (intro impI conjI notI)
      assume eq: "s' = s \<and> process' = process" and "f = a \<and> stuck_at True bufsz pos"
      then have st: "f = a" "pos < bufsz" "stuck_at False bufsz (next_pos bufsz 21 pos)"
        using stuck_at_step [of True bufsz pos 21] by (simp_all add: stuck_at_def)
      then obtain buf' where "loop s process outbuf bufsz b (next_pos bufsz 21 pos) buf' = Some r"
        using body eq a by (auto simp: frame_snprintf next_pos_def split: if_splits)
      from ih [OF this] st(3) show False by simp
    next
      assume eq: "s' = s \<and> process' = process" and "f = b \<and> stuck_at False bufsz pos"
      then have st: "f = b" "pos < bufsz" "stuck_at True bufsz (next_pos bufsz 23 pos)"
        using stuck_at_step [of False bufsz pos 23] by (simp_all add: stuck_at_def)
      then obtain buf' where "loop s process outbuf bufsz a (next_pos bufsz 23 pos) buf' = Some r"
        using body eq b by (auto simp: frame_snprintf next_pos_def split: if_splits)
      from ih [OF this] st(3) show False by simp
    qed
  qed
  then show ?thesis by simp
qed

text \<open>
  C27: Two frames that point to each other, with texts of 21 and 23 characters, make the stack
  trace run for ever when the room for it is 22 modulo 44: a truncated text moves the position
  back by one, and the loop waits for the buffer to be filled exactly.
\<close>

theorem stacktrace_never_ends:
  assumes "read_frame s process a = Frame b ip" "a \<noteq> 0" "length (frame_text (b, ip)) = 21"
    and "read_frame s process b = Frame a jp" "b \<noteq> 0" "length (frame_text (a, jp)) = 23"
    and "unat bufsz mod 44 = 22"
  shows "print_stacktrace s process rbp0 outbuf bufsz a buf = None"
proof (cases "print_stacktrace s process rbp0 outbuf bufsz a buf")
  case (Some r)
  have "22 \<le> unat bufsz" using assms(7) mod_less_eq_dividend [of "unat bufsz" 44] by simp
  then have "stuck_at True bufsz 0" using assms(7) by (simp add: stuck_at_def stuck_room_def word_less_nat_alt)
  then show ?thesis
    using trace_loop_stuck [OF assms(1-6), of outbuf bufsz a 0 buf r] Some assms(2) by (simp add: print_stacktrace_def)
qed simp

section \<open>The report is printed as a whole\<close>

definition hex16 :: "u64 \<Rightarrow> string" where
  "hex16 v = zpad 16 (numeral_in 16 (unat v))"

definition head_text :: "string \<Rightarrow> bool \<Rightarrow> string option \<Rightarrow> string" where
  "head_text src process name = CHR 0x0A # src @ (if process then '' ('' @ shown name @ '') '' else '' '')"

definition fault_text :: "string \<Rightarrow> u32 \<Rightarrow> u32 \<Rightarrow> u64 \<Rightarrow> cbinfo \<Rightarrow> u64 \<Rightarrow> u64 \<Rightarrow> string" where
  "fault_text name cpu code base i bp cr2v =
     ''fault '' @ name @ '' (cpu='' @ numeral_in 10 (unat cpu) @ '', error=0x'' @ numeral_in 16 (unat code) @ '')'' @ [CHR 0x0A]
     @ ''BASE='' @ hex16 base @ '' CS='' @ zpad 4 (numeral_in 16 (unat (cs i))) @ '' SS='' @ zpad 4 (numeral_in 16 (unat (ss i)))
     @ '' DPL='' @ numeral_in 10 (unat (dpl i)) @ [CHR 0x0A]
     @ ''IP='' @ hex16 (rip i) @ '' FL='' @ hex16 (rflags i) @ '' ['' @ rflags_buf (rflags i) @ '']'' @ [CHR 0x0A]
     @ ''SP='' @ hex16 (rsp i) @ '' BP='' @ hex16 bp @ '' CR2='' @ hex16 cr2v @ [CHR 0x0A]"

definition regs_text :: "gregs \<Rightarrow> u64 \<Rightarrow> string" where
  "regs_text g pt =
     ''SI='' @ hex16 (rsi g) @ '' DI='' @ hex16 (rdi g) @ '' CR3='' @ hex16 pt @ [CHR 0x0A]
     @ ''A ='' @ hex16 (rax g) @ '' C ='' @ hex16 (rcx g) @ '' D ='' @ hex16 (rdx g) @ '' B ='' @ hex16 (rbx g) @ [CHR 0x0A]
     @ ''8 ='' @ hex16 (r8 g) @ '' 9 ='' @ hex16 (r9 g) @ '' 10='' @ hex16 (r10 g) @ '' 11='' @ hex16 (r11 g) @ [CHR 0x0A]
     @ ''12='' @ hex16 (r12 g) @ '' 13='' @ hex16 (r13 g) @ '' 14='' @ hex16 (r14 g) @ '' 15='' @ hex16 (r15 g) @ [CHR 0x0A]
     @ CHR 0x0A # ''STACK TRACE: ''"

lemma plain_number:
  assumes "2 \<le> base"
  shows "longlong_to_string v base False False False = numeral_in base (unat v)"
  using digits_loop_Nil [OF assms, of False "unat v"] by (auto simp: longlong_to_string_def Let_def numeral_in_def)

lemma ucast_u32: "(ucast (ucast (v :: u32) :: u64) :: u32) = v" "unat (ucast v :: u64) = unat v"
  "(ucast (ucast (ucast (h :: u16) :: u64) :: u32) :: u64) = ucast h"
  "(ucast (ucast (ucast (d :: u8) :: u64) :: u32) :: u64) = ucast d"
proof -
  show "(ucast (ucast v :: u64) :: u32) = v" "(ucast (ucast (ucast h :: u64) :: u32) :: u64) = ucast h"
      "(ucast (ucast (ucast d :: u64) :: u32) :: u64) = ucast d"
    by (rule bit_word_eqI; auto simp: bit_simps dest: bit_imp_le_length)+
  show "unat (ucast v :: u64) = unat v" by (transfer; simp add: take_bit_eq_mod mod_mod_cancel)
qed

lemma convert_hex16:
  "convert strs (CHR ''0'' # CHR ''1'' # CHR ''6'' # CHR ''l'' # CHR ''x'' # rest) (v # as) = Got (Emit (hex16 v), rest, as)"
proof -
  have "out_num (no_flags\<lparr>fl_leadzero := True, sz_long := True\<rparr>) 16 v 16 False False = zpad 16 (numeral_in 16 (unat v))"
    using out_num_zpad [of False v 16 16] by (simp add: out_num_def out_str_def no_flags_def)
  then show ?thesis
    by (simp add: convert_def conv_def number_def is_digit_def raw_size_def unsigned_arg_def hex16_def) (simp add: no_flags_def)
qed

lemma convert_report:
  "convert strs (CHR ''0'' # CHR ''4'' # CHR ''h'' # CHR ''x'' # rest) (ucast (h :: u16) # as)
     = Got (Emit (zpad 4 (numeral_in 16 (unat h))), rest, as)"
  "convert strs (CHR ''h'' # CHR ''h'' # CHR ''u'' # rest) (ucast (d :: u8) # as) = Got (Emit (numeral_in 10 (unat d)), rest, as)"
  "convert strs (CHR ''u'' # rest) (ucast (v :: u32) # as) = Got (Emit (numeral_in 10 (unat v)), rest, as)"
  "convert strs (CHR ''x'' # rest) (ucast (v :: u32) # as) = Got (Emit (numeral_in 16 (unat v)), rest, as)"
  using out_num_zpad [of False "ucast h" 16 4]
  by (simp_all add: convert_def conv_def number_def is_digit_def raw_size_def unsigned_arg_def no_flags_def out_num_def out_str_def
      plain_number ucast_u32 unat_ucast_small)

lemma head_format:
  "map_option text_of (format_actions (two_strs (Some src) name) (head_fmt process) (1 # (if process then [str_arg 2 name] else [])))
   = Some (head_text src process name)"
  by (simp add: head_fmt_def convert_str str_arg_def two_strs_def head_text_def shown_def split: option.splits)

lemma fault_format:
  "map_option text_of (format_actions (two_strs (Some name) (Some fl)) fault_fmt
      [1, ucast cpu, ucast code, base, ucast (cs i), ucast (ss i), ucast (dpl i), rip i, rflags i, 2, rsp i, bp, cr2v])
   = Some (fault_text name cpu code base i bp cr2v)" if "fl = rflags_buf (rflags i)"
  using that by (simp add: fault_fmt_def convert_str convert_hex16 convert_report two_strs_def fault_text_def)

lemma regs_format:
  "map_option text_of (format_actions strs regs_fmt [rsi g, rdi g, pt, rax g, rcx g, rdx g, rbx g,
         r8 g, r9 g, r10 g, r11 g, r12 g, r13 g, r14 g, r15 g]) = Some (regs_text g pt)"
  by (simp add: regs_fmt_def convert_hex16 regs_text_def)

definition fault_report :: "fault_env \<Rightarrow> u8 \<Rightarrow> callback_regs \<Rightarrow> u32 \<Rightarrow> bool \<Rightarrow> kernel \<Rightarrow> string" where
  "fault_report e num regs code process k =
     head_text (fault_src (dpl (info regs)) process) process (kname k)
     @ fault_text (fst (faults ! unat num)) (fe_cpu e) code (if process then aslrCode (kspace k) else fe_text e)
         (info regs) (rbp (general regs)) (fe_cr2 e)
     @ regs_text (general regs) (cr3 (info regs))"

lemma hex16_length [simp]: "length (hex16 v) = 16"
  unfolding hex16_def using unat_lt_2p64 [of v] by (intro zpad_length) simp_all

lemma hex16_not_nul [simp]: "CHR 0x00 \<notin> set (hex16 v)"
  unfolding hex16_def by (rule zpad_not_nul) simp_all

lemma numeral_not_nul [simp]: "CHR 0x00 \<notin> set (numeral_in 16 n)" "CHR 0x00 \<notin> set (numeral_in 10 n)"
  using digits_loop_not_nul [of 16 False n] digits_loop_not_nul [of 10 False n] by (auto simp: numeral_in_def)

lemma numeral_length: "2 \<le> base \<Longrightarrow> n < base ^ w \<Longrightarrow> 0 < w \<Longrightarrow> length (numeral_in base n) \<le> w"
  using digits_loop_length [of base n w False] by (simp add: numeral_in_def)

lemma fault_names: "unat (num :: u8) < 32 \<Longrightarrow> CHR 0x00 \<notin> set (fst (faults ! unat num)) \<and> length (fst (faults ! unat num)) \<le> 4"
proof -
  assume "unat num < 32"
  moreover have "length faults = 32" by (simp add: faults_def)
  ultimately have "faults ! unat num \<in> set faults" by (intro nth_mem) simp
  moreover have "\<forall>f \<in> set faults. CHR 0x00 \<notin> set (fst f) \<and> length (fst f) \<le> 4" by (simp add: faults_def)
  ultimately show ?thesis by blast
qed

lemma report_not_nul:
  assumes "unat num < 32" and "\<forall>v. kname k = Some v \<longrightarrow> CHR 0x00 \<notin> set v"
  shows "CHR 0x00 \<notin> set (fault_report e num regs code process k)"
  using fault_names [OF assms(1)] assms(2) zpad_not_nul [of 16 4]
  by (auto simp: fault_report_def head_text_def fault_text_def regs_text_def fault_src_def rflags_buf_def shown_def
      split: option.splits if_splits)

lemma report_length:
  assumes "unat num < 32"
  shows "length (fault_report e num regs code process k) \<le> 536 + length (shown (kname k))"
proof -
  have n: "length (numeral_in 10 (unat (c :: u32))) \<le> 10" "length (numeral_in 16 (unat c)) \<le> 8" for c
  proof -
    have "unat c < 4294967296" using unsigned_less [of c] by simp
    then show "length (numeral_in 10 (unat c)) \<le> 10" "length (numeral_in 16 (unat c)) \<le> 8"
      by (auto intro!: numeral_length)
  qed
  have d: "length (numeral_in 10 (unat (c :: u8))) \<le> 3" for c
  proof -
    have "unat c < 256" using unsigned_less [of c] by simp
    then show ?thesis by (intro numeral_length) simp_all
  qed
  have z: "length (zpad 4 (numeral_in 16 (unat (c :: u16)))) = 4" for c
  proof -
    have "unat c < 65536" using unsigned_less [of c] by simp
    then show ?thesis by (intro zpad_length) simp_all
  qed
  have "length (fault_src (dpl (info regs)) process) \<le> 9" by (simp add: fault_src_def)
  then have "length (head_text (fault_src (dpl (info regs)) process) process (kname k)) \<le> 15 + length (shown (kname k))"
    by (cases process) (simp_all add: head_text_def)
  moreover have "length (regs_text (general regs) (cr3 (info regs))) = 315" by (simp add: regs_text_def)
  moreover have "length (fault_text (fst (faults ! unat num)) (fe_cpu e) code (if process then aslrCode (kspace k) else fe_text e)
      (info regs) (rbp (general regs)) (fe_cr2 e)) \<le> 206"
    using fault_names [OF assms] n(1) [of "fe_cpu e"] n(2) [of code] d [of "dpl (info regs)"]
    by (simp add: fault_text_def z rflags_buf_def)
  ultimately show ?thesis unfolding fault_report_def length_append by linarith
qed

text \<open>One call after the other: the text is appended, \<open>off\<close> is where it starts and \<open>lim\<close> the room there.\<close>

lemma room_behind:
  assumes "n + m \<le> unat (lim :: u64)"
  shows "m \<le> unat (lim - of_nat n)"
proof -
  have "n \<le> unat lim" using assms by simp
  then have p: "unat (of_nat n :: u64) = n" using unat_lt_2p64 [of lim] by (intro unat_of_nat_u64) (rule le_less_trans)
  then have "of_nat n \<le> lim" using assms by (simp add: word_le_nat_alt)
  then have "unat (lim - of_nat n) = unat lim - n" by (simp add: unat_diff_u64 p)
  then show ?thesis using assms by simp
qed

lemma snprintf_next:
  assumes "map_option text_of (format_actions strs fmt args) = Some u" and "length t + length u \<le> unat lim" and "unat lim \<le> 2048"
  shows "snprintf_at strs (off + of_nat (length t)) (lim - of_nat (length t)) fmt args (put_text off (t @ [CHR 0x00]) buf)
    = Some (of_nat (length u), put_text off ((t @ u) @ [CHR 0x00]) buf)"
  using snprintf_at_text [OF assms(1), of "off + of_nat (length t)" "lim - of_nat (length t)" "put_text off (t @ [CHR 0x00]) buf"]
    room_behind [OF assms(2)] put_text_append [of t "u @ [CHR 0x00]" off "CHR 0x00" buf] assms(2,3) by simp

lemma put_text_three: "put_text p [a, b, c] f = f(p \<mapsto> a, p + 1 \<mapsto> b, p + 2 \<mapsto> c)"
proof
  fix x
  have "unat (x - p) = 0 \<longleftrightarrow> x = p" "unat (x - p) = 1 \<longleftrightarrow> x = p + 1" "unat (x - p) = 2 \<longleftrightarrow> x = p + 2"
    using word_unat_eq_iff [of "x - p" 0] word_unat_eq_iff [of "x - p" 1] word_unat_eq_iff [of "x - p" 2]
    by (auto simp: algebra_simps)
  then show "put_text p [a, b, c] f x = (f(p \<mapsto> a, p + 1 \<mapsto> b, p + 2 \<mapsto> c)) x"
    by (auto simp: put_text_def less_Suc_eq numeral_eq_Suc)
qed

lemma trace_appended:
  assumes "chain s process (if base \<noteq> 0 then base else rbp0) fs"
    and "length t + length (trace_text fs) + 3 < unat lim" and "unat lim \<le> 2048"
  shows "print_stacktrace s process rbp0 (off + of_nat (length t)) (lim - of_nat (length t) - 3) base (put_text off (t @ [CHR 0x00]) buf)
    = Some (Traced (of_nat (length (trace_text fs))) (put_text off ((t @ trace_text fs) @ [CHR 0x00]) buf))"
proof -
  let ?p = "off + of_nat (length t) :: u64" and ?b = "put_text off (t @ [CHR 0x00]) buf"
  have "length (trace_text fs) + 1 \<le> unat (lim - of_nat (length t + 3))"
    using assms(2) by (intro room_behind) simp
  then have room: "length (trace_text fs) < unat (lim - of_nat (length t) - 3)" by (simp add: diff_diff_eq)
  have shape: "?b = put_text ?p ([] @ [CHR 0x00]) ?b" "put_text ?p (trace_text fs @ [CHR 0x00]) ?b = put_text off ((t @ trace_text fs) @ [CHR 0x00]) buf"
    using put_text_append [of t "[CHR 0x00]" off "CHR 0x00" buf] put_text_append [of t "trace_text fs @ [CHR 0x00]" off "CHR 0x00" buf] assms(2,3)
    by simp_all
  show ?thesis
    unfolding print_stacktrace_def
    using trace_loop_text [OF assms(1), of "[]" "lim - of_nat (length t) - 3" ?p ?b] room shape by simp
qed

lemma fault_buf_text:
  assumes "chain (kspace k) process (if rbp (general regs) \<noteq> 0 then rbp (general regs) else fe_rbp e) fs"
    and "length (fault_report e num regs code process k) + length (trace_text fs) + 3 < 1024"
  shows "fault_buf e num regs code process k
    = Some (Traced (of_nat (length (fault_report e num regs code process k @ trace_text fs)))
        (put_text 0 ((fault_report e num regs code process k @ trace_text fs) @ [CHR 0x00]) Map.empty))"
proof -
  let ?i = "info regs" and ?g = "general regs"
  define t1 where "t1 = head_text (fault_src (dpl ?i) process) process (kname k)"
  define t2 where "t2 = fault_text (fst (faults ! unat num)) (fe_cpu e) code (if process then aslrCode (kspace k) else fe_text e)
    ?i (rbp ?g) (fe_cr2 e)"
  define t3 where "t3 = regs_text ?g (cr3 ?i)"
  have rep: "fault_report e num regs code process k = t1 @ t2 @ t3" by (simp add: fault_report_def t1_def t2_def t3_def)
  have len: "length t1 + length t2 + length t3 + length (trace_text fs) + 3 < 1024" using assms(2) unfolding rep by simp
  note f1 = snprintf_at_text [OF head_format [of "fault_src (dpl ?i) process" "kname k" process], folded t1_def, of 0 1024 Map.empty]
  note f2 = snprintf_next [OF fault_format [OF refl], of t1 "fst (faults ! unat num)" "fe_cpu e" code
      "if process then aslrCode (kspace k) else fe_text e" ?i "rbp ?g" "fe_cr2 e" 1024 0 Map.empty, folded t2_def]
  note f3 = snprintf_next [OF regs_format [of "\<lambda>_. []"], of "t1 @ t2" ?g "cr3 ?i" 1024 0 Map.empty, folded t3_def]
  note f4 = trace_appended [OF assms(1), of "t1 @ t2 @ t3" 1024 0 Map.empty]
  show ?thesis
    unfolding fault_buf_def rep getName_def Let_def using f1 f2 f3 f4 len by (simp add: add.assoc)
qed

lemma trace_not_nul: "CHR 0x00 \<notin> set (trace_text fs)"
  using hex_not_nul by (auto simp: trace_text_def frame_text_def)

lemma PrintFault_run:
  assumes num: "unat num < 32" and name: "\<forall>v. kname k = Some v \<longrightarrow> CHR 0x00 \<notin> set v"
    and chain: "chain (kspace k) process (if rbp (general regs) \<noteq> 0 then rbp (general regs) else fe_rbp e) fs"
    and fits: "length (shown (kname k)) + length (trace_text fs) < 485"
    and t: "t = fault_report e num regs code process k @ trace_text fs @ [CHR 0x0A, CHR 0x0A]"
  shows "PrintFault status e num regs code process k = console_write status (Some (map byte_of t @ [0])) k"
    and "CHR 0x00 \<notin> set t"
proof -
  define u where "u = fault_report e num regs code process k @ trace_text fs"
  have t: "t = u @ [CHR 0x0A, CHR 0x0A]" by (simp add: t u_def)
  have len: "length u + 3 < 1024" using report_length [OF num, of e regs code process k] fits by (simp add: u_def)
  have buf: "fault_buf e num regs code process k = Some (Traced (of_nat (length u)) (put_text 0 (u @ [CHR 0x00]) Map.empty))"
    using fault_buf_text [OF chain, of num code] len by (simp add: u_def)
  have "(put_text 0 (u @ [CHR 0x00]) Map.empty)(of_nat (length u) \<mapsto> CHR 0x0A, of_nat (length u) + 1 \<mapsto> CHR 0x0A,
      of_nat (length u) + 2 \<mapsto> CHR 0x00) = put_text 0 (t @ [CHR 0x00]) Map.empty"
    unfolding put_text_three [symmetric] t
    using put_text_append [of u "[CHR 0x0A, CHR 0x0A, CHR 0x00]" 0 "CHR 0x00" Map.empty] len by simp
  moreover show nul: "CHR 0x00 \<notin> set t"
    using report_not_nul [OF num name, of e regs code process] trace_not_nul by (simp add: t u_def)
  ultimately have str: "buf_string 2048 ((put_text 0 (u @ [CHR 0x00]) Map.empty)(of_nat (length u) \<mapsto> CHR 0x0A,
      of_nat (length u) + 1 \<mapsto> CHR 0x0A, of_nat (length u) + 2 \<mapsto> CHR 0x00)) = Some (map byte_of t @ [0])"
    using buf_string_text [OF nul, of 2048 "[]" Map.empty] len by (simp add: t)
  show "PrintFault status e num regs code process k = console_write status (Some (map byte_of t @ [0])) k"
    unfolding PrintFault_def buf by (simp only: bind.bind_lunit trace.case Let_def str option.case)
qed

text \<open>
  C28: With a name and a stack trace of less than 485 characters together the report of a
  fault fits into its array, and exactly the report is printed: the origin, the fault, the
  segment, instruction, stack and general registers, and the frames.
\<close>

theorem PrintFault_prints:
  assumes "unat num < 32" and "\<forall>v. kname k = Some v \<longrightarrow> CHR 0x00 \<notin> set v"
    and "chain (kspace k) process (if rbp (general regs) \<noteq> 0 then rbp (general regs) else fe_rbp e) fs"
    and "length (shown (kname k)) + length (trace_text fs) < 485"
    and "line_live status" and "\<not> klocked k"
  shows "\<exists>c. PrintFault status e num regs code process k = Some (Returns (k\<lparr>kconsole := c\<rparr>))
      \<and> out8 c = out8 (kconsole k) @ map (\<lambda>c. (0x3F8, byte_of c))
          (fault_report e num regs code process k @ trace_text fs @ [CHR 0x0A, CHR 0x0A])"
  using PrintFault_run(1) [OF assms(1-4) refl, of status code]
    console_write_prints [OF assms(5,6) bytes_not_nul [OF PrintFault_run(2) [OF assms(1-4) refl]], of code "[]"]
  by (simp add: comp_def)

section \<open>A system call that stops the kernel\<close>

text \<open>
  \<^verbatim>\<open>puts\<close> of an empty string, or through a pointer that is not mapped: the kernel reads through a null pointer with the
  console locked, and the report of that fault waits for the console.
\<close>

text \<open>
  C17: When user code calls puts with an empty string or a pointer that is not mapped, the
  kernel faults on a null pointer with the console locked, and the report of that fault waits
  for the console for ever.
\<close>

theorem puts_empty_hangs:
  assumes call: "rax g = callByName ''puts''"
    and arg: "getPhysicalAddress (kspace k) (rdi g) = 0 \<or> kmem (kspace k) (getPhysicalAddress (kspace k) (rdi g)) = 0"
    and null: "\<not> mapped (cells (pts (kspace k))) (kcr3 (kspace k)) 0" and free: "\<not> klocked k"
    and report: "unat num < 32" "\<forall>v. kname k = Some v \<longrightarrow> CHR 0x00 \<notin> set v"
      "chain (kspace k) True (if rbp (general regs) \<noteq> 0 then rbp (general regs) else fe_rbp e) fs"
      "length (shown (kname k)) + length (trace_text fs) < 485"
  shows "\<exists>k'. system_call fuel status cpu g k = Some (Faults k')
    \<and> PrintFault status e num regs code True k' = Some (Hangs k')"
proof -
  let ?k = "k\<lparr>klocked := True\<rparr>"
  have "system_call fuel status cpu g k = Some (Faults ?k)"
    using call puts_null [OF free null arg] by (simp add: system_call_def dispatch_puts call_handler_def)
  moreover have "PrintFault status e num regs code True ?k = Some (Hangs ?k)"
    using PrintFault_run(1) [of num ?k True regs e fs, OF _ _ _ _ refl] report by (simp add: console_write_def)
  ultimately show ?thesis by blast
qed

section \<open>A name that is too long\<close>

text \<open>The first call gives -1, and the text that follows starts one byte before the array.\<close>

text \<open>
  For a process whose name has 1024 characters or more the report of a fault writes before the
  start of its array.
\<close>

theorem fault_name_underruns:
  assumes name: "kname k = Some name" "1024 \<le> length name" and num: "unat num < 32"
    and chain: "chain (kspace k) True (if rbp (general regs) \<noteq> 0 then rbp (general regs) else fe_rbp e) fs"
    and fits: "length (trace_text fs) < 485"
  shows "\<exists>p buf. fault_buf e num regs code True k = Some (Traced p buf) \<and> buf (- 1) = Some (CHR ''f'')"
proof -
  let ?i = "info regs" and ?g = "general regs"
  define t1 where "t1 = head_text (fault_src (dpl ?i) True) True (kname k)"
  define t2 where "t2 = fault_text (fst (faults ! unat num)) (fe_cpu e) code (aslrCode (kspace k)) ?i (rbp ?g) (fe_cr2 e)"
  define t3 where "t3 = regs_text ?g (cr3 ?i)"
  define b1 where "b1 = put_text 0 (take 1024 t1) Map.empty"
  have long: "\<not> length t1 \<le> 1024" using name by (simp add: t1_def head_text_def shown_def)
  have "fault_report e num regs code True k = t1 @ t2 @ t3" by (simp add: fault_report_def t1_def t2_def t3_def)
  moreover have "length t1 \<ge> 5 + length name" using name(1) by (simp add: t1_def head_text_def shown_def)
  ultimately have len: "length t2 + length t3 + length (trace_text fs) + 3 < 1025"
    using report_length [OF num, of e regs code True k] fits name(1) by (simp add: shown_def)
  note f1 = snprintf_at_text [OF head_format [of "fault_src (dpl ?i) True" "kname k" True], folded t1_def, of 0 1024 Map.empty]
  note f2 = snprintf_at_text [OF fault_format [OF refl, of "fst (faults ! unat num)" ?i "fe_cpu e" code "aslrCode (kspace k)"
      "rbp ?g" "fe_cr2 e"], folded t2_def, of "- 1" 1025 b1]
  note f3 = snprintf_next [OF regs_format [of "\<lambda>_. []"], of t2 ?g "cr3 ?i" 1025 "- 1" b1, folded t3_def]
  note f4 = trace_appended [OF chain, of "t2 @ t3" 1025 "- 1" b1]
  have "fault_buf e num regs code True k = Some (Traced (- 1 + of_nat (length (t2 @ t3 @ trace_text fs)))
      (put_text (- 1) ((t2 @ t3 @ trace_text fs) @ [CHR 0x00]) b1))"
    unfolding fault_buf_def getName_def Let_def using f1 f2 f3 f4 len long by (simp add: b1_def add.assoc diff_diff_eq)
  moreover have "put_text (- 1) ((t2 @ t3 @ trace_text fs) @ [CHR 0x00]) b1 (- 1) = Some (CHR ''f'')"
    by (simp add: put_text_def t2_def fault_text_def)
  ultimately show ?thesis by blast
qed

section \<open>Interrupts that nobody handles\<close>

text \<open>
  The end of \<^verbatim>\<open>Interrupts::handle\<close>, when no callback has handled the interrupt: an exception stops the CPU for ever,
  the keyboard and other interrupts are reported, the timer is not. \<open>scancode\<close> is what port 0x60 gives.
\<close>

definition unhandled :: "(nat \<Rightarrow> u8) \<Rightarrow> u8 \<Rightarrow> u8 \<Rightarrow> kernel \<Rightarrow> kend option" where
  "unhandled status scancode intr k =
     (if intr < 0x20 then Some (Hangs k)
      else if intr = 0x20 then Some (Returns k)
      else do {
        (_, printbuf) \<leftarrow> (if intr = 0x21 then snprintf_at (\<lambda>_. []) 0 32 (''KBD %02xh'' @ [CHR 0x0A]) [ucast scancode] Map.empty
                          else snprintf_at (\<lambda>_. []) 0 32 (''INT %02xh'' @ [CHR 0x0A]) [ucast intr] Map.empty);
        case buf_string 34 printbuf of
          None \<Rightarrow> Some (if klocked k then Hangs k else Overreads k)
        | Some bs \<Rightarrow> console_write status (Some bs) k
      })"

definition unhandled_text :: "u8 \<Rightarrow> u8 \<Rightarrow> string" where
  "unhandled_text scancode intr =
     (if intr = 0x21 then ''KBD '' @ zpad 2 (numeral_in 16 (unat scancode)) else ''INT '' @ zpad 2 (numeral_in 16 (unat intr)))
     @ [CHR ''h'', CHR 0x0A]"

lemma unhandled_format:
  "map_option text_of (format_actions strs (''KBD %02xh'' @ [CHR 0x0A]) [ucast (v :: u8)])
     = Some (''KBD '' @ zpad 2 (numeral_in 16 (unat v)) @ [CHR ''h'', CHR 0x0A])"
  "map_option text_of (format_actions strs (''INT %02xh'' @ [CHR 0x0A]) [ucast v])
     = Some (''INT '' @ zpad 2 (numeral_in 16 (unat v)) @ [CHR ''h'', CHR 0x0A])"
  by (simp_all add: convert_padded)

lemma unhandled_prints:
  assumes "0x20 < intr" and "line_live status" and "\<not> klocked k"
  shows "\<exists>c. unhandled status scancode intr k = Some (Returns (k\<lparr>kconsole := c\<rparr>))
    \<and> out8 c = out8 (kconsole k) @ map (\<lambda>c. (0x3F8, byte_of c)) (unhandled_text scancode intr)"
proof -
  let ?t = "unhandled_text scancode intr"
  have z: "length (zpad 2 (numeral_in 16 (unat (v :: u8)))) = 2" for v
  proof -
    have "unat v < 256" using unsigned_less [of v] by simp
    then show ?thesis by (intro zpad_length) simp_all
  qed
  have len: "length ?t = 8" by (simp add: unhandled_text_def z)
  have nul: "CHR 0x00 \<notin> set ?t" using zpad_not_nul [of 16 2] by (auto simp: unhandled_text_def)
  have str: "buf_string 34 (put_text 0 (?t @ [CHR 0x00]) Map.empty) = Some (map byte_of ?t @ [0])"
    using buf_string_text [OF nul, of 34 "[]"] by (simp add: len)
  have "\<not> intr < 0x20" "intr \<noteq> 0x20" using assms(1) by (auto simp: word_less_nat_alt)
  then have "unhandled status scancode intr k = console_write status (Some (map byte_of ?t @ [0])) k"
    using snprintf_at_text [OF unhandled_format(1) [of "\<lambda>_. []" scancode], of 0 32 Map.empty]
      snprintf_at_text [OF unhandled_format(2) [of "\<lambda>_. []" intr], of 0 32 Map.empty] str len
    by (cases "intr = 0x21") (simp_all add: unhandled_def unhandled_text_def z)
  then show ?thesis
    using console_write_prints [OF assms(2,3) bytes_not_nul [OF nul], of "[]"] by (simp add: comp_def)
qed

section \<open>Concrete runs\<close>

text \<open>A process with the bytes \<open>bs\<close> at 0x5000, and a kernel table that maps nothing.\<close>

definition stack_space :: "u8 list \<Rightarrow> space" where
  "stack_space bs = demo_space\<lparr>kmem := (\<lambda>a. if unat (a - 0x9000) < length bs then bs ! unat (a - 0x9000) else 0)\<rparr>"

lemma stack_read:
  assumes "i + 8 \<le> 4096" and "length bs \<le> 4096"
  shows "read_local (stack_space bs) (0x5000 + of_nat i) 8 = Some (take 8 (drop i (bs @ replicate 4096 0)))"
proof -
  have phys: "getPhysicalAddress (stack_space bs) (0x5000 + of_nat i + of_nat j) = 0x9000 + of_nat (i + j)" if "j < 8" for j
    using demo_range(3) [of 0 "i + j"] that assms(1) by (simp add: stack_space_def add.assoc)
  have u: "unat (of_nat (i + j) :: u64) = i + j" if "j < 8" for j using that assms(1) by (simp add: unat_of_nat_u64 del: of_nat_add)
  have nz: "(0x9000 + of_nat (i + j) :: u64) \<noteq> 0" if "j < 8" for j
  proof
    assume "(0x9000 + of_nat (i + j) :: u64) = 0"
    then have "unat (0x9000 + of_nat (i + j) :: u64) = 0" by simp
    moreover have "unat (0x9000 + of_nat (i + j) :: u64) = 0x9000 + (i + j)"
      using u [OF that] that assms(1) by (subst unat_add_u64) (simp_all del: of_nat_add)
    ultimately show False by simp
  qed
  have byte: "kmem (stack_space bs) (0x9000 + of_nat (i + j)) = take 8 (drop i (bs @ replicate 4096 0)) ! j" if "j < 8" for j
    using u [OF that] that assms(1) by (auto simp: stack_space_def nth_append simp del: of_nat_add)
  have "all_mapped (stack_space bs) (0x5000 + of_nat i) 8" using nz by (simp add: all_mapped_def phys)
  then show ?thesis
    using assms(1) by (auto simp: read_local_vread vread_mapped phys byte intro!: nth_equalityI simp del: of_nat_add)
qed

lemma stack_unmapped: "\<not> mapped (cells (pts (stack_space bs))) (kcr3 (stack_space bs)) a"
proof -
  let ?x = "slot 0x100000 (table_index 39 a)"
  have "table_index 39 a \<le> 0x1FF" by (simp add: table_index_def word_and_le1)
  then have t: "unat (table_index 39 a) \<le> 511" by (simp add: word_le_nat_alt)
  then have "unat (8 * table_index 39 a) = 8 * unat (table_index 39 a)" by (simp add: unat_word_ariths)
  then have "unat ?x = 0x100000 + 8 * unat (table_index 39 a)" using t unfolding slot_def by (subst unat_add_u64) simp_all
  then have "?x \<noteq> 0x1000" "?x \<noteq> 0x2000" "?x \<noteq> 0x3000" "?x \<noteq> 0x4028" by auto
  then have "cells (pts demo_space) ?x = 0" by (simp add: demo_space_def demo_pt_def set_cell_def)
  then show ?thesis
    by (simp add: stack_space_def mapped_def find_entry_def demo_space_def Let_def present_def)
qed

lemma stack_frame:
  assumes "i + 16 \<le> 4096" and "length bs \<le> 4096"
  shows "read_frame (stack_space bs) True (0x5000 + of_nat i)
    = (let bp = un_le (take 8 (drop i (bs @ replicate 4096 0))); ip = un_le (take 8 (drop (i + 8) (bs @ replicate 4096 0)))
       in if bp = 0 then NoFrame else Frame bp ip)"
proof -
  have "0x5000 + of_nat i + 8 = (0x5000 + of_nat (i + 8) :: u64)" by simp
  then show ?thesis
    using stack_read [of i bs] stack_read [of "i + 8" bs] stack_unmapped assms
    by (simp add: read_frame_def user_frame_def Let_def)
qed

definition demo_chain :: "u8 list" where
  "demo_chain = le 8 0x5010 @ le 8 0x400000"

definition demo_cycle :: "u8 list" where
  "demo_cycle = le 8 0x5010 @ le 8 0x100000000 @ le 8 0x5000 @ le 8 0x10000000000"

lemma un_le_zeros [simp]: "un_le (replicate n 0) = 0"
  by (induction n) simp_all

lemma demo_chain_frames: "chain (stack_space demo_chain) True 0x5000 [(0x5010, 0x400000)]"
  using stack_frame [of 0 demo_chain] stack_frame [of 16 demo_chain]
  by (simp add: demo_chain_def Let_def)

theorem stacktrace_text_witness:
  "print_stacktrace (stack_space demo_chain) True 0 0 64 0x5000 (put_text 0 [CHR 0x00] Map.empty)
     = Some (Traced 18 (put_text 0 ('' [0x5010]:0x400000'' @ [CHR 0x00]) Map.empty))"
proof -
  have t: "trace_text [(0x5010, 0x400000)] = '' [0x5010]:0x400000''"
    by (simp add: trace_text_def frame_text_def hex_def numeral_in_def digits_loop.simps digit_char_def char_of_def bit_0)
  show ?thesis
    using stacktrace_text [of "stack_space demo_chain" True "0x5000" 0 "[(0x5010, 0x400000)]" 64 0 Map.empty] demo_chain_frames
    by (simp add: t)
qed

theorem stacktrace_never_ends_witness:
  "print_stacktrace (stack_space demo_cycle) True 0 0 22 0x5000 Map.empty = None"
proof -
  have f: "read_frame (stack_space demo_cycle) True 0x5000 = Frame 0x5010 0x100000000"
      "read_frame (stack_space demo_cycle) True 0x5010 = Frame 0x5000 0x10000000000"
    using stack_frame [of 0 demo_cycle] stack_frame [of 16 demo_cycle] by (simp_all add: demo_cycle_def Let_def)
  have l: "length (frame_text (0x5010, 0x100000000)) = 21" "length (frame_text (0x5000, 0x10000000000)) = 23"
    by (simp_all add: frame_text_def hex_def numeral_in_def digits_loop.simps)
  show ?thesis using stacktrace_never_ends [OF f(1) _ l(1) f(2) _ l(2), of 22 0 0 Map.empty] by simp
qed

definition demo_fault :: "string \<Rightarrow> kernel" where
  "demo_fault name = demo_kernel\<lparr>kspace := stack_space demo_chain, kname := Some name\<rparr>"

definition demo_fault_regs :: callback_regs where
  "demo_fault_regs = (demo_regs 0 False)\<lparr>general := zero_gregs\<lparr>rbp := 0x5000\<rparr>\<rparr>"

definition demo_env :: fault_env where
  "demo_env = \<lparr>fe_cr2 = 0x1234, fe_cpu = 0, fe_text = 0x8000, fe_rbp = 0x7000\<rparr>"

lemma demo_fault_chain:
  "chain (kspace (demo_fault name)) True (if rbp (general demo_fault_regs) \<noteq> 0 then rbp (general demo_fault_regs) else fe_rbp demo_env)
    [(0x5010, 0x400000)]"
  using demo_chain_frames by (simp add: demo_fault_def demo_fault_regs_def)

lemma demo_trace_length: "length (trace_text [(0x5010, 0x400000)]) = 18"
  by (simp add: trace_text_def frame_text_def hex_def numeral_in_def digits_loop.simps)

theorem PrintFault_prints_witness:
  "\<exists>c. PrintFault (\<lambda>_. 0x20) demo_env 14 demo_fault_regs 4 True (demo_fault ''mod'')
       = Some (Returns ((demo_fault ''mod'')\<lparr>kconsole := c\<rparr>))
     \<and> out8 c = map (\<lambda>c. (0x3F8, byte_of c))
         (fault_report demo_env 14 demo_fault_regs 4 True (demo_fault ''mod'') @ trace_text [(0x5010, 0x400000)] @ [CHR 0x0A, CHR 0x0A])"
  using PrintFault_prints [OF _ _ demo_fault_chain _ demo_live, of 14 "''mod''" 4]
  by (simp add: demo_fault_def demo_kernel_def shown_def demo_trace_length)

theorem puts_empty_hangs_witness:
  "\<exists>k'. system_call 0 (\<lambda>_. 0x20) 0 (zero_gregs\<lparr>rax := callByName ''puts'', rdi := 0x5020\<rparr>) (demo_fault ''mod'') = Some (Faults k')
     \<and> PrintFault (\<lambda>_. 0x20) demo_env 14 demo_fault_regs 4 True k' = Some (Hangs k')"
proof -
  have "getPhysicalAddress (kspace (demo_fault ''mod'')) 0x5020 = 0x9020"
    using demo_range(3) [of 0 32] by (simp add: demo_fault_def stack_space_def)
  moreover have "kmem (kspace (demo_fault ''mod'')) 0x9020 = 0"
    by (simp add: demo_fault_def stack_space_def demo_chain_def)
  ultimately show ?thesis
    using puts_empty_hangs [of "zero_gregs\<lparr>rax := callByName ''puts'', rdi := 0x5020\<rparr>" "demo_fault ''mod''" 14 demo_fault_regs demo_env
        "[(0x5010, 0x400000)]" 0 "\<lambda>_. 0x20" 0 4] demo_fault_chain [of "''mod''"] stack_unmapped [of demo_chain 0]
    by (simp add: shown_def demo_trace_length) (simp add: demo_fault_def demo_kernel_def demo_trace_length shown_def)
qed

theorem fault_name_underruns_witness:
  "\<exists>p buf. fault_buf demo_env 14 demo_fault_regs 4 True (demo_fault (replicate 1024 CHR ''A'')) = Some (Traced p buf)
     \<and> buf (- 1) = Some (CHR ''f'')"
  using fault_name_underruns [OF _ _ _ demo_fault_chain, of "replicate 1024 CHR ''A''" "replicate 1024 CHR ''A''" 14 4]
  by (simp add: demo_fault_def demo_trace_length)

end
