(* ===== verification/Spec2Isabelle.thy ===== *)
theory Spec2Isabelle
  imports Memop Guards Scheduler Pagetable Sprintf Sha2 Rand Syscall Heap Process Interrupts Acpi Modules Cpuid Pci Elfdefs Acpidefs Bootmem Serial Intdefs Intready Smpready Klib Handlers Faultrep
begin

text \<open>
  A verification library for the PhoeniX OS kernel: a 64-bit kernel in C++ and inline assembly that boots from a
  multiboot loader or UEFI firmware, relocates itself, starts every processor, loads ELF modules as processes and
  schedules their threads round-robin from the timer interrupt.

  \<^bold>\<open>How the program is put together.\<close> The start code calls the \<^verbatim>\<open>init\<close> functions one after the other.
  \<^verbatim>\<open>Pagetable::init\<close> builds the kernel's page tables from what the firmware or the boot loader reports and moves the kernel;
  from then on \<^verbatim>\<open>Pagetable\<close> hands out pages and \<^verbatim>\<open>Heap\<close> hands out blocks of them. \<^verbatim>\<open>ACPI\<close> finds the processors and the
  interrupt controllers, \<^verbatim>\<open>Interrupts\<close> makes the descriptor tables and the stubs, \<^verbatim>\<open>Scheduler\<close> registers for the
  timer and the exceptions, and \<^verbatim>\<open>SMP\<close> starts the other processors. \<^verbatim>\<open>ModuleManager\<close> takes the module images of the boot loader; for each one
  \<^verbatim>\<open>readelf\<close> fills the address space of a new \<^verbatim>\<open>Process\<close>, \<^verbatim>\<open>KernelLinker\<close> makes the system call stubs and maps the kernel
  pages that every process needs, and the scheduler queues its thread. A process enters the kernel through an interrupt
  (\<^verbatim>\<open>Interrupts::wrapper\<close>, then the callbacks) or a system call (\<^verbatim>\<open>Syscall::wrapper\<close>, then a handler). The two driver modules
  run as processes and use the system calls only.

  \<^bold>\<open>Representation.\<close> Machine integers are words of their width, memory is a function from 64-bit addresses to bytes, page tables
  are a function from addresses to entries. Objects the code links by pointers (threads, queue nodes, processes) are in maps from addresses
  to records, so that aliasing and dangling pointers are visible. Code that can fault, run for ever or run out of pages has an option
  or a result type of its own; the kernel's ways to end are in \<open>kend\<close>. Registers, ports, \<^verbatim>\<open>cpuid\<close>, \<^verbatim>\<open>rdtsc\<close>, the firmware, the PCI
  configuration space and the line status of the console are arguments.

  \<^bold>\<open>Theories.\<close> \<open>Prelude\<close> has the words, ranges of addresses, little-endian numbers and the rules that read 64-bit arithmetic as arithmetic on
  natural numbers. Then, with the sources under \<^verbatim>\<open>src/src\<close>:

  \<^item> \<open>Memop\<close> (\<^verbatim>\<open>memop\<close>): the string instructions behind \<^verbatim>\<open>Memory::copy\<close>, \<^verbatim>\<open>fill\<close> and \<^verbatim>\<open>zero\<close>; copying is memmove for every overlap, and the
    direction flag it leaves.
  \<^item> \<open>Mutex\<close> (\<^verbatim>\<open>lock\<close>): \<^verbatim>\<open>Mutex\<close> and \<^verbatim>\<open>RWMutex\<close> as step relations of any number of CPUs, one step per memory access; exclusion by
    invariants, progress, and the state when nobody is inside. The locales \<open>exclusive_lock\<close> and \<open>shared_lock\<close> are the contract. \<open>Guards\<close> has
    the guard classes: what a block of nested guards does to locks and to the interrupt flag.
  \<^item> \<open>Dynlist\<close> (\<^verbatim>\<open>dynlist\<close>): the paged list; the locale \<open>indexed_bag\<close> is what its users rely on.
  \<^item> \<open>Scheduler\<close> (\<^verbatim>\<open>scheduler\<close>, \<^verbatim>\<open>thread\<close>): the queue, the threads of the CPUs, processes and pids; the invariant \<open>sched_ok\<close> and what every operation
    makes of the queue.
  \<^item> \<open>Pagetable\<close>, \<open>Bootmem\<close> (\<^verbatim>\<open>pagetable\<close>, \<^verbatim>\<open>bootinfo\<close>): entries, walks, mapping, the ring of reserved pages, allocation; and the start:
    the first tables, the relocation of the kernel, the memory maps of both loaders. \<open>Allocator\<close> is about tables that exist (\<open>ready\<close>): there
    allocation and mapping end, give the first free run, change no other page, and keep the tables ready.
  \<^item> \<open>Layout\<close>: structures, unions, bit fields and enumerations as the compiler lays them out, with a soundness theorem; \<open>Efi\<close>, \<open>Elfdefs\<close>,
    \<open>Acpidefs\<close> and \<open>Intdefs\<close> have the structures of the firmware, of ELF files, of the ACPI tables and of the descriptor tables, and show that
    the parsers and writers of the other theories use them. \<open>Efi\<close> also has \<^verbatim>\<open>EFI::load\<close>.
  \<^item> \<open>Heap\<close>, \<open>Klib\<close> (\<^verbatim>\<open>heap\<close>): the allocator's tables, then the operators, string copies and owning pointers on them.
  \<^item> \<open>Process\<close>, \<open>Usermem\<close> (\<^verbatim>\<open>process\<close>): user page tables, sections, reading and writing user memory and strings, port permissions, deletion. The
    locale \<open>user_memory\<close> is the interface that linker and loader use, interpreted for a process in \<open>Usermem\<close>.
  \<^item> \<open>Interrupts\<close> (\<^verbatim>\<open>interrupts\<close>): descriptors, stubs as bytes, the wrapper as its list of instructions with an interpreter, dispatch to the callbacks.
    \<open>Intinit\<close> has \<^verbatim>\<open>Interrupts::init\<close>, \<^verbatim>\<open>Syscall::setup\<close> and \<^verbatim>\<open>SMP::setup\<close> on the bytes of memory and the registers; \<open>Intready\<close> shows that \<^verbatim>\<open>init\<close>
    ends and that its tables are complete on a machine with room, \<open>Smpready\<close> the same of \<^verbatim>\<open>SMP::init\<close> and the stacks of the other processors.
  \<^item> \<open>Syscall\<close>, \<open>Handlers\<close> (\<^verbatim>\<open>syscall\<close>): names and numbers, the search of the wrapper, the four handlers over process, console and page tables.
  \<^item> \<open>Faultrep\<close>: the report of a fault (\<^verbatim>\<open>Scheduler::PrintFault\<close>, \<^verbatim>\<open>Process::print_stacktrace\<close>) and interrupts that nobody handles.
  \<^item> \<open>Kernlink\<close>, \<open>Readelf\<close>, \<open>Modules\<close> (\<^verbatim>\<open>kernlink\<close>, \<^verbatim>\<open>readelf\<close>, \<^verbatim>\<open>moduleloader\<close>): stubs in user memory, the ELF loader, the module list and its requirements.
  \<^item> \<open>Sprintf\<close>, \<open>Printbuf\<close>, \<open>Serial\<close> (\<^verbatim>\<open>sprintf\<close>, \<^verbatim>\<open>platform\<close>, \<^verbatim>\<open>portio\<close>): formatting, character arrays that are formatted into and read back, the console.
  \<^item> \<open>Acpi\<close>, \<open>Smp\<close>, \<open>Cpuid\<close>, \<open>Rand\<close>, \<open>Sha2\<close> (\<^verbatim>\<open>acpi\<close>, \<^verbatim>\<open>smp\<close>, \<^verbatim>\<open>cpuid\<close>, \<^verbatim>\<open>rand\<close>, \<^verbatim>\<open>crypto\<close>): tables and interrupt controllers, starting processors, identification,
    random numbers, the hashes against their standard.
  \<^item> \<open>Pci\<close>, \<open>Acpidrv\<close> (\<^verbatim>\<open>modules\<close>): the two drivers, whole.

  This theory has what spans them: an interrupt from its stub through the wrapper and the scheduler back to \<^verbatim>\<open>iretq\<close>.

  \<^bold>\<open>What the theorems show.\<close> Each group has the functional behaviour of its operations on every branch, the invariants they keep, and, where the
  code has them, round trips, bounds and termination. Where the code does not do what it means to, a theorem states what it does:
  \<open>thread_on_two_cpus\<close>, \<open>fault_leaves_dangling_process\<close>, \<open>exit_never_returns\<close>, \<open>puts_empty_hangs\<close>, \<open>stacktrace_never_ends\<close>, \<open>kernel_range_at_tables\<close> and others.

  \<^bold>\<open>Fuel.\<close> The recursion of \<^verbatim>\<open>_map\<close>, \<^verbatim>\<open>_renewRsvd\<close> and \<^verbatim>\<open>_alloc\<close> through each other, and \<^verbatim>\<open>Process::addPage\<close>, carry fuel: theorems about them say how
  much is enough for a result (two steps for a page whose tables exist, two more than the pages of an allocation). The scan of the PCI buses has fuel 65: it marks a bus before it
  descends, and there are 64 marks, which \<open>pci_scan_complete\<close> uses to show that it returns. Other loops without an obvious end are partial functions into
  an option, and the theorems about them show that they return, or that they do not.

  \<^bold>\<open>Not modelled.\<close> The start code in assembly (\<^verbatim>\<open>boot/bootstrap.s\<close>, the code that \<^verbatim>\<open>SMP\<close> copies to low memory) and the loads of the data
  segment registers; the messages of the ELF loader; the stack protector, and the declarations of the interface for modules.
  Allocations that need a new table of the kernel are modelled (the ring of reserved pages), but \<open>ready\<close> leaves them out. The locks around scheduler, heap and lists make each operation one step; the interleavings are studied for the lock code itself.
\<close>

section \<open>A timer interrupt from its entry to \<^verbatim>\<open>iretq\<close>\<close>

text \<open>
  C1: A timer interrupt in user mode, through the wrapper, handle, the scheduler's callback
  and back: the CPU returns to the first queued thread in user mode with exactly its saved
  registers, SSE state and page table and interrupts enabled, and the interrupted thread's
  complete state is saved in its Thread.
\<close>

theorem timer_interrupt_switches:
  assumes frame: "stk c = 0x20 # stack_of_info ii @ rest" "length (fx c) = 64"
    and user: "i_cs ii AND 7 = 3"
    and ok: "sched_ok s (x # xs) z" and x: "qheap s x = Some qx"
    and tx: "theap s (q_thread qx) = Some thx" "length (t_sse thx) = 64" and px: "pheap s (q_process qx) = Some p"
    and cur: "cpuThreads s (unat cpu) = cth" "cth \<noteq> 0"
    and th: "qheap s cth = Some qc" "theap s (q_thread qc) = Some thc" "q_thread qc \<noteq> q_thread qx"
  shows "\<exists>c' s'. wrapper kpt eoi [TimerHandler loopbase looptop] cpu clobber clobber_fx c s = Some (c', s')
    \<and> gr c' = t_regs thx \<and> fx c' = t_sse thx \<and> wcr3 c' = p_pagetable p
    \<and> stk c' = [t_rip thx, 0x23, t_rflags thx OR 0x202, t_rsp thx, 0x1B] @ rest
    \<and> swapped c' = swapped c
    \<and> sched_ok s' (xs @ [cth]) (q_next qc)
    \<and> theap s' = (theap s)(q_thread qc \<mapsto> thc\<lparr>t_rip := i_rip ii, t_rflags := i_rflags ii, t_rsp := i_rsp ii,
        t_regs := gr c, t_sse := fx c\<rparr>)"
proof -
  let ?regs = "cb_regs_of cpu (wcr3 c) ii (gr c) (fx c)"
  have "preemptible loopbase looptop ?regs" using user by (simp add: preemptible_def cb_regs_of_def)
  moreover have "cpuThreads s (unat (cpuid ?regs)) = cth" using cur by (simp add: cb_regs_of_def)
  ultimately obtain s' where s': "SwitchProcess loopbase looptop ?regs s = Some (True, resume thx p ?regs, s')"
      "sched_ok s' (xs @ [cth]) (q_next qc)" "theap s' = (theap s)(q_thread qc \<mapsto> saved ?regs thc)"
    using switch_rotates [OF _ ok x tx(1) px _ cur(2) th] by blast
  then have "run_callbacks [TimerHandler loopbase looptop] (ucast (0x20 :: u64)) (ucast (error_code ii)) ?regs s
      = Some (True, resume thx p ?regs, s')"
    by (simp add: TimerHandler_def)
  from wrapper_effect [OF frame this, of kpt eoi clobber clobber_fx] tx(2)
  obtain c' where "wrapper kpt eoi [TimerHandler loopbase looptop] cpu clobber clobber_fx c s = Some (c', s')"
      "gr c' = t_regs thx" "fx c' = t_sse thx" "wcr3 c' = p_pagetable p" "swapped c' = swapped c"
      "stk c' = iret_frame (info_back (resume thx p ?regs) ii) @ rest"
    by (auto simp: resume_def)
  then show ?thesis
    using s'(2,3) by (auto simp: iret_frame_def stack_of_info_def info_back_def resume_def saved_def cb_regs_of_def)
qed

definition demo_ready :: scheduler where
  "demo_ready = demo_sched\<lparr>theap := Map.empty(
     0x100 \<mapsto> (demo_thread 0x401000)\<lparr>t_sse := replicate 64 0\<rparr>, 0x300 \<mapsto> demo_thread 3)\<rparr>"

lemma sched_ok_theap: "sched_ok (s\<lparr>theap := t\<rparr>) xs z = sched_ok s xs z"
  by (simp add: sched_ok_def queue_is_def)

theorem timer_interrupt_switches_witness:
  "\<exists>c' s'. wrapper 0x1000 0 [TimerHandler 0x500 0x503] 0 zero_gregs [] demo_cpu demo_ready = Some (c', s')
     \<and> stk c' = [0x401000, 0x23, 0x202, 0, 0x1B] \<and> wcr3 c' = 0x9000
     \<and> map_option t_rip (theap s' 0x300) = Some 0x401000"
proof -
  let ?ii = "\<lparr>error_code = 0, i_rip = 0x401000, i_cs = 0x23, i_rflags = 0x202, i_rsp = 0x7FF0, i_ss = 0x1B\<rparr>"
  have ok: "sched_ok demo_ready [0x1000, 0x2000] 0"
    using demo_sched_ok by (simp add: demo_ready_def sched_ok_theap)
  have cpu: "stk demo_cpu = 0x20 # stack_of_info ?ii @ []" "length (fx demo_cpu) = 64" "i_cs ?ii AND 7 = 3"
    by (simp_all add: demo_cpu_def stack_of_info_def)
  have sch: "qheap demo_ready 0x1000 = Some \<lparr>q_process = 0x10, q_thread = 0x100, q_next = 0x2000\<rparr>"
      "theap demo_ready 0x100 = Some ((demo_thread 0x401000)\<lparr>t_sse := replicate 64 0\<rparr>)"
      "pheap demo_ready 0x10 = Some (demo_process\<lparr>p_id := 1, p_threads := [[0x100]]\<rparr>)"
      "cpuThreads demo_ready (unat (0 :: u32)) = 0x3000"
      "qheap demo_ready 0x3000 = Some \<lparr>q_process = 0x30, q_thread = 0x300, q_next = 0x1000\<rparr>"
      "theap demo_ready 0x300 = Some (demo_thread 3)"
    by (simp_all add: demo_ready_def demo_sched_def)
  obtain c' s' where "wrapper 0x1000 0 [TimerHandler 0x500 0x503] 0 zero_gregs [] demo_cpu demo_ready = Some (c', s')"
      "stk c' = [0x401000, 0x23, 0x202, 0, 0x1B]" "wcr3 c' = 0x9000"
      "theap s' = (theap demo_ready)(0x300 \<mapsto> (demo_thread 3)\<lparr>t_rip := 0x401000, t_rflags := 0x202, t_rsp := 0x7FF0,
        t_regs := gr demo_cpu, t_sse := fx demo_cpu\<rparr>)"
    using timer_interrupt_switches [OF cpu ok sch(1), where cpu = 0 and cth = "0x3000" and kpt = "0x1000" and eoi = 0
        and loopbase = "0x500" and looptop = "0x503" and clobber = zero_gregs and clobber_fx = "[]"
        and thx = "(demo_thread 0x401000)\<lparr>t_sse := replicate 64 0\<rparr>" and thc = "demo_thread 3"
        and p = "demo_process\<lparr>p_id := 1, p_threads := [[0x100]]\<rparr>"
        and qc = "\<lparr>q_process = 0x30, q_thread = 0x300, q_next = 0x1000\<rparr>"] sch(2-)
    by (auto simp: demo_thread_def demo_process_def)
  then show ?thesis by auto
qed

end
